(* ===== verification/JS_Values.thy ===== *)
theory JS_Values
  imports Complex_Main "HOL-Library.AList"
begin

text \<open>
  The prelude: the values of the language the program is written in, and the lemmas about them
  that every component shares.

  \<^item> \<open>jsnum\<close> is the type of numbers: a finite number, one of the two infinities or NaN.  The finite
    numbers are idealised to the reals (no rounding, no signed zero); everything else follows
    the language: NaN is absorbing and unordered, a division by zero gives an infinity or NaN.
    Counters and array indices, which stay integers in the code, are \<open>int\<close> or \<open>nat\<close> where
    that is all a component uses.
  \<^item> \<open>jsval\<close> is a dynamically typed value; functions are opaque identities.
  \<^item> \<open>'v obj\<close> is a plain object: an association list in the order the keys were created.
    \<open>own_keys\<close> is the order of a \<open>for ... in\<close> loop: array indices first, ascending, then the
    other keys in creation order.  Keys inherited from \<open>Object.prototype\<close> are not modelled.
  \<^item> a thrown exception is the left value of a sum.
\<close>

named_theorems num_simps \<open>arithmetic of numbers on finite arguments\<close>
named_theorems obj_simps \<open>reading, writing and deleting the keys of an object\<close>

subsection \<open>Numbers\<close>

datatype jsnum = Fin real | PInf | NInf | NaN

instantiation jsnum :: "{zero, one, plus, uminus, minus, times, inverse, ord, power}"
begin

definition zero_jsnum :: jsnum where "0 = Fin 0"

definition one_jsnum :: jsnum where "1 = Fin 1"

fun plus_jsnum :: "jsnum \<Rightarrow> jsnum \<Rightarrow> jsnum" where
  "Fin a + Fin b = Fin (a + b)"
| "NaN + b = NaN"
| "a + NaN = NaN"
| "PInf + NInf = NaN"
| "NInf + PInf = NaN"
| "PInf + b = PInf"
| "NInf + b = NInf"
| "a + PInf = PInf"
| "a + NInf = NInf"

fun uminus_jsnum :: "jsnum \<Rightarrow> jsnum" where
  "- Fin a = Fin (- a)"
| "- PInf = NInf"
| "- NInf = PInf"
| "- NaN = NaN"

definition minus_jsnum :: "jsnum \<Rightarrow> jsnum \<Rightarrow> jsnum" where
  "a - b = a + (- b :: jsnum)"

definition inf_of_sign :: "real \<Rightarrow> jsnum" where
  "inf_of_sign s = (if s = 0 then NaN else if 0 < s then PInf else NInf)"

fun times_jsnum :: "jsnum \<Rightarrow> jsnum \<Rightarrow> jsnum" where
  "Fin a * Fin b = Fin (a * b)"
| "NaN * b = NaN"
| "a * NaN = NaN"
| "PInf * PInf = PInf"
| "PInf * NInf = NInf"
| "NInf * PInf = NInf"
| "NInf * NInf = PInf"
| "PInf * Fin b = inf_of_sign b"
| "NInf * Fin b = inf_of_sign (- b)"
| "Fin a * PInf = inf_of_sign a"
| "Fin a * NInf = inf_of_sign (- a)"

fun divide_jsnum :: "jsnum \<Rightarrow> jsnum \<Rightarrow> jsnum" where
  "divide_jsnum (Fin a) (Fin b) = (if b = 0 then inf_of_sign a else Fin (a / b))"
| "divide_jsnum NaN b = NaN"
| "divide_jsnum a NaN = NaN"
| "divide_jsnum (Fin a) b = Fin 0"
| "divide_jsnum PInf (Fin b) = (if b < 0 then NInf else PInf)"
| "divide_jsnum NInf (Fin b) = (if b < 0 then PInf else NInf)"
| "divide_jsnum a b = NaN"

definition inverse_jsnum :: "jsnum \<Rightarrow> jsnum" where
  "inverse a = (Fin 1 div a :: jsnum)"

fun less_eq_jsnum :: "jsnum \<Rightarrow> jsnum \<Rightarrow> bool" where
  "Fin a \<le> Fin b \<longleftrightarrow> a \<le> b"
| "NaN \<le> b \<longleftrightarrow> False"
| "a \<le> NaN \<longleftrightarrow> False"
| "NInf \<le> b \<longleftrightarrow> True"
| "a \<le> PInf \<longleftrightarrow> True"
| "(a :: jsnum) \<le> b \<longleftrightarrow> False"

fun less_jsnum :: "jsnum \<Rightarrow> jsnum \<Rightarrow> bool" where
  "Fin a < Fin b \<longleftrightarrow> a < b"
| "NaN < b \<longleftrightarrow> False"
| "a < NaN \<longleftrightarrow> False"
| "NInf < NInf \<longleftrightarrow> False"
| "PInf < PInf \<longleftrightarrow> False"
| "NInf < b \<longleftrightarrow> True"
| "a < PInf \<longleftrightarrow> True"
| "(a :: jsnum) < b \<longleftrightarrow> False"

instance ..

end

instance jsnum :: semigroup_add
proof
  fix a b c :: jsnum
  show "a + b + c = a + (b + c)"
    by (cases a; cases b; cases c) simp_all
qed

instance jsnum :: numeral ..

lemma jsnum_add_commute: "a + b = b + (a :: jsnum)"
  by (cases a; cases b) simp_all

instance jsnum :: comm_monoid_add
proof
  fix a b :: jsnum
  show "a + b = b + a" by (rule jsnum_add_commute)
  show "0 + a = a" by (cases a) (simp_all add: zero_jsnum_def)
qed

lemma numeral_Fin [num_simps]: "(numeral n :: jsnum) = Fin (numeral n)"
proof -
  show ?thesis
  proof (induction n)
    case One
    show ?case by (simp only: numeral.simps one_jsnum_def)
  next
    case (Bit0 n)
    then show ?case by (simp only: numeral.simps plus_jsnum.simps)
  next
    case (Bit1 n)
    then show ?case by (simp only: numeral.simps plus_jsnum.simps one_jsnum_def)
  qed
qed

lemma zero_Fin [num_simps]: "(0 :: jsnum) = Fin 0"
  by (simp add: zero_jsnum_def)

lemma one_Fin [num_simps]: "(1 :: jsnum) = Fin 1"
  by (simp add: one_jsnum_def)

lemma minus_Fin [num_simps]: "Fin a - Fin b = Fin (a - b)"
  by (simp add: minus_jsnum_def)

lemma divide_Fin [num_simps]: "b \<noteq> 0 \<Longrightarrow> Fin a / Fin b = Fin (a / b)"
  by simp

lemma power_Fin [num_simps]: "Fin a ^ n = Fin (a ^ n)"
  by (induction n) (simp_all add: one_Fin)

text \<open>The functions of the \<open>Math\<close> object that the program uses.\<close>

definition is_nan :: "jsnum \<Rightarrow> bool" where
  "is_nan a \<longleftrightarrow> a = NaN"

definition js_max :: "jsnum \<Rightarrow> jsnum \<Rightarrow> jsnum" where
  "js_max a b = (if is_nan a \<or> is_nan b then NaN else if a < b then b else a)"

definition js_min :: "jsnum \<Rightarrow> jsnum \<Rightarrow> jsnum" where
  "js_min a b = (if is_nan a \<or> is_nan b then NaN else if b < a then b else a)"

fun js_abs :: "jsnum \<Rightarrow> jsnum" where
  "js_abs (Fin a) = Fin \<bar>a\<bar>"
| "js_abs NaN = NaN"
| "js_abs a = PInf"

fun js_round :: "jsnum \<Rightarrow> jsnum" where
  "js_round (Fin a) = Fin (of_int \<lfloor>a + 1 / 2\<rfloor>)"
| "js_round a = a"

fun js_floor :: "jsnum \<Rightarrow> jsnum" where
  "js_floor (Fin a) = Fin (of_int \<lfloor>a\<rfloor>)"
| "js_floor a = a"

fun js_ceil :: "jsnum \<Rightarrow> jsnum" where
  "js_ceil (Fin a) = Fin (of_int \<lceil>a\<rceil>)"
| "js_ceil a = a"

fun js_sqrt :: "jsnum \<Rightarrow> jsnum" where
  "js_sqrt (Fin a) = (if a < 0 then NaN else Fin (sqrt a))"
| "js_sqrt PInf = PInf"
| "js_sqrt a = NaN"

fun js_cos :: "jsnum \<Rightarrow> jsnum" where
  "js_cos (Fin a) = Fin (cos a)"
| "js_cos a = NaN"

fun js_sin :: "jsnum \<Rightarrow> jsnum" where
  "js_sin (Fin a) = Fin (sin a)"
| "js_sin a = NaN"

fun js_atan2 :: "jsnum \<Rightarrow> jsnum \<Rightarrow> jsnum" where
  "js_atan2 (Fin y) (Fin x) =
     Fin (if 0 < x then arctan (y / x)
          else if x < 0 then (if 0 \<le> y then arctan (y / x) + pi else arctan (y / x) - pi)
          else if 0 < y then pi / 2 else if y < 0 then - pi / 2 else 0)"
| "js_atan2 a b = NaN"

lemma js_max_Fin [num_simps]: "js_max (Fin a) (Fin b) = Fin (max a b)"
  by (simp add: js_max_def is_nan_def max_def)

lemma js_min_Fin [num_simps]: "js_min (Fin a) (Fin b) = Fin (min a b)"
  by (simp add: js_min_def is_nan_def min_def)

lemma js_max_NInf [simp]: "js_max a NInf = a" "js_max NInf a = a"
  by (cases a; simp add: js_max_def is_nan_def)+

lemma js_min_PInf [simp]: "js_min a PInf = a" "js_min PInf a = a"
  by (cases a; simp add: js_min_def is_nan_def)+

text \<open>\<open>finite_num\<close> is \<open>isFinite\<close>; \<open>real_of\<close> reads a finite number.\<close>

definition finite_num :: "jsnum \<Rightarrow> bool" where
  "finite_num a \<longleftrightarrow> a \<noteq> NaN \<and> a \<noteq> PInf \<and> a \<noteq> NInf"

fun real_of :: "jsnum \<Rightarrow> real" where
  "real_of (Fin a) = a"
| "real_of a = 0"

lemma finite_num_Fin [simp]: "finite_num (Fin a)"
  by (simp add: finite_num_def)

lemma finite_num_iff: "finite_num a \<longleftrightarrow> (\<exists>r. a = Fin r)"
  by (cases a) (simp_all add: finite_num_def)

lemma finite_numE [elim?]: "finite_num a \<Longrightarrow> (\<And>r. a = Fin r \<Longrightarrow> P) \<Longrightarrow> P"
  by (auto simp: finite_num_iff)

text \<open>The remainder of integers takes the sign of the dividend.\<close>

definition js_rem :: "int \<Rightarrow> int \<Rightarrow> int" where
  "js_rem a b = sgn a * (\<bar>a\<bar> mod \<bar>b\<bar>)"

lemma js_rem_nonneg [simp]: "0 \<le> a \<Longrightarrow> 0 < b \<Longrightarrow> js_rem a b = a mod b"
  by (cases "a = 0") (simp_all add: js_rem_def sgn_if)

lemma js_rem_neg: "a < 0 \<Longrightarrow> 0 < b \<Longrightarrow> js_rem a b = - ((- a) mod b)"
  by (simp add: js_rem_def sgn_if)

subsection \<open>Decimal numerals and array indices\<close>

definition digit_char :: "nat \<Rightarrow> char" where
  "digit_char d = char_of (48 + d)"

definition digit_val :: "char \<Rightarrow> nat option" where
  "digit_val c = (let n = of_char c :: nat in if 48 \<le> n \<and> n \<le> 57 then Some (n - 48) else None)"

fun nat_str :: "nat \<Rightarrow> string" where
  "nat_str n = (if n < 10 then [digit_char n] else nat_str (n div 10) @ [digit_char (n mod 10)])"

declare nat_str.simps [simp del]

definition int_str :: "int \<Rightarrow> string" where
  "int_str i = (if i < 0 then CHR ''-'' # nat_str (nat (- i)) else nat_str (nat i))"

fun digits_val :: "nat \<Rightarrow> string \<Rightarrow> nat option" where
  "digits_val acc [] = Some acc"
| "digits_val acc (c # cs) =
     (case digit_val c of None \<Rightarrow> None | Some d \<Rightarrow> digits_val (10 * acc + d) cs)"

lemma digit_val_digit_char [simp]: "d < 10 \<Longrightarrow> digit_val (digit_char d) = Some d"
  by (simp add: digit_val_def digit_char_def of_char_of Let_def)

lemma digits_val_append:
  "digits_val acc (xs @ ys) =
     (case digits_val acc xs of None \<Rightarrow> None | Some a \<Rightarrow> digits_val a ys)"
  by (induction acc xs rule: digits_val.induct) (simp_all split: option.splits)

lemma digits_val_nat_str: "digits_val 0 (nat_str n) = Some n"
proof (induction n rule: nat_str.induct)
  case (1 n)
  show ?case
  proof (cases "n < 10")
    case True
    then show ?thesis by (subst nat_str.simps) simp
  next
    case False
    with "1.IH" show ?thesis by (subst nat_str.simps) (simp add: digits_val_append)
  qed
qed

lemma nat_str_inject [simp]: "nat_str m = nat_str n \<longleftrightarrow> m = n"
  by (metis digits_val_nat_str option.inject)

lemma nat_str_nonempty [simp]: "nat_str n \<noteq> []"
  by (subst nat_str.simps) simp

text \<open>
  A key is an array index when it is the canonical decimal numeral of a number below
  \<open>2 ^ 32 - 1\<close>: such keys are enumerated first.
\<close>

definition index_of :: "string \<Rightarrow> nat option" where
  "index_of k =
     (case digits_val 0 k of
        None \<Rightarrow> None
      | Some n \<Rightarrow> if k = nat_str n \<and> n < 4294967295 then Some n else None)"

lemma index_of_nat_str: "n < 4294967295 \<Longrightarrow> index_of (nat_str n) = Some n"
  by (simp add: index_of_def digits_val_nat_str)

subsection \<open>Objects\<close>

type_synonym 'v obj = "(string \<times> 'v) list"

abbreviation oget :: "('k \<times> 'v) list \<Rightarrow> 'k \<Rightarrow> 'v option" where
  "oget m k \<equiv> map_of m k"

abbreviation oset :: "'k \<Rightarrow> 'v \<Rightarrow> ('k \<times> 'v) list \<Rightarrow> ('k \<times> 'v) list" where
  "oset k v m \<equiv> AList.update k v m"

abbreviation odel :: "'k \<Rightarrow> ('k \<times> 'v) list \<Rightarrow> ('k \<times> 'v) list" where
  "odel k m \<equiv> AList.delete k m"

abbreviation okeys :: "('k \<times> 'v) list \<Rightarrow> 'k list" where
  "okeys m \<equiv> map fst m"

abbreviation ohas :: "('k \<times> 'v) list \<Rightarrow> 'k \<Rightarrow> bool" where
  "ohas m k \<equiv> map_of m k \<noteq> None"

abbreviation owf :: "('k \<times> 'v) list \<Rightarrow> bool" where
  "owf m \<equiv> distinct (map fst m)"

definition own_keys :: "'v obj \<Rightarrow> string list" where
  "own_keys m =
     sort_key (\<lambda>k. the (index_of k)) (filter (\<lambda>k. index_of k \<noteq> None) (okeys m)) @
     filter (\<lambda>k. index_of k = None) (okeys m)"

lemma set_own_keys [simp]: "set (own_keys m) = set (okeys m)"
  by (auto simp: own_keys_def)

lemma distinct_own_keys: "owf m \<Longrightarrow> distinct (own_keys m)"
  by (auto simp: own_keys_def)

lemma oget_oset [obj_simps]: "oget (oset k v m) l = (if l = k then Some v else oget m l)"
  by (simp add: update_conv')

lemma oget_odel [obj_simps]: "oget (odel k m) l = (if l = k then None else oget m l)"
  by (simp add: delete_conv')

lemma owf_oset [simp, intro]: "owf m \<Longrightarrow> owf (oset k v m)"
  by (rule distinct_update)

lemma owf_odel [simp, intro]: "owf m \<Longrightarrow> owf (odel k m)"
  by (rule distinct_delete)

lemma keys_odel [obj_simps]: "okeys (odel k m) = filter (\<lambda>l. l \<noteq> k) (okeys m)"
  by (induction m) auto

lemma oset_fresh: "k \<notin> fst ` set m \<Longrightarrow> oset k v m = m @ [(k, v)]"
  by (induction m) auto

lemma keys_oset [obj_simps]:
  "okeys (oset k v m) = (if k \<in> set (okeys m) then okeys m else okeys m @ [k])"
  by (induction m) auto

lemma oget_None_iff: "oget m k = None \<longleftrightarrow> k \<notin> set (okeys m)"
  by (simp add: map_of_eq_None_iff)

lemma ohas_iff: "ohas m k \<longleftrightarrow> k \<in> fst ` set m"
  by (simp add: map_of_eq_None_iff)

lemma odel_filter: "owf m \<Longrightarrow> odel k m = filter (\<lambda>e. fst e \<noteq> k) m"
proof (induction m)
  case Nil
  then show ?case by simp
next
  case (Cons e m)
  then show ?case by (cases e) auto
qed

lemma map_lookup_keys: "owf t \<Longrightarrow> map ((\<lambda>u. the (oget t u)) \<circ> fst) t = map snd t"
  by (rule map_cong [OF refl]) auto

lemma sort_key_id: "sorted (map f xs) \<Longrightarrow> sort_key f xs = xs"
  by (rule sort_key_id_if_sorted)

subsection \<open>Dynamically typed values\<close>

datatype jsval =
    JUndef
  | JNull
  | JBool bool
  | JNum jsnum
  | JStr string
  | JArr "jsval list"
  | JObj "(string \<times> jsval) list"
  | JFun nat

fun truthy :: "jsval \<Rightarrow> bool" where
  "truthy JUndef = False"
| "truthy JNull = False"
| "truthy (JBool b) = b"
| "truthy (JNum n) = (n \<noteq> NaN \<and> n \<noteq> Fin 0)"
| "truthy (JStr s) = (s \<noteq> [])"
| "truthy v = True"

definition js_or :: "jsval \<Rightarrow> jsval \<Rightarrow> jsval" where
  "js_or a b = (if truthy a then a else b)"

definition num_or :: "jsnum \<Rightarrow> jsnum \<Rightarrow> jsnum" where
  "num_or a b = (if a = NaN \<or> a = Fin 0 then b else a)"

fun get_prop :: "(string \<times> jsval) list \<Rightarrow> string \<Rightarrow> jsval" where
  "get_prop m k = (case oget m k of None \<Rightarrow> JUndef | Some v \<Rightarrow> v)"

text \<open>A number read from a property that arithmetic is done on: \<open>undefined\<close> becomes NaN.\<close>

fun to_num :: "jsval \<Rightarrow> jsnum" where
  "to_num (JNum n) = n"
| "to_num JNull = Fin 0"
| "to_num (JBool b) = (if b then Fin 1 else Fin 0)"
| "to_num v = NaN"

definition num_prop :: "(string \<times> jsval) list \<Rightarrow> string \<Rightarrow> jsnum" where
  "num_prop m k = to_num (get_prop m k)"

subsection \<open>Strings and arrays\<close>

fun split_on :: "char \<Rightarrow> string \<Rightarrow> string list" where
  "split_on c [] = [[]]"
| "split_on c (x # xs) =
     (if x = c then [] # split_on c xs
      else case split_on c xs of [] \<Rightarrow> [[x]] | w # ws \<Rightarrow> (x # w) # ws)"

fun join_with :: "string \<Rightarrow> string list \<Rightarrow> string" where
  "join_with s [] = []"
| "join_with s [w] = w"
| "join_with s (w # ws) = w @ s @ join_with s ws"

lemma split_on_nonempty [simp]: "split_on c xs \<noteq> []"
  by (induction xs) (auto split: list.splits)

lemma join_with_Cons: "ws \<noteq> [] \<Longrightarrow> join_with s (w # ws) = w @ s @ join_with s ws"
  by (cases ws) simp_all

lemma join_split: "join_with [c] (split_on c xs) = xs"
proof (induction xs)
  case Nil
  then show ?case by simp
next
  case (Cons x xs)
  obtain w ws where eq: "split_on c xs = w # ws"
    by (cases "split_on c xs") auto
  show ?case
  proof (cases ws)
    case Nil
    with Cons eq show ?thesis by simp
  next
    case (Cons v vs)
    with Cons.IH eq show ?thesis by (simp add: join_with_Cons)
  qed
qed

lemma split_on_no_sep: "c \<notin> set w \<Longrightarrow> split_on c w = [w]"
  by (induction w) auto

text \<open>\<open>splice(i, 1)\<close> on the first element that satisfies a test.\<close>

fun remove_first :: "('a \<Rightarrow> bool) \<Rightarrow> 'a list \<Rightarrow> 'a list" where
  "remove_first p [] = []"
| "remove_first p (x # xs) = (if p x then xs else x # remove_first p xs)"

lemma remove_first_none: "\<forall>x \<in> set xs. \<not> p x \<Longrightarrow> remove_first p xs = xs"
  by (induction xs) auto

lemma set_remove_first_subset: "set (remove_first p xs) \<subseteq> set xs"
  by (induction xs) auto

lemma remove_first_unique:
  "distinct (map f xs) \<Longrightarrow> remove_first (\<lambda>x. f x = k) xs = filter (\<lambda>x. f x \<noteq> k) xs"
proof (induction xs)
  case (Cons x xs)
  show ?case
  proof (cases "f x = k")
    case True
    with Cons.prems have "\<forall>y \<in> set xs. f y \<noteq> k" by (auto simp: image_iff)
    then have "filter (\<lambda>y. f y \<noteq> k) xs = xs" by (simp add: filter_id_conv)
    with True show ?thesis by simp
  next
    case False
    with Cons show ?thesis by simp
  qed
qed simp

subsection \<open>Reading numbers\<close>

definition hex_val :: "char \<Rightarrow> nat option" where
  "hex_val c =
     (let n = of_char c :: nat in
      if 48 \<le> n \<and> n \<le> 57 then Some (n - 48)
      else if 65 \<le> n \<and> n \<le> 70 then Some (n - 55)
      else if 97 \<le> n \<and> n \<le> 102 then Some (n - 87)
      else None)"

definition is_space :: "char \<Rightarrow> bool" where
  "is_space c \<longleftrightarrow> c = CHR '' '' \<or> c = CHR 0x09 \<or> c = CHR 0x0A \<or> c = CHR 0x0B \<or> c = CHR 0x0C \<or>
     c = CHR 0x0D \<or> c = CHR 0xA0"

text \<open>\<open>parseInt(s, 16)\<close>: the hexadecimal digits a string starts with.\<close>

definition hex_number :: "string \<Rightarrow> jsnum" where
  "hex_number s =
     (let ds = takeWhile (\<lambda>c. hex_val c \<noteq> None) s in
      if ds = [] then NaN
      else Fin (real (fold (\<lambda>c n. 16 * n + the (hex_val c)) ds 0)))"

definition parseInt16 :: "string \<Rightarrow> jsnum" where
  "parseInt16 s =
     (let s = dropWhile is_space s;
          neg = (take 1 s = ''-'');
          s = (if take 1 s = ''-'' \<or> take 1 s = ''+'' then drop 1 s else s);
          s = (if take 2 s = ''0x'' \<or> take 2 s = ''0X'' then drop 2 s else s)
      in if neg then - hex_number s else hex_number s)"

end
