(* ===== verification/Debugger_Events.thy ===== *)
theory Debugger_Events
  imports JS_Values
begin

text \<open>
  The debugger's small services: unique identifiers and dictionaries (\<open>js/util.js\<close>), the event
  stream (\<open>js/event-stream.js\<close>) and the event bus (\<open>js/event-bus.js\<close>).

  An observer is an opaque \<open>'f\<close>; what calling it does is the argument \<open>run\<close> of the delivering
  operations: it may change the registry it is called from and an outer world \<open>'w\<close>, and it may
  throw, which abandons the delivery.  A \<open>for ... in\<close> loop visits the keys that were there when
  it started, in ascending order, and skips the keys deleted before their turn.
\<close>

subsection \<open>Interfaces: registries of observers\<close>

locale registry =
  fixes subscribe :: "'f \<Rightarrow> 's \<Rightarrow> nat \<times> 's"
    and entries :: "'s \<Rightarrow> (nat \<times> 'f) list"
    and invar :: "'s \<Rightarrow> bool"
  assumes entries_subscribe:
      "invar s \<Longrightarrow> subscribe f s = (h, s') \<Longrightarrow> entries s' = entries s @ [(h, f)]"
    and fresh_subscribe:
      "invar s \<Longrightarrow> subscribe f s = (h, s') \<Longrightarrow> h \<notin> fst ` set (entries s)"
    and invar_subscribe: "invar s \<Longrightarrow> subscribe f s = (h, s') \<Longrightarrow> invar s'"
begin

fun subscribe_all :: "'f list \<Rightarrow> 's \<Rightarrow> nat list \<times> 's" where
  "subscribe_all [] s = ([], s)"
| "subscribe_all (f # fs) s =
     (let (h, s1) = subscribe f s; (hs, s2) = subscribe_all fs s1 in (h # hs, s2))"

lemma subscribe_all_entries:
  "invar s \<Longrightarrow> subscribe_all fs s = (hs, s') \<Longrightarrow>
     invar s' \<and> length hs = length fs \<and> entries s' = entries s @ zip hs fs"
proof (induction fs arbitrary: s hs s')
  case Nil
  then show ?case by simp
next
  case (Cons f fs)
  obtain h s1 where sub: "subscribe f s = (h, s1)" by fastforce
  obtain hs1 s2 where all: "subscribe_all fs s1 = (hs1, s2)" by fastforce
  from Cons.prems sub all have "hs = h # hs1" "s' = s2" by auto
  with Cons.IH [OF invar_subscribe [OF Cons.prems(1) sub] all] entries_subscribe [OF Cons.prems(1) sub]
  show ?case by simp
qed

lemma subscribe_all_order:
  "invar s \<Longrightarrow> subscribe_all fs s = (hs, s') \<Longrightarrow>
     map snd (entries s') = map snd (entries s) @ fs"
  by (drule (1) subscribe_all_entries) (auto simp: zip_map_fst_snd)

end

locale cancellable_registry = registry subscribe entries invar
  for subscribe :: "'f \<Rightarrow> 's \<Rightarrow> nat \<times> 's"
    and entries :: "'s \<Rightarrow> (nat \<times> 'f) list"
    and invar :: "'s \<Rightarrow> bool" +
  fixes cancel :: "nat \<Rightarrow> 's \<Rightarrow> 's"
  assumes entries_cancel: "invar s \<Longrightarrow> entries (cancel h s) = filter (\<lambda>e. fst e \<noteq> h) (entries s)"
    and invar_cancel: "invar s \<Longrightarrow> invar (cancel h s)"
begin

lemma cancel_subscribe:
  assumes "invar s" "subscribe f s = (h, s')"
  shows "entries (cancel h s') = entries s"
proof -
  have "\<forall>e \<in> set (entries s). fst e \<noteq> h"
    using fresh_subscribe [OF assms] by (auto simp: image_iff)
  then show ?thesis
    using entries_cancel [OF invar_subscribe [OF assms], of h] entries_subscribe [OF assms]
    by (simp add: filter_id_conv)
qed

lemma cancel_commute:
  "invar s \<Longrightarrow> entries (cancel h (cancel k s)) = entries (cancel k (cancel h s))"
  by (simp add: entries_cancel invar_cancel conj_commute)

lemma cancel_keeps_others:
  "invar s \<Longrightarrow> (k, f) \<in> set (entries s) \<Longrightarrow> k \<noteq> h \<Longrightarrow> (k, f) \<in> set (entries (cancel h s))"
  by (simp add: entries_cancel)

end

subsection \<open>\<open>js/util.js\<close>: unique identifiers, dictionaries, the log\<close>

record uid_gen =
  count :: nat
  labelCounts :: "nat obj"

definition uid_new :: uid_gen where
  "uid_new = \<lparr>count = 0, labelCounts = []\<rparr>"

definition uid_num :: "uid_gen \<Rightarrow> nat \<times> uid_gen" where
  "uid_num g = (count g, g\<lparr>count := count g + 1\<rparr>)"

definition uid_labelNum :: "string \<Rightarrow> uid_gen \<Rightarrow> nat \<times> uid_gen" where
  "uid_labelNum label g =
     (let lc = (if \<not> ohas (labelCounts g) label then oset label 0 (labelCounts g)
                else labelCounts g);
          n = the (oget lc label)
      in (n, g\<lparr>labelCounts := oset label (n + 1) lc\<rparr>))"

definition dict_ensure :: "'v obj \<Rightarrow> string \<Rightarrow> 'v \<Rightarrow> 'v \<times> 'v obj" where
  "dict_ensure m k v =
     (let m' = (if \<not> ohas m k then oset k v m else m) in (the (oget m' k), m'))"

text \<open>\<open>Log.error\<close>: the message goes to the console, the second argument is thrown.\<close>

definition log_error :: "string \<Rightarrow> string \<Rightarrow> string list \<Rightarrow> string list \<times> (string + unit)" where
  "log_error msg err console = (console @ [msg], Inl err)"

text \<open>A run of requests: \<open>None\<close> asks for a number, \<open>Some l\<close> for a number under the label \<open>l\<close>.\<close>

fun uid_run :: "string option list \<Rightarrow> uid_gen \<Rightarrow> (string option \<times> nat) list \<times> uid_gen" where
  "uid_run [] g = ([], g)"
| "uid_run (r # rs) g =
     (let (n, g1) = (case r of None \<Rightarrow> uid_num g | Some l \<Rightarrow> uid_labelNum l g);
          (ns, g2) = uid_run rs g1
      in ((r, n) # ns, g2))"

definition uid_next :: "uid_gen \<Rightarrow> string option \<Rightarrow> nat" where
  "uid_next g r =
     (case r of
        None \<Rightarrow> count g
      | Some l \<Rightarrow> (case oget (labelCounts g) l of None \<Rightarrow> 0 | Some n \<Rightarrow> n))"

lemma uid_step_next:
  assumes "(case r of None \<Rightarrow> uid_num g | Some l \<Rightarrow> uid_labelNum l g) = (n, g')"
  shows "n = uid_next g r" "uid_next g' q = (if q = r then Suc n else uid_next g q)"
  using assms
  by (auto simp: uid_num_def uid_labelNum_def uid_next_def Let_def obj_simps
      split: option.splits if_splits)

lemma uid_run_seq:
  "uid_run rs g = (ns, g') \<Longrightarrow>
     map snd (filter (\<lambda>p. fst p = q) ns) = [uid_next g q ..< uid_next g q + count_list rs q]"
proof (induction rs arbitrary: g ns g')
  case Nil
  then show ?case by simp
next
  case (Cons r rs)
  obtain n g1 where step: "(case r of None \<Rightarrow> uid_num g | Some l \<Rightarrow> uid_labelNum l g) = (n, g1)"
    by fastforce
  obtain ms g2 where rest: "uid_run rs g1 = (ms, g2)" by fastforce
  from Cons.prems step rest have ns: "ns = (r, n) # ms" by auto
  note IH = Cons.IH [OF rest] and nxt = uid_step_next [OF step]
  show ?case
    using IH nxt by (auto simp: ns upt_conv_Cons simp del: upt_Suc)
qed

text \<open>
  An identifier generator never repeats itself.  Whatever mix of \<open>num\<close> and \<open>labelNum\<close> requests
  is made of a fresh generator, the numbers answered for one kind of request (or for one label) are
  0, 1, 2, \dots in order, so they are pairwise different, and requests of other kinds or labels
  do not disturb them.
\<close>

theorem uid_run_unique:
  "map snd (filter (\<lambda>p. fst p = q) (fst (uid_run rs uid_new))) = [0 ..< count_list rs q]"
proof -
  obtain ns g' where "uid_run rs uid_new = (ns, g')" by fastforce
  moreover have "uid_next uid_new q = 0"
    by (simp add: uid_next_def uid_new_def split: option.splits)
  ultimately show ?thesis using uid_run_seq [of rs uid_new ns g' q] by simp
qed

lemma dict_ensure_get:
  "dict_ensure m k v = (r, m') \<Longrightarrow>
     r = (case oget m k of None \<Rightarrow> v | Some u \<Rightarrow> u) \<and>
     (\<forall>l. oget m' l = (if l = k then Some r else oget m l))"
  by (auto simp: dict_ensure_def Let_def obj_simps split: if_splits option.splits)

subsection \<open>Tables of observers keyed by ascending numbers\<close>

type_synonym 'f observers = "(nat \<times> 'f) list"

definition table_ok :: "'f observers \<Rightarrow> nat \<Rightarrow> bool" where
  "table_ok t n \<longleftrightarrow> sorted_wrt (<) (map fst t) \<and> (\<forall>k \<in> set (map fst t). k < n)"

definition for_in_uids :: "'f observers \<Rightarrow> nat list" where
  "for_in_uids t = sort (map fst t)"

lemma table_ok_Nil [simp]: "table_ok [] n"
  by (simp add: table_ok_def)

lemma table_ok_distinct: "table_ok t n \<Longrightarrow> distinct (map fst t)"
  unfolding table_ok_def using strict_sorted_iff by blast

lemma table_ok_fresh: "table_ok t n \<Longrightarrow> (n, f) \<notin> set t"
  by (force simp: table_ok_def)

lemma table_ok_insert: "table_ok t n \<Longrightarrow> oset n f t = t @ [(n, f)] \<and> table_ok (t @ [(n, f)]) (Suc n)"
proof -
  assume ok: "table_ok t n"
  then have "n \<notin> fst ` set t" by (auto dest: table_ok_fresh)
  then have "oset n f t = t @ [(n, f)]" by (rule oset_fresh)
  with ok show ?thesis by (auto simp: table_ok_def sorted_wrt_append less_Suc_eq)
qed

lemma table_ok_mono: "table_ok t m \<Longrightarrow> m \<le> n \<Longrightarrow> table_ok t n"
  by (auto simp: table_ok_def)

lemma table_ok_odel: "table_ok t n \<Longrightarrow> table_ok (odel k t) n"
  unfolding table_ok_def keys_odel by (auto simp: sorted_wrt_filter)

lemma for_in_uids_table: "table_ok t n \<Longrightarrow> for_in_uids t = map fst t"
  unfolding for_in_uids_def table_ok_def
  by (rule sorted_sort_id) (simp add: strict_sorted_imp_sorted)

text \<open>
  The delivery loop shared by \<open>post\<close> and \<open>emit\<close>: \<open>look st uid\<close> reads the observer at the
  moment its turn comes.
\<close>

fun deliver :: "('s \<Rightarrow> nat \<Rightarrow> 'f option) \<Rightarrow> ('f \<Rightarrow> 's \<Rightarrow> 'e option \<times> 's) \<Rightarrow>
    nat list \<Rightarrow> 's \<Rightarrow> 'e option \<times> 's" where
  "deliver look run [] st = (None, st)"
| "deliver look run (uid # uids) st =
     (case look st uid of
        None \<Rightarrow> deliver look run uids st
      | Some f \<Rightarrow>
          (case run f st of
             (Some e, st') \<Rightarrow> (Some e, st')
           | (None, st') \<Rightarrow> deliver look run uids st'))"

lemma deliver_frame:
  assumes "\<And>f st r st'. P st \<Longrightarrow> run f st = (r, st') \<Longrightarrow> P st'"
  shows "P st \<Longrightarrow> deliver look run uids st = (r, st') \<Longrightarrow> P st'"
proof (induction uids arbitrary: st)
  case Nil
  then show ?case by simp
next
  case (Cons uid uids)
  show ?case
  proof (cases "look st uid")
    case None
    with Cons show ?thesis by simp
  next
    case (Some f)
    obtain r1 st1 where ran: "run f st = (r1, st1)" by fastforce
    with assms Cons.prems(1) have "P st1" by blast
    with Cons Some ran show ?thesis by (cases r1) auto
  qed
qed

text \<open>An observer that only appends itself to a log and leaves the registry alone.\<close>

lemma deliver_log:
  assumes "\<And>f r w. run f (r, w) = (None, (r, w @ [f]))"
    and "\<And>w uid. look (r, w) uid = oget t uid"
    and "set uids \<subseteq> set (map fst t)"
  shows "deliver look run uids (r, w) = (None, (r, w @ map (\<lambda>u. the (oget t u)) uids))"
  using assms(3)
proof (induction uids arbitrary: w)
  case Nil
  then show ?case by simp
next
  case (Cons uid uids)
  then obtain f where "oget t uid = Some f"
    using weak_map_of_SomeI by fastforce
  with Cons show ?case by (simp add: assms(1,2))
qed

subsection \<open>\<open>js/event-stream.js\<close>\<close>

record 'f event_stream =
  uidCount :: nat
  observers :: "'f observers"

definition stream_new :: "'f event_stream" where
  "stream_new = \<lparr>uidCount = 0, observers = []\<rparr>"

text \<open>\<open>observe\<close> returns a closure over the identifier; calling the closure is \<open>stream_cancel\<close>.\<close>

definition stream_observe :: "'f \<Rightarrow> 'f event_stream \<Rightarrow> nat \<times> 'f event_stream" where
  "stream_observe f s =
     (let uid = uidCount s; s1 = s\<lparr>uidCount := uidCount s + 1\<rparr>
      in (uid, s1\<lparr>observers := oset uid f (observers s1)\<rparr>))"

definition stream_cancel :: "nat \<Rightarrow> 'f event_stream \<Rightarrow> 'f event_stream" where
  "stream_cancel uid s = s\<lparr>observers := odel uid (observers s)\<rparr>"

definition stream_post :: "('f \<Rightarrow> 'a \<Rightarrow> 'f event_stream \<times> 'w \<Rightarrow> 'e option \<times> ('f event_stream \<times> 'w)) \<Rightarrow>
    'a \<Rightarrow> 'f event_stream \<times> 'w \<Rightarrow> 'e option \<times> ('f event_stream \<times> 'w)" where
  "stream_post run args st =
     deliver (\<lambda>st uid. oget (observers (fst st)) uid) (\<lambda>f. run f args)
       (for_in_uids (observers (fst st))) st"

definition stream_ok :: "'f event_stream \<Rightarrow> bool" where
  "stream_ok s \<longleftrightarrow> table_ok (observers s) (uidCount s)"

lemma stream_ok_new: "stream_ok stream_new"
  by (simp add: stream_ok_def stream_new_def)

interpretation stream: cancellable_registry stream_observe observers stream_ok stream_cancel
proof unfold_locales
  fix s s' :: "'f event_stream" and f h
  assume ok: "stream_ok s" and sub: "stream_observe f s = (h, s')"
  from ok have ins: "oset (uidCount s) f (observers s) = observers s @ [(uidCount s, f)]"
      "table_ok (observers s @ [(uidCount s, f)]) (Suc (uidCount s))"
    using table_ok_insert [of "observers s" "uidCount s" f] by (auto simp: stream_ok_def)
  from sub ins show "observers s' = observers s @ [(h, f)]"
    by (auto simp: stream_observe_def Let_def)
  from sub ok show "h \<notin> fst ` set (observers s)"
    by (auto simp: stream_observe_def Let_def stream_ok_def table_ok_fresh)
  from sub ins show "stream_ok s'"
    by (auto simp: stream_observe_def Let_def stream_ok_def)
next
  fix s :: "'f event_stream" and h
  assume ok: "stream_ok s"
  then show "observers (stream_cancel h s) = filter (\<lambda>e. fst e \<noteq> h) (observers s)"
    by (simp add: stream_cancel_def odel_filter stream_ok_def table_ok_distinct)
  from ok show "stream_ok (stream_cancel h s)"
    by (simp add: stream_ok_def stream_cancel_def table_ok_odel)
qed

text \<open>
  An event stream delivers in subscription order.  After the observers \<open>fs\<close> have subscribed one
  after the other to a fresh stream, and the observer that got the handle \<open>h\<close> has cancelled, a post
  calls exactly the remaining ones, each once, in the order they subscribed.
\<close>

theorem stream_post_order:
  assumes "stream.subscribe_all fs stream_new = (hs, s)"
    and run: "\<And>f a r w. run f a (r, w) = (None, (r, w @ [f]))"
  shows "stream_post run args (stream_cancel h s, []) =
    (None, (stream_cancel h s, map snd (filter (\<lambda>e. fst e \<noteq> h) (zip hs fs))))"
proof -
  let ?s = "stream_cancel h s"
  have all: "stream_ok s" "observers s = zip hs fs"
    using stream.subscribe_all_entries [OF stream_ok_new assms(1)] by (simp_all add: stream_new_def)
  then have ok: "stream_ok ?s" and obs: "observers ?s = filter (\<lambda>e. fst e \<noteq> h) (zip hs fs)"
    by (simp_all add: stream.entries_cancel stream.invar_cancel)
  have keys: "for_in_uids (observers ?s) = map fst (observers ?s)"
    using ok for_in_uids_table by (auto simp: stream_ok_def)
  have "stream_post run args (?s, []) =
      (None, (?s, [] @ map (\<lambda>u. the (oget (observers ?s) u)) (map fst (observers ?s))))"
    unfolding stream_post_def fst_conv keys
    by (rule deliver_log) (simp_all add: run)
  moreover have "owf (observers ?s)"
    using ok by (auto simp: stream_ok_def table_ok_distinct)
  ultimately show ?thesis by (simp add: map_lookup_keys) (simp add: obs)
qed

theorem stream_post_order_witness:
  "stream_post (\<lambda>f a (r, w). (None :: nat option, (r, w @ [f]))) ()
     (stream_cancel 1 (snd (stream.subscribe_all [10, 20, 30 :: nat] stream_new)), []) =
   (None, (stream_cancel 1 (snd (stream.subscribe_all [10, 20, 30] stream_new)), [10, 30]))"
proof -
  have "stream.subscribe_all [10, 20, 30 :: nat] stream_new =
      ([0, 1, 2], snd (stream.subscribe_all [10, 20, 30] stream_new))"
    by (simp add: stream_observe_def stream_new_def Let_def)
  from stream_post_order [OF this, of "\<lambda>f a (r, w). (None :: nat option, (r, w @ [f]))" "()" 1]
  show ?thesis by simp
qed

subsection \<open>\<open>js/event-bus.js\<close>\<close>

record 'f event_bus =
  busObservers :: "'f observers obj"
  busUidCount :: nat

definition bus_new :: "'f event_bus" where
  "bus_new = \<lparr>busObservers = [], busUidCount = 0\<rparr>"

definition bus_generateUid :: "'f event_bus \<Rightarrow> nat \<times> 'f event_bus" where
  "bus_generateUid b = (busUidCount b, b\<lparr>busUidCount := busUidCount b + 1\<rparr>)"

definition bus_table :: "'f event_bus \<Rightarrow> string \<Rightarrow> 'f observers" where
  "bus_table b tpe = (case oget (busObservers b) tpe of None \<Rightarrow> [] | Some t \<Rightarrow> t)"

text \<open>
  The arrow function on the last line of \<open>observe\<close> is an expression statement: it is not
  returned, so the caller gets \<open>undefined\<close> (\<open>None\<close>) instead of a cancel handle.
\<close>

definition bus_observe :: "string \<Rightarrow> 'f \<Rightarrow> 'f event_bus \<Rightarrow> nat option \<times> 'f event_bus" where
  "bus_observe tpe f b =
     (let b1 = (if \<not> ohas (busObservers b) tpe
                then b\<lparr>busObservers := oset tpe [] (busObservers b)\<rparr> else b);
          (uid, b2) = bus_generateUid b1
      in (None, b2\<lparr>busObservers := oset tpe (oset uid f (bus_table b2 tpe)) (busObservers b2)\<rparr>))"

definition bus_emit :: "('f \<Rightarrow> 'a \<Rightarrow> 'f event_bus \<times> 'w \<Rightarrow> 'e option \<times> ('f event_bus \<times> 'w)) \<Rightarrow>
    string \<Rightarrow> 'a \<Rightarrow> 'f event_bus \<times> 'w \<Rightarrow> 'e option \<times> ('f event_bus \<times> 'w)" where
  "bus_emit run tpe rest st =
     (case oget (busObservers (fst st)) tpe of
        None \<Rightarrow> (None, st)
      | Some tpeObservers \<Rightarrow>
          deliver (\<lambda>st uid. oget (bus_table (fst st) tpe) uid) (\<lambda>f. run f rest)
            (for_in_uids tpeObservers) st)"

definition bus_ok :: "'f event_bus \<Rightarrow> bool" where
  "bus_ok b \<longleftrightarrow> (\<forall>tpe. table_ok (bus_table b tpe) (busUidCount b))"

lemma bus_ok_new: "bus_ok bus_new"
  by (simp add: bus_ok_def bus_new_def bus_table_def)

lemma bus_table_observe:
  assumes "bus_ok b"
  shows "bus_table (snd (bus_observe tpe f b)) q =
    (if q = tpe then bus_table b tpe @ [(busUidCount b, f)] else bus_table b q)"
  using assms table_ok_insert [of "bus_table b tpe" "busUidCount b" f]
  by (auto simp: bus_ok_def bus_observe_def bus_generateUid_def bus_table_def Let_def obj_simps
      split: option.splits)

lemma busUidCount_observe: "busUidCount (snd (bus_observe tpe f b)) = Suc (busUidCount b)"
  by (simp add: bus_observe_def bus_generateUid_def Let_def)

lemma bus_ok_observe: "bus_ok b \<Longrightarrow> bus_ok (snd (bus_observe tpe f b))"
  using table_ok_insert [of "bus_table b tpe" "busUidCount b" f]
    table_ok_mono [of _ "busUidCount b" "Suc (busUidCount b)"]
  by (simp add: bus_ok_def bus_table_observe busUidCount_observe) blast

interpretation bus: registry "\<lambda>f b. (busUidCount b, snd (bus_observe tpe f b))" "\<lambda>b. bus_table b tpe" bus_ok
  for tpe
proof unfold_locales
  fix s s' :: "'f event_bus" and f h
  assume ok: "bus_ok s" and sub: "(busUidCount s, snd (bus_observe tpe f s)) = (h, s')"
  from sub ok show "bus_table s' tpe = bus_table s tpe @ [(h, f)]"
    by (auto simp: bus_table_observe)
  from sub ok show "h \<notin> fst ` set (bus_table s tpe)"
    by (auto simp: bus_ok_def table_ok_fresh)
  from sub ok show "bus_ok s'"
    by (auto simp: bus_ok_observe)
qed

lemma bus_emit_log:
  assumes ok: "bus_ok b"
    and run: "\<And>f a r w. run f a (r, w) = (None, (r, w @ [f]))"
  shows "bus_emit run tpe rest (b, w) = (None, (b, w @ map snd (bus_table b tpe)))"
proof (cases "oget (busObservers b) tpe")
  case None
  then show ?thesis by (simp add: bus_emit_def bus_table_def)
next
  case (Some t)
  then have t: "bus_table b tpe = t" by (simp add: bus_table_def)
  with ok have tok: "table_ok t (busUidCount b)" by (auto simp: bus_ok_def)
  have "deliver (\<lambda>st uid. oget (bus_table (fst st) tpe) uid) (\<lambda>f. run f rest) (map fst t) (b, w) =
      (None, (b, w @ map (\<lambda>u. the (oget t u)) (map fst t)))"
    by (rule deliver_log) (simp_all add: run t)
  with Some tok t show ?thesis
    by (simp add: bus_emit_def for_in_uids_table map_lookup_keys table_ok_distinct)
qed

lemma bus_subscribe_fold:
  "bus_ok b0 \<Longrightarrow>
     bus_ok (fold (\<lambda>(t, f) b. snd (bus_observe t f b)) subs b0) \<and>
     map snd (bus_table (fold (\<lambda>(t, f) b. snd (bus_observe t f b)) subs b0) tpe) =
     map snd (bus_table b0 tpe) @ map snd (filter (\<lambda>s. fst s = tpe) subs)"
proof (induction subs arbitrary: b0)
  case Nil
  then show ?case by simp
next
  case (Cons s subs)
  obtain t f where s: "s = (t, f)" by fastforce
  from Cons.IH [OF bus_ok_observe [OF Cons.prems, of t f]] show ?case
    by (simp add: s bus_table_observe [OF Cons.prems])
qed

text \<open>
  C29: the event bus routes by event type.  After any sequence of subscriptions to a fresh bus, an
  emit of type \<open>tpe\<close> calls exactly the observers subscribed to \<open>tpe\<close>, each as often as it
  subscribed and in subscription order, and no observer of another type.
\<close>

theorem bus_emit_routes:
  assumes "\<And>f a r w. run f a (r, w) = (None, (r, w @ [f]))"
    and "b = fold (\<lambda>(t, f) b. snd (bus_observe t f b)) subs bus_new"
  shows "bus_emit run tpe rest (b, []) = (None, (b, map snd (filter (\<lambda>s. fst s = tpe) subs)))"
proof -
  have "bus_table bus_new tpe = []" by (simp add: bus_table_def bus_new_def)
  with bus_subscribe_fold [OF bus_ok_new, of subs tpe]
  have "bus_ok b" "map snd (bus_table b tpe) = map snd (filter (\<lambda>s. fst s = tpe) subs)"
    by (simp_all add: assms(2))
  with bus_emit_log [OF _ assms(1), where b = b and tpe = tpe and w = "[]"] show ?thesis by simp
qed

theorem bus_emit_routes_witness:
  "snd (snd (bus_emit (\<lambda>f a (r, w). (None :: nat option, (r, w @ [f]))) ''moveTo'' ()
      (fold (\<lambda>(t, f) b. snd (bus_observe t f b))
         [(''moveTo'', 1 :: nat), (''moveToReactor'', 2), (''moveTo'', 3)] bus_new, []))) = [1, 3]"
proof -
  let ?run = "\<lambda>f a (r, w). (None :: nat option, (r :: nat event_bus, w @ [f]))"
  let ?subs = "[(''moveTo'', 1 :: nat), (''moveToReactor'', 2), (''moveTo'', 3)]"
  have "?run f a (r, w) = (None, (r, w @ [f]))" for f r w and a :: unit by simp
  from bus_emit_routes [of ?run, OF this refl, of "''moveTo''" "()" ?subs] show ?thesis
    by (simp del: fold_simps)
qed

end
