(* ===== verification/Debugger_Animation.thy ===== *)
theory Debugger_Animation
  imports JS_Values
begin

text \<open>
  The debugger's animations (\<open>js/animation.js\<close>), the shell adapter (\<open>js/base.js\<close>) and the graph
  context (\<open>js/ctx.js\<close>).

  Animations are mutable objects that closures refer to, so they live in a heap: an animation is an
  index into \<open>anis\<close>.  The closures \<open>startBudgeted\<close> and \<open>startLabeled\<close> install are values of
  \<open>completion\<close>.  A callback of the user is an opaque \<open>'c\<close> that is recorded in the log when it
  runs; the callbacks the debugger installs work on the graph and do not call the animator.  The
  timers are the pending \<open>setTimeout(nextFrame, 30)\<close> calls.
\<close>

subsection \<open>Interpolators\<close>

record range_interp =
  totalFrames :: jsnum
  ifrom :: jsnum
  iend :: jsnum
  ifunc :: "jsnum \<Rightarrow> jsnum \<Rightarrow> jsnum \<Rightarrow> jsnum \<Rightarrow> jsnum"
  iframe :: jsnum

text \<open>\<open>Interpolator.map\<close> delegates to the interpolator it wraps and maps what \<open>next\<close> returns.\<close>

datatype 'a interp = Interp (rng: range_interp) (out: "jsnum \<Rightarrow> 'a")

definition interp_map :: "('a \<Rightarrow> 'b) \<Rightarrow> 'a interp \<Rightarrow> 'b interp" where
  "interp_map f i = Interp (rng i) (\<lambda>v. f (out i v))"

definition range_new :: "jsnum \<Rightarrow> jsnum \<Rightarrow> jsnum \<Rightarrow> (jsnum \<Rightarrow> jsnum \<Rightarrow> jsnum \<Rightarrow> jsnum \<Rightarrow> jsnum) \<Rightarrow> jsnum interp" where
  "range_new tot from end func =
     Interp \<lparr>totalFrames = tot, ifrom = from, iend = end, ifunc = func, iframe = 0\<rparr> (\<lambda>v. v)"

definition range_hasNext :: "range_interp \<Rightarrow> bool" where
  "range_hasNext r \<longleftrightarrow> iframe r < totalFrames r"

definition range_next :: "range_interp \<Rightarrow> jsnum \<times> range_interp" where
  "range_next r =
     (let v = ifunc r (ifrom r) (iend r) (iframe r) (totalFrames r)
      in (v, r\<lparr>iframe := iframe r + 1\<rparr>))"

definition range_stop :: "range_interp \<Rightarrow> range_interp" where
  "range_stop r = r\<lparr>iframe := totalFrames r\<rparr>"

definition linear_func :: "jsnum \<Rightarrow> jsnum \<Rightarrow> jsnum \<Rightarrow> jsnum \<Rightarrow> jsnum" where
  "linear_func from end frame tot = from + 1 * (end - from) * (frame / tot)"

definition smoothstep_func :: "jsnum \<Rightarrow> jsnum \<Rightarrow> jsnum \<Rightarrow> jsnum \<Rightarrow> jsnum" where
  "smoothstep_func from end frame tot =
     (let x = 1 * frame / tot;
          factor = x * x * x * (x * (x * 6 - 15) + 10)
      in from + (end - from) * factor)"

subsection \<open>Animations and the animator\<close>

datatype 'c completion =
    CUser 'c
  | CBudget "'c completion option"
  | CLabel nat string "'c completion option"

record ('a, 'c) animation =
  interpolator :: "'a interp"
  onStart :: "'c option"
  onComplete :: "'c completion option"

datatype ('a, 'c) event = EvStart 'c | EvSet nat 'a | EvDone 'c

record ('a, 'c) animator =
  anis :: "('a, 'c) animation list"
  totalAnimations :: int
  maxAnimations :: int
  labeledAnimations :: "nat obj"
  timers :: "nat list"
  events :: "('a, 'c) event list"

definition animator_new :: "('a, 'c) animator" where
  "animator_new = \<lparr>anis = [], totalAnimations = 0, maxAnimations = 32, labeledAnimations = [],
     timers = [], events = []\<rparr>"

text \<open>\<open>new Animation(interpolator, setter, onStart, onComplete)\<close>; the setter is known by the index.\<close>

definition ani_new :: "'a interp \<Rightarrow> 'c option \<Rightarrow> 'c option \<Rightarrow> ('a, 'c) animator \<Rightarrow> nat \<times> ('a, 'c) animator" where
  "ani_new i start done w =
     (length (anis w),
      w\<lparr>anis := anis w @ [\<lparr>interpolator = i, onStart = start, onComplete = map_option CUser done\<rparr>]\<rparr>)"

definition set_ani :: "nat \<Rightarrow> ('a, 'c) animation \<Rightarrow> ('a, 'c) animator \<Rightarrow> ('a, 'c) animator" where
  "set_ani a x w = w\<lparr>anis := (anis w)[a := x]\<rparr>"

definition emit :: "('a, 'c) event \<Rightarrow> ('a, 'c) animator \<Rightarrow> ('a, 'c) animator" where
  "emit e w = w\<lparr>events := events w @ [e]\<rparr>"

text \<open>Calling an \<open>onComplete\<close> closure.\<close>

fun run_completion :: "'c completion \<Rightarrow> ('a, 'c) animator \<Rightarrow> ('a, 'c) animator" where
  "run_completion (CUser c) w = emit (EvDone c) w"
| "run_completion (CBudget original) w =
     (let w1 = w\<lparr>totalAnimations := totalAnimations w - 1\<rparr>
      in case original of None \<Rightarrow> w1 | Some c \<Rightarrow> run_completion c w1)"
| "run_completion (CLabel a label original) w =
     (if oget (labeledAnimations w) label = Some a
      then let w1 = w\<lparr>labeledAnimations := odel label (labeledAnimations w)\<rparr>
           in case original of None \<Rightarrow> w1 | Some c \<Rightarrow> run_completion c w1
      else w)"

definition ani_stop :: "nat \<Rightarrow> ('a, 'c) animator \<Rightarrow> ('a, 'c) animator" where
  "ani_stop a w =
     (let x = anis w ! a; i = interpolator x;
          x1 = x\<lparr>interpolator := Interp (range_stop (rng i)) (out i)\<rparr>;
          w1 = set_ani a x1 w
      in case onComplete x1 of
           None \<Rightarrow> w1
         | Some c \<Rightarrow>
             let w2 = run_completion c w1 in set_ani a ((anis w2 ! a)\<lparr>onComplete := None\<rparr>) w2)"

definition ani_nextFrame :: "nat \<Rightarrow> ('a, 'c) animator \<Rightarrow> bool \<times> ('a, 'c) animator" where
  "ani_nextFrame a w =
     (let w1 = (case onStart (anis w ! a) of
                  None \<Rightarrow> w
                | Some c \<Rightarrow>
                    let w' = emit (EvStart c) w in set_ani a ((anis w' ! a)\<lparr>onStart := None\<rparr>) w');
          x = anis w1 ! a; i = interpolator x
      in if range_hasNext (rng i)
         then let (v, r) = range_next (rng i);
                  w2 = set_ani a (x\<lparr>interpolator := Interp r (out i)\<rparr>) w1
              in (True, emit (EvSet a (out i v)) w2)
         else (False, ani_stop a w1))"

text \<open>\<open>start\<close>: the body of the closure \<open>nextFrame\<close>, which schedules itself while frames are left.\<close>

definition animator_start :: "nat \<Rightarrow> ('a, 'c) animator \<Rightarrow> ('a, 'c) animator" where
  "animator_start a w =
     (let (more, w1) = ani_nextFrame a w
      in if more then w1\<lparr>timers := timers w1 @ [a]\<rparr> else w1)"

text \<open>A timer fires: the pending call at position \<open>k\<close> runs.\<close>

definition animator_tick :: "nat \<Rightarrow> ('a, 'c) animator \<Rightarrow> ('a, 'c) animator" where
  "animator_tick k w =
     animator_start (timers w ! k) (w\<lparr>timers := take k (timers w) @ drop (Suc k) (timers w)\<rparr>)"

text \<open>Past the budget both callbacks are called directly: a missing one is a \<open>TypeError\<close>.\<close>

definition startBudgeted :: "nat \<Rightarrow> ('a, 'c) animator \<Rightarrow> string + ('a, 'c) animator" where
  "startBudgeted a w =
     (if totalAnimations w < maxAnimations w
      then let w1 = w\<lparr>totalAnimations := totalAnimations w + 1\<rparr>;
               x = anis w1 ! a
           in Inr (animator_start a (set_ani a (x\<lparr>onComplete := Some (CBudget (onComplete x))\<rparr>) w1))
      else case onStart (anis w ! a) of
             None \<Rightarrow> Inl ''TypeError: ani.onStart is not a function''
           | Some s \<Rightarrow>
               (case onComplete (anis w ! a) of
                  None \<Rightarrow> Inl ''TypeError: ani.onComplete is not a function''
                | Some c \<Rightarrow> Inr (run_completion c (emit (EvStart s) w))))"

definition startLabeled :: "nat \<Rightarrow> string \<Rightarrow> bool \<Rightarrow> ('a, 'c) animator \<Rightarrow> string + ('a, 'c) animator" where
  "startLabeled a label budgeted w =
     (let x = anis w ! a;
          w1 = set_ani a (x\<lparr>onComplete := Some (CLabel a label (onComplete x))\<rparr>) w;
          w2 = (case oget (labeledAnimations w1) label of None \<Rightarrow> w1 | Some b \<Rightarrow> ani_stop b w1);
          w3 = w2\<lparr>labeledAnimations := oset label a (labeledAnimations w2)\<rparr>
      in if budgeted then startBudgeted a w3 else Inr (animator_start a w3))"

definition animation_linear :: "jsnum \<Rightarrow> jsnum \<Rightarrow> jsnum \<Rightarrow> 'c option \<Rightarrow> 'c option \<Rightarrow>
    (jsnum, 'c) animator \<Rightarrow> nat \<times> (jsnum, 'c) animator" where
  "animation_linear tot from end start done w = ani_new (range_new tot from end linear_func) start done w"

definition animation_smoothstep :: "jsnum \<Rightarrow> jsnum \<Rightarrow> jsnum \<Rightarrow> 'c option \<Rightarrow> 'c option \<Rightarrow>
    (jsnum, 'c) animator \<Rightarrow> nat \<times> (jsnum, 'c) animator" where
  "animation_smoothstep tot from end start done w =
     ani_new (range_new tot from end smoothstep_func) start done w"

text \<open>
  \<open>js/base.js\<close> and \<open>js/ctx.js\<close>: the shell adapter forwards to the debugger's API, and the context
  asks the graph, once there is one, for a reactor's coordinates.
\<close>

definition shell_eval :: "nat \<Rightarrow> (nat \<Rightarrow> string \<Rightarrow> 'r) \<Rightarrow> string \<Rightarrow> 'r" where
  "shell_eval uid replEval cmd = replEval uid cmd"

definition shell_close :: "nat \<Rightarrow> (nat \<Rightarrow> 'r) \<Rightarrow> 'r" where
  "shell_close uid replClose = replClose uid"

record ('g, 'a, 'c) ctx =
  ctx_graph :: "'g option"
  ctx_animator :: "('a, 'c) animator"

definition ctx_new :: "('g, 'a, 'c) ctx" where
  "ctx_new = \<lparr>ctx_graph = None, ctx_animator = animator_new\<rparr>"

definition ctx_getReactorCoordinates :: "('g \<Rightarrow> 'i \<Rightarrow> 'p option) \<Rightarrow> ('g, 'a, 'c) ctx \<Rightarrow> 'i \<Rightarrow> 'p option" where
  "ctx_getReactorCoordinates coords c i = (case ctx_graph c of Some g \<Rightarrow> coords g i | None \<Rightarrow> None)"

subsection \<open>The interpolation functions\<close>

definition smooth :: "real \<Rightarrow> real" where
  "smooth x = x * x * x * (x * (x * 6 - 15) + 10)"

lemma smoothstep_func_Fin:
  "t \<noteq> 0 \<Longrightarrow> smoothstep_func (Fin a) (Fin b) (Fin k) (Fin t) = Fin (a + (b - a) * smooth (k / t))"
  by (simp add: smoothstep_func_def smooth_def num_simps Let_def)

lemma linear_func_Fin:
  "t \<noteq> 0 \<Longrightarrow> linear_func (Fin a) (Fin b) (Fin k) (Fin t) = Fin (a + (b - a) * (k / t))"
  by (simp add: linear_func_def num_simps)

lemma smooth_deriv: "(smooth has_real_derivative 30 * (x * (1 - x))\<^sup>2) (at x)"
proof -
  have eq: "smooth = (\<lambda>x. 6 * x ^ 5 - 15 * x ^ 4 + 10 * x ^ 3)"
    by (rule ext) (simp add: smooth_def algebra_simps power_numeral_reduce)
  show ?thesis
    unfolding eq
    by (auto intro!: derivative_eq_intros simp: algebra_simps power2_eq_square power_numeral_reduce)
qed

lemma smooth_mono:
  assumes "x \<le> y"
  shows "smooth x \<le> smooth y"
  using assms
proof (rule DERIV_nonneg_imp_nondecreasing)
  fix z
  have "(0 :: real) \<le> 30 * (z * (1 - z))\<^sup>2" by simp
  with smooth_deriv [of z] show "\<exists>d. (smooth has_real_derivative d) (at z) \<and> 0 \<le> d" by blast
qed

lemma smooth_0 [simp]: "smooth 0 = 0" and smooth_1 [simp]: "smooth 1 = 1"
  by (simp_all add: smooth_def)

text \<open>
  The smooth-step interpolator eases between its end points.  On finite arguments, for frames
  \<open>0 \<le> j \<le> k \<le> t\<close> the values stay between \<open>from\<close> and \<open>end\<close>, never go back, start at
  \<open>from\<close> and reach \<open>end\<close> at the last frame.
\<close>

theorem smoothstep_bounds:
  assumes "0 < t" "0 \<le> j" "j \<le> k" "k \<le> t" "a \<le> b"
  shows "\<exists>u v. smoothstep_func (Fin a) (Fin b) (Fin j) (Fin t) = Fin u \<and>
      smoothstep_func (Fin a) (Fin b) (Fin k) (Fin t) = Fin v \<and> a \<le> u \<and> u \<le> v \<and> v \<le> b \<and>
      smoothstep_func (Fin a) (Fin b) 0 (Fin t) = Fin a \<and>
      smoothstep_func (Fin a) (Fin b) (Fin t) (Fin t) = Fin b"
proof -
  from assms have "0 \<le> j / t" "j / t \<le> k / t" "k / t \<le> 1"
    by (simp_all add: divide_right_mono)
  then have s: "0 \<le> smooth (j / t)" "smooth (j / t) \<le> smooth (k / t)" "smooth (k / t) \<le> 1"
    using smooth_mono [of 0 "j / t"] smooth_mono [of "j / t" "k / t"] smooth_mono [of "k / t" 1]
    by simp_all
  have 1: "0 \<le> (b - a) * smooth (j / t)"
    using assms s by simp
  have 2: "(b - a) * smooth (j / t) \<le> (b - a) * smooth (k / t)"
    using assms s by (simp add: mult_left_mono)
  have 3: "(b - a) * smooth (k / t) \<le> (b - a) * 1"
    using assms s by (intro mult_left_mono) simp_all
  from 1 2 3 assms show ?thesis
    by (simp add: smoothstep_func_Fin zero_Fin)
qed

theorem smoothstep_bounds_witness:
  "\<exists>u v. smoothstep_func (Fin 1) (Fin 3) (Fin 2) (Fin 14) = Fin u \<and>
      smoothstep_func (Fin 1) (Fin 3) (Fin 5) (Fin 14) = Fin v \<and> 1 \<le> u \<and> u \<le> v \<and> v \<le> 3 \<and>
      smoothstep_func (Fin 1) (Fin 3) 0 (Fin 14) = Fin 1 \<and>
      smoothstep_func (Fin 1) (Fin 3) (Fin 14) (Fin 14) = Fin 3"
  by (rule smoothstep_bounds) simp_all

subsection \<open>The budget and the labels\<close>

fun plain :: "'c completion \<Rightarrow> bool" where
  "plain (CUser c) = True"
| "plain (CBudget original) = False"
| "plain (CLabel a label None) = True"
| "plain (CLabel a label (Some c)) = plain c"

fun shape :: "'c completion option \<Rightarrow> bool" where
  "shape (Some (CBudget None)) = True"
| "shape (Some (CBudget (Some c))) = plain c"
| "shape None = True"
| "shape (Some c) = plain c"

fun bud :: "'c completion option \<Rightarrow> int" where
  "bud (Some (CBudget original)) = 1"
| "bud c = 0"

fun label_of :: "'c completion option \<Rightarrow> (nat \<times> string) option" where
  "label_of (Some (CLabel a l original)) = Some (a, l)"
| "label_of (Some (CBudget (Some (CLabel a l original)))) = Some (a, l)"
| "label_of c = None"

definition pending :: "('a, 'c) animation list \<Rightarrow> int" where
  "pending xs = (\<Sum>x\<leftarrow>xs. bud (onComplete x))"

definition animator_ok :: "('a, 'c) animator \<Rightarrow> bool" where
  "animator_ok w \<longleftrightarrow>
     totalAnimations w = pending (anis w) \<and> totalAnimations w \<le> maxAnimations w \<and>
     (\<forall>x \<in> set (anis w). shape (onComplete x)) \<and>
     (\<forall>l a. oget (labeledAnimations w) l = Some a \<longrightarrow>
        a < length (anis w) \<and> label_of (onComplete (anis w ! a)) = Some (a, l)) \<and>
     (\<forall>a \<in> set (timers w). a < length (anis w))"

lemma bud_nonneg: "0 \<le> bud c"
  by (cases c rule: bud.cases) simp_all

lemma bud_plain: "plain c \<Longrightarrow> bud (Some c) = 0"
  by (cases c) simp_all

lemma plain_shape: "plain c \<Longrightarrow> shape (Some c)"
  by (cases c) simp_all

lemma pending_nonneg: "0 \<le> pending xs"
  by (induction xs) (auto simp: pending_def bud_nonneg)

lemma pending_append [simp]: "pending (xs @ ys) = pending xs + pending ys"
  by (simp add: pending_def)

lemma pending_update:
  "a < length xs \<Longrightarrow>
     pending (xs[a := x]) = pending xs - bud (onComplete (xs ! a)) + bud (onComplete x)"
proof (induction xs arbitrary: a)
  case Nil
  then show ?case by simp
next
  case (Cons y ys)
  then show ?case by (cases a) (auto simp: pending_def)
qed

text \<open>What a completion leaves alone: everything but the budget, the log and released labels.\<close>

definition kept :: "('a, 'c) animator \<Rightarrow> ('a, 'c) animator \<Rightarrow> bool" where
  "kept w w' \<longleftrightarrow>
     anis w' = anis w \<and> maxAnimations w' = maxAnimations w \<and> timers w' = timers w \<and>
     (\<forall>l a. oget (labeledAnimations w') l = Some a \<longrightarrow> oget (labeledAnimations w) l = Some a)"

lemma kept_refl: "kept w w"
  by (simp add: kept_def)

lemma kept_trans: "kept u v \<Longrightarrow> kept v w \<Longrightarrow> kept u w"
  by (simp add: kept_def)

lemma kept_emit: "kept w (emit e w)"
  by (simp add: kept_def emit_def)

lemma kept_total: "kept w (w\<lparr>totalAnimations := n\<rparr>)"
  by (simp add: kept_def)

lemma kept_unlabel: "kept w (w\<lparr>labeledAnimations := odel l (labeledAnimations w)\<rparr>)"
  by (simp add: kept_def obj_simps)

lemma run_plain:
  "plain c \<Longrightarrow> kept w (run_completion c w) \<and> totalAnimations (run_completion c w) = totalAnimations w"
proof (induction c arbitrary: w rule: plain.induct)
  case (1 c)
  have "totalAnimations (emit (EvDone c) w) = totalAnimations w" by (simp add: emit_def)
  then show ?case by (simp add: kept_emit)
next
  case (2 original)
  then show ?case by simp
next
  case (3 a label)
  then show ?case by (simp add: kept_refl kept_unlabel)
next
  case (4 a label c)
  let ?v = "w\<lparr>labeledAnimations := odel label (labeledAnimations w)\<rparr>"
  have "plain c" using "4.prems" by simp
  then have "kept ?v (run_completion c ?v)" "totalAnimations (run_completion c ?v) = totalAnimations ?v"
    using "4.IH" by blast+
  then show ?case
    using kept_trans [OF kept_unlabel, of label w] by (simp add: kept_refl)
qed

lemma run_shape:
  assumes "shape (Some c)"
  shows "kept w (run_completion c w) \<and>
    totalAnimations (run_completion c w) = totalAnimations w - bud (Some c)"
proof (cases c)
  case (CBudget original)
  show ?thesis
  proof (cases original)
    case None
    with CBudget show ?thesis by (simp add: kept_total)
  next
    case (Some d)
    let ?v = "w\<lparr>totalAnimations := totalAnimations w - 1\<rparr>"
    have "plain d" using CBudget Some assms by simp
    from run_plain [OF this, of ?v] CBudget Some show ?thesis
      using kept_trans [OF kept_total] by auto
  qed
next
  case (CUser u)
  with run_plain [of c w] show ?thesis by simp
next
  case (CLabel a l original)
  with assms have "plain c" by simp
  with run_plain [of c w] CLabel show ?thesis by simp
qed

text \<open>Completing an animation that holds its label gives the label up.\<close>

lemma run_plain_label:
  "plain c \<Longrightarrow> oget (labeledAnimations w) l = None \<Longrightarrow>
     oget (labeledAnimations (run_completion c w)) l = None"
  using run_plain [of c w] unfolding kept_def by (metis not_None_eq)

lemma run_CLabel:
  assumes "plain (CLabel a l original)" "oget (labeledAnimations w) l = Some a"
  shows "oget (labeledAnimations (run_completion (CLabel a l original) w)) l = None"
proof (cases original)
  case None
  with assms show ?thesis by (simp add: obj_simps)
next
  case (Some c)
  let ?v = "w\<lparr>labeledAnimations := odel l (labeledAnimations w)\<rparr>"
  have "oget (labeledAnimations (run_completion c ?v)) l = None"
    using assms(1) Some by (intro run_plain_label) (simp_all add: obj_simps)
  with Some assms show ?thesis by simp
qed

lemma run_label:
  assumes "shape (Some c)" "label_of (Some c) = Some (a, l)"
    and "oget (labeledAnimations w) l = Some a"
  shows "oget (labeledAnimations (run_completion c w)) l = None"
proof -
  from assms(2) consider (top) original where "c = CLabel a l original"
    | (under) original where "c = CBudget (Some (CLabel a l original))"
    by (cases "Some c" rule: label_of.cases) auto
  then show ?thesis
  proof cases
    case top
    with assms show ?thesis using run_CLabel [of a l original w] by simp
  next
    case under
    with assms run_CLabel [of a l original "w\<lparr>totalAnimations := totalAnimations w - 1\<rparr>"]
    show ?thesis by (simp add: Let_def del: run_completion.simps(3))
  qed
qed

lemma set_ani_simps [simp]:
  "anis (set_ani a x w) = (anis w)[a := x]"
  "totalAnimations (set_ani a x w) = totalAnimations w"
  "maxAnimations (set_ani a x w) = maxAnimations w"
  "timers (set_ani a x w) = timers w"
  "labeledAnimations (set_ani a x w) = labeledAnimations w"
  "events (set_ani a x w) = events w"
  by (simp_all add: set_ani_def)

lemma emit_simps [simp]:
  "anis (emit e w) = anis w"
  "totalAnimations (emit e w) = totalAnimations w"
  "maxAnimations (emit e w) = maxAnimations w"
  "timers (emit e w) = timers w"
  "labeledAnimations (emit e w) = labeledAnimations w"
  "events (emit e w) = events w @ [e]"
  by (simp_all add: emit_def)

lemma emit_ok: "animator_ok w \<Longrightarrow> animator_ok (emit e w)"
  by (simp add: animator_ok_def)

lemma set_ani_ok:
  assumes "animator_ok w" "a < length (anis w)" "onComplete x = onComplete (anis w ! a)"
  shows "animator_ok (set_ani a x w)"
proof -
  have "shape (onComplete x)" using assms by (auto simp: animator_ok_def)
  then have "\<forall>y \<in> set ((anis w)[a := x]). shape (onComplete y)"
    using assms(1) set_update_subset_insert [of "anis w" a x] by (auto simp: animator_ok_def)
  then show ?thesis
    using assms by (auto simp: animator_ok_def pending_update nth_list_update)
qed

lemma labeled_ok:
  "animator_ok w \<Longrightarrow> oget (labeledAnimations w) l = Some a \<Longrightarrow>
     a < length (anis w) \<and> label_of (onComplete (anis w ! a)) = Some (a, l)"
  by (simp add: animator_ok_def)

lemma animator_ok_shape: "animator_ok w \<Longrightarrow> a < length (anis w) \<Longrightarrow> shape (onComplete (anis w ! a))"
  by (simp add: animator_ok_def)

lemma kept_ok:
  assumes "animator_ok w" "kept w w'" "totalAnimations w' = totalAnimations w"
  shows "animator_ok w'"
proof -
  have "a < length (anis w') \<and> label_of (onComplete (anis w' ! a)) = Some (a, l)"
    if "oget (labeledAnimations w') l = Some a" for l a
  proof -
    have "oget (labeledAnimations w) l = Some a" using that assms(2) by (simp add: kept_def)
    from labeled_ok [OF assms(1) this] assms(2) show ?thesis by (simp add: kept_def)
  qed
  with assms show ?thesis by (simp add: kept_def animator_ok_def)
qed

text \<open>What stopping an animation does to the rest of the animator.\<close>

definition stopped :: "nat \<Rightarrow> ('a, 'c) animator \<Rightarrow> ('a, 'c) animator \<Rightarrow> bool" where
  "stopped a w w' \<longleftrightarrow>
     length (anis w') = length (anis w) \<and> maxAnimations w' = maxAnimations w \<and>
     timers w' = timers w \<and> onComplete (anis w' ! a) = None \<and>
     (\<forall>b. b \<noteq> a \<longrightarrow> anis w' ! b = anis w ! b) \<and>
     (\<forall>l b. oget (labeledAnimations w') l = Some b \<longrightarrow>
        oget (labeledAnimations w) l = Some b \<and> b \<noteq> a)"

lemma animator_okI:
  assumes ok: "animator_ok w" and "stopped a w w'" "a < length (anis w)"
    and "totalAnimations w' = totalAnimations w - bud (onComplete (anis w ! a))"
  shows "animator_ok w'"
proof -
  have len: "length (anis w') = length (anis w)" using assms(2) by (simp add: stopped_def)
  have upd: "anis w' = (anis w)[a := anis w' ! a]"
    using assms(2,3) by (intro nth_equalityI) (auto simp: stopped_def nth_list_update)
  have "pending (anis w') = pending (anis w) - bud (onComplete (anis w ! a))"
    using assms(2,3) by (subst upd) (simp add: pending_update stopped_def)
  moreover have "\<forall>b < length (anis w). shape (onComplete (anis w' ! b))"
    using assms(2) animator_ok_shape [OF ok] unfolding stopped_def by (metis shape.simps(3))
  then have "\<forall>x \<in> set (anis w'). shape (onComplete x)"
    by (simp add: all_set_conv_all_nth len)
  moreover have "b < length (anis w') \<and> label_of (onComplete (anis w' ! b)) = Some (b, l)"
    if "oget (labeledAnimations w') l = Some b" for l b
  proof -
    from that assms(2) have "oget (labeledAnimations w) l = Some b" "b \<noteq> a"
      by (auto simp: stopped_def)
    with labeled_ok [OF ok] assms(2) len show ?thesis by (simp add: stopped_def)
  qed
  ultimately show ?thesis
    using assms bud_nonneg [of "onComplete (anis w ! a)"]
    unfolding animator_ok_def stopped_def by auto
qed

lemma ani_stop_ok:
  assumes ok: "animator_ok w" and a: "a < length (anis w)"
  shows "animator_ok (ani_stop a w) \<and> stopped a w (ani_stop a w)"
proof -
  define i where "i = interpolator (anis w ! a)"
  define x1 where "x1 = (anis w ! a)\<lparr>interpolator := Interp (range_stop (rng i)) (out i)\<rparr>"
  have oc: "onComplete x1 = onComplete (anis w ! a)" by (simp add: x1_def)
  show ?thesis
  proof (cases "onComplete (anis w ! a)")
    case None
    then have st: "ani_stop a w = set_ani a x1 w"
      by (simp add: ani_stop_def Let_def i_def x1_def)
    have "b \<noteq> a" if "oget (labeledAnimations w) l = Some b" for l b
      using labeled_ok [OF ok that] None by auto
    with a None oc have "stopped a w (set_ani a x1 w)" by (auto simp: stopped_def)
    with set_ani_ok [OF ok a oc] st show ?thesis by simp
  next
    case (Some c)
    define w2 where "w2 = run_completion c (set_ani a x1 w)"
    have st: "ani_stop a w = set_ani a ((anis w2 ! a)\<lparr>onComplete := None\<rparr>) w2"
      using Some by (simp add: ani_stop_def Let_def i_def x1_def w2_def)
    have sh: "shape (Some c)" using animator_ok_shape [OF ok a] Some by simp
    from run_shape [OF sh, of "set_ani a x1 w"]
    have w2: "kept (set_ani a x1 w) w2" "totalAnimations w2 = totalAnimations w - bud (Some c)"
      unfolding w2_def by simp_all
    have lab: "oget (labeledAnimations w) l = Some b \<and> b \<noteq> a"
      if "oget (labeledAnimations w2) l = Some b" for l b
    proof -
      from that w2(1) have l: "oget (labeledAnimations w) l = Some b" by (simp add: kept_def)
      have "b \<noteq> a"
      proof
        assume "b = a"
        with l labeled_ok [OF ok l] Some have "label_of (Some c) = Some (a, l)" by simp
        with sh l \<open>b = a\<close> have "oget (labeledAnimations w2) l = None"
          unfolding w2_def by (intro run_label) simp_all
        with that show False by simp
      qed
      with l show ?thesis by simp
    qed
    have "stopped a w (ani_stop a w)"
      unfolding st using a w2(1) lab by (auto simp: stopped_def kept_def)
    moreover from this have "animator_ok (ani_stop a w)"
      by (rule animator_okI [OF ok _ a]) (simp add: st w2(2) Some)
    ultimately show ?thesis by simp
  qed
qed

lemma nextFrame_ok:
  assumes ok: "animator_ok w" and a: "a < length (anis w)" and nf: "ani_nextFrame a w = (m, w')"
  shows "animator_ok w' \<and> length (anis w') = length (anis w) \<and> maxAnimations w' = maxAnimations w"
proof -
  define w1 where "w1 = (case onStart (anis w ! a) of
                  None \<Rightarrow> w
                | Some c \<Rightarrow> let w' = emit (EvStart c) w in set_ani a ((anis w' ! a)\<lparr>onStart := None\<rparr>) w')"
  have w1: "animator_ok w1" "length (anis w1) = length (anis w)" "maxAnimations w1 = maxAnimations w"
    using ok a by (auto simp: w1_def Let_def emit_ok intro!: set_ani_ok split: option.splits)
  show ?thesis
  proof (cases "range_hasNext (rng (interpolator (anis w1 ! a)))")
    case True
    with nf a w1 show ?thesis
      by (auto simp: ani_nextFrame_def w1_def [symmetric] Let_def intro!: emit_ok set_ani_ok
          split: prod.splits)
  next
    case False
    with nf have "w' = ani_stop a w1"
      by (simp add: ani_nextFrame_def w1_def [symmetric] Let_def)
    with ani_stop_ok [OF w1(1)] a w1 show ?thesis by (simp add: stopped_def)
  qed
qed

lemma start_ok:
  assumes "animator_ok w" "a < length (anis w)"
  shows "animator_ok (animator_start a w) \<and> length (anis (animator_start a w)) = length (anis w) \<and>
    maxAnimations (animator_start a w) = maxAnimations w"
proof -
  obtain m w' where "ani_nextFrame a w = (m, w')" by fastforce
  with nextFrame_ok [OF assms this] assms(2) show ?thesis
    by (auto simp: animator_start_def animator_ok_def)
qed

lemma tick_ok:
  assumes "animator_ok w" "k < length (timers w)"
  shows "animator_ok (animator_tick k w) \<and> maxAnimations (animator_tick k w) = maxAnimations w"
proof -
  let ?v = "w\<lparr>timers := take k (timers w) @ drop (Suc k) (timers w)\<rparr>"
  have "animator_ok ?v" "timers w ! k < length (anis ?v)"
    using assms by (auto simp: animator_ok_def dest: in_set_takeD in_set_dropD)
  from start_ok [OF this] show ?thesis by (simp add: animator_tick_def)
qed

text \<open>An animation that has not been started yet: no wrapper, no label.\<close>

definition unstarted :: "nat \<Rightarrow> ('a, 'c) animator \<Rightarrow> bool" where
  "unstarted a w \<longleftrightarrow> a < length (anis w) \<and>
     (\<exists>d. onComplete (anis w ! a) = map_option CUser d)"

lemma unstarted_plain:
  assumes "unstarted a w"
  shows "plain (CLabel a l (onComplete (anis w ! a)))" "bud (onComplete (anis w ! a)) = 0"
    "label_of (onComplete (anis w ! a)) = None" "shape (Some (CBudget (onComplete (anis w ! a))))"
  using assms by (auto simp: unstarted_def map_option_case split: option.splits)

lemma unstarted_unlabeled:
  "animator_ok w \<Longrightarrow> unstarted a w \<Longrightarrow> oget (labeledAnimations w) l \<noteq> Some a"
  using labeled_ok unstarted_plain(3) by fastforce

lemma set_complete_ok:
  assumes ok: "animator_ok w" and a: "a < length (anis w)"
    and c: "shape (Some c)" "bud (Some c) - bud (onComplete (anis w ! a)) = n"
      "totalAnimations w + n \<le> maxAnimations w"
      "\<And>l. oget (labeledAnimations w) l = Some a \<Longrightarrow> label_of (Some c) = Some (a, l)"
  shows "animator_ok (set_ani a ((anis w ! a)\<lparr>onComplete := Some c\<rparr>)
    (w\<lparr>totalAnimations := totalAnimations w + n\<rparr>))"
proof -
  let ?x = "(anis w ! a)\<lparr>onComplete := Some c\<rparr>"
  have "\<forall>y \<in> set ((anis w)[a := ?x]). shape (onComplete y)"
    using ok c(1) set_update_subset_insert [of "anis w" a ?x] by (auto simp: animator_ok_def)
  moreover have "pending ((anis w)[a := ?x]) = totalAnimations w + n"
    using ok a c(2) by (simp add: pending_update animator_ok_def)
  ultimately show ?thesis
    using ok a c(3,4) by (auto simp: animator_ok_def nth_list_update)
qed

lemma startBudgeted_ok:
  assumes ok: "animator_ok w" and a: "a < length (anis w)"
    and c: "bud (onComplete (anis w ! a)) = 0" "shape (Some (CBudget (onComplete (anis w ! a))))"
      "\<And>l. oget (labeledAnimations w) l = Some a \<Longrightarrow>
         label_of (Some (CBudget (onComplete (anis w ! a)))) = Some (a, l)"
    and st: "startBudgeted a w = Inr w'"
  shows "animator_ok w' \<and> maxAnimations w' = maxAnimations w"
proof (cases "totalAnimations w < maxAnimations w")
  case True
  let ?v = "set_ani a ((anis w ! a)\<lparr>onComplete := Some (CBudget (onComplete (anis w ! a)))\<rparr>)
    (w\<lparr>totalAnimations := totalAnimations w + 1\<rparr>)"
  have "animator_ok ?v"
    by (rule set_complete_ok [OF ok a]) (use c True in auto)
  moreover have "w' = animator_start a ?v"
    using st True by (simp add: startBudgeted_def Let_def)
  ultimately show ?thesis using start_ok [of ?v a] a by simp
next
  case False
  with st obtain s d where sd: "onComplete (anis w ! a) = Some d"
    "w' = run_completion d (emit (EvStart s) w)"
    by (auto simp: startBudgeted_def split: option.splits)
  have sh: "shape (Some d)" using animator_ok_shape [OF ok a] sd by simp
  from run_shape [OF this, of "emit (EvStart s) w"] sd c(1)
  have k: "kept w w'" "totalAnimations w' = totalAnimations w"
    by (auto simp: kept_def)
  with ok show ?thesis by (auto intro: kept_ok simp: kept_def)
qed

lemma startLabeled_ok:
  assumes ok: "animator_ok w" and un: "unstarted a w" and st: "startLabeled a l b w = Inr w'"
  shows "animator_ok w' \<and> maxAnimations w' = maxAnimations w"
proof -
  have a: "a < length (anis w)" using un by (simp add: unstarted_def)
  note oc = unstarted_plain [OF un] and unl = unstarted_unlabeled [OF ok un]
  let ?c = "CLabel a l (onComplete (anis w ! a))"
  define w1 where "w1 = set_ani a ((anis w ! a)\<lparr>onComplete := Some ?c\<rparr>) w"
  have w1: "animator_ok w1"
    using set_complete_ok [OF ok a, of ?c 0] oc(2) plain_shape [OF oc(1), of l] ok unl
    by (simp add: w1_def animator_ok_def)
  have lab1: "labeledAnimations w1 = labeledAnimations w" and len1: "length (anis w1) = length (anis w)"
    and max1: "maxAnimations w1 = maxAnimations w" and oc1: "onComplete (anis w1 ! a) = Some ?c"
    using a by (simp_all add: w1_def)
  define w2 where "w2 = (case oget (labeledAnimations w1) l of None \<Rightarrow> w1 | Some b \<Rightarrow> ani_stop b w1)"
  have w2: "animator_ok w2 \<and> length (anis w2) = length (anis w) \<and> maxAnimations w2 = maxAnimations w \<and>
      onComplete (anis w2 ! a) = Some ?c"
  proof (cases "oget (labeledAnimations w1) l")
    case None
    with w1 len1 max1 oc1 show ?thesis by (simp add: w2_def)
  next
    case (Some b)
    then have b: "b < length (anis w1)" "b \<noteq> a"
      using labeled_ok [OF w1 Some] unl [of l] lab1 by auto
    from ani_stop_ok [OF w1 b(1)] Some b w1 len1 max1 oc1 show ?thesis
      by (simp add: w2_def stopped_def)
  qed
  define w3 where "w3 = w2\<lparr>labeledAnimations := oset l a (labeledAnimations w2)\<rparr>"
  have w3: "animator_ok w3"
    using w2 a by (auto simp: animator_ok_def w3_def obj_simps split: if_splits)
  have oc3: "onComplete (anis w3 ! a) = Some ?c" and len3: "length (anis w3) = length (anis w)"
    and max3: "maxAnimations w3 = maxAnimations w"
    using w2 by (simp_all add: w3_def)
  have st3: "(if b then startBudgeted a w3 else Inr (animator_start a w3)) = Inr w'"
    using st [unfolded startLabeled_def Let_def] unfolding w3_def w2_def w1_def .
  show ?thesis
  proof (cases b)
    case True
    have "label_of (Some (CBudget (onComplete (anis w3 ! a)))) = Some (a, k)"
      if "oget (labeledAnimations w3) k = Some a" for k
      using labeled_ok [OF w3 that] oc3 by simp
    then have "animator_ok w' \<and> maxAnimations w' = maxAnimations w3"
      using startBudgeted_ok [OF w3, of a w'] st3 True a len3 oc3 oc(1) by simp
    with max3 show ?thesis by simp
  next
    case False
    with st3 start_ok [OF w3] a len3 max3 show ?thesis by auto
  qed
qed

subsection \<open>Reachable animators\<close>

text \<open>One step: an animation is created and started in one of the three ways, a timer fires, or an
  animation is stopped by hand.\<close>

inductive anim_step :: "('a, 'c) animator \<Rightarrow> ('a, 'c) animator \<Rightarrow> bool" where
  launch: "ani_new i s d w = (a, w1) \<Longrightarrow> anim_step w (animator_start a w1)"
| launch_budgeted: "ani_new i s d w = (a, w1) \<Longrightarrow> startBudgeted a w1 = Inr w' \<Longrightarrow> anim_step w w'"
| launch_labeled: "ani_new i s d w = (a, w1) \<Longrightarrow> startLabeled a l b w1 = Inr w' \<Longrightarrow> anim_step w w'"
| tick: "k < length (timers w) \<Longrightarrow> anim_step w (animator_tick k w)"
| stop: "a < length (anis w) \<Longrightarrow> anim_step w (ani_stop a w)"

inductive anim_reachable :: "('a, 'c) animator \<Rightarrow> bool" where
  new: "anim_reachable animator_new"
| step: "anim_reachable w \<Longrightarrow> anim_step w w' \<Longrightarrow> anim_reachable w'"

lemma ani_new_ok:
  assumes "animator_ok w" "ani_new i s d w = (a, w1)"
  shows "animator_ok w1 \<and> unstarted a w1 \<and> maxAnimations w1 = maxAnimations w"
proof -
  have "bud (map_option CUser d) = 0" "shape (map_option CUser d)" by (cases d; simp)+
  moreover have "oget (labeledAnimations w) k = Some b \<Longrightarrow> b < length (anis w)" for k b
    using labeled_ok [OF assms(1)] by blast
  moreover have "b \<in> set (timers w) \<Longrightarrow> b < length (anis w)" for b
    using assms(1) by (simp add: animator_ok_def)
  ultimately show ?thesis
    using assms by (auto simp: ani_new_def animator_ok_def unstarted_def pending_def nth_append less_SucI)
qed

lemma anim_step_ok:
  "anim_step w w' \<Longrightarrow> animator_ok w \<Longrightarrow> animator_ok w' \<and> maxAnimations w' = maxAnimations w"
proof (induction rule: anim_step.induct)
  case (launch i s d w a w1)
  with ani_new_ok [OF launch(2,1)] start_ok [of w1 a] show ?case by (simp add: unstarted_def)
next
  case (launch_budgeted i s d w a w1 w')
  note new = ani_new_ok [OF launch_budgeted(3,1)]
  have "unstarted a w1" using new by simp
  note oc = unstarted_plain [OF this]
  have "oget (labeledAnimations w1) l \<noteq> Some a" for l
    using new unstarted_unlabeled by blast
  then show ?case
    using startBudgeted_ok [OF _ _ oc(2,4) _ launch_budgeted(2)] new by (simp add: unstarted_def)
next
  case (launch_labeled i s d w a w1 l b w')
  with ani_new_ok [OF launch_labeled(3,1)] startLabeled_ok [of w1 a l b w'] show ?case by simp
next
  case (tick k w)
  then show ?case by (rule tick_ok [rotated])
next
  case (stop a w)
  with ani_stop_ok [OF stop(2,1)] show ?case by (simp add: stopped_def)
qed

lemma anim_reachable_ok: "anim_reachable w \<Longrightarrow> animator_ok w \<and> maxAnimations w = 32"
proof (induction rule: anim_reachable.induct)
  case new
  show ?case by (simp add: animator_new_def animator_ok_def pending_def)
next
  case (step w w')
  with anim_step_ok [OF step(2)] show ?case by simp
qed

text \<open>
  C20: the animation budget.  In every reachable animator the counter \<open>totalAnimations\<close> lies
  between 0 and 32 and equals the number of budgeted animations whose completion is still due, so
  no budgeted start is lost and no slot leaks.
\<close>

theorem animation_budget:
  assumes "anim_reachable w"
  shows "0 \<le> totalAnimations w \<and> totalAnimations w \<le> 32 \<and>
    totalAnimations w = (\<Sum>x\<leftarrow>anis w. bud (onComplete x))"
  using anim_reachable_ok [OF assms] pending_nonneg [of "anis w"]
  by (simp add: animator_ok_def pending_def)

theorem animation_budget_witness:
  "totalAnimations (projr (startBudgeted 0 (snd (ani_new (range_new 2 0 1 linear_func)
     (Some (7 :: nat)) (Some 8) animator_new)))) \<le> 32"
proof -
  obtain w1 where new: "ani_new (range_new 2 0 1 linear_func) (Some (7 :: nat)) (Some 8) animator_new = (0, w1)"
    by (simp add: ani_new_def animator_new_def)
  have "isl (startBudgeted 0 w1) = False"
    using new by (auto simp: startBudgeted_def animator_new_def ani_new_def Let_def)
  then obtain w2 where w2: "startBudgeted 0 w1 = Inr w2" by (cases "startBudgeted 0 w1") auto
  from anim_reachable.step [OF anim_reachable.new anim_step.launch_budgeted [OF new w2]]
  have "anim_reachable w2" .
  from animation_budget [OF this] new w2 show ?thesis by simp
qed

subsection \<open>Superseding a labelled animation\<close>

lemma run_completion_appends: "\<exists>es. events (run_completion c w) = events w @ es"
proof (induction c w rule: run_completion.induct)
  case (1 c w)
  show ?case by (simp add: emit_def)
next
  case (2 original w)
  show ?case
  proof (cases original)
    case None
    then show ?thesis by simp
  next
    case (Some d)
    with 2 [OF refl Some] show ?thesis by simp
  qed
next
  case (3 a label original w)
  show ?case
  proof (cases original)
    case None
    then show ?thesis by simp
  next
    case (Some d)
    show ?thesis
    proof (cases "oget (labeledAnimations w) label = Some a")
      case True
      with 3 [OF True refl Some] Some show ?thesis by simp
    next
      case False
      then show ?thesis by simp
    qed
  qed
qed

lemma ani_stop_appends: "\<exists>es. events (ani_stop a w) = events w @ es"
proof (cases "onComplete (anis w ! a)")
  case None
  then show ?thesis by (simp add: ani_stop_def Let_def)
next
  case (Some c)
  obtain es where "events (run_completion c (set_ani a ((anis w ! a)\<lparr>interpolator :=
      Interp (range_stop (rng (interpolator (anis w ! a)))) (out (interpolator (anis w ! a)))\<rparr>) w)) = events w @ es"
    using run_completion_appends by (metis set_ani_simps(6))
  with Some show ?thesis by (simp add: ani_stop_def Let_def)
qed

lemma animator_start_appends: "\<exists>es. events (animator_start a w) = events w @ es"
proof -
  define w1 where "w1 = (case onStart (anis w ! a) of
                  None \<Rightarrow> w
                | Some c \<Rightarrow> let w' = emit (EvStart c) w in set_ani a ((anis w' ! a)\<lparr>onStart := None\<rparr>) w')"
  have 1: "\<exists>es. events w1 = events w @ es"
    by (simp add: w1_def Let_def split: option.splits)
  show ?thesis
  proof (cases "range_hasNext (rng (interpolator (anis w1 ! a)))")
    case True
    with 1 show ?thesis
      by (auto simp: animator_start_def ani_nextFrame_def w1_def [symmetric] Let_def split: prod.splits)
  next
    case False
    with 1 ani_stop_appends [of a w1] show ?thesis
      by (auto simp: animator_start_def ani_nextFrame_def w1_def [symmetric] Let_def)
  qed
qed

lemma range_stop_done: "\<not> range_hasNext (range_stop r)"
proof -
  have "\<not> n < (n :: jsnum)" for n by (cases n) simp_all
  then show ?thesis by (simp add: range_hasNext_def range_stop_def)
qed

lemma ani_stop_labelled:
  assumes "b < length (anis w)" "onComplete (anis w ! b) = Some (CLabel b l (Some (CUser c)))"
    and "oget (labeledAnimations w) l = Some b"
  shows "events (ani_stop b w) = events w @ [EvDone c]"
    and "\<not> range_hasNext (rng (interpolator (anis (ani_stop b w) ! b)))"
  using assms by (simp_all add: ani_stop_def Let_def emit_def set_ani_def range_stop_done)

text \<open>
  A label has one animation at a time.  Starting an animation under a label that another one
  holds first completes the holder: its completion callback is the next event, before anything of the
  new animation, and its interpolator has no frame left, so it never sets a value again.
\<close>

theorem startLabeled_supersedes:
  assumes "anim_reachable w0" "ani_new i s d w0 = (a, w)"
    and "oget (labeledAnimations w) l = Some b"
    and "onComplete (anis w ! b) = Some (CLabel b l (Some (CUser c)))"
    and "startLabeled a l False w = Inr w'"
  shows "\<exists>es v. events w' = events w @ EvDone c # es \<and> w' = animator_start a v \<and>
    \<not> range_hasNext (rng (interpolator (anis v ! b))) \<and> oget (labeledAnimations v) l = Some a"
proof -
  have ok: "animator_ok w" and un: "unstarted a w"
    using ani_new_ok anim_reachable_ok assms(1,2) by blast+
  let ?w1 = "set_ani a ((anis w ! a)\<lparr>onComplete := Some (CLabel a l (onComplete (anis w ! a)))\<rparr>) w"
  have b: "b < length (anis w)" "b \<noteq> a"
    using labeled_ok [OF ok assms(3)] unstarted_unlabeled [OF ok un] assms(3) by auto
  then have "events (ani_stop b ?w1) = events w @ [EvDone c]"
    "\<not> range_hasNext (rng (interpolator (anis (ani_stop b ?w1) ! b)))"
    using ani_stop_labelled [of b ?w1 l c] assms(3,4) by simp_all
  moreover define v where "v = (ani_stop b ?w1)\<lparr>labeledAnimations := oset l a (labeledAnimations (ani_stop b ?w1))\<rparr>"
  moreover have "w' = animator_start a v"
    using assms(5) assms(3) unfolding startLabeled_def v_def by (simp add: Let_def)
  moreover obtain es where "events (animator_start a v) = events v @ es"
    using animator_start_appends by blast
  ultimately show ?thesis by (auto simp: obj_simps)
qed

definition demo_animator :: "(jsnum, nat) animator" where
  "demo_animator = projr (startLabeled 0 ''move'' False
     (snd (ani_new (range_new 2 0 1 linear_func) None (Some 8) animator_new)))"

lemma demo_animator_eq:
  "demo_animator =
     \<lparr>anis = [\<lparr>interpolator = Interp \<lparr>totalFrames = Fin 2, ifrom = Fin 0, iend = Fin 1, ifunc = linear_func,
         iframe = Fin 1\<rparr> (\<lambda>v. v), onStart = None, onComplete = Some (CLabel 0 ''move'' (Some (CUser 8)))\<rparr>],
      totalAnimations = 0, maxAnimations = 32, labeledAnimations = [(''move'', 0)], timers = [0],
      events = [EvSet 0 (Fin 0)]\<rparr>"
  by (simp add: demo_animator_def startLabeled_def ani_new_def animator_new_def Let_def animator_start_def
      ani_nextFrame_def range_new_def range_hasNext_def range_next_def num_simps set_ani_def emit_def
      linear_func_def)

lemma demo_animator_reachable: "anim_reachable demo_animator"
proof -
  obtain w1 where new: "ani_new (range_new 2 0 1 linear_func) None (Some (8 :: nat)) animator_new = (0, w1)"
    by (simp add: ani_new_def animator_new_def)
  have "isl (startLabeled 0 ''move'' False w1) = False"
    by (auto simp: startLabeled_def Let_def)
  then have "startLabeled 0 ''move'' False w1 = Inr demo_animator"
    using new by (cases "startLabeled 0 ''move'' False w1") (auto simp: demo_animator_def)
  from anim_reachable.step [OF anim_reachable.new anim_step.launch_labeled [OF new this]]
  show ?thesis .
qed

theorem startLabeled_supersedes_witness:
  "\<exists>es w'. startLabeled 1 ''move'' False
      (snd (ani_new (range_new 2 0 1 linear_func) None (Some 9) demo_animator)) = Inr w' \<and>
    events w' = [EvSet 0 (Fin 0), EvDone 8] @ es"
proof -
  let ?w = "snd (ani_new (range_new 2 0 1 linear_func) None (Some 9) demo_animator)"
  have new: "ani_new (range_new 2 0 1 linear_func) None (Some 9) demo_animator = (1, ?w)"
    by (simp add: ani_new_def demo_animator_eq)
  have ex: "\<exists>w'. startLabeled 1 ''move'' False ?w = Inr w'"
    by (simp add: startLabeled_def Let_def)
  then obtain w' where w': "startLabeled 1 ''move'' False ?w = Inr w'" by blast
  have "oget (labeledAnimations ?w) ''move'' = Some 0"
    "onComplete (anis ?w ! 0) = Some (CLabel 0 ''move'' (Some (CUser 8)))"
    "events ?w = [EvSet 0 (Fin 0)]"
    by (simp_all add: ani_new_def demo_animator_eq)
  with startLabeled_supersedes [OF demo_animator_reachable new _ _ w'] w' show ?thesis by fastforce
qed

subsection \<open>A whole run\<close>

fun run_ticks :: "nat \<Rightarrow> ('a, 'c) animator \<Rightarrow> ('a, 'c) animator" where
  "run_ticks 0 w = w"
| "run_ticks (Suc m) w = run_ticks m (animator_tick 0 w)"

text \<open>The animator between two frames: frame \<open>j\<close> of \<open>n\<close> is next.\<close>

definition mid_run :: "nat \<Rightarrow> nat \<Rightarrow> jsnum \<Rightarrow> jsnum \<Rightarrow> (jsnum \<Rightarrow> jsnum \<Rightarrow> jsnum \<Rightarrow> jsnum \<Rightarrow> jsnum) \<Rightarrow>
    (jsnum \<Rightarrow> 'a) \<Rightarrow> 'c \<Rightarrow> ('a, 'c) event list \<Rightarrow> ('a, 'c) animator" where
  "mid_run n j from end func g d evs =
     animator_new\<lparr>anis := [\<lparr>interpolator = Interp \<lparr>totalFrames = Fin n, ifrom = from, iend = end, ifunc = func,
        iframe = Fin j\<rparr> g, onStart = None, onComplete = Some (CUser d)\<rparr>], events := evs\<rparr>"

lemma mid_run_frame:
  "j < n \<Longrightarrow> animator_start 0 (mid_run n j from end func g d evs) =
     (mid_run n (Suc j) from end func g d (evs @ [EvSet 0 (g (func from end (Fin j) (Fin n)))]))\<lparr>timers := [0]\<rparr>"
  by (simp add: mid_run_def animator_start_def ani_nextFrame_def Let_def range_hasNext_def range_next_def
      animator_new_def set_ani_def emit_def num_simps add.commute)

lemma mid_run_last:
  "events (animator_start 0 (mid_run n n from end func g d evs)) = evs @ [EvDone d] \<and>
   timers (animator_start 0 (mid_run n n from end func g d evs)) = []"
  by (simp add: mid_run_def animator_start_def ani_nextFrame_def Let_def range_hasNext_def ani_stop_def
      animator_new_def set_ani_def emit_def)

lemma tick_mid_run:
  "animator_tick 0 ((mid_run n j from end func g d evs)\<lparr>timers := [0]\<rparr>) =
     animator_start 0 (mid_run n j from end func g d evs)"
  by (simp add: animator_tick_def mid_run_def animator_new_def)

lemma run_from_mid:
  "j \<le> n \<Longrightarrow>
     events (run_ticks (n - j) (animator_start 0 (mid_run n j from end func g d evs))) =
       evs @ map (\<lambda>k. EvSet 0 (g (func from end (Fin (real k)) (Fin n)))) [j ..< n] @ [EvDone d] \<and>
     timers (run_ticks (n - j) (animator_start 0 (mid_run n j from end func g d evs))) = []"
proof (induction "n - j" arbitrary: j evs)
  case 0
  then have "j = n" by simp
  with mid_run_last [of n "from" "end" func g d evs] show ?case by simp
next
  case (Suc m)
  then have j: "j < n" and m: "n - j = Suc m" "m = n - Suc j" by auto
  have "run_ticks (n - j) (animator_start 0 (mid_run n j from end func g d evs)) =
    run_ticks (n - Suc j) (animator_start 0 (mid_run n (Suc j) from end func g d
      (evs @ [EvSet 0 (g (func from end (Fin j) (Fin n)))])))"
    by (simp add: m(1) mid_run_frame [OF j] tick_mid_run) (simp add: m(2))
  with Suc.hyps(1) [OF m(2)] j show ?case by (simp add: upt_conv_Cons)
qed

text \<open>
  C40: an animation runs to its end exactly once.  An animation over \<open>n\<close> frames that is started and
  whose timer fires \<open>n\<close> times calls the start callback first, then the setter with the interpolated
  value of each frame 0, \dots, \<open>n - 1\<close> in order (through the functions \<open>map\<close> added), then the
  completion callback once, and leaves no timer behind.
\<close>

theorem animation_runs_once:
  assumes "ani_new (interp_map g (range_new (Fin (real n)) from end func)) (Some s) (Some d) animator_new = (a, w)"
  shows "events (run_ticks n (animator_start a w)) =
      EvStart s # map (\<lambda>k. EvSet 0 (g (func from end (Fin (real k)) (Fin (real n))))) [0 ..< n] @ [EvDone d] \<and>
    timers (run_ticks n (animator_start a w)) = []"
proof -
  from assms have a: "a = 0" and w: "w = animator_new\<lparr>anis := [\<lparr>interpolator =
      Interp \<lparr>totalFrames = Fin n, ifrom = from, iend = end, ifunc = func, iframe = Fin 0\<rparr> g,
      onStart = Some s, onComplete = Some (CUser d)\<rparr>]\<rparr>"
    by (auto simp: ani_new_def animator_new_def interp_map_def range_new_def zero_Fin)
  have "animator_start 0 w = animator_start 0 (mid_run n 0 from end func g d [EvStart s])"
    by (simp add: w mid_run_def animator_start_def ani_nextFrame_def Let_def animator_new_def set_ani_def emit_def)
  with run_from_mid [of 0 n "from" "end" func g d "[EvStart s]"] a show ?thesis by simp
qed

theorem animation_runs_once_witness:
  "events (run_ticks 2 (animator_start 0 (snd (ani_new
      (interp_map (\<lambda>v. v) (range_new (Fin (real 2)) 0 1 linear_func)) (Some ''s'') (Some ''d'') animator_new)))) =
    [EvStart ''s'', EvSet 0 (Fin 0), EvSet 0 (Fin (1 / 2)), EvDone ''d'']"
proof -
  let ?p = "ani_new (interp_map (\<lambda>v. v) (range_new (Fin (real 2)) 0 1 linear_func)) (Some ''s'') (Some ''d'') animator_new"
  have "?p = (0, snd ?p)" by (simp add: ani_new_def animator_new_def)
  from animation_runs_once [OF this] show ?thesis
    by (simp add: linear_func_def num_simps upt_conv_Cons numeral_2_eq_2)
qed

end
