(* ===== verification/CBuffer.thy ===== *)
theory CBuffer
  imports JS_Values "HOL-Library.Sorting_Algorithms"
begin

text \<open>
  The circular buffer (\<open>lib/cbuffer/cbuffer.js\<close>).  A cell is an \<open>'a option\<close>: \<open>None\<close> is
  \<open>undefined\<close>, which is also what a deleted cell and a cell never written read as.  The sizes and
  positions are integers.  The overflow callback is only recorded: an operation returns the list of
  the items it was called with.  Callbacks of the iteration methods are functions of the item and
  its index.

  The abstraction is \<open>contents\<close>, the \<open>size\<close> items read from \<open>start\<close> on; \<open>view\<close> reads
  any number of cells from any position.
\<close>

subsection \<open>The buffer and its operations\<close>

record 'a cbuffer =
  csize :: int
  cstart :: int
  cend :: int
  clength :: int
  cdata :: "'a option list"
  coverflow :: bool

definition cell :: "'a option list \<Rightarrow> int \<Rightarrow> 'a option" where
  "cell d i = (if 0 \<le> i \<and> i < int (length d) then d ! nat i else None)"

definition put_cell :: "int \<Rightarrow> 'a option \<Rightarrow> 'a option list \<Rightarrow> 'a option list" where
  "put_cell i v d = (if 0 \<le> i \<and> i < int (length d) then d[nat i := v] else d)"

definition defaultComparitor :: "real \<Rightarrow> real \<Rightarrow> int" where
  "defaultComparitor a b = (if a = b then 0 else if a > b then 1 else - 1)"

definition cb_pop :: "'a cbuffer \<Rightarrow> 'a option \<times> 'a cbuffer" where
  "cb_pop b =
     (if csize b = 0 then (None, b)
      else let item = cell (cdata b) (cend b)
           in (item, b\<lparr>cdata := put_cell (cend b) None (cdata b),
                       cend := js_rem (cend b - 1 + clength b) (clength b),
                       csize := csize b - 1\<rparr>))"

fun write_up :: "int \<Rightarrow> int \<Rightarrow> 'a option list \<Rightarrow> 'a option list \<Rightarrow> 'a option list" where
  "write_up len p [] d = d"
| "write_up len p (x # xs) d = write_up len (p + 1) xs (put_cell (js_rem p len) x d)"

definition cb_push :: "'a option list \<Rightarrow> 'a cbuffer \<Rightarrow> int \<times> 'a option list \<times> 'a cbuffer" where
  "cb_push args b =
     (let n = int (length args);
          lost = (if coverflow b \<and> csize b + n > clength b
                  then map (\<lambda>i. cell (cdata b) (js_rem (cend b + i + 1) (clength b)))
                         [0 .. csize b + n - clength b - 1]
                  else []);
          d = write_up (clength b) (cend b + 1) args (cdata b);
          s = (if csize b < clength b
               then (if csize b + n > clength b then clength b else csize b + n)
               else csize b);
          e = js_rem (cend b + n) (clength b);
          st = js_rem (clength b + e - s + 1) (clength b)
      in (s, lost, b\<lparr>cdata := d, csize := s, cend := e, cstart := st\<rparr>))"

datatype 'a ctor_args = NoArgument | OneNumber int | ItemArgs "'a option list"

text \<open>\<open>ItemArgs\<close>: more than one argument, or a single one that is no number.\<close>

definition cb_empty_of :: "int \<Rightarrow> 'a cbuffer" where
  "cb_empty_of n = \<lparr>csize = 0, cstart = 0, cend = n - 1, clength = n,
     cdata = replicate (nat n) None, coverflow = False\<rparr>"

definition cb_new :: "'a ctor_args \<Rightarrow> string + 'a cbuffer" where
  "cb_new args =
     (case args of
        NoArgument \<Rightarrow> Inl ''Missing Argument: You must pass a valid buffer length''
      | OneNumber n \<Rightarrow> if n < 0 then Inl ''RangeError: Invalid array length'' else Inr (cb_empty_of n)
      | ItemArgs xs \<Rightarrow> Inr (snd (snd (cb_push xs (cb_empty_of (int (length xs)))))))"

fun reverse_loop :: "nat \<Rightarrow> int \<Rightarrow> 'a cbuffer \<Rightarrow> 'a cbuffer" where
  "reverse_loop 0 i b = b"
| "reverse_loop (Suc k) i b =
     (let p = js_rem (cstart b + i) (clength b);
          q = js_rem (cstart b + (csize b - i - 1)) (clength b);
          tmp = cell (cdata b) p;
          d = put_cell q tmp (put_cell p (cell (cdata b) q) (cdata b))
      in reverse_loop k (i + 1) (b\<lparr>cdata := d\<rparr>))"

definition cb_reverse :: "'a cbuffer \<Rightarrow> 'a cbuffer" where
  "cb_reverse b = reverse_loop (nat (csize b div 2)) 0 b"

definition cb_shift :: "'a cbuffer \<Rightarrow> 'a option \<times> 'a cbuffer" where
  "cb_shift b =
     (if csize b = 0 then (None, b)
      else (cell (cdata b) (cstart b),
            b\<lparr>cstart := js_rem (cstart b + 1) (clength b), csize := csize b - 1\<rparr>))"

fun write_down :: "int \<Rightarrow> int \<Rightarrow> int \<Rightarrow> 'a option list \<Rightarrow> 'a option list \<Rightarrow> 'a option list" where
  "write_down len s i [] d = d"
| "write_down len s i (x # xs) d =
     write_down len s (i + 1) xs (put_cell (js_rem (len + s - js_rem i len - 1) len) x d)"

definition cb_unshift :: "'a option list \<Rightarrow> 'a cbuffer \<Rightarrow> int \<times> 'a option list \<times> 'a cbuffer" where
  "cb_unshift args b =
     (let n = int (length args);
          lost = (if coverflow b \<and> csize b + n > clength b
                  then map (\<lambda>i. cell (cdata b) (cend b - js_rem i (clength b)))
                         [0 .. csize b + n - clength b - 1]
                  else []);
          d = write_down (clength b) (cstart b) 0 args (cdata b);
          e = (if clength b - csize b - n < 0
               then let e1 = cend b + (clength b - csize b - n)
                    in if e1 < 0 then clength b + js_rem e1 (clength b) else e1
               else cend b);
          s = (if csize b < clength b
               then (if csize b + n > clength b then clength b else csize b + n)
               else csize b);
          st1 = cstart b - n;
          st = (if st1 < 0 then clength b + js_rem st1 (clength b) else st1)
      in (s, lost, b\<lparr>cdata := d, cend := e, csize := s, cstart := st\<rparr>))"

fun rotate_left_loop :: "nat \<Rightarrow> 'a cbuffer \<Rightarrow> 'a cbuffer" where
  "rotate_left_loop 0 b = b"
| "rotate_left_loop (Suc k) b =
     (let (item, b1) = cb_shift b in rotate_left_loop k (snd (snd (cb_push [item] b1))))"

fun rotate_right_loop :: "nat \<Rightarrow> 'a cbuffer \<Rightarrow> 'a cbuffer" where
  "rotate_right_loop 0 b = b"
| "rotate_right_loop (Suc k) b =
     (let (item, b1) = cb_pop b in rotate_right_loop k (snd (snd (cb_unshift [item] b1))))"

text \<open>The argument of the rotations: absent, a number, or something else, which throws.\<close>

datatype rotate_arg = NoCount | Count int | BadCount

definition cb_rotateLeft :: "rotate_arg \<Rightarrow> 'a cbuffer \<Rightarrow> string + 'a cbuffer" where
  "cb_rotateLeft a b =
     (case a of
        NoCount \<Rightarrow> Inr (rotate_left_loop 1 b)
      | Count n \<Rightarrow> Inr (rotate_left_loop (nat n) b)
      | BadCount \<Rightarrow> Inl ''Argument must be a number'')"

definition cb_rotateRight :: "rotate_arg \<Rightarrow> 'a cbuffer \<Rightarrow> string + 'a cbuffer" where
  "cb_rotateRight a b =
     (case a of
        NoCount \<Rightarrow> Inr (rotate_right_loop 1 b)
      | Count n \<Rightarrow> Inr (rotate_right_loop (nat n) b)
      | BadCount \<Rightarrow> Inl ''Argument must be a number'')"

text \<open>\<open>Array.prototype.sort\<close>: the values in comparator order, then the undefined cells.\<close>

definition array_sort :: "'a comparator \<Rightarrow> 'a option list \<Rightarrow> 'a option list" where
  "array_sort fn d =
     (let vs = map the (filter (\<lambda>c. c \<noteq> None) d)
      in map Some (sort fn vs) @ replicate (length d - length vs) None)"

definition cb_sort :: "'a comparator \<Rightarrow> 'a cbuffer \<Rightarrow> 'a cbuffer" where
  "cb_sort fn b = b\<lparr>cdata := array_sort fn (cdata b), cstart := 0, cend := csize b - 1\<rparr>"

function index_loop :: "'a option \<Rightarrow> int \<Rightarrow> 'a cbuffer \<Rightarrow> int" where
  "index_loop arg idx b =
     (if idx < csize b
      then if cell (cdata b) (js_rem (cstart b + idx) (clength b)) = arg then idx
           else index_loop arg (idx + 1) b
      else - 1)"
  by pat_completeness auto
termination by (relation "measure (\<lambda>(arg, idx, b). nat (csize b - idx))") auto

function last_index_loop :: "'a option \<Rightarrow> int \<Rightarrow> 'a cbuffer \<Rightarrow> int" where
  "last_index_loop arg idx b =
     (if idx \<ge> 0
      then if cell (cdata b) (js_rem (cstart b + idx) (clength b)) = arg then idx
           else last_index_loop arg (idx - 1) b
      else - 1)"
  by pat_completeness auto
termination by (relation "measure (\<lambda>(arg, idx, b). nat (idx + 1))") auto

declare index_loop.simps [simp del] last_index_loop.simps [simp del]

definition cb_indexOf :: "'a option \<Rightarrow> int option \<Rightarrow> 'a cbuffer \<Rightarrow> int" where
  "cb_indexOf arg idx b = index_loop arg (case idx of None \<Rightarrow> 0 | Some i \<Rightarrow> i) b"

definition cb_lastIndexOf :: "'a option \<Rightarrow> int option \<Rightarrow> 'a cbuffer \<Rightarrow> int" where
  "cb_lastIndexOf arg idx b =
     last_index_loop arg
       (case idx of None \<Rightarrow> csize b - 1 | Some i \<Rightarrow> if i = 0 then csize b - 1 else i) b"

function bisect :: "('a option \<Rightarrow> int) \<Rightarrow> 'a option list \<Rightarrow> int \<Rightarrow> int \<Rightarrow> int" where
  "bisect cmp d low high =
     (if low < high
      then let mid = (low + high) div 2
           in if cmp (cell d mid) > 0 then bisect cmp d (mid + 1) high else bisect cmp d low mid
      else low)"
  by pat_completeness auto
termination by (relation "measure (\<lambda>(cmp, d, low, high). nat (high - low))") auto

declare bisect.simps [simp del]

text \<open>\<open>comparitor value\<close> is given as \<open>cmp\<close>, the comparison of the value with a cell.\<close>

definition cb_sortedIndex :: "('a option \<Rightarrow> int) \<Rightarrow> 'a cbuffer \<Rightarrow> int" where
  "cb_sortedIndex cmp b =
     (let isFull = (clength b = csize b);
          low = cstart b;
          high = (if isFull then csize b - 1 else csize b);
          (low, high) = (if low \<noteq> 0 \<and> cmp (cell (cdata b) high) > 0 then (0, cend b) else (low, high));
          low = bisect cmp (cdata b) low high
      in if \<not> isFull then low
         else js_rem (js_rem (low - cstart b) (csize b) + csize b) (csize b))"

definition cb_items :: "'a cbuffer \<Rightarrow> ('a option \<times> int) list" where
  "cb_items b =
     map (\<lambda>i. (cell (cdata b) (js_rem (cstart b + i) (clength b)), i)) [0 .. csize b - 1]"

definition cb_every :: "('a option \<Rightarrow> int \<Rightarrow> bool) \<Rightarrow> 'a cbuffer \<Rightarrow> bool" where
  "cb_every p b = list_all (\<lambda>(x, i). p x i) (cb_items b)"

definition cb_forEach :: "('a option \<Rightarrow> int \<Rightarrow> 's \<Rightarrow> 's) \<Rightarrow> 'a cbuffer \<Rightarrow> 's \<Rightarrow> 's" where
  "cb_forEach f b s = fold (\<lambda>(x, i). f x i) (cb_items b) s"

definition cb_some :: "('a option \<Rightarrow> int \<Rightarrow> bool) \<Rightarrow> 'a cbuffer \<Rightarrow> bool" where
  "cb_some p b = list_ex (\<lambda>(x, i). p x i) (cb_items b)"

definition cb_empty :: "'a cbuffer \<Rightarrow> 'a cbuffer" where
  "cb_empty b = b\<lparr>csize := 0, cstart := 0, cend := clength b - 1\<rparr>"

text \<open>\<open>fill\<close>: a do-while loop, so cell 0 is written before the bound is tested.\<close>

definition cb_fill :: "(nat \<Rightarrow> 'a option) \<Rightarrow> 'a cbuffer \<Rightarrow> 'a cbuffer" where
  "cb_fill arg b =
     b\<lparr>cdata := map arg [0 ..< max 1 (length (cdata b))], cstart := 0, cend := clength b - 1,
       csize := clength b\<rparr>"

definition cb_first :: "'a cbuffer \<Rightarrow> 'a option" where
  "cb_first b = cell (cdata b) (cstart b)"

definition cb_last :: "'a cbuffer \<Rightarrow> 'a option" where
  "cb_last b = cell (cdata b) (cend b)"

definition cb_get :: "int \<Rightarrow> 'a cbuffer \<Rightarrow> 'a option" where
  "cb_get arg b = cell (cdata b) (js_rem (cstart b + arg) (clength b))"

definition cb_isFull :: "'a cbuffer \<Rightarrow> bool" where
  "cb_isFull b \<longleftrightarrow> clength b = csize b"

definition cb_set :: "int \<Rightarrow> 'a option \<Rightarrow> 'a cbuffer \<Rightarrow> 'a option \<times> 'a cbuffer" where
  "cb_set idx arg b =
     (arg, b\<lparr>cdata := put_cell (js_rem (cstart b + idx) (clength b)) arg (cdata b)\<rparr>)"

definition cb_slice :: "int option \<Rightarrow> int option \<Rightarrow> 'a cbuffer \<Rightarrow> 'a option list" where
  "cb_slice start end b =
     (let len = csize b;
          s0 = (case start of None \<Rightarrow> 0 | Some s \<Rightarrow> s)
      in if s0 < 0 \<and> (case end of None \<Rightarrow> False | Some e \<Rightarrow> s0 \<ge> e) then []
         else let s = (if s0 < 0 then (if - s0 > len then 0 else len + s0) else s0);
                  e = (case end of
                         None \<Rightarrow> len
                       | Some e \<Rightarrow> if e > len then len else if e < 0 then e + len else e);
                  n = (if s < e then e - s else 0)
              in map (\<lambda>i. cell (cdata b) (js_rem (cstart b + s + i) (clength b))) [0 .. n - 1])"

definition cb_toArray :: "'a cbuffer \<Rightarrow> 'a option list" where
  "cb_toArray b = cb_slice None None b"

text \<open>The statistics work on buffers of numbers; an undefined cell counts as NaN.\<close>

definition cell_num :: "jsnum option \<Rightarrow> jsnum" where
  "cell_num c = (case c of None \<Rightarrow> NaN | Some n \<Rightarrow> n)"

definition cb_sum :: "jsnum cbuffer \<Rightarrow> jsnum" where
  "cb_sum b = fold (\<lambda>index s. s + cell_num (cell (cdata b) index)) (rev [0 .. csize b - 1]) 0"

definition cb_avg :: "jsnum cbuffer \<Rightarrow> jsnum" where
  "cb_avg b = (if csize b = 0 then 0 else cb_sum b / Fin (of_int (csize b)))"

definition cb_median :: "jsnum comparator \<Rightarrow> jsnum cbuffer \<Rightarrow> jsnum" where
  "cb_median cmp b =
     (if csize b = 0 then 0
      else let values = array_sort cmp (cb_slice None None b);
               half = int (length values) div 2
           in if int (length values) mod 2 \<noteq> 0 then cell_num (cell values half)
              else (cell_num (cell values (half - 1)) + cell_num (cell values half)) / 2)"

subsection \<open>The contents of a buffer and the well-formedness invariant\<close>

definition contents :: "'a cbuffer \<Rightarrow> 'a option list" where
  "contents b =
     map (\<lambda>i. cell (cdata b) ((cstart b + int i) mod clength b)) [0 ..< nat (csize b)]"

definition cb_ok :: "'a cbuffer \<Rightarrow> bool" where
  "cb_ok b \<longleftrightarrow>
     0 < clength b \<and> length (cdata b) = nat (clength b) \<and> 0 \<le> csize b \<and> csize b \<le> clength b \<and>
     0 \<le> cstart b \<and> cstart b < clength b \<and> cend b = (cstart b + csize b - 1) mod clength b"

abbreviation pushed :: "'a option list \<Rightarrow> 'a cbuffer \<Rightarrow> 'a cbuffer" where
  "pushed xs b \<equiv> snd (snd (cb_push xs b))"

abbreviation unshifted :: "'a option list \<Rightarrow> 'a cbuffer \<Rightarrow> 'a cbuffer" where
  "unshifted xs b \<equiv> snd (snd (cb_unshift xs b))"

lemma cb_okD:
  assumes "cb_ok b"
  shows "0 < clength b" "length (cdata b) = nat (clength b)" "0 \<le> csize b" "csize b \<le> clength b"
    "0 \<le> cstart b" "cstart b < clength b" "cend b = (cstart b + csize b - 1) mod clength b"
    "0 \<le> cend b" "cend b < clength b"
  using assms by (simp_all add: cb_ok_def)

lemma length_contents [simp]: "length (contents b) = nat (csize b)"
  by (simp add: contents_def)

lemma contents_nth:
  "i < nat (csize b) \<Longrightarrow> contents b ! i = cell (cdata b) ((cstart b + int i) mod clength b)"
  by (simp add: contents_def)

lemma length_put_cell [simp]: "length (put_cell i v d) = length d"
  by (simp add: put_cell_def)

lemma length_write_up [simp]: "length (write_up len p xs d) = length d"
  by (induction xs arbitrary: p d) simp_all

lemma length_write_down [simp]: "length (write_down len s i xs d) = length d"
  by (induction xs arbitrary: i d) simp_all

lemma cell_put_cell:
  "0 \<le> i \<Longrightarrow> i < int (length d) \<Longrightarrow> cell (put_cell i v d) j = (if j = i then v else cell d j)"
  by (auto simp: cell_def put_cell_def nth_list_update)

lemma mod_inj_window:
  assumes "0 < len" "0 \<le> i" "i < len" "0 \<le> j" "j < len" "(s + i) mod len = (s + j) mod (len :: int)"
  shows "i = j"
proof -
  from assms(6) have "(s + i - s) mod len = (s + j - s) mod len" by (metis mod_diff_left_eq)
  with assms show ?thesis by simp
qed

lemma mod_window_eq:
  assumes "0 < (len :: int)" "0 \<le> i" "i < len" "0 \<le> j" "j < len"
  shows "(s + i) mod len = (s + j) mod len \<longleftrightarrow> i = j"
  using mod_inj_window [OF assms] by blast

lemma contents_eqI:
  assumes "nat (csize b) = length xs"
    and "\<And>i. i < length xs \<Longrightarrow> cell (cdata b) ((cstart b + int i) mod clength b) = xs ! i"
  shows "contents b = xs"
  by (rule nth_equalityI) (simp_all add: assms contents_nth)

lemma mod_pull: "(len + a mod len - s + 1) mod len = (a - s + 1) mod (len :: int)"
proof -
  have "(len + a mod len - s + 1) mod len = ((1 - s + len) + a mod len) mod len"
    by (simp add: algebra_simps)
  also have "\<dots> = (1 - s + len + a) mod len" by (rule mod_add_right_eq)
  also have "1 - s + len + a = (a - s + 1) + len" by simp
  finally show ?thesis by simp
qed

text \<open>The fields and the contents after a push of one item.\<close>

lemma push_fields:
  "cdata (pushed xs b) = write_up (clength b) (cend b + 1) xs (cdata b)"
  "csize (pushed xs b) = (if csize b < clength b
     then if csize b + int (length xs) > clength b then clength b else csize b + int (length xs)
     else csize b)"
  "cend (pushed xs b) = js_rem (cend b + int (length xs)) (clength b)"
  "cstart (pushed xs b) =
     js_rem (clength b + cend (pushed xs b) - csize (pushed xs b) + 1) (clength b)"
  "clength (pushed xs b) = clength b"
  "coverflow (pushed xs b) = coverflow b"
  "cbuffer.more (pushed xs b) = cbuffer.more b"
  "fst (cb_push xs b) = csize (pushed xs b)"
  "fst (snd (cb_push xs b)) =
     (if coverflow b \<and> csize b + int (length xs) > clength b
      then map (\<lambda>i. cell (cdata b) (js_rem (cend b + i + 1) (clength b)))
             [0 .. csize b + int (length xs) - clength b - 1]
      else [])"
  by (simp_all add: cb_push_def Let_def)

lemma push_one_fields:
  assumes "cb_ok b"
  shows "cdata (pushed [x] b) = put_cell ((cend b + 1) mod clength b) x (cdata b)"
    "csize (pushed [x] b) = (if csize b < clength b then csize b + 1 else csize b)"
    "cend (pushed [x] b) = (cend b + 1) mod clength b"
    "cstart (pushed [x] b) = (if csize b < clength b then cstart b else (cstart b + 1) mod clength b)"
    "clength (pushed [x] b) = clength b"
    "coverflow (pushed [x] b) = coverflow b"
proof -
  note ok = cb_okD [OF assms]
  let ?L = "clength b"
  let ?s = "if csize b < ?L then csize b + 1 else csize b"
  have e: "(cend b + 1) mod ?L = (cstart b + csize b) mod ?L"
    unfolding ok(7) by (simp add: mod_simps)
  have en: "0 \<le> (cend b + 1) mod ?L" "(cend b + 1) mod ?L < ?L" using ok(1) by simp_all
  have s: "?s \<le> ?L" using ok by simp
  have "(?L + (cend b + 1) mod ?L - ?s + 1) mod ?L = (cstart b + csize b - ?s + 1) mod ?L"
    unfolding e by (rule mod_pull)
  also have "\<dots> = (if csize b < ?L then cstart b else (cstart b + 1) mod ?L)"
    using ok by simp
  finally have st: "(?L + (cend b + 1) mod ?L - ?s + 1) mod ?L = \<dots>" .
  show "cdata (pushed [x] b) = put_cell ((cend b + 1) mod ?L) x (cdata b)"
    "csize (pushed [x] b) = ?s" "cend (pushed [x] b) = (cend b + 1) mod ?L"
    "clength (pushed [x] b) = ?L" "coverflow (pushed [x] b) = coverflow b"
    using ok(1,8,9) by (simp_all add: push_fields(1-3,5,6))
  then have "cstart (pushed [x] b) = js_rem (?L + (cend b + 1) mod ?L - ?s + 1) ?L"
    by (simp only: push_fields(4))
  also have "\<dots> = (?L + (cend b + 1) mod ?L - ?s + 1) mod ?L"
    by (rule js_rem_nonneg) (use ok(1) en s in linarith)+
  finally show "cstart (pushed [x] b) = (if csize b < ?L then cstart b else (cstart b + 1) mod ?L)"
    using st by simp
qed

lemma push_one_ok:
  assumes "cb_ok b"
  shows "cb_ok (pushed [x] b)"
proof -
  note ok = cb_okD [OF assms]
  have e: "(cend b + 1) mod clength b = (cstart b + csize b) mod clength b"
    unfolding ok(7) by (simp add: mod_simps)
  have "((cstart b + 1) mod clength b + clength b - 1) mod clength b =
      (clength b + (cstart b + 1) mod clength b - 2 + 1) mod clength b"
    by (simp add: algebra_simps)
  also have "\<dots> = cstart b" unfolding mod_pull using ok by simp
  finally show ?thesis
    using ok unfolding cb_ok_def push_one_fields [OF assms] e by auto
qed

lemma push_one_contents:
  assumes "cb_ok b"
  shows "contents (pushed [x] b) =
    (if csize b < clength b then contents b @ [x] else tl (contents b) @ [x])"
proof (cases "csize b < clength b")
  case True
  note ok = cb_okD [OF assms]
  let ?L = "clength b"
  have e: "(cend b + 1) mod ?L = (cstart b + csize b) mod ?L"
    unfolding ok(7) by (simp add: mod_simps)
  have "contents (pushed [x] b) = contents b @ [x]"
  proof (rule contents_eqI)
    fix i assume i: "i < length (contents b @ [x])"
    with ok True have "(cstart b + int i) mod ?L = (cstart b + csize b) mod ?L \<longleftrightarrow> int i = csize b"
      by (intro mod_window_eq) auto
    with i ok True show "cell (cdata (pushed [x] b))
        ((cstart (pushed [x] b) + int i) mod clength (pushed [x] b)) = (contents b @ [x]) ! i"
      unfolding push_one_fields [OF assms] e
      by (subst cell_put_cell) (auto simp: nth_append contents_nth)
  qed (use ok True in \<open>simp add: push_one_fields [OF assms] nat_add_distrib\<close>)
  with True show ?thesis by simp
next
  case False
  note ok = cb_okD [OF assms]
  let ?L = "clength b"
  have full: "csize b = ?L" using False ok by simp
  have e: "(cend b + 1) mod ?L = (cstart b + 1 + (?L - 1)) mod ?L"
    unfolding ok(7) full by (simp add: mod_simps algebra_simps)
  have "contents (pushed [x] b) = tl (contents b) @ [x]"
  proof (rule contents_eqI)
    fix i assume i: "i < length (tl (contents b) @ [x])"
    with ok full have "(cstart b + 1 + int i) mod ?L = (cstart b + 1 + (?L - 1)) mod ?L \<longleftrightarrow> int i = ?L - 1"
      by (intro mod_window_eq) auto
    moreover have "((cstart b + 1) mod ?L + int i) mod ?L = (cstart b + 1 + int i) mod ?L"
      by (simp add: mod_simps)
    ultimately show "cell (cdata (pushed [x] b))
        ((cstart (pushed [x] b) + int i) mod clength (pushed [x] b)) = (tl (contents b) @ [x]) ! i"
      unfolding push_one_fields [OF assms] e using i ok(1-3) full False
      by (subst cell_put_cell) (auto simp: nth_append contents_nth nth_tl algebra_simps)
  qed (use ok full False in \<open>simp add: push_one_fields [OF assms]\<close>)
  with False show ?thesis by simp
qed

text \<open>Pushing several items is pushing them one by one.\<close>

lemma write_up_mod:
  assumes "0 < len" "0 \<le> p" "0 \<le> q" "p mod len = q mod len"
  shows "write_up len p xs d = write_up len q xs d"
  using assms
proof (induction xs arbitrary: p q d)
  case (Cons x xs)
  have "(p + 1) mod len = (q + 1) mod len" using Cons.prems(4) by (rule mod_add_cong) simp
  with Cons.prems Cons.IH [of "p + 1" "q + 1"] show ?case by simp
qed simp

lemma push_nil:
  assumes "cb_ok b"
  shows "pushed [] b = b"
proof -
  note ok = cb_okD [OF assms]
  have "js_rem (clength b + cend b - csize b + 1) (clength b) =
      (clength b + (cstart b + csize b - 1) mod clength b - csize b + 1) mod clength b"
    unfolding ok(7) [symmetric] by (rule js_rem_nonneg) (use ok in linarith)+
  also have "\<dots> = cstart b" unfolding mod_pull using ok by simp
  finally have "js_rem (clength b + cend b - csize b + 1) (clength b) = cstart b" .
  moreover have "js_rem (cend b) (clength b) = cend b" using ok(1,8,9) by simp
  moreover have "(if csize b < clength b then if csize b > clength b then clength b else csize b
      else csize b) = csize b" using ok(4) by simp
  ultimately show ?thesis by (simp add: cb_push_def Let_def)
qed

lemma push_cons:
  assumes "cb_ok b"
  shows "pushed (x # xs) b = pushed xs (pushed [x] b)"
proof -
  note ok = cb_okD [OF assms] and f = push_one_fields [OF assms]
  let ?L = "clength b" and ?n = "int (length xs)"
  have d: "write_up ?L (cend b + 1) (x # xs) (cdata b) =
      write_up ?L ((cend b + 1) mod ?L + 1) xs (put_cell ((cend b + 1) mod ?L) x (cdata b))"
    using ok by (simp, intro write_up_mod) (simp_all add: mod_simps add.commute add.left_commute)
  have e: "js_rem (cend b + (?n + 1)) ?L = js_rem ((cend b + 1) mod ?L + ?n) ?L"
    using ok(1,8,9) by (simp add: mod_simps add.commute add.left_commute)
  have s: "(if csize b < ?L then if csize b + (n + 1) > ?L then ?L else csize b + (n + 1)
        else csize b) =
      (if (if csize b < ?L then csize b + 1 else csize b) < ?L
       then if (if csize b < ?L then csize b + 1 else csize b) + n > ?L then ?L
            else (if csize b < ?L then csize b + 1 else csize b) + n
       else if csize b < ?L then csize b + 1 else csize b)" if "0 \<le> n" for n
    using ok(3,4) that by auto
  have n: "int (length (x # xs)) = ?n + 1" by simp
  have z: "csize (pushed (x # xs) b) = csize (pushed xs (pushed [x] b))"
    unfolding push_fields(2) [of "x # xs"] push_fields(2) [of xs] n f(2,5)
    by (rule s) simp
  have e': "cend (pushed (x # xs) b) = cend (pushed xs (pushed [x] b))"
    unfolding push_fields(3) [of "x # xs"] push_fields(3) [of xs] n f(3,5) by (rule e)
  show ?thesis
  proof (rule cbuffer.equality)
    show "cdata (pushed (x # xs) b) = cdata (pushed xs (pushed [x] b))"
      unfolding push_fields(1) [of "x # xs"] push_fields(1) [of xs] f(1,3,5) by (rule d)
    show "cstart (pushed (x # xs) b) = cstart (pushed xs (pushed [x] b))"
      unfolding push_fields(4) [of "x # xs"] push_fields(4) [of xs] z e' f(5) ..
  qed (use z e' in \<open>simp_all only: push_fields(5-7)\<close>)
qed

lemma drop_single:
  "drop (Suc (length xs) - n) [x] @ drop (length xs - n) xs = drop (Suc (length xs) - n) (x # xs)"
  by (cases "n \<le> length xs") (simp_all add: Suc_diff_le)

lemma push_contents:
  assumes "cb_ok b"
  shows "cb_ok (pushed xs b) \<and> clength (pushed xs b) = clength b \<and>
    contents (pushed xs b) =
      drop (length (contents b @ xs) - nat (clength b)) (contents b @ xs)"
  using assms
proof (induction xs arbitrary: b)
  case Nil
  with cb_okD(4) [OF Nil] show ?case by (simp add: push_nil)
next
  case (Cons x xs)
  note ok = cb_okD [OF Cons.prems]
  from Cons.IH [OF push_one_ok [OF Cons.prems]] ok(1,3,4) show ?case
    unfolding push_cons [OF Cons.prems, of x xs] push_one_contents [OF Cons.prems]
      push_one_fields(5) [OF Cons.prems]
    by (auto simp: drop_Suc tl_append Suc_diff_le not_less nat_diff_distrib drop_single
        split: list.splits)
qed

lemma contents_empty_iff: "cb_ok b \<Longrightarrow> contents b = [] \<longleftrightarrow> csize b = 0"
  using length_contents [of b] cb_okD(3) [of b] by (metis length_0_conv nat_0_iff order_antisym order_refl)

lemma shift_ok:
  assumes "cb_ok b"
  shows "cb_ok (snd (cb_shift b))"
proof (cases "csize b = 0")
  case True
  with assms show ?thesis by (simp add: cb_shift_def)
next
  case False
  note ok = cb_okD [OF assms]
  have "((cstart b + 1) mod clength b + (csize b - 1) - 1) mod clength b = cend b"
  proof -
    have "m + (csize b - 1) - 1 = m + (csize b - 2)" for m by simp
    then have "((cstart b + 1) mod clength b + (csize b - 1) - 1) mod clength b =
        ((cstart b + 1) mod clength b + (csize b - 2)) mod clength b" by (rule arg_cong)
    also have "\<dots> = (cstart b + 1 + (csize b - 2)) mod clength b" by (rule mod_add_left_eq)
    also have "cstart b + 1 + (csize b - 2) = cstart b + csize b - 1" by simp
    finally show ?thesis using ok(7) by simp
  qed
  with ok(1-6) False show ?thesis by (simp add: cb_shift_def cb_ok_def)
qed

lemma shift_contents:
  assumes "cb_ok b"
  shows "contents (snd (cb_shift b)) = tl (contents b)"
    and "fst (cb_shift b) = (if contents b = [] then None else hd (contents b))"
    and "clength (snd (cb_shift b)) = clength b"
proof -
  note ok = cb_okD [OF assms]
  show "contents (snd (cb_shift b)) = tl (contents b)"
  proof (rule contents_eqI)
    show "nat (csize (snd (cb_shift b))) = length (tl (contents b))"
      using ok by (simp add: cb_shift_def nat_diff_distrib)
  next
    fix i assume i: "i < length (tl (contents b))"
    then have n0: "csize b \<noteq> 0" by simp
    have "((cstart b + 1) mod clength b + int i) mod clength b = (cstart b + 1 + int i) mod clength b"
      by (rule mod_add_left_eq)
    with i n0 ok show "cell (cdata (snd (cb_shift b)))
        ((cstart (snd (cb_shift b)) + int i) mod clength (snd (cb_shift b))) = tl (contents b) ! i"
      by (simp add: cb_shift_def nth_tl contents_nth algebra_simps)
  qed
  show "fst (cb_shift b) = (if contents b = [] then None else hd (contents b))"
    using ok by (simp add: cb_shift_def contents_empty_iff [OF assms] hd_conv_nth contents_nth)
  show "clength (snd (cb_shift b)) = clength b" by (simp add: cb_shift_def)
qed

lemma pop_ok:
  assumes "cb_ok b"
  shows "cb_ok (snd (cb_pop b))"
proof (cases "csize b = 0")
  case True
  with assms show ?thesis by (simp add: cb_pop_def)
next
  case False
  note ok = cb_okD [OF assms]
  have "js_rem (cend b - 1 + clength b) (clength b) = (cend b - 1 + clength b) mod clength b"
    by (rule js_rem_nonneg) (use ok in linarith)+
  also have "\<dots> = (cend b + (- 1)) mod clength b" by simp
  also have "\<dots> = (cstart b + csize b - 1 + (- 1)) mod clength b"
    unfolding ok(7) by (rule mod_add_left_eq)
  finally have "js_rem (cend b - 1 + clength b) (clength b) =
      (cstart b + (csize b - 1) - 1) mod clength b" by (simp add: algebra_simps)
  with ok(1-6) False show ?thesis by (simp add: cb_pop_def cb_ok_def Let_def)
qed

lemma pop_contents:
  assumes "cb_ok b"
  shows "contents (snd (cb_pop b)) = butlast (contents b)"
    and "fst (cb_pop b) = (if contents b = [] then None else last (contents b))"
    and "clength (snd (cb_pop b)) = clength b"
proof -
  note ok = cb_okD [OF assms]
  show "contents (snd (cb_pop b)) = butlast (contents b)"
  proof (rule contents_eqI)
    show "nat (csize (snd (cb_pop b))) = length (butlast (contents b))"
      using ok by (simp add: cb_pop_def Let_def nat_diff_distrib)
  next
    fix i assume i: "i < length (butlast (contents b))"
    then have n0: "csize b \<noteq> 0" by simp
    have ne: "(cstart b + int i) mod clength b \<noteq> cend b"
    proof
      assume "(cstart b + int i) mod clength b = cend b"
      then have "(cstart b + int i) mod clength b = (cstart b + (csize b - 1)) mod clength b"
        using ok(7) by (simp add: algebra_simps)
      moreover have "int i < csize b - 1" using i ok by (simp add: less_diff_conv)
      ultimately show False using mod_inj_window [of "clength b" "int i" "csize b - 1" "cstart b"] ok
        by linarith
    qed
    from ok(2,8,9) have "cell (put_cell (cend b) None (cdata b)) ((cstart b + int i) mod clength b) =
        cell (cdata b) ((cstart b + int i) mod clength b)"
      by (subst cell_put_cell) (use ne in auto)
    with i n0 show "cell (cdata (snd (cb_pop b)))
        ((cstart (snd (cb_pop b)) + int i) mod clength (snd (cb_pop b))) = butlast (contents b) ! i"
      by (simp add: cb_pop_def Let_def nth_butlast contents_nth)
  qed
  show "fst (cb_pop b) = (if contents b = [] then None else last (contents b))"
    using ok by (simp add: cb_pop_def Let_def contents_empty_iff [OF assms] last_conv_nth contents_nth
        of_nat_diff algebra_simps)
  show "clength (snd (cb_pop b)) = clength b" by (simp add: cb_pop_def Let_def)
qed
text \<open>
  Adding items at the front: fewer items than the buffer has cells.  With exactly as many, the
  code's \<open>this.start\<close> can become \<open>length\<close> (\<open>unshift_full_breaks\<close> below).
\<close>

lemma write_down_mod:
  assumes "0 < len" "0 \<le> s" "0 \<le> t" "0 \<le> i" "i + int (length xs) \<le> len" "0 \<le> j" "j + int (length xs) \<le> len"
    and "(s - i) mod len = (t - j) mod len"
  shows "write_down len s i xs d = write_down len t j xs d"
  using assms
proof (induction xs arbitrary: i j d)
  case (Cons x xs)
  have "js_rem (len + s - js_rem i len - 1) len = (len + s - i - 1) mod len"
    using Cons.prems by simp
  also have "\<dots> = ((s - i) + (len - 1)) mod len" by (simp add: algebra_simps)
  also have "\<dots> = ((t - j) + (len - 1)) mod len" by (rule mod_add_cong [OF Cons.prems(8) refl])
  also have "\<dots> = (len + t - j - 1) mod len" by (simp add: algebra_simps)
  also have "\<dots> = js_rem (len + t - js_rem j len - 1) len"
    using Cons.prems by simp
  finally have "js_rem (len + s - js_rem i len - 1) len = js_rem (len + t - js_rem j len - 1) len" .
  moreover have "(s - (i + 1)) mod len = (t - (j + 1)) mod len"
    using mod_diff_cong [OF Cons.prems(8) refl, of 1] by (simp add: algebra_simps)
  ultimately show ?case using Cons.prems Cons.IH [of "i + 1" "j + 1"] by simp
qed simp

lemma js_rem_small_neg: "- b < a \<Longrightarrow> a < 0 \<Longrightarrow> js_rem a b = a"
  by (simp add: js_rem_def sgn_if)

lemma unshift_fields:
  assumes "cb_ok b" "int (length xs) < clength b"
  shows "cdata (unshifted xs b) = write_down (clength b) (cstart b) 0 xs (cdata b)"
    "csize (unshifted xs b) = min (clength b) (csize b + int (length xs))"
    "cstart (unshifted xs b) = (cstart b - int (length xs)) mod clength b"
    "cend (unshifted xs b) =
      (if csize b + int (length xs) > clength b
       then (cend b + (clength b - csize b - int (length xs))) mod clength b else cend b)"
    "clength (unshifted xs b) = clength b"
proof -
  note ok = cb_okD [OF assms(1)]
  let ?L = "clength b" and ?n = "int (length xs)"
  have m: "(if a < 0 then ?L + js_rem a ?L else a) = a mod ?L" if "- ?L < a" "a < ?L" for a
  proof (cases "a < 0")
    case True
    with that have "a mod ?L = (a + ?L) mod ?L" by simp
    also have "\<dots> = a + ?L" using that True by (intro mod_pos_pos_trivial) auto
    finally show ?thesis using that True by (simp add: js_rem_small_neg)
  next
    case False
    with that show ?thesis by simp
  qed
  show "cdata (unshifted xs b) = write_down ?L (cstart b) 0 xs (cdata b)"
    "csize (unshifted xs b) = min ?L (csize b + ?n)" "clength (unshifted xs b) = ?L"
    using ok by (simp_all add: cb_unshift_def Let_def)
  show "cstart (unshifted xs b) = (cstart b - ?n) mod ?L"
    using m [of "cstart b - ?n"] ok assms(2) by (simp add: cb_unshift_def Let_def)
  have "?L - csize b - ?n < 0 \<longleftrightarrow> csize b + ?n > ?L" by linarith
  then show "cend (unshifted xs b) =
      (if csize b + ?n > ?L then (cend b + (?L - csize b - ?n)) mod ?L else cend b)"
    using m [of "cend b + (?L - csize b - ?n)"] ok(1-6,8,9) assms(2)
    by (simp add: cb_unshift_def Let_def)
qed

lemma unshift_ok:
  assumes "cb_ok b" "int (length xs) < clength b"
  shows "cb_ok (unshifted xs b)"
proof -
  note ok = cb_okD [OF assms(1)] and f = unshift_fields [OF assms]
  let ?L = "clength b" and ?n = "int (length xs)" and ?s = "min (clength b) (csize b + int (length xs))"
  have r: "((cstart b - ?n) mod ?L + ?s - 1) mod ?L = (cstart b - ?n + (?s - 1)) mod ?L"
    using mod_add_left_eq [of "cstart b - ?n" ?L "?s - 1"] by (simp add: algebra_simps)
  have "cend (unshifted xs b) = (cstart b - ?n + (?s - 1)) mod ?L"
  proof (cases "csize b + ?n > ?L")
    case True
    have "(cend b + (?L - csize b - ?n)) mod ?L = (cstart b + csize b - 1 + (?L - csize b - ?n)) mod ?L"
      unfolding ok(7) by (rule mod_add_left_eq)
    with True show ?thesis by (simp add: f algebra_simps)
  next
    case False
    with ok show ?thesis by (simp add: f algebra_simps)
  qed
  with ok(1-6) r show ?thesis unfolding cb_ok_def f by simp
qed

lemma unshift_cons:
  assumes "cb_ok b" "int (length (x # xs)) < clength b"
  shows "unshifted (x # xs) b = unshifted xs (unshifted [x] b)"
proof -
  note ok = cb_okD [OF assms(1)]
  have one: "int (length [x]) < clength b" using assms by simp
  note f1 = unshift_fields [OF assms(1) one] and f = unshift_fields [OF assms]
  have lt: "int (length xs) < clength (unshifted [x] b)" using assms f1 by simp
  note g = unshift_fields [OF unshift_ok [OF assms(1) one] lt]
  let ?L = "clength b"
  have d: "write_down ?L (cstart b) 0 (x # xs) (cdata b) =
      write_down ?L ((cstart b - 1) mod ?L) 0 xs (write_down ?L (cstart b) 0 [x] (cdata b))"
    using ok(1,5,6) assms(2)
    by (simp, intro write_down_mod) (simp_all add: mod_simps)
  have okx: "cb_ok (unshifted (x # xs) b)" "cb_ok (unshifted xs (unshifted [x] b))"
    using unshift_ok [OF assms] unshift_ok [OF unshift_ok [OF assms(1) one] lt] by auto
  have st: "(cstart b - int (length (x # xs))) mod ?L =
      ((cstart b - int (length [x])) mod ?L - int (length xs)) mod ?L"
    by (simp add: mod_simps algebra_simps)
  show ?thesis
  proof (rule cbuffer.equality)
    show "cdata (unshifted (x # xs) b) = cdata (unshifted xs (unshifted [x] b))"
      using d by (simp add: f g f1)
    show st': "cstart (unshifted (x # xs) b) = cstart (unshifted xs (unshifted [x] b))"
      unfolding f g f1 by (rule st)
    show sz: "csize (unshifted (x # xs) b) = csize (unshifted xs (unshifted [x] b))"
      unfolding f g f1 using ok(3,4) by simp
    show ln: "clength (unshifted (x # xs) b) = clength (unshifted xs (unshifted [x] b))"
      unfolding f g f1 ..
    show "cend (unshifted (x # xs) b) = cend (unshifted xs (unshifted [x] b))"
      using cb_okD(7) [OF okx(1)] cb_okD(7) [OF okx(2)] st' sz ln by simp
  qed (simp_all add: cb_unshift_def Let_def)
qed

lemma unshift_nil: "cb_ok b \<Longrightarrow> unshifted [] b = b"
  using cb_okD [of b] by (intro cbuffer.equality) (simp_all add: cb_unshift_def Let_def)

lemma unshift_one_contents:
  assumes "cb_ok b" "1 < clength b"
  shows "contents (unshifted [x] b) = take (nat (clength b)) (x # contents b)"
proof (rule contents_eqI)
  note ok = cb_okD [OF assms(1)]
  have one: "int (length [x]) < clength b" using assms by simp
  note f = unshift_fields [OF assms(1) one]
  let ?L = "clength b"
  show "nat (csize (unshifted [x] b)) = length (take (nat ?L) (x # contents b))"
    using ok unfolding f by auto
  fix i assume i: "i < length (take (nat ?L) (x # contents b))"
  have w: "write_down ?L (cstart b) 0 [x] (cdata b) = put_cell ((cstart b - 1) mod ?L) x (cdata b)"
    using ok(1,5) mod_add_self1 [of ?L "cstart b - 1"] by (simp add: add_diff_eq)
  have pos: "((cstart b - int (length [x])) mod ?L + int i) mod ?L = (cstart b - 1 + int i) mod ?L"
    by (simp add: mod_simps)
  have eq: "(cstart b - 1 + int i) mod ?L = (cstart b - 1 + 0) mod ?L \<longleftrightarrow> int i = 0"
    by (rule mod_window_eq) (use ok i in auto)
  have c: "cell (put_cell ((cstart b - 1) mod ?L) x (cdata b)) ((cstart b - 1 + int i) mod ?L) =
      (if int i = 0 then x else cell (cdata b) ((cstart b - 1 + int i) mod ?L))"
    by (subst cell_put_cell) (use ok eq in auto)
  show "cell (cdata (unshifted [x] b))
      ((cstart (unshifted [x] b) + int i) mod clength (unshifted [x] b)) =
      take (nat ?L) (x # contents b) ! i"
    unfolding f pos w c using i by (cases i) (auto simp: contents_nth)
qed

lemma unshift_contents:
  assumes "cb_ok b" "int (length xs) < clength b"
  shows "contents (unshifted xs b) = take (nat (clength b)) (rev xs @ contents b)"
  using assms
proof (induction xs arbitrary: b)
  case Nil
  with cb_okD(3,4) [OF Nil(1)] show ?case by (simp add: unshift_nil)
next
  case (Cons x xs)
  have one: "int (length [x]) < clength b" "1 < clength b" using Cons.prems by simp_all
  note ok1 = unshift_ok [OF Cons.prems(1) one(1)]
  have l1: "clength (unshifted [x] b) = clength b"
    using unshift_fields(5) [OF Cons.prems(1) one(1)] .
  have "contents (unshifted xs (unshifted [x] b)) =
      take (nat (clength b)) (rev xs @ contents (unshifted [x] b))"
    using Cons.IH [OF ok1] Cons.prems(2) l1 by simp
  also have "\<dots> = take (nat (clength b)) (rev (x # xs) @ contents b)"
    unfolding unshift_one_contents [OF Cons.prems(1) one(2)] by simp
  finally show ?case unfolding unshift_cons [OF Cons.prems] .
qed
text \<open>The overflow callback sees what a push evicts, when the buffer is full.\<close>

lemma push_lost_full:
  assumes "cb_ok b" "coverflow b" "csize b = clength b" "length xs \<le> length (contents b)"
  shows "fst (snd (cb_push xs b)) = take (length xs) (contents b)"
proof (rule nth_equalityI)
  note ok = cb_okD [OF assms(1)]
  show "length (fst (snd (cb_push xs b))) = length (take (length xs) (contents b))"
    using assms ok(1,3) by (simp add: push_fields)
  fix i assume "i < length (fst (snd (cb_push xs b)))"
  with assms ok(1,3) have i: "i < length xs" "i < nat (csize b)"
    by (simp_all add: push_fields split: if_splits)
  have "js_rem (cend b + int i + 1) (clength b) = (cend b + (int i + 1)) mod clength b"
    using ok(1,8,9) by (simp add: add.assoc)
  also have "\<dots> = (cstart b + csize b - 1 + (int i + 1)) mod clength b"
    unfolding ok(7) by (rule mod_add_left_eq)
  also have "\<dots> = (cstart b + int i) mod clength b"
    using assms(3) mod_add_self2 [of "cstart b + int i" "clength b"] by (simp add: algebra_simps)
  finally have p: "js_rem (cend b + int i + 1) (clength b) = (cstart b + int i) mod clength b" .
  have "xs \<noteq> []" using i(1) by auto
  then have "fst (snd (cb_push xs b)) ! i = cell (cdata b) (js_rem (cend b + int i + 1) (clength b))"
    using assms i by (simp add: push_fields nth_upto)
  with p i show "fst (snd (cb_push xs b)) ! i = take (length xs) (contents b) ! i"
    by (simp add: contents_nth)
qed

text \<open>
  When it was not full, the code reports the cells after the newest item: first the free ones, with
  whatever they hold, then the items from the oldest one.
\<close>

definition free_cells :: "'a cbuffer \<Rightarrow> 'a option list" where
  "free_cells b =
     map (\<lambda>i. cell (cdata b) ((cstart b + csize b + int i) mod clength b)) [0 ..< nat (clength b - csize b)]"

lemma after_newest:
  assumes "cb_ok b"
  shows "cell (cdata b) (js_rem (cend b + int i + 1) (clength b)) =
           (free_cells b @ contents b) ! (i mod nat (clength b))"
proof -
  note ok = cb_okD [OF assms]
  define L m j where "L = nat (clength b)" and "m = nat (csize b)" and "j = i mod L"
  have L: "int L = clength b" "int m = csize b" "m \<le> L" "j < L"
    using ok(1,3,4) by (simp_all add: L_def m_def j_def)
  have "js_rem (cend b + int i + 1) (clength b) = (cend b + (int i + 1)) mod clength b"
    using ok(1,8,9) by (simp add: add.assoc)
  also have "\<dots> = (cstart b + csize b - 1 + (int i + 1)) mod clength b"
    unfolding ok(7) by (rule mod_add_left_eq)
  also have "\<dots> = (cstart b + csize b + int j) mod clength b"
    unfolding j_def zmod_int L(1)
    using mod_add_right_eq [of "cstart b + csize b" "int i" "clength b"] by (simp add: add.assoc)
  finally have p: "js_rem (cend b + int i + 1) (clength b) = (cstart b + csize b + int j) mod clength b" .
  have f: "length (free_cells b) = L - m" unfolding free_cells_def length_map length_upt using L by linarith
  show ?thesis
  proof (cases "j < L - m")
    case True
    then show ?thesis
      using p f L by (simp add: nth_append j_def [symmetric] L_def [symmetric]) (simp add: free_cells_def)
  next
    case False
    have "cstart b + csize b + int j = cstart b + int (j - (L - m)) + clength b"
      using False L by linarith
    then have "(cstart b + csize b + int j) mod clength b = (cstart b + int (j - (L - m))) mod clength b"
      by (simp only: mod_add_self2)
    moreover have "j - (L - m) < nat (csize b)" using False L by linarith
    ultimately show ?thesis
      using p f False by (simp add: nth_append j_def [symmetric] L_def [symmetric] contents_nth)
  qed
qed

lemma push_lost:
  assumes "cb_ok b"
  shows "length (fst (snd (cb_push xs b))) =
           (if coverflow b then length (contents b @ xs) - nat (clength b) else 0)"
    and "\<forall>i < length (fst (snd (cb_push xs b))).
           fst (snd (cb_push xs b)) ! i = (free_cells b @ contents b) ! (i mod nat (clength b))"
proof -
  note ok = cb_okD [OF assms]
  have l: "fst (snd (cb_push xs b)) =
      (if coverflow b \<and> csize b + int (length xs) > clength b
       then map (\<lambda>i. cell (cdata b) (js_rem (cend b + i + 1) (clength b)))
              [0 .. csize b + int (length xs) - clength b - 1] else [])"
    by (simp add: cb_push_def Let_def)
  show "length (fst (snd (cb_push xs b))) =
      (if coverflow b then length (contents b @ xs) - nat (clength b) else 0)"
    unfolding l using ok(1,3,4) by auto
  show "\<forall>i < length (fst (snd (cb_push xs b))).
      fst (snd (cb_push xs b)) ! i = (free_cells b @ contents b) ! (i mod nat (clength b))"
    unfolding l by (auto simp: nth_upto after_newest [OF assms])
qed

lemma push_result:
  assumes "cb_ok b"
  shows "fst (cb_push xs b) = int (length (contents (pushed xs b)))"
proof -
  have "fst (cb_push xs b) = csize (pushed xs b)" by (simp add: cb_push_def Let_def)
  moreover have "0 \<le> csize (pushed xs b)" using push_contents [OF assms, of xs] by (auto dest: cb_okD(3))
  ultimately show ?thesis by simp
qed

lemma cell_window:
  assumes "cb_ok b" "0 \<le> i" "i < csize b"
  shows "cell (cdata b) (js_rem (cstart b + i) (clength b)) = contents b ! nat i"
  using assms cb_okD [OF assms(1)] by (simp add: contents_nth)

lemma items_contents:
  assumes "cb_ok b"
  shows "cb_items b = zip (contents b) (map int [0 ..< length (contents b)])"
proof (rule nth_equalityI)
  show "length (cb_items b) = length (zip (contents b) (map int [0 ..< length (contents b)]))"
    by (simp add: cb_items_def)
  fix i assume "i < length (cb_items b)"
  then have i: "i < nat (csize b)" by (simp add: cb_items_def)
  with cell_window [OF assms, of "int i"]
  show "cb_items b ! i = zip (contents b) (map int [0 ..< length (contents b)]) ! i"
    by (simp add: cb_items_def nth_upto)
qed

lemma get_contents: "cb_ok b \<Longrightarrow> 0 \<le> i \<Longrightarrow> i < csize b \<Longrightarrow> cb_get i b = contents b ! nat i"
  by (simp add: cb_get_def cell_window)

lemma first_contents: "cb_ok b \<Longrightarrow> 0 < csize b \<Longrightarrow> cb_first b = hd (contents b)"
  using get_contents [of b 0] cb_okD [of b]
  by (simp add: cb_first_def cb_get_def hd_conv_nth contents_empty_iff)

lemma last_contents: "cb_ok b \<Longrightarrow> 0 < csize b \<Longrightarrow> cb_last b = last (contents b)"
  using pop_contents(2) [of b] by (simp add: cb_last_def cb_pop_def Let_def contents_empty_iff)

lemma set_contents:
  assumes "cb_ok b" "0 \<le> i" "i < csize b"
  shows "contents (snd (cb_set i v b)) = (contents b)[nat i := v]" "cb_ok (snd (cb_set i v b))"
proof -
  note ok = cb_okD [OF assms(1)]
  show "contents (snd (cb_set i v b)) = (contents b)[nat i := v]"
  proof (rule contents_eqI)
    fix j assume j: "j < length ((contents b)[nat i := v])"
    have "(cstart b + int j) mod clength b = (cstart b + i) mod clength b \<longleftrightarrow> int j = i"
      by (rule mod_window_eq) (use ok assms j in auto)
    with assms ok j show "cell (cdata (snd (cb_set i v b))) ((cstart (snd (cb_set i v b)) + int j)
        mod clength (snd (cb_set i v b))) = (contents b)[nat i := v] ! j"
      by (simp add: cb_set_def cell_put_cell nth_list_update contents_nth) auto
  qed (simp add: cb_set_def)
  show "cb_ok (snd (cb_set i v b))"
    using assms(1) by (simp add: cb_set_def cb_ok_def)
qed

text \<open>\<open>slice\<close> is \<open>Array.prototype.slice\<close> of the contents.\<close>

definition array_slice :: "int option \<Rightarrow> int option \<Rightarrow> 'a list \<Rightarrow> 'a list" where
  "array_slice s e xs =
     (let len = int (length xs);
          rel = (\<lambda>i. if i < 0 then max (len + i) 0 else min i len);
          k = rel (case s of None \<Rightarrow> 0 | Some i \<Rightarrow> i);
          f = (case e of None \<Rightarrow> len | Some i \<Rightarrow> rel i)
      in take (nat (f - k)) (drop (nat k) xs))"

lemma window_slice:
  assumes "cb_ok b" "0 \<le> s" "s \<le> csize b" "e \<le> csize b"
  shows "map (\<lambda>i. cell (cdata b) (js_rem (cstart b + s + i) (clength b))) [0 .. (if s < e then e - s else 0) - 1]
    = take (nat (e - s)) (drop (nat s) (contents b))"
proof (rule nth_equalityI)
  show "length (map (\<lambda>i. cell (cdata b) (js_rem (cstart b + s + i) (clength b)))
      [0 .. (if s < e then e - s else 0) - 1]) = length (take (nat (e - s)) (drop (nat s) (contents b)))"
    using assms by auto
  fix i assume "i < length (map (\<lambda>i. cell (cdata b) (js_rem (cstart b + s + i) (clength b)))
      [0 .. (if s < e then e - s else 0) - 1])"
  then have i: "int i < e - s" by (auto split: if_splits)
  with assms cell_window [OF assms(1), of "s + int i"]
  show "map (\<lambda>i. cell (cdata b) (js_rem (cstart b + s + i) (clength b)))
      [0 .. (if s < e then e - s else 0) - 1] ! i = take (nat (e - s)) (drop (nat s) (contents b)) ! i"
    by (simp add: nth_upto nat_add_distrib add.assoc)
qed

lemma slice_contents:
  assumes "cb_ok b"
  shows "cb_slice s e b = array_slice s e (contents b)"
proof -
  note ok = cb_okD [OF assms]
  define s0 where "s0 = (case s of None \<Rightarrow> 0 | Some i \<Rightarrow> i)"
  define s1 where "s1 = (if s0 < 0 then if - s0 > csize b then 0 else csize b + s0 else s0)"
  define e1 where "e1 = (case e of None \<Rightarrow> csize b
      | Some e \<Rightarrow> if e > csize b then csize b else if e < 0 then e + csize b else e)"
  let ?early = "s0 < 0 \<and> (case e of None \<Rightarrow> False | Some e \<Rightarrow> s0 \<ge> e)"
  let ?k = "if s0 < 0 then max (csize b + s0) 0 else min s0 (csize b)"
  let ?f = "case e of None \<Rightarrow> csize b | Some i \<Rightarrow> if i < 0 then max (csize b + i) 0 else min i (csize b)"
  have code: "cb_slice s e b = (if ?early then []
      else map (\<lambda>i. cell (cdata b) (js_rem (cstart b + s1 + i) (clength b)))
        [0 .. (if s1 < e1 then e1 - s1 else 0) - 1])"
    by (simp only: cb_slice_def Let_def s0_def s1_def e1_def)
  have spec: "array_slice s e (contents b) = take (nat (?f - ?k)) (drop (nat ?k) (contents b))"
    using ok(3) by (simp add: array_slice_def Let_def s0_def cong: option.case_cong)
  show ?thesis
  proof (cases ?early)
    case True
    then have "?f - ?k \<le> 0" using ok(3) by (auto split: option.splits)
    with True show ?thesis unfolding code spec by simp
  next
    case False
    show ?thesis
    proof (cases "s1 \<le> csize b")
      case True
      have "0 \<le> s1" "e1 \<le> csize b" using ok(3) by (auto simp: s1_def e1_def split: option.splits)
      moreover have "?k = s1" using True ok(3) by (auto simp: s1_def)
      moreover have "nat (e1 - s1) = nat (?f - s1)" using \<open>0 \<le> s1\<close>
        by (auto simp: e1_def split: option.splits)
      ultimately show ?thesis unfolding code spec using False window_slice [OF assms, of s1 e1] True
        by auto
    next
      case gt: False
      then have "\<not> s1 < e1" "?k = csize b" using ok(3) by (auto simp: s1_def e1_def split: option.splits if_splits)
      with False show ?thesis unfolding code spec by auto
    qed
  qed
qed

lemma toArray_contents: "cb_ok b \<Longrightarrow> cb_toArray b = contents b"
  by (simp add: cb_toArray_def slice_contents array_slice_def)
text \<open>\<open>reverse\<close>: each turn of the loop exchanges a pair of the contents.\<close>

lemma reverse_loop_contents:
  assumes "cb_ok b" "0 \<le> i" "i + int k \<le> csize b div 2"
  shows "cb_ok (reverse_loop k i b) \<and> csize (reverse_loop k i b) = csize b \<and>
    (\<forall>j < nat (csize b). contents (reverse_loop k i b) ! j =
      (if i \<le> int j \<and> int j < i + int k \<or> i \<le> csize b - 1 - int j \<and> csize b - 1 - int j < i + int k
       then contents b ! (nat (csize b) - 1 - j) else contents b ! j))"
  using assms
proof (induction k arbitrary: i b)
  case 0
  then show ?case by simp
next
  case (Suc k)
  note ok = cb_okD [OF Suc.prems(1)]
  let ?n = "csize b"
  let ?j = "?n - i - 1"
  have i: "i < ?n" "0 \<le> ?j" "?j < ?n" "i < ?j" using Suc.prems ok(3) by auto
  define b1 where "b1 = snd (cb_set ?j (contents b ! nat i) (snd (cb_set i (contents b ! nat ?j) b)))"
  have s1: "cb_ok (snd (cb_set i v b)) \<and> csize (snd (cb_set i v b)) = ?n \<and>
      contents (snd (cb_set i v b)) = (contents b)[nat i := v]" for v
    using set_contents [OF Suc.prems(1,2) i(1)] by (simp add: cb_set_def)
  have b1: "cb_ok b1" "contents b1 =
      (contents b)[nat i := contents b ! nat ?j, nat ?j := contents b ! nat i]" "csize b1 = ?n"
    using set_contents [of "snd (cb_set i (contents b ! nat ?j) b)" ?j] s1 i
    by (simp_all add: b1_def) (simp_all add: cb_set_def)
  have step: "reverse_loop (Suc k) i b = reverse_loop k (i + 1) b1"
    using cell_window [OF Suc.prems(1,2) i(1)] cell_window [OF Suc.prems(1) i(2,3)]
    by (simp add: b1_def cb_set_def Let_def algebra_simps)
  have IH: "cb_ok (reverse_loop k (i + 1) b1) \<and> csize (reverse_loop k (i + 1) b1) = csize b1 \<and>
    (\<forall>j < nat (csize b1). contents (reverse_loop k (i + 1) b1) ! j =
      (if i + 1 \<le> int j \<and> int j < i + 1 + int k \<or>
          i + 1 \<le> csize b1 - 1 - int j \<and> csize b1 - 1 - int j < i + 1 + int k
       then contents b1 ! (nat (csize b1) - 1 - j) else contents b1 ! j))"
    by (rule Suc.IH) (use b1 Suc.prems in auto)
  have c1: "contents b1 ! j = (if int j = i then contents b ! nat ?j
      else if int j = ?j then contents b ! nat i else contents b ! j)" if "j < nat ?n" for j
    using that Suc.prems(2) i ok(3) unfolding b1(2) by (auto simp: nth_list_update)
  show ?case
  proof (intro conjI allI impI)
    fix j assume j: "j < nat ?n"
    let ?m = "nat ?n - 1 - j"
    have m: "?m < nat ?n" "int ?m = ?n - 1 - int j" using j by (auto simp: of_nat_diff)
    have pick: "int j = i \<Longrightarrow> nat ?j = ?m" "int j = ?j \<Longrightarrow> nat i = ?m" using m Suc.prems(2) by auto
    have "contents (reverse_loop (Suc k) i b) ! j =
      (if i + 1 \<le> int j \<and> int j < i + 1 + int k \<or>
          i + 1 \<le> ?n - 1 - int j \<and> ?n - 1 - int j < i + 1 + int k
       then contents b1 ! ?m else contents b1 ! j)"
      using IH j unfolding step b1(3) by blast
    then show "contents (reverse_loop (Suc k) i b) ! j =
      (if i \<le> int j \<and> int j < i + int (Suc k) \<or> i \<le> ?n - 1 - int j \<and> ?n - 1 - int j < i + int (Suc k)
       then contents b ! ?m else contents b ! j)"
      unfolding c1 [OF j] c1 [OF m(1)] m(2) using pick i Suc.prems(3) by (auto split: if_splits)
  qed (use IH step b1 in simp_all)
qed

lemma reverse_contents:
  assumes "cb_ok b"
  shows "cb_ok (cb_reverse b)" "contents (cb_reverse b) = rev (contents b)"
proof -
  note ok = cb_okD [OF assms]
  from reverse_loop_contents [OF assms, of 0 "nat (csize b div 2)"] ok(3)
  have L: "cb_ok (cb_reverse b)" "csize (cb_reverse b) = csize b"
    "\<And>j. j < nat (csize b) \<Longrightarrow> contents (cb_reverse b) ! j =
      (if int j < csize b div 2 \<or> 0 \<le> csize b - 1 - int j \<and> csize b - 1 - int j < csize b div 2
       then contents b ! (nat (csize b) - 1 - j) else contents b ! j)"
    by (simp_all add: cb_reverse_def)
  show "cb_ok (cb_reverse b)" by (fact L(1))
  show "contents (cb_reverse b) = rev (contents b)"
  proof (rule nth_equalityI)
    fix j assume "j < length (contents (cb_reverse b))"
    then have j: "j < nat (csize b)" using L(2) by simp
    moreover have "\<not> int j < csize b div 2 \<Longrightarrow> \<not> csize b - 1 - int j < csize b div 2 \<Longrightarrow>
        nat (csize b) - 1 - j = j" using j by linarith
    ultimately show "contents (cb_reverse b) ! j = rev (contents b) ! j"
      using L(3) [OF j] by (auto simp: rev_nth)
  qed (simp add: L)
qed
text \<open>The searches.\<close>

lemma index_loop_spec:
  assumes "cb_ok b" "0 \<le> i"
  shows "index_loop x i b =
    (if \<exists>j. i \<le> int j \<and> j < length (contents b) \<and> contents b ! j = x
     then int (LEAST j. i \<le> int j \<and> j < length (contents b) \<and> contents b ! j = x) else - 1)"
  using assms
proof (induction x i b rule: index_loop.induct)
  case (1 x i b)
  show ?case
  proof (cases "i < csize b")
    case False
    then show ?thesis by (subst index_loop.simps) auto
  next
    case in_range: True
    note w = cell_window [OF "1.prems" in_range]
    show ?thesis
    proof (cases "contents b ! nat i = x")
      case True
      have "(LEAST j. i \<le> int j \<and> j < length (contents b) \<and> contents b ! j = x) = nat i"
        by (rule Least_equality) (use True in_range "1.prems" in auto)
      with True in_range w "1.prems" show ?thesis
        by (subst index_loop.simps) (auto intro!: exI [of _ "nat i"])
    next
      case False
      have "(\<lambda>j. i \<le> int j \<and> j < length (contents b) \<and> contents b ! j = x) =
          (\<lambda>j. i + 1 \<le> int j \<and> j < length (contents b) \<and> contents b ! j = x)"
      proof
        fix j
        show "(i \<le> int j \<and> j < length (contents b) \<and> contents b ! j = x) =
            (i + 1 \<le> int j \<and> j < length (contents b) \<and> contents b ! j = x)"
          using False by (cases "int j = i") auto
      qed
      then show ?thesis using "1.IH" [OF in_range] False in_range w "1.prems"
        by (subst index_loop.simps) (simp only: if_True if_False, simp)
    qed
  qed
qed

lemma bisect_spec:
  assumes "0 \<le> low" "low \<le> high"
    and "\<And>i j. low \<le> i \<Longrightarrow> i \<le> j \<Longrightarrow> j < high \<Longrightarrow> cmp (cell d j) > 0 \<Longrightarrow> cmp (cell d i) > (0 :: int)"
  shows "low \<le> bisect cmp d low high \<and> bisect cmp d low high \<le> high \<and>
    (\<forall>i. low \<le> i \<and> i < high \<longrightarrow> (cmp (cell d i) > 0 \<longleftrightarrow> i < bisect cmp d low high))"
  using assms
proof (induction cmp d low high rule: bisect.induct)
  case (1 cmp d low high)
  show ?case
  proof (cases "low < high")
    case False
    then show ?thesis using "1.prems" by (subst (1 2 3) bisect.simps) auto
  next
    case lt: True
    define mid where "mid = (low + high) div 2"
    have mid: "low \<le> mid" "mid < high" using lt by (auto simp: mid_def)
    show ?thesis
    proof (cases "cmp (cell d mid) > 0")
      case True
      have b: "bisect cmp d low high = bisect cmp d (mid + 1) high"
        using lt True by (subst bisect.simps) (simp add: mid_def)
      have IH: "mid + 1 \<le> bisect cmp d (mid + 1) high \<and> bisect cmp d (mid + 1) high \<le> high \<and>
        (\<forall>i. mid + 1 \<le> i \<and> i < high \<longrightarrow> (cmp (cell d i) > 0 \<longleftrightarrow> i < bisect cmp d (mid + 1) high))"
        by (rule "1.IH" (1) [OF lt mid_def]) (use True mid "1.prems" in \<open>auto simp: mid_def\<close>)
      have low_part: "cmp (cell d i) > 0" if "low \<le> i" "i < mid + 1" for i
        using "1.prems"(3) [of i mid] that mid True by simp
      show ?thesis unfolding b using IH low_part mid by (smt (verit))
    next
      case False
      have b: "bisect cmp d low high = bisect cmp d low mid"
        using lt False by (subst bisect.simps) (simp add: mid_def)
      have IH: "low \<le> bisect cmp d low mid \<and> bisect cmp d low mid \<le> mid \<and>
        (\<forall>i. low \<le> i \<and> i < mid \<longrightarrow> (cmp (cell d i) > 0 \<longleftrightarrow> i < bisect cmp d low mid))"
        by (rule "1.IH" (2) [OF lt mid_def]) (use False mid "1.prems" in \<open>auto simp: mid_def\<close>)
      have high_part: "\<not> cmp (cell d i) > 0" if "mid \<le> i" "i < high" for i
        using "1.prems"(3) [of mid i] that mid False by auto
      show ?thesis unfolding b using IH high_part mid by (smt (verit))
    qed
  qed
qed

text \<open>How many of the first items the value compares greater than.\<close>

definition insertion_point :: "('a \<Rightarrow> int) \<Rightarrow> 'a list \<Rightarrow> int" where
  "insertion_point cmp xs = int (length (takeWhile (\<lambda>x. cmp x > 0) xs))"

lemma insertion_pointI:
  assumes "0 \<le> k" "k \<le> int (length xs)"
    and "\<And>i. 0 \<le> i \<Longrightarrow> i < k \<Longrightarrow> cmp (xs ! nat i) > 0"
    and "k < int (length xs) \<Longrightarrow> \<not> cmp (xs ! nat k) > 0"
  shows "insertion_point cmp xs = k"
proof -
  have "takeWhile (\<lambda>x. cmp x > 0) xs = take (nat k) xs"
  proof (rule takeWhile_eq_take_P_nth)
    fix i assume "i < nat k" "i < length xs"
    with assms(3) [of "int i"] show "cmp (xs ! i) > 0" by simp
  next
    assume "nat k < length xs"
    with assms(4) show "\<not> cmp (xs ! nat k) > 0" by (simp add: nat_less_iff assms(1))
  qed
  with assms show ?thesis by (auto simp: insertion_point_def min_def)
qed

lemma min_insertion_point:
  assumes "0 < int (length xs)" "0 \<le> k" "k \<le> int (length xs) - 1"
    and "\<And>i. 0 \<le> i \<Longrightarrow> i < k \<Longrightarrow> cmp (xs ! nat i) > 0"
    and "k < int (length xs) - 1 \<Longrightarrow> \<not> cmp (xs ! nat k) > 0"
  shows "min (insertion_point cmp xs) (int (length xs) - 1) = k"
proof (cases "cmp (xs ! nat k) > 0")
  case True
  then have k: "k = int (length xs) - 1" using assms(3,5) by linarith
  have "insertion_point cmp xs = int (length xs)"
  proof (rule insertion_pointI)
    fix i assume "0 \<le> i" "i < int (length xs)"
    with True assms(4) [of i] k show "cmp (xs ! nat i) > 0" by (cases "i = k") auto
  qed simp_all
  with k show ?thesis by simp
next
  case False
  then have "insertion_point cmp xs = k" using assms by (intro insertion_pointI) auto
  with assms(3) show ?thesis by simp
qed

lemma mod_shift_neg: "- n \<le> a \<Longrightarrow> a < 0 \<Longrightarrow> a mod n = a + (n :: int)"
  using mod_add_self2 [of a n] mod_pos_pos_trivial [of "a + n" n] by simp

lemma js_rem_wrap: "0 < n \<Longrightarrow> js_rem (js_rem a n + n) n = a mod n"
proof (cases "a < 0")
  case True
  assume n: "0 < n"
  then have "0 \<le> js_rem a n + n" using True pos_mod_bound [of n "- a"]
    by (simp add: js_rem_neg less_imp_le)
  then have "js_rem (js_rem a n + n) n = (n - (- a) mod n) mod n"
    using n True by (simp add: js_rem_neg)
  also have "\<dots> = (- ((- a) mod n)) mod n" using mod_add_self1 [of n "- ((- a) mod n)"] by simp
  also have "\<dots> = a mod n" by (simp add: mod_minus_eq)
  finally show ?thesis .
qed simp

lemma phys_cell:
  assumes "cb_ok b" "csize b = clength b" "0 \<le> p" "p < clength b"
  shows "cell (cdata b) p = contents b ! nat ((p - cstart b) mod clength b)"
proof -
  have "(cstart b + (p - cstart b) mod clength b) mod clength b = p"
    using assms(3,4) by (simp add: mod_simps)
  with assms cb_okD(1) [OF assms(1)] show ?thesis by (simp add: contents_nth)
qed

lemma sortedIndex_full:
  assumes "cb_ok b" "csize b = clength b"
    and sorted: "\<And>i j. i \<le> j \<Longrightarrow> j < length (contents b) \<Longrightarrow>
      cmp (contents b ! j) > 0 \<Longrightarrow> cmp (contents b ! i) > 0"
  shows "cb_sortedIndex cmp b = min (insertion_point cmp (contents b)) (csize b - 1)"
proof -
  note ok = cb_okD [OF assms(1)]
  let ?L = "clength b" and ?s = "cstart b" and ?d = "cdata b"
  have phys: "cell ?d p = contents b ! nat (if p < ?s then p - ?s + ?L else p - ?s)"
    if "0 \<le> p" "p < ?L" for p
  proof -
    have "(p - ?s) mod ?L = (if p < ?s then p - ?s + ?L else p - ?s)"
    proof (cases "p < ?s")
      case True
      with that ok(1,6) show ?thesis by (simp add: mod_shift_neg)
    qed (use that ok in simp)
    with phys_cell [OF assms(1,2) that] show ?thesis by simp
  qed
  have srt: "cmp (contents b ! nat i) > 0"
    if "0 \<le> i" "i \<le> j" "j < ?L" "cmp (contents b ! nat j) > 0" for i j
    by (rule sorted [of "nat i" "nat j"]) (use that assms(2) in auto)
  have spec: "?thesis" if "0 \<le> r" "r < ?L" "cb_sortedIndex cmp b = (r - ?s) mod ?L"
    and k: "k = (if r < ?s then r - ?s + ?L else r - ?s)"
    and "\<And>i. 0 \<le> i \<Longrightarrow> i < k \<Longrightarrow> cmp (contents b ! nat i) > 0"
    and "k < ?L - 1 \<Longrightarrow> \<not> cmp (contents b ! nat k) > 0" for r k
  proof -
    have "(r - ?s) mod ?L = k"
    proof (cases "r < ?s")
      case True
      with that(1-4) ok(1,6) show ?thesis by (simp add: mod_shift_neg)
    qed (use that ok in simp)
    moreover have "min (insertion_point cmp (contents b)) (int (length (contents b)) - 1) = k"
      by (rule min_insertion_point) (use that ok assms(2) in \<open>auto split: if_splits\<close>)
    ultimately show ?thesis using that(3) ok(1) assms(2) by simp
  qed
  have code: "cb_sortedIndex cmp b = ((if ?s \<noteq> 0 \<and> cmp (cell ?d (?L - 1)) > 0
      then bisect cmp ?d 0 (cend b) else bisect cmp ?d ?s (?L - 1)) - ?s) mod ?L"
    using assms(2) ok(1) by (simp add: cb_sortedIndex_def Let_def js_rem_wrap)
  show ?thesis
  proof (cases "?s \<noteq> 0 \<and> cmp (cell ?d (?L - 1)) > 0")
    case True
    define r where "r = bisect cmp ?d 0 (cend b)"
    have e: "cend b = ?s - 1" using ok True assms(2) mod_add_self2 [of "?s - 1" ?L] by (simp add: algebra_simps)
    have top: "cmp (contents b ! nat (?L - 1 - ?s)) > 0" using True phys [of "?L - 1"] ok(1,5,6) by simp
    have B: "0 \<le> r \<and> r \<le> cend b \<and> (\<forall>i. 0 \<le> i \<and> i < cend b \<longrightarrow> (cmp (cell ?d i) > 0 \<longleftrightarrow> i < r))"
      unfolding r_def
    proof (rule bisect_spec)
      fix i j assume ij: "0 \<le> i" "i \<le> j" "j < cend b" "0 < cmp (cell ?d j)"
      then have "i < ?L" "j < ?L" "i < ?s" "j < ?s" using e ok(6) by auto
      with ij srt [of "i - ?s + ?L" "j - ?s + ?L"] phys [of i] phys [of j] ok(6)
      show "0 < cmp (cell ?d i)" by simp
    qed (use e ok True in auto)
    show ?thesis
    proof (rule spec [of r "r - ?s + ?L"])
      show "cb_sortedIndex cmp b = (r - ?s) mod ?L" using code True by (simp add: r_def)
      show "r - ?s + ?L = (if r < ?s then r - ?s + ?L else r - ?s)" using B e by simp
      show "0 < cmp (contents b ! nat i)" if i: "0 \<le> i" "i < r - ?s + ?L" for i
      proof (cases "i \<le> ?L - 1 - ?s")
        case True
        with srt [OF i(1) True _ top] ok(5,1) show ?thesis by linarith
      next
        case False
        then have p: "0 \<le> i + ?s - ?L" "i + ?s - ?L < r" "i + ?s - ?L < cend b" using i B e by auto
        then have "cmp (cell ?d (i + ?s - ?L)) > 0" using B by blast
        moreover have "cell ?d (i + ?s - ?L) = contents b ! nat i"
          using phys [of "i + ?s - ?L"] p e ok(6) by simp
        ultimately show ?thesis by simp
      qed
      show "\<not> 0 < cmp (contents b ! nat (r - ?s + ?L))" if "r - ?s + ?L < ?L - 1"
        using that B e phys [of r] ok(6) by auto
    qed (use B e ok in auto)
  next
    case False
    define r where "r = bisect cmp ?d ?s (?L - 1)"
    have B: "?s \<le> r \<and> r \<le> ?L - 1 \<and> (\<forall>i. ?s \<le> i \<and> i < ?L - 1 \<longrightarrow> (cmp (cell ?d i) > 0 \<longleftrightarrow> i < r))"
      unfolding r_def
    proof (rule bisect_spec)
      fix i j assume ij: "?s \<le> i" "i \<le> j" "j < ?L - 1" "0 < cmp (cell ?d j)"
      with srt [of "i - ?s" "j - ?s"] phys [of i] phys [of j] ok(5)
      show "0 < cmp (cell ?d i)" by simp
    qed (use ok in auto)
    show ?thesis
    proof (rule spec [of r "r - ?s"])
      show "cb_sortedIndex cmp b = (r - ?s) mod ?L"
        unfolding code r_def by (rule arg_cong2 [of _ _ _ _ "(mod)"]) (use False in auto)
      show "r - ?s = (if r < ?s then r - ?s + ?L else r - ?s)" using B by simp
      show "0 < cmp (contents b ! nat i)" if i: "0 \<le> i" "i < r - ?s" for i
      proof -
        have p: "?s \<le> i + ?s" "i + ?s < r" "i + ?s < ?L - 1" using i B by auto
        then have "cmp (cell ?d (i + ?s)) > 0" using B by blast
        moreover have "cell ?d (i + ?s) = contents b ! nat i" using phys [of "i + ?s"] p ok(5) by simp
        ultimately show ?thesis by simp
      qed
      show "\<not> 0 < cmp (contents b ! nat (r - ?s))" if "r - ?s < ?L - 1"
      proof (cases "r < ?L - 1")
        case True
        with B phys [of r] ok(5) show ?thesis by auto
      next
        case r: False
        with that B have "?s \<noteq> 0" "r = ?L - 1" by auto
        with False phys [of r] ok(1,5,6) show ?thesis by auto
      qed
    qed (use B ok in auto)
  qed
qed

lemma sortedIndex_unwrapped:
  assumes "cb_ok b" "csize b < clength b" "cstart b = 0"
    and sorted: "\<And>i j. i \<le> j \<Longrightarrow> j < length (contents b) \<Longrightarrow>
      cmp (contents b ! j) > 0 \<Longrightarrow> cmp (contents b ! i) > 0"
  shows "cb_sortedIndex cmp b = insertion_point cmp (contents b)"
proof -
  note ok = cb_okD [OF assms(1)]
  let ?d = "cdata b"
  have c: "cell ?d p = contents b ! nat p" if "0 \<le> p" "p < csize b" for p
    using that assms by (simp add: contents_nth)
  define r where "r = bisect cmp ?d 0 (csize b)"
  have B: "0 \<le> r \<and> r \<le> csize b \<and> (\<forall>i. 0 \<le> i \<and> i < csize b \<longrightarrow> (cmp (cell ?d i) > 0 \<longleftrightarrow> i < r))"
    unfolding r_def
  proof (rule bisect_spec)
    fix i j assume ij: "0 \<le> i" "i \<le> j" "j < csize b" "0 < cmp (cell ?d j)"
    with sorted [of "nat i" "nat j"] c [of i] c [of j] show "0 < cmp (cell ?d i)" by simp
  qed (use ok in auto)
  have "insertion_point cmp (contents b) = r"
  proof (rule insertion_pointI)
    show "cmp (contents b ! nat i) > 0" if "0 \<le> i" "i < r" for i using that B c [of i] by auto
    show "\<not> cmp (contents b ! nat r) > 0" if "r < int (length (contents b))" using that B c [of r] by auto
  qed (use B ok in auto)
  moreover have "cb_sortedIndex cmp b = r" using assms(2,3) by (simp add: cb_sortedIndex_def Let_def r_def)
  ultimately show ?thesis by simp
qed
subsection \<open>A buffer is a bounded double-ended queue\<close>

text \<open>
  The interface the rotations use.  \<open>view\<close> is the list of items, oldest first; \<open>put\<close> appends an
  item and evicts the oldest one when there is no room, \<open>take_first\<close> removes the oldest item.
\<close>

locale bounded_queue =
  fixes ok :: "'b \<Rightarrow> bool"
    and view :: "'b \<Rightarrow> 'c list"
    and room :: "'b \<Rightarrow> nat"
    and put :: "'c \<Rightarrow> 'b \<Rightarrow> 'b"
    and take_first :: "'b \<Rightarrow> 'c \<times> 'b"
  assumes bounded: "ok b \<Longrightarrow> length (view b) \<le> room b"
    and put_ok: "ok b \<Longrightarrow> ok (put x b)"
    and put_room: "ok b \<Longrightarrow> room (put x b) = room b"
    and put_view: "ok b \<Longrightarrow> view (put x b) =
      (if length (view b) < room b then view b @ [x] else tl (view b) @ [x])"
    and take_first_ok: "ok b \<Longrightarrow> ok (snd (take_first b))"
    and take_first_room: "ok b \<Longrightarrow> room (snd (take_first b)) = room b"
    and take_first_view: "ok b \<Longrightarrow> view (snd (take_first b)) = tl (view b)"
    and take_first_item: "ok b \<Longrightarrow> view b \<noteq> [] \<Longrightarrow> fst (take_first b) = hd (view b)"
begin

lemma put_many: "ok b \<Longrightarrow> ok (fold put xs b) \<and> room (fold put xs b) = room b"
  by (induction xs arbitrary: b) (simp_all add: put_ok put_room)

lemma put_many_fits:
  "ok b \<Longrightarrow> length (view b) + length xs \<le> room b \<Longrightarrow> view (fold put xs b) = view b @ xs"
  by (induction xs arbitrary: b) (simp_all add: put_ok put_room put_view)

lemma rotate_step:
  assumes "ok b" "view b \<noteq> []"
  shows "ok (put (fst (take_first b)) (snd (take_first b)))"
    and "view (put (fst (take_first b)) (snd (take_first b))) = rotate1 (view b)"
proof -
  have "length (view (snd (take_first b))) < room (snd (take_first b))"
    using assms bounded [OF assms(1)]
    by (simp add: take_first_view take_first_room) (cases "view b"; simp)
  with assms show "view (put (fst (take_first b)) (snd (take_first b))) = rotate1 (view b)"
    by (simp add: put_view take_first_ok take_first_view take_first_item rotate1_hd_tl)
  show "ok (put (fst (take_first b)) (snd (take_first b)))"
    using assms by (simp add: put_ok take_first_ok)
qed

lemma rotate_many:
  assumes "ok b" "view b \<noteq> []"
  shows "ok (((\<lambda>b. put (fst (take_first b)) (snd (take_first b))) ^^ n) b) \<and>
    view (((\<lambda>b. put (fst (take_first b)) (snd (take_first b))) ^^ n) b) = rotate n (view b)"
proof (induction n)
  case 0
  from assms show ?case by simp
next
  case (Suc n)
  then have "view (((\<lambda>b. put (fst (take_first b)) (snd (take_first b))) ^^ n) b) \<noteq> []"
    using assms by simp
  with Suc rotate_step show ?case by simp
qed

lemma first_in_first_out:
  assumes "ok b" "view b = []" "xs \<noteq> []" "length xs \<le> room b"
  shows "fst (take_first (fold put xs b)) = hd xs"
    and "view (snd (take_first (fold put xs b))) = tl xs"
  using assms put_many [OF assms(1), of xs] put_many_fits [OF assms(1), of xs]
  by (simp_all add: take_first_item take_first_view)

end

text \<open>A double-ended queue also takes items at the other end.\<close>

locale bounded_deque = bounded_queue ok view room put take_first
  for ok :: "'b \<Rightarrow> bool" and view :: "'b \<Rightarrow> 'c list" and room :: "'b \<Rightarrow> nat"
    and put :: "'c \<Rightarrow> 'b \<Rightarrow> 'b" and take_first :: "'b \<Rightarrow> 'c \<times> 'b" +
  fixes put_front :: "'c \<Rightarrow> 'b \<Rightarrow> 'b"
    and take_last :: "'b \<Rightarrow> 'c \<times> 'b"
  assumes put_front_ok: "ok b \<Longrightarrow> 1 < room b \<Longrightarrow> ok (put_front x b)"
    and put_front_room: "ok b \<Longrightarrow> 1 < room b \<Longrightarrow> room (put_front x b) = room b"
    and put_front_view: "ok b \<Longrightarrow> 1 < room b \<Longrightarrow> view (put_front x b) = take (room b) (x # view b)"
    and take_last_ok: "ok b \<Longrightarrow> ok (snd (take_last b))"
    and take_last_room: "ok b \<Longrightarrow> room (snd (take_last b)) = room b"
    and take_last_view: "ok b \<Longrightarrow> view (snd (take_last b)) = butlast (view b)"
    and take_last_item: "ok b \<Longrightarrow> view b \<noteq> [] \<Longrightarrow> fst (take_last b) = last (view b)"
begin

lemma rotate_back_step:
  assumes "ok b" "1 < room b" "view b \<noteq> []"
  shows "ok (put_front (fst (take_last b)) (snd (take_last b)))"
    and "room (put_front (fst (take_last b)) (snd (take_last b))) = room b"
    and "view (put_front (fst (take_last b)) (snd (take_last b))) = last (view b) # butlast (view b)"
proof -
  note t = take_last_ok [OF assms(1)] take_last_room [OF assms(1)]
  show "ok (put_front (fst (take_last b)) (snd (take_last b)))"
    and "room (put_front (fst (take_last b)) (snd (take_last b))) = room b"
    using t assms by (simp_all add: put_front_ok put_front_room)
  have "length (view b) - 1 < room b" using bounded [OF assms(1)] assms(3) by (cases "view b") auto
  with t assms show "view (put_front (fst (take_last b)) (snd (take_last b))) =
      last (view b) # butlast (view b)"
    by (simp add: put_front_view take_last_view take_last_item)
qed

lemma rotate_back_undoes:
  assumes "ok b" "1 < room b" "view b \<noteq> []"
  shows "view (put_front (fst (take_last (put (fst (take_first b)) (snd (take_first b)))))
      (snd (take_last (put (fst (take_first b)) (snd (take_first b)))))) = view b"
proof -
  let ?r = "put (fst (take_first b)) (snd (take_first b))"
  note r = rotate_step [OF assms(1,3)]
  have room: "room ?r = room b"
    using assms by (simp add: put_room take_first_ok take_first_room)
  have "view ?r \<noteq> []" using r(2) assms(3) by simp
  from rotate_back_step(3) [OF r(1) _ this] room assms(2,3) r(2) show ?thesis
    by (cases "view b") simp_all
qed

end

lemma clength_pushed [simp]: "clength (pushed xs b) = clength b"
  by (simp add: push_fields)

lemma csize_less_room: "cb_ok b \<Longrightarrow> length (contents b) < nat (clength b) \<longleftrightarrow> csize b < clength b"
  by (auto dest: cb_okD)

interpretation cb: bounded_deque cb_ok contents "\<lambda>b. nat (clength b)" "\<lambda>x. pushed [x]" cb_shift
  "\<lambda>x. unshifted [x]" cb_pop
proof unfold_locales
  fix b :: "'a cbuffer" and x
  assume b: "cb_ok b"
  show "length (contents b) \<le> nat (clength b)" using cb_okD [OF b] by simp
  show "cb_ok (pushed [x] b)" using b by (rule push_one_ok)
  show "contents (pushed [x] b) = (if length (contents b) < nat (clength b)
      then contents b @ [x] else tl (contents b) @ [x])"
    using push_one_contents [OF b] csize_less_room [OF b] by simp
  show "fst (cb_shift b) = hd (contents b)" if "contents b \<noteq> []"
    using shift_contents(2) [OF b] that by simp
  show "fst (cb_pop b) = last (contents b)" if "contents b \<noteq> []"
    using pop_contents(2) [OF b] that by simp
  assume r: "1 < nat (clength b)"
  then have l: "int (length [x]) < clength b" by simp
  show "cb_ok (unshifted [x] b)" by (rule unshift_ok [OF b l])
  show "nat (clength (unshifted [x] b)) = nat (clength b)" using unshift_fields(5) [OF b l] by simp
  show "contents (unshifted [x] b) = take (nat (clength b)) (x # contents b)"
    using unshift_one_contents [OF b] r by simp
qed (simp_all add: shift_ok shift_contents pop_ok pop_contents)

lemma rotate_left_iter:
  "rotate_left_loop n b = ((\<lambda>b. pushed [fst (cb_shift b)] (snd (cb_shift b))) ^^ n) b"
  by (induction n arbitrary: b) (simp_all add: case_prod_beta funpow_Suc_right del: funpow.simps)

lemma rotateLeft_contents:
  assumes "cb_ok b" "contents b \<noteq> []"
  shows "\<exists>b'. cb_rotateLeft (Count n) b = Inr b' \<and> cb_ok b' \<and> contents b' = rotate (nat n) (contents b)"
  using cb.rotate_many [OF assms] by (simp add: cb_rotateLeft_def rotate_left_iter)

subsection \<open>The statistics, and where the code depends on \<open>start\<close> being 0\<close>

lemma fold_plus_sum_list: "fold (\<lambda>i s. s + f i) xs (a :: jsnum) = a + sum_list (map f xs)"
  by (induction xs arbitrary: a) (simp_all add: add.assoc)

lemma sum_list_rev_jsnum: "sum_list (rev xs) = (sum_list xs :: jsnum)"
  by (induction xs) (simp_all add: add.commute)

lemma sum_cells:
  assumes "0 \<le> n" "n \<le> int (length d)"
  shows "fold (\<lambda>i s. s + cell_num (cell d i)) (rev [0 .. n - 1]) 0 =
    sum_list (map cell_num (take (nat n) d))"
proof -
  have "map (\<lambda>i. cell_num (cell d i)) [0 .. n - 1] = map cell_num (take (nat n) d)"
    by (rule nth_equalityI) (use assms in \<open>auto simp: nth_upto cell_def\<close>)
  then show ?thesis by (simp add: fold_plus_sum_list rev_map [symmetric] sum_list_rev_jsnum)
qed

lemma rotate_sum_jsnum: "sum_list (rotate n xs) = (sum_list xs :: jsnum)"
proof (induction n)
  case (Suc n)
  have "sum_list (rotate1 ys) = sum_list ys" for ys :: "jsnum list"
    by (cases ys) (simp_all add: add.commute)
  with Suc show ?case by simp
qed simp

lemma contents_full:
  assumes "cb_ok b" "csize b = clength b"
  shows "contents b = rotate (nat (cstart b)) (cdata b)"
proof (rule nth_equalityI)
  note ok = cb_okD [OF assms(1)]
  show "length (contents b) = length (rotate (nat (cstart b)) (cdata b))" using assms ok by simp
  fix i assume "i < length (contents b)"
  with ok(1,2,5) assms(2) show "contents b ! i = rotate (nat (cstart b)) (cdata b) ! i"
    by (simp add: contents_nth nth_rotate cell_def nat_mod_distrib nat_add_distrib add.commute)
qed

lemma sum_contents:
  assumes "cb_ok b" "cstart b = 0 \<or> csize b = clength b"
  shows "cb_sum b = sum_list (map cell_num (contents b))"
proof -
  note ok = cb_okD [OF assms(1)]
  have sum: "cb_sum b = sum_list (map cell_num (take (nat (csize b)) (cdata b)))"
    unfolding cb_sum_def by (rule sum_cells) (use ok in auto)
  show ?thesis
  proof (cases "csize b = clength b")
    case True
    with ok(2) contents_full [OF assms(1) True] sum show ?thesis
      by (simp add: rotate_map [symmetric] rotate_sum_jsnum)
  next
    case False
    with assms have "cstart b = 0" by simp
    then have "contents b = take (nat (csize b)) (cdata b)"
      by (intro contents_eqI) (use ok in \<open>auto simp: cell_def\<close>)
    with sum show ?thesis by simp
  qed
qed

definition sample_buffer :: "nat \<Rightarrow> jsnum list \<Rightarrow> jsnum cbuffer" where
  "sample_buffer n xs = pushed (map Some xs) (cb_empty_of (int n))"

text \<open>
  \<open>sum\<close> adds up the first \<open>size\<close> cells, wherever the items are: after a \<open>shift\<close> it
  adds an item that was removed.  A one-cell buffer loses its first item to \<open>unshift\<close>.
\<close>

lemma sum_ignores_start:
  "let b = snd (cb_shift (sample_buffer 3 [1, 2])) in
     contents b = [Some 2] \<and> cb_sum b = 1"
  by (simp add: sample_buffer_def cb_empty_of_def cb_push_def cb_shift_def contents_def cb_sum_def
      cell_def put_cell_def cell_num_def Let_def numeral_2_eq_2 upto.simps)

lemma unshift_full_breaks:
  "let b = unshifted [Some 7] (cb_empty_of 1) in
     cb_get 0 b = Some (7 :: jsnum) \<and> cb_first b = None \<and> \<not> cb_ok b"
  by (simp add: cb_empty_of_def cb_unshift_def cb_get_def cb_first_def cell_def put_cell_def
      Let_def cb_ok_def js_rem_def)

lemma overflow_reports_wrong_items:
  "let b = (sample_buffer 3 [1, 2])\<lparr>coverflow := True\<rparr> in
     fst (snd (cb_push [Some 3, Some 4] b)) = [None] \<and>
     contents b = [Some 1, Some 2] \<and> contents (pushed [Some 3, Some 4] b) = [Some 2, Some 3, Some 4]"
  by (simp add: sample_buffer_def cb_empty_of_def cb_push_def contents_def
      cell_def put_cell_def Let_def numeral_2_eq_2 numeral_3_eq_3 upto.simps upt_rec)

text \<open>
  Without wrap-around \<open>sortedIndex\<close> searches physical cells: once an item has been shifted out,
  the result is no index of the contents.  Here 2.5 is greater than one item of two, and the result is 2.
\<close>

lemma sortedIndex_after_shift:
  "let b = snd (cb_shift (sample_buffer 4 [1, 2, 3]));
       cmp = (\<lambda>c. if cell_num c < 2.5 then 1 else - 1)
   in contents b = [Some 2, Some 3] \<and> insertion_point cmp (contents b) = 1 \<and> cb_sortedIndex cmp b = 2"
  by (simp add: sample_buffer_def cb_empty_of_def cb_push_def cb_shift_def contents_def
      insertion_point_def cb_sortedIndex_def bisect.simps cell_num_def num_simps
      cell_def put_cell_def Let_def numeral_2_eq_2 numeral_3_eq_3 upto.simps)

lemma array_sort_defined: "array_sort cmp (map Some xs) = map Some (sort cmp xs)"
proof -
  have "map the (filter (\<lambda>c. c \<noteq> None) (map Some xs)) = xs" by (induction xs) simp_all
  then show ?thesis by (simp add: array_sort_def Let_def)
qed

lemma sort_full_contents:
  assumes "cb_ok b" "csize b = clength b" "cdata b = map Some xs"
  shows "cb_ok (cb_sort cmp b)" "contents (cb_sort cmp b) = map Some (sort cmp xs)"
proof -
  note ok = cb_okD [OF assms(1)]
  have len: "length xs = nat (clength b)" using ok(2) assms(3) by simp
  with ok(1) assms(2) show "cb_ok (cb_sort cmp b)"
    by (simp add: cb_ok_def cb_sort_def assms(3) array_sort_defined mod_shift_neg)
  with contents_full [of "cb_sort cmp b"] assms(2) show "contents (cb_sort cmp b) = map Some (sort cmp xs)"
    by (simp add: cb_sort_def assms(3) array_sort_defined)
qed

text \<open>
  A \<open>shift\<close> leaves the removed item in its cell, and \<open>sort\<close> sorts all the cells: the removed
  item comes back.
\<close>

lemma sort_resurrects_shifted:
  assumes "compare cmp 1 2 = Less" "compare cmp 2 1 = Greater"
  shows "let b = snd (cb_shift (sample_buffer 2 [1, 2])) in
     contents b = [Some 2] \<and> contents (cb_sort cmp b) = [Some 1]"
  using assms
  by (simp add: sample_buffer_def cb_empty_of_def cb_push_def cb_shift_def contents_def cb_sort_def
      array_sort_def cell_def put_cell_def Let_def numeral_2_eq_2)

subsection \<open>The properties of the buffer\<close>

lemma empty_ok:
  assumes "0 < n"
  shows "cb_ok (cb_empty_of n)" "contents (cb_empty_of n) = []"
  using assms by (simp_all add: cb_ok_def cb_empty_of_def contents_def mod_shift_neg)

lemma sample_ok:
  assumes "0 < n"
  shows "cb_ok (sample_buffer n xs)" "clength (sample_buffer n xs) = int n"
    "contents (sample_buffer n xs) = drop (length xs - n) (map Some xs)"
  using push_contents [OF empty_ok(1) [of "int n"], of "map Some xs"] assms
  by (simp_all add: sample_buffer_def empty_ok) (simp_all add: cb_empty_of_def)

lemma csize_contents: "cb_ok b \<Longrightarrow> csize b = int (length (contents b))"
  using cb_okD(3) [of b] by simp

text \<open>C22: pushing any number of items keeps the buffer well formed and leaves the newest
  \<open>length\<close> items of the old contents followed by the arguments, oldest first; the result is
  their number.  The overflow callback, when there is one, is called once for each item that no
  longer fits.  A full buffer and at most \<open>length\<close> arguments: it receives exactly the items that were
  evicted.  Otherwise it does not: it receives the cells that follow the newest item, the free ones first, and then
  the items from the oldest one on.\<close>

theorem push_keeps_newest:
  assumes "cb_ok b" "cb_push xs b = (n, lost, b')"
  shows "cb_ok b' \<and> clength b' = clength b \<and>
    contents b' = drop (length (contents b @ xs) - nat (clength b)) (contents b @ xs) \<and>
    n = int (length (contents b')) \<and>
    length lost = (if coverflow b then length (contents b @ xs) - nat (clength b) else 0) \<and>
    (\<forall>i < length lost. lost ! i = (free_cells b @ contents b) ! (i mod nat (clength b))) \<and>
    (coverflow b \<and> csize b = clength b \<and> length xs \<le> length (contents b) \<longrightarrow>
      lost = take (length xs) (contents b))"
proof -
  have "b' = pushed xs b" "n = fst (cb_push xs b)" "lost = fst (snd (cb_push xs b))"
    using assms(2) by simp_all
  with push_contents [OF assms(1), of xs] push_result [OF assms(1), of xs]
    push_lost_full [OF assms(1), of xs] push_lost [OF assms(1), of xs] show ?thesis by blast
qed

theorem push_keeps_newest_witness:
  "let b = (sample_buffer 2 [1, 2])\<lparr>coverflow := True\<rparr>; (n, lost, b') = cb_push [Some 3] b
   in contents b' = [Some 2, Some 3] \<and> lost = [Some (1 :: jsnum)] \<and> n = 2"
proof -
  let ?b = "(sample_buffer 2 [1, 2])\<lparr>coverflow := True\<rparr>"
  have s: "cb_ok ?b" "clength ?b = 2" "contents ?b = [Some 1, Some 2]"
    using sample_ok [of 2 "[1, 2]"] by (simp_all add: cb_ok_def contents_def)
  then have z: "csize ?b = 2" using csize_contents [OF s(1)] by simp
  obtain n lost b' where p: "cb_push [Some 3] ?b = (n, lost, b')" by (metis prod_cases3)
  note r = push_keeps_newest [OF s(1) p]
  with s z have "contents b' = [Some 2, Some 3]" "lost = [Some 1]" "n = int (length (contents b'))"
    by (simp_all del: length_contents)
  moreover from this have "n = 2" by (simp only:) simp
  ultimately show ?thesis using p by simp
qed

text \<open>C25: \<open>shift\<close> and \<open>pop\<close> remove and return the oldest and the newest item (\<open>undefined\<close> from
  an empty buffer), \<open>unshift\<close> of fewer items than there are cells puts them before the others
  and drops the newest ones that no longer fit, \<open>reverse\<close> reverses, and all keep the buffer well
  formed.\<close>

theorem deque_operations:
  assumes "cb_ok b"
  shows "cb_ok (snd (cb_shift b)) \<and> contents (snd (cb_shift b)) = tl (contents b) \<and>
    fst (cb_shift b) = (if contents b = [] then None else hd (contents b)) \<and>
    cb_ok (snd (cb_pop b)) \<and> contents (snd (cb_pop b)) = butlast (contents b) \<and>
    fst (cb_pop b) = (if contents b = [] then None else last (contents b)) \<and>
    (int (length xs) < clength b \<longrightarrow> cb_ok (snd (snd (cb_unshift xs b))) \<and>
      contents (snd (snd (cb_unshift xs b))) = take (nat (clength b)) (rev xs @ contents b)) \<and>
    cb_ok (cb_reverse b) \<and> contents (cb_reverse b) = rev (contents b)"
  using shift_ok [OF assms] shift_contents [OF assms] pop_ok [OF assms] pop_contents [OF assms]
    unshift_ok [OF assms] unshift_contents [OF assms] reverse_contents [OF assms] by simp

theorem deque_operations_witness:
  "let b = sample_buffer 3 [1, 2, 3, 4] in
     fst (cb_shift b) = Some (2 :: jsnum) \<and> fst (cb_pop b) = Some 4 \<and>
     contents (snd (snd (cb_unshift [Some 5, Some 6] b))) = [Some 6, Some 5, Some 2] \<and>
     contents (cb_reverse b) = [Some 4, Some 3, Some 2]"
  using sample_ok [of 3 "[1, 2, 3, 4]"]
    deque_operations [of "sample_buffer 3 [1, 2, 3, 4]" "[Some 5, Some 6]"] by simp

text \<open>Rotating to the left by \<open>n\<close> is moving the first item to the end \<open>n\<close> times, and
  the iteration methods and \<open>slice\<close> (with any bounds) see the contents in that order.\<close>

theorem reads_agree_with_contents:
  assumes "cb_ok b" "contents b \<noteq> []"
  shows "(\<exists>b'. cb_rotateLeft (Count n) b = Inr b' \<and> cb_ok b' \<and>
      contents b' = rotate (nat n) (contents b)) \<and>
    cb_items b = zip (contents b) (map int [0 ..< length (contents b)]) \<and>
    cb_slice s e b = array_slice s e (contents b) \<and> cb_toArray b = contents b \<and>
    cb_first b = hd (contents b) \<and> cb_last b = last (contents b)"
proof -
  have "0 < csize b" using assms cb_okD(3) [OF assms(1)] contents_empty_iff [OF assms(1)] by simp
  with assms show ?thesis
    using rotateLeft_contents [OF assms, of n]
    by (simp add: items_contents slice_contents toArray_contents first_contents last_contents)
qed

theorem reads_agree_with_contents_witness:
  "cb_slice (Some (- 2)) None (sample_buffer 3 [1, 2, 3, 4]) = [Some 3, Some (4 :: jsnum)]"
  using sample_ok [of 3 "[1, 2, 3, 4]"]
    reads_agree_with_contents [of "sample_buffer 3 [1, 2, 3, 4]" 0 "Some (- 2)" None]
  by (simp add: array_slice_def numeral_3_eq_3 numeral_2_eq_2)

text \<open>C26: on sorted contents, \<open>sortedIndex\<close> of a full buffer is the number of items the value is
  greater than, but at most the last index, wherever the wrap-around is; so it is one less than
  that number when the value is greater than all items.  For a buffer with room it is that number
  when the items start at cell 0; when they do not, the code searches physical cells and its result
  is no index of the contents (\<open>sortedIndex_after_shift\<close>), and nothing is claimed.\<close>

theorem sortedIndex_insertion_point:
  assumes "cb_ok b" "csize b = clength b \<or> cstart b = 0"
    and "\<And>i j. i \<le> j \<Longrightarrow> j < length (contents b) \<Longrightarrow>
      cmp (contents b ! j) > 0 \<Longrightarrow> cmp (contents b ! i) > 0"
  shows "cb_sortedIndex cmp b =
    (if cb_isFull b then min (insertion_point cmp (contents b)) (csize b - 1)
     else insertion_point cmp (contents b))"
proof (cases "csize b = clength b")
  case True
  then show ?thesis
    using sortedIndex_full [OF assms(1) True, of cmp] assms(3) by (simp add: cb_isFull_def)
next
  case False
  with assms(2) cb_okD(4) [OF assms(1)] have "csize b < clength b" "cstart b = 0" by simp_all
  with sortedIndex_unwrapped [OF assms(1) this, of cmp] assms(3) show ?thesis
    by (simp add: cb_isFull_def)
qed

theorem sortedIndex_insertion_point_witness:
  "let b = sample_buffer 3 [0, 10, 20, 30] in
     cstart b = 1 \<and>
     cb_sortedIndex (\<lambda>c. if cell_num c < 25 then 1 else if cell_num c = 25 then 0 else - 1) b = 2"
proof -
  let ?b = "sample_buffer 3 [0, 10, 20, 30]"
  let ?cmp = "\<lambda>c. if cell_num c < 25 then 1 else if cell_num c = 25 then 0 else - 1 :: int"
  note s = sample_ok [of 3 "[0, 10, 20, 30]", simplified]
  have z: "csize ?b = 3" using csize_contents [OF s(1)] s(3) by simp
  have st: "cstart ?b = 1"
    by (simp add: sample_buffer_def cb_empty_of_def cb_push_def Let_def)
  have c: "contents ?b ! 0 = Some 10" "contents ?b ! 1 = Some 20" "contents ?b ! 2 = Some 30"
    unfolding s(3) by simp_all
  have "cb_sortedIndex ?cmp ?b = (if cb_isFull ?b
      then min (insertion_point ?cmp (contents ?b)) (csize ?b - 1) else insertion_point ?cmp (contents ?b))"
  proof (rule sortedIndex_insertion_point)
    fix i j :: nat assume "i \<le> j" "j < length (contents ?b)" "?cmp (contents ?b ! j) > 0"
    moreover from this have "i \<in> {0, 1, 2}" "j \<in> {0, 1, 2}" by (auto simp: s(3))
    ultimately show "?cmp (contents ?b ! i) > 0"
      using c by (auto simp: cell_num_def num_simps split: if_splits)
  qed (use s z in simp_all)
  also have "\<dots> = 2"
    using s z by (simp add: cb_isFull_def insertion_point_def cell_num_def num_simps)
  finally show ?thesis using st by simp
qed

end
