(* ===== verification/Terminal_Format.thy ===== *)
theory Terminal_Format
  imports JS_Values
begin

text \<open>
  The formatter of the debugger's shell (\<open>lib/jquery-terminal/unix_formatting.js\<close>): overtyped text
  and ANSI escape sequences become the mark-up of the terminal.  The regular expressions are
  written out as scanners from left to right; each takes the longest match at the first
  position that has one.  Strings are lists of 8-bit characters.  \<open>undefined\<close> is \<open>None\<close>.
  The pieces \<open>from_ansi\<close> pushes on its output are kept apart (\<open>out_piece\<close>) until the final join.
\<close>

subsection \<open>Overtyping\<close>

abbreviation BS :: char where "BS \<equiv> CHR 0x08"
abbreviation ESC :: char where "ESC \<equiv> CHR 0x1B"
abbreviation US :: char where "US \<equiv> CHR ''_''"

text \<open>What \<open>.\<close> matches.\<close>

definition dot :: "char \<Rightarrow> bool" where
  "dot c \<longleftrightarrow> c \<noteq> CHR 0x0A \<and> c \<noteq> CHR 0x0D"

text \<open>One turn of the two outer regular expressions: three characters, the middle one a backspace.\<close>

definition under_unit :: "char \<Rightarrow> char \<Rightarrow> char \<Rightarrow> bool" where
  "under_unit a b c \<longleftrightarrow> b = BS \<and> (a = US \<and> dot c \<or> dot a \<and> c = US)"

definition bold_unit :: "char \<Rightarrow> char \<Rightarrow> char \<Rightarrow> bool" where
  "bold_unit a b c \<longleftrightarrow> dot a \<and> b = BS \<and> dot c"

text \<open>The longest run of such units at the head of a string, and what follows it.\<close>

fun unit_run :: "(char \<Rightarrow> char \<Rightarrow> char \<Rightarrow> bool) \<Rightarrow> string \<Rightarrow> string \<times> string" where
  "unit_run u (a # b # c # s) =
     (if u a b c then let (run, rest) = unit_run u s in (a # b # c # run, rest)
      else ([], a # b # c # s))"
| "unit_run u s = ([], s)"

lemma unit_run_append: "fst (unit_run u s) @ snd (unit_run u s) = s"
  by (induction u s rule: unit_run.induct) (auto simp: case_prod_beta Let_def)

lemma unit_run_shorter: "fst (unit_run u s) \<noteq> [] \<Longrightarrow> length (snd (unit_run u s)) < length s"
  using unit_run_append [of u s] by (metis length_append length_greater_0_conv less_add_same_cancel2)

text \<open>\<open>string.replace(/((?:unit)+)/g, f)\<close>\<close>

function replace_runs :: "(char \<Rightarrow> char \<Rightarrow> char \<Rightarrow> bool) \<Rightarrow> (string \<Rightarrow> string) \<Rightarrow> string \<Rightarrow> string" where
  "replace_runs u f [] = []"
| "replace_runs u f (c # s) =
     (if fst (unit_run u (c # s)) = [] then c # replace_runs u f s
      else f (fst (unit_run u (c # s))) @ replace_runs u f (snd (unit_run u (c # s))))"
  by pat_completeness auto
termination
  by (relation "measure (\<lambda>(u, f, s). length s)") (auto dest: unit_run_shorter)

declare replace_runs.simps(2) [simp del]

text \<open>The inner replacement of the underlined runs; its first alternative is the text \<open>_x08\<close>.\<close>

fun strip_under :: "string \<Rightarrow> string" where
  "strip_under s =
     (case s of
        [] \<Rightarrow> []
      | c # s1 \<Rightarrow>
          if take 4 s = ''_x08'' then strip_under (drop 3 s1)
          else if take 2 s = [BS, US] \<or> take 2 s = [US, BS] then strip_under (drop 1 s1)
          else c # strip_under s1)"

declare strip_under.simps [simp del]

fun keep_second :: "string \<Rightarrow> string" where
  "keep_second (a # b # c # s) =
     (if bold_unit a b c then c # keep_second s else a # keep_second (b # c # s))"
| "keep_second s = s"

definition overtyping :: "string \<Rightarrow> string" where
  "overtyping s =
     replace_runs bold_unit (\<lambda>full. ''[[b;#fff;]'' @ keep_second full @ '']'')
       (replace_runs under_unit (\<lambda>full. ''[[u;;]'' @ strip_under full @ '']'') s)"

subsection \<open>The colours\<close>

datatype palette_kind = NormalColors | FaitedColors | BoldColors

definition ansi_colors :: "palette_kind \<Rightarrow> string obj" where
  "ansi_colors k =
     (case k of
        NormalColors \<Rightarrow>
          [(''black'', ''#000''), (''red'', ''#A00''), (''green'', ''#008400''), (''yellow'', ''#A50''),
           (''blue'', ''#00A''), (''magenta'', ''#A0A''), (''cyan'', ''#0AA''), (''white'', ''#AAA'')]
      | FaitedColors \<Rightarrow>
          [(''black'', ''#000''), (''red'', ''#640000''), (''green'', ''#006100''),
           (''yellow'', ''#737300''), (''blue'', ''#000087''), (''magenta'', ''#650065''),
           (''cyan'', ''#008787''), (''white'', ''#818181'')]
      | BoldColors \<Rightarrow>
          [(''black'', ''#000''), (''red'', ''#F55''), (''green'', ''#44D544''), (''yellow'', ''#FF5''),
           (''blue'', ''#55F''), (''magenta'', ''#F5F''), (''cyan'', ''#5FF''), (''white'', ''#FFF'')])"

definition ansi_palette :: "string list" where
  "ansi_palette = [
     ''#000000'', ''#AA0000'', ''#00AA00'', ''#AA5500'', ''#0000AA'', ''#AA00AA'',
     ''#00AAAA'', ''#AAAAAA'', ''#555555'', ''#FF5555'', ''#55FF55'', ''#FFFF55'',
     ''#5555FF'', ''#FF55FF'', ''#55FFFF'', ''#FFFFFF'', ''#000000'', ''#00005F'',
     ''#000087'', ''#0000AF'', ''#0000D7'', ''#0000FF'', ''#005F00'', ''#005F5F'',
     ''#005F87'', ''#005FAF'', ''#005FD7'', ''#005FFF'', ''#008700'', ''#00875F'',
     ''#008787'', ''#0087AF'', ''#0087D7'', ''#0087FF'', ''#00AF00'', ''#00AF5F'',
     ''#00AF87'', ''#00AFAF'', ''#00AFD7'', ''#00AFFF'', ''#00D700'', ''#00D75F'',
     ''#00D787'', ''#00D7AF'', ''#00D7D7'', ''#00D7FF'', ''#00FF00'', ''#00FF5F'',
     ''#00FF87'', ''#00FFAF'', ''#00FFD7'', ''#00FFFF'', ''#5F0000'', ''#5F005F'',
     ''#5F0087'', ''#5F00AF'', ''#5F00D7'', ''#5F00FF'', ''#5F5F00'', ''#5F5F5F'',
     ''#5F5F87'', ''#5F5FAF'', ''#5F5FD7'', ''#5F5FFF'', ''#5F8700'', ''#5F875F'',
     ''#5F8787'', ''#5F87AF'', ''#5F87D7'', ''#5F87FF'', ''#5FAF00'', ''#5FAF5F'',
     ''#5FAF87'', ''#5FAFAF'', ''#5FAFD7'', ''#5FAFFF'', ''#5FD700'', ''#5FD75F'',
     ''#5FD787'', ''#5FD7AF'', ''#5FD7D7'', ''#5FD7FF'', ''#5FFF00'', ''#5FFF5F'',
     ''#5FFF87'', ''#5FFFAF'', ''#5FFFD7'', ''#5FFFFF'', ''#870000'', ''#87005F'',
     ''#870087'', ''#8700AF'', ''#8700D7'', ''#8700FF'', ''#875F00'', ''#875F5F'',
     ''#875F87'', ''#875FAF'', ''#875FD7'', ''#875FFF'', ''#878700'', ''#87875F'',
     ''#878787'', ''#8787AF'', ''#8787D7'', ''#8787FF'', ''#87AF00'', ''#87AF5F'',
     ''#87AF87'', ''#87AFAF'', ''#87AFD7'', ''#87AFFF'', ''#87D700'', ''#87D75F'',
     ''#87D787'', ''#87D7AF'', ''#87D7D7'', ''#87D7FF'', ''#87FF00'', ''#87FF5F'',
     ''#87FF87'', ''#87FFAF'', ''#87FFD7'', ''#87FFFF'', ''#AF0000'', ''#AF005F'',
     ''#AF0087'', ''#AF00AF'', ''#AF00D7'', ''#AF00FF'', ''#AF5F00'', ''#AF5F5F'',
     ''#AF5F87'', ''#AF5FAF'', ''#AF5FD7'', ''#AF5FFF'', ''#AF8700'', ''#AF875F'',
     ''#AF8787'', ''#AF87AF'', ''#AF87D7'', ''#AF87FF'', ''#AFAF00'', ''#AFAF5F'',
     ''#AFAF87'', ''#AFAFAF'', ''#AFAFD7'', ''#AFAFFF'', ''#AFD700'', ''#AFD75F'',
     ''#AFD787'', ''#AFD7AF'', ''#AFD7D7'', ''#AFD7FF'', ''#AFFF00'', ''#AFFF5F'',
     ''#AFFF87'', ''#AFFFAF'', ''#AFFFD7'', ''#AFFFFF'', ''#D70000'', ''#D7005F'',
     ''#D70087'', ''#D700AF'', ''#D700D7'', ''#D700FF'', ''#D75F00'', ''#D75F5F'',
     ''#D75F87'', ''#D75FAF'', ''#D75FD7'', ''#D75FFF'', ''#D78700'', ''#D7875F'',
     ''#D78787'', ''#D787AF'', ''#D787D7'', ''#D787FF'', ''#D7AF00'', ''#D7AF5F'',
     ''#D7AF87'', ''#D7AFAF'', ''#D7AFD7'', ''#D7AFFF'', ''#D7D700'', ''#D7D75F'',
     ''#D7D787'', ''#D7D7AF'', ''#D7D7D7'', ''#D7D7FF'', ''#D7FF00'', ''#D7FF5F'',
     ''#D7FF87'', ''#D7FFAF'', ''#D7FFD7'', ''#D7FFFF'', ''#FF0000'', ''#FF005F'',
     ''#FF0087'', ''#FF00AF'', ''#FF00D7'', ''#FF00FF'', ''#FF5F00'', ''#FF5F5F'',
     ''#FF5F87'', ''#FF5FAF'', ''#FF5FD7'', ''#FF5FFF'', ''#FF8700'', ''#FF875F'',
     ''#FF8787'', ''#FF87AF'', ''#FF87D7'', ''#FF87FF'', ''#FFAF00'', ''#FFAF5F'',
     ''#FFAF87'', ''#FFAFAF'', ''#FFAFD7'', ''#FFAFFF'', ''#FFD700'', ''#FFD75F'',
     ''#FFD787'', ''#FFD7AF'', ''#FFD7D7'', ''#FFD7FF'', ''#FFFF00'', ''#FFFF5F'',
     ''#FFFF87'', ''#FFFFAF'', ''#FFFFD7'', ''#FFFFFF'', ''#080808'', ''#121212'',
     ''#1C1C1C'', ''#262626'', ''#303030'', ''#3A3A3A'', ''#444444'', ''#4E4E4E'',
     ''#585858'', ''#626262'', ''#6C6C6C'', ''#767676'', ''#808080'', ''#8A8A8A'',
     ''#949494'', ''#9E9E9E'', ''#A8A8A8'', ''#B2B2B2'', ''#BCBCBC'', ''#C6C6C6'',
     ''#D0D0D0'', ''#DADADA'', ''#E4E4E4'', ''#EEEEEE'']"

definition color_list :: "(nat \<times> string) list" where
  "color_list = [(30, ''black''), (31, ''red''), (32, ''green''), (33, ''yellow''), (34, ''blue''),
     (35, ''magenta''), (36, ''cyan''), (37, ''white''), (39, ''inherit'')]"

definition background_list :: "(nat \<times> string) list" where
  "background_list = [(40, ''black''), (41, ''red''), (42, ''green''), (43, ''yellow''), (44, ''blue''),
     (45, ''magenta''), (46, ''cyan''), (47, ''white''), (49, ''transparent'')]"

subsection \<open>One escape sequence\<close>

record ansi_state =
  faited :: bool
  reverse :: bool
  bold :: bool
  styles :: string
  output_color :: string
  output_background :: string
  bit8_color :: bool
  bit8_background :: bool
  process_8bit :: bool

definition ansi_init :: ansi_state where
  "ansi_init = \<lparr>faited = False, reverse = False, bold = False, styles = [], output_color = [],
     output_background = [], bit8_color = False, bit8_background = False, process_8bit = False\<rparr>"

text \<open>\<open>parseInt\<close> of a control, which consists of digits: NaN is \<open>None\<close>.\<close>

definition control_num :: "string \<Rightarrow> nat option" where
  "control_num c = (if c = [] then None else digits_val 0 c)"

definition in_palette :: "nat option \<Rightarrow> string option" where
  "in_palette num =
     (case num of None \<Rightarrow> None
      | Some n \<Rightarrow> if n < length ansi_palette then Some (ansi_palette ! n) else None)"

definition or_keep :: "string option \<Rightarrow> string \<Rightarrow> string" where
  "or_keep v old = (case v of None \<Rightarrow> old | Some s \<Rightarrow> s)"

definition control_step :: "string list \<Rightarrow> string \<Rightarrow> ansi_state \<Rightarrow> ansi_state" where
  "control_step controls c st =
     (let num = control_num c in
      if process_8bit st \<and> (bit8_background st \<or> bit8_color st) then
        let st1 = (if bit8_color st
                   then st\<lparr>output_color := or_keep (in_palette num) (output_color st)\<rparr> else st)
        in if bit8_background st1
           then st1\<lparr>output_background := or_keep (in_palette num) (output_background st1)\<rparr> else st1
      else if num = Some 1 then st\<lparr>styles := styles st @ ''b'', bold := True, faited := False\<rparr>
      else if num = Some 4 then st\<lparr>styles := styles st @ ''u''\<rparr>
      else if num = Some 3 then st\<lparr>styles := styles st @ ''i''\<rparr>
      else if num = Some 5 then st\<lparr>process_8bit := True\<rparr>
      else if num = Some 38 then st\<lparr>bit8_color := True\<rparr>
      else if num = Some 48 then st\<lparr>bit8_background := True\<rparr>
      else if num = Some 2 then st\<lparr>faited := True, bold := False\<rparr>
      else if num = Some 7 then st\<lparr>reverse := True\<rparr>
      else if ''5'' \<notin> set controls then
        let look = (\<lambda>l. case num of None \<Rightarrow> None | Some n \<Rightarrow> map_of l n)
        in st\<lparr>output_color := or_keep (look color_list) (output_color st),
              output_background := or_keep (look background_list) (output_background st)\<rparr>
      else st)"

definition swap_reversed :: "ansi_state \<Rightarrow> ansi_state" where
  "swap_reversed st =
     (if reverse st
      then if output_color st \<noteq> [] \<or> output_background st \<noteq> []
           then st\<lparr>output_background := output_color st, output_color := output_background st\<rparr>
           else st\<lparr>output_color := ''black'', output_background := ''white''\<rparr>
      else st)"

type_synonym ansi_code = "string \<times> string option \<times> string option"

definition format_ansi :: "string \<Rightarrow> ansi_code" where
  "format_ansi code =
     (let controls = split_on (CHR '';'') code;
          st = swap_reversed (fold (control_step controls) controls ansi_init);
          colors = ansi_colors (if bold st then BoldColors else if faited st then FaitedColors
                                else NormalColors);
          color = (if bit8_color st \<or> output_color st = ''inherit'' then Some (output_color st)
                   else oget colors (output_color st));
          background = (if bit8_background st \<or> output_background st = ''transparent''
                        then Some (output_background st)
                        else oget colors (output_background st))
      in (styles st, color, background))"

subsection \<open>The whole input\<close>

definition is_digit_or_semi :: "char \<Rightarrow> bool" where
  "is_digit_or_semi c \<longleftrightarrow> digit_val c \<noteq> None \<or> c = CHR '';''"

definition is_letter :: "char \<Rightarrow> bool" where
  "is_letter c \<longleftrightarrow>
     (let n = of_char c :: nat in 65 \<le> n \<and> n \<le> 90 \<or> 97 \<le> n \<and> n \<le> 122)"

text \<open>An escape sequence at the head of a string: its parameters, its letter, the rest.\<close>

definition escape_at :: "string \<Rightarrow> (string \<times> char \<times> string) option" where
  "escape_at s =
     (case s of
        a # b # s1 \<Rightarrow>
          if a = ESC \<and> b = CHR ''['' then
            (case dropWhile is_digit_or_semi s1 of
               [] \<Rightarrow> None
             | l # rest \<Rightarrow>
                 if is_letter l then Some (takeWhile is_digit_or_semi s1, l, rest) else None)
          else None
      | _ \<Rightarrow> None)"

lemma escape_at_append:
  "escape_at s = Some (ps, l, rest) \<Longrightarrow> s = ESC # CHR ''['' # ps @ l # rest"
  by (auto simp: escape_at_def split: list.splits if_splits)
     (metis takeWhile_dropWhile_id)

text \<open>\<open>input.split(/(\x1B\[[0-9;]*[A-Za-z])/g)\<close>: texts and sequences alternate.\<close>

function ansi_split :: "string \<Rightarrow> string list" where
  "ansi_split s =
     (case escape_at s of
        Some (ps, l, rest) \<Rightarrow> [] # (ESC # CHR ''['' # ps @ [l]) # ansi_split rest
      | None \<Rightarrow>
          (case s of
             [] \<Rightarrow> [[]]
           | c # s1 \<Rightarrow> (case ansi_split s1 of [] \<Rightarrow> [[c]] | w # ws \<Rightarrow> (c # w) # ws)))"
  by pat_completeness auto
termination
  by (relation "measure length") (auto dest: escape_at_append)

declare ansi_split.simps [simp del]

text \<open>\<open>splitted[i].match(/^\x1B\[([0-9;]*)([A-Za-z])$/)\<close>\<close>

definition whole_escape :: "string \<Rightarrow> (string \<times> char) option" where
  "whole_escape s = (case escape_at s of Some (ps, l, []) \<Rightarrow> Some (ps, l) | _ \<Rightarrow> None)"

datatype out_piece = Lit string | Open ansi_code | Close

definition undef_str :: "string option \<Rightarrow> string" where
  "undef_str v = (case v of None \<Rightarrow> [] | Some s \<Rightarrow> s)"

fun out_str :: "out_piece \<Rightarrow> string" where
  "out_str (Lit s) = s"
| "out_str Close = '']''"
| "out_str (Open (st, c, b)) =
     ''[['' @ join_with '';'' [st, undef_str c, undef_str b] @ '']''"

text \<open>\<open>a || b\<close> on a string that may be undefined.\<close>

definition str_or :: "string option \<Rightarrow> string option \<Rightarrow> string option" where
  "str_or a b = (if a = None \<or> a = Some [] then b else a)"

record ansi_run =
  inside :: bool
  prev_color :: "string option"
  prev_background :: "string option"

definition open_code :: "string \<Rightarrow> ansi_run \<Rightarrow> out_piece list \<times> ansi_run" where
  "open_code ps r =
     (case format_ansi ps of (st, c, b) \<Rightarrow>
        let c' = str_or c (prev_color r);
            b' = str_or b (prev_background r)
        in ([Open (st, c', b')],
            r\<lparr>inside := True, prev_color := str_or c' (prev_color r),
              prev_background := str_or b' (prev_background r)\<rparr>))"

definition ansi_piece :: "string \<Rightarrow> ansi_run \<Rightarrow> out_piece list \<times> ansi_run" where
  "ansi_piece piece r =
     (case whole_escape piece of
        None \<Rightarrow> ([Lit piece], r)
      | Some (ps, l) \<Rightarrow>
          if l \<noteq> CHR ''m'' then ([], r)
          else if inside r then
            if ps = ''0'' \<or> ps = [] then
              ([Close], r\<lparr>inside := False, prev_color := Some [], prev_background := Some []\<rparr>)
            else (let (out, r') = open_code ps r in (Close # out, r'))
          else if ps \<noteq> ''0'' then open_code ps r
          else ([], r))"

fun ansi_loop :: "string list \<Rightarrow> ansi_run \<Rightarrow> out_piece list \<times> ansi_run" where
  "ansi_loop [] r = ([], r)"
| "ansi_loop (p # ps) r =
     (let (out, r1) = ansi_piece p r; (outs, r2) = ansi_loop ps r1 in (out @ outs, r2))"

definition ansi_output :: "string list \<Rightarrow> out_piece list" where
  "ansi_output splitted =
     (let (outs, r) = ansi_loop splitted \<lparr>inside = False, prev_color = None, prev_background = None\<rparr>
      in if inside r then outs @ [Close] else outs)"

definition from_ansi :: "string \<Rightarrow> string" where
  "from_ansi input =
     (let splitted = ansi_split input in
      if length splitted = 1 then input
      else let str = concat (take 3 splitted);
               rest = (if 3 < length splitted \<and> (str = ''[0m'' \<or> str = ''[m'')
                       then drop 3 splitted else splitted)
           in concat (map out_str (ansi_output rest)))"

subsection \<open>\<open>from_ansi\<close>: mark-up is balanced and the text is kept\<close>

text \<open>The scan of a string: an escape sequence, the end, or a character of text.\<close>

lemma scan_induct [case_names escape nil char]:
  assumes "\<And>s ps l rest. escape_at s = Some (ps, l, rest) \<Longrightarrow> P rest \<Longrightarrow> P s"
    and "P []"
    and "\<And>c s. escape_at (c # s) = None \<Longrightarrow> P s \<Longrightarrow> P (c # s)"
  shows "P s"
proof (induction s rule: length_induct)
  case (1 s)
  show ?case
  proof (cases "escape_at s")
    case None
    with 1 assms(2,3) show ?thesis by (cases s) auto
  next
    case (Some e)
    obtain ps l rest where e: "e = (ps, l, rest)" by (cases e)
    with Some have "length rest < length s" by (auto dest: escape_at_append)
    with 1 assms(1) Some e show ?thesis by blast
  qed
qed

lemma escape_at_nil [simp]: "escape_at [] = None"
  by (simp add: escape_at_def)

lemma ansi_split_escape:
  "escape_at s = Some (ps, l, rest) \<Longrightarrow>
     ansi_split s = [] # (ESC # CHR ''['' # ps @ [l]) # ansi_split rest"
  by (subst ansi_split.simps) simp

lemma ansi_split_nil [simp]: "ansi_split [] = [[]]"
  by (subst ansi_split.simps) simp

lemma ansi_split_nonempty [simp]: "ansi_split s \<noteq> []"
  by (subst ansi_split.simps) (auto split: option.splits list.splits)

lemma ansi_split_char:
  "escape_at (c # s) = None \<Longrightarrow>
     ansi_split (c # s) = (c # hd (ansi_split s)) # tl (ansi_split s)"
  by (subst ansi_split.simps) (simp split: list.splits)

function strip_escapes :: "string \<Rightarrow> string" where
  "strip_escapes s =
     (case escape_at s of
        Some (ps, l, rest) \<Rightarrow> strip_escapes rest
      | None \<Rightarrow> (case s of [] \<Rightarrow> [] | c # s1 \<Rightarrow> c # strip_escapes s1))"
  by pat_completeness auto
termination
  by (relation "measure length") (auto dest: escape_at_append)

declare strip_escapes.simps [simp del]

lemma strip_escapes_cases:
  "escape_at s = Some (ps, l, rest) \<Longrightarrow> strip_escapes s = strip_escapes rest"
  "strip_escapes [] = []"
  "escape_at (c # s1) = None \<Longrightarrow> strip_escapes (c # s1) = c # strip_escapes s1"
  by (subst strip_escapes.simps; simp)+

fun lit_text :: "out_piece \<Rightarrow> string" where
  "lit_text (Lit s) = s"
| "lit_text p = []"

fun bracketed :: "bool \<Rightarrow> out_piece list \<Rightarrow> bool" where
  "bracketed ins [] = (\<not> ins)"
| "bracketed ins (Lit s # ps) = bracketed ins ps"
| "bracketed ins (Open c # ps) = (\<not> ins \<and> bracketed True ps)"
| "bracketed ins (Close # ps) = (ins \<and> bracketed False ps)"

lemma open_code_shape:
  "open_code ps r = (out, r') \<Longrightarrow> (\<exists>c. out = [Open c]) \<and> inside r'"
  by (auto simp: open_code_def Let_def split: prod.splits)

lemma ansi_piece_bracketed:
  assumes "ansi_piece p r = (out, r')" "bracketed (inside r') rest"
  shows "bracketed (inside r) (out @ rest)"
  using assms
  by (auto simp: ansi_piece_def split: option.splits prod.splits if_splits dest!: open_code_shape)

lemma ansi_loop_bracketed:
  "ansi_loop ps r = (out, r') \<Longrightarrow> bracketed (inside r') rest \<Longrightarrow> bracketed (inside r) (out @ rest)"
proof (induction ps arbitrary: r out)
  case Nil
  then show ?case by simp
next
  case (Cons p ps)
  obtain out1 r1 where 1: "ansi_piece p r = (out1, r1)" by fastforce
  obtain out2 r2 where 2: "ansi_loop ps r1 = (out2, r2)" by fastforce
  from Cons.prems(1) 1 2 have eq: "out = out1 @ out2" "r2 = r'" by auto
  with Cons.IH [of r1 out2] 2 Cons.prems(2) have "bracketed (inside r1) (out2 @ rest)" by simp
  with ansi_piece_bracketed [OF 1] eq show ?case by simp
qed

lemma ansi_output_bracketed: "bracketed False (ansi_output ps)"
proof -
  obtain out r where l: "ansi_loop ps \<lparr>inside = False, prev_color = None, prev_background = None\<rparr> = (out, r)"
    by fastforce
  from ansi_loop_bracketed [OF l, of "if inside r then [Close] else []"] l
  show ?thesis by (auto simp: ansi_output_def split: if_splits)
qed

lemma ansi_piece_text:
  "ansi_piece p r = (out, r') \<Longrightarrow>
     concat (map lit_text out) = (if whole_escape p = None then p else [])"
  by (auto simp: ansi_piece_def split: option.splits prod.splits if_splits dest!: open_code_shape)

lemma ansi_loop_text:
  "ansi_loop ps r = (out, r') \<Longrightarrow>
     concat (map lit_text out) = concat (filter (\<lambda>p. whole_escape p = None) ps)"
  by (induction ps arbitrary: r out)
     (auto split: prod.splits dest!: ansi_piece_text)

lemma ansi_output_text:
  "concat (map lit_text (ansi_output ps)) = concat (filter (\<lambda>p. whole_escape p = None) ps)"
  by (auto simp: ansi_output_def split: prod.splits dest: ansi_loop_text)

lemma escape_at_prefix:
  assumes "escape_at w = Some (ps, l, [])" "s = w @ s'"
  shows "escape_at s = Some (ps, l, s')"
proof -
  from assms(1) have w: "w = ESC # CHR ''['' # ps @ [l]" by (rule escape_at_append)
  from assms(1) w have l: "is_letter l" and ps: "takeWhile is_digit_or_semi (ps @ [l]) = ps"
    and d: "dropWhile is_digit_or_semi (ps @ [l]) = [l]"
    by (auto simp: escape_at_def split: list.splits if_splits)
  have all: "\<forall>x \<in> set ps. is_digit_or_semi x" using ps by (metis set_takeWhileD)
  have nl: "\<not> is_digit_or_semi l" using hd_dropWhile [of is_digit_or_semi] d by (metis list.distinct(1) list.sel(1))
  have "dropWhile is_digit_or_semi (ps @ l # s') = l # s'"
    using all nl by simp
  moreover have "takeWhile is_digit_or_semi (ps @ l # s') = ps"
    using all nl by (simp add: takeWhile_append)
  ultimately show ?thesis using l assms(2) w by (simp add: escape_at_def)
qed

lemma ansi_split_prefix:
  "(\<exists>s'. s = hd (ansi_split s) @ s') \<and> (escape_at s \<noteq> None \<longrightarrow> hd (ansi_split s) = [])"
  by (induction s rule: scan_induct) (auto simp: ansi_split_escape ansi_split_char)

lemma whole_escape_hd: "whole_escape (hd (ansi_split s)) = None"
proof (rule ccontr)
  assume "\<not> ?thesis"
  then obtain ps l where e: "escape_at (hd (ansi_split s)) = Some (ps, l, [])"
    by (auto simp: whole_escape_def split: option.splits list.splits)
  obtain s' where "s = hd (ansi_split s) @ s'" using ansi_split_prefix by blast
  from escape_at_prefix [OF e this] have "hd (ansi_split s) = []" using ansi_split_prefix [of s] by simp
  with e show False by (simp add: escape_at_def)
qed

lemma whole_escape_code:
  assumes "escape_at s = Some (ps, l, rest)"
  shows "whole_escape (ESC # CHR ''['' # ps @ [l]) = Some (ps, l)"
proof -
  have s: "s = ESC # CHR ''['' # ps @ l # rest" by (rule escape_at_append [OF assms])
  from assms have ps: "takeWhile is_digit_or_semi (ps @ l # rest) = ps" and l: "is_letter l"
    and d: "dropWhile is_digit_or_semi (ps @ l # rest) = l # rest"
    by (auto simp: escape_at_def s split: list.splits if_splits)
  have all: "\<forall>x \<in> set ps. is_digit_or_semi x" using ps by (metis set_takeWhileD)
  have nl: "\<not> is_digit_or_semi l" using hd_dropWhile [of is_digit_or_semi] d by (metis list.distinct(1) list.sel(1))
  from all nl l show ?thesis
    by (simp add: whole_escape_def escape_at_def takeWhile_append dropWhile_append)
qed

lemma ansi_split_text: "concat (filter (\<lambda>p. whole_escape p = None) (ansi_split s)) = strip_escapes s"
proof (induction s rule: scan_induct)
  case (escape s ps l rest)
  then show ?case using whole_escape_code [OF escape(1)]
    by (simp add: ansi_split_escape strip_escapes_cases(1) whole_escape_def)
next
  case nil
  show ?case by (simp add: strip_escapes_cases whole_escape_def)
next
  case (char c s)
  then show ?case using whole_escape_hd [of "c # s"] whole_escape_hd [of s]
    by (cases "ansi_split s") (simp_all add: ansi_split_char strip_escapes_cases)
qed

lemma concat_ansi_split: "concat (ansi_split s) = s"
proof (induction s rule: scan_induct)
  case (escape s ps l rest)
  then show ?case by (simp add: ansi_split_escape escape_at_append [OF escape(1)])
next
  case (char c s)
  then show ?case by (cases "ansi_split s") (simp_all add: ansi_split_char)
qed simp

text \<open>The comparison that should skip a leading reset lacks the escape character: it never holds.\<close>

lemma first_piece_escape: "1 < length (ansi_split s) \<Longrightarrow> ESC \<in> set (concat (take 3 (ansi_split s)))"
proof (induction s rule: scan_induct)
  case (escape s ps l rest)
  then show ?case by (simp add: ansi_split_escape numeral_3_eq_3)
next
  case (char c s)
  then show ?case by (cases "ansi_split s") (auto simp: ansi_split_char numeral_3_eq_3)
qed simp

lemma from_ansi_output: "from_ansi s = concat (map out_str (ansi_output (ansi_split s)))"
proof (cases "length (ansi_split s) = 1")
  case True
  then obtain w where w: "ansi_split s = [w]" by (cases "ansi_split s") auto
  with concat_ansi_split [of s] whole_escape_hd [of s] True show ?thesis
    by (simp add: from_ansi_def Let_def ansi_output_def ansi_piece_def)
next
  case False
  then have "1 < length (ansi_split s)" by (cases "ansi_split s"; cases "tl (ansi_split s)") auto
  note esc = first_piece_escape [OF this]
  have "concat (take 3 (ansi_split s)) \<noteq> ''[0m''" using esc by (intro notI) simp
  moreover have "concat (take 3 (ansi_split s)) \<noteq> ''[m''" using esc by (intro notI) simp
  ultimately show ?thesis using False by (simp add: from_ansi_def Let_def)
qed
subsection \<open>The palette is the 256-colour palette of xterm\<close>

definition cube_levels :: "string list" where
  "cube_levels = [''00'', ''5F'', ''87'', ''AF'', ''D7'', ''FF'']"

definition grey_levels :: "string list" where
  "grey_levels = [''08'', ''12'', ''1C'', ''26'', ''30'', ''3A'', ''44'', ''4E'', ''58'', ''62'', ''6C'',
     ''76'', ''80'', ''8A'', ''94'', ''9E'', ''A8'', ''B2'', ''BC'', ''C6'', ''D0'', ''DA'', ''E4'', ''EE'']"

definition xterm_cube :: "string list" where
  "xterm_cube = concat (map (\<lambda>r. concat (map (\<lambda>g. map (\<lambda>b. CHR ''#'' # r @ g @ b)
     cube_levels) cube_levels)) cube_levels)"

lemma palette_xterm:
  "drop 16 ansi_palette = xterm_cube @ map (\<lambda>g. CHR ''#'' # g @ g @ g) grey_levels"
  by (simp add: ansi_palette_def xterm_cube_def cube_levels_def grey_levels_def)

lemma length_ansi_palette: "length ansi_palette = 256"
  by (simp add: ansi_palette_def)

lemma nat_str_ne_five: "nat_str n = ''5'' \<longleftrightarrow> n = 5"
proof -
  have "nat_str 5 = ''5''" by code_simp
  then show ?thesis by (metis nat_str_inject)
qed

lemma nat_str_no_semi: "CHR '';'' \<notin> set (nat_str n)"
proof (induction n rule: nat_str.induct)
  case (1 n)
  have d: "CHR '';'' \<noteq> digit_char k" if "k < 10" for k
  proof
    assume eq: "CHR '';'' = digit_char k"
    have "digit_val (CHR '';'') = None" by code_simp
    with digit_val_digit_char [OF that] show False by (simp add: eq)
  qed
  with 1 show ?case by (subst nat_str.simps) (simp split: if_splits)
qed

lemma split_on_append:
  "c \<notin> set w \<Longrightarrow> split_on c (w @ c # s) = w # split_on c s"
  by (induction w) auto

lemma nat_str_digits:
  "n < 10 \<Longrightarrow> nat_str n = [digit_char n]"
  by (subst nat_str.simps) simp

lemma control_num_nat_str [simp]: "control_num (nat_str n) = Some n"
  by (simp add: control_num_def digits_val_nat_str)

lemma control_list:
  "split_on (CHR '';'') (nat_str a @ '';'' @ nat_str b @ '';'' @ nat_str c) =
     [nat_str a, nat_str b, nat_str c]"
  using split_on_append [OF nat_str_no_semi [of a], of "nat_str b @ '';'' @ nat_str c"]
    split_on_append [OF nat_str_no_semi [of b], of "nat_str c"] split_on_no_sep [OF nat_str_no_semi [of c]]
  by simp

text \<open>\<open>38;5;n\<close> and \<open>48;5;n\<close> select entry \<open>n\<close> of the palette.\<close>

lemma format_8bit_color:
  assumes "n < 256"
  shows "format_ansi (nat_str 38 @ '';'' @ nat_str 5 @ '';'' @ nat_str n) =
      ([], Some (ansi_palette ! n), None)"
    and "format_ansi (nat_str 48 @ '';'' @ nat_str 5 @ '';'' @ nat_str n) =
      ([], None, Some (ansi_palette ! n))"
  unfolding format_ansi_def control_list
  by (simp_all add: control_step_def ansi_init_def in_palette_def length_ansi_palette assms
      or_keep_def swap_reversed_def ansi_colors_def Let_def)

text \<open>\<open>30 + c\<close> and \<open>40 + c\<close> select one of the eight named colours.\<close>

lemma single_control:
  assumes "k \<notin> {1, 2, 3, 4, 5, 7, 38, 48}"
  shows "fold (control_step (split_on (CHR '';'') (nat_str k))) (split_on (CHR '';'') (nat_str k)) ansi_init =
    ansi_init\<lparr>output_color := or_keep (map_of color_list k) [],
      output_background := or_keep (map_of background_list k) []\<rparr>"
proof -
  have n: "split_on (CHR '';'') (nat_str k) = [nat_str k]"
    by (rule split_on_no_sep [OF nat_str_no_semi])
  have five: "nat_str k \<noteq> ''5''" using assms by (simp add: nat_str_ne_five)
  show ?thesis unfolding n using assms five
    by (simp add: control_step_def ansi_init_def Let_def)
qed

lemma format_basic_color:
  assumes "(c, name) \<in> set (zip [0, 1, 2, 3, 4, 5, 6, 7] [''black'', ''red'', ''green'', ''yellow'', ''blue'',
      ''magenta'', ''cyan'', ''white''])"
  shows "format_ansi (nat_str (30 + c)) = ([], oget (ansi_colors NormalColors) name, None)"
    and "format_ansi (nat_str (40 + c)) = ([], None, oget (ansi_colors NormalColors) name)"
proof -
  have "list_all (\<lambda>(c, name). map_of color_list (30 + c) = Some name \<and>
      map_of background_list (30 + c) = None \<and> map_of color_list (40 + c) = None \<and>
      map_of background_list (40 + c) = Some name \<and> c < 8 \<and> name \<noteq> ''inherit'' \<and> name \<noteq> ''transparent'')
    (zip [0, 1, 2, 3, 4, 5, 6, 7] [''black'', ''red'', ''green'', ''yellow'', ''blue'', ''magenta'',
      ''cyan'', ''white''])"
    by code_simp
  from this [unfolded list_all_iff, THEN bspec, OF assms] have fg: "map_of color_list (30 + c) = Some name"
      "map_of background_list (30 + c) = None"
    and bg: "map_of color_list (40 + c) = None" "map_of background_list (40 + c) = Some name"
    and c8: "c < 8" and name: "name \<noteq> ''inherit''" "name \<noteq> ''transparent''" by simp_all
  have c: "30 + c \<notin> {1, 2, 3, 4, 5, 7, 38, 48}" "40 + c \<notin> {1, 2, 3, 4, 5, 7, 38, 48}"
    using c8 by simp_all
  have none: "oget (ansi_colors NormalColors) [] = None" by (simp add: ansi_colors_def)
  show "format_ansi (nat_str (30 + c)) = ([], oget (ansi_colors NormalColors) name, None)"
    unfolding format_ansi_def Let_def single_control [OF c(1)] fg
    using name none by (simp add: or_keep_def swap_reversed_def ansi_init_def Let_def)
  show "format_ansi (nat_str (40 + c)) = ([], None, oget (ansi_colors NormalColors) name)"
    unfolding format_ansi_def Let_def single_control [OF c(2)] bg
    using name none by (simp add: or_keep_def swap_reversed_def ansi_init_def Let_def)
qed

subsection \<open>Overtyped text is rendered\<close>

text \<open>A manual page: plain text, underlined text (each letter after \<open>_\<close> and a backspace) and
  bold text (each letter typed twice).\<close>

datatype man_seg = Plain string | Under string | Bold string

fun seg_text :: "man_seg \<Rightarrow> string" where
  "seg_text (Plain s) = s"
| "seg_text (Under s) = s"
| "seg_text (Bold s) = s"

fun overtype :: "man_seg \<Rightarrow> string" where
  "overtype (Plain s) = s"
| "overtype (Under s) = concat (map (\<lambda>c. [US, BS, c]) s)"
| "overtype (Bold s) = concat (map (\<lambda>c. [c, BS, c]) s)"

fun render :: "man_seg \<Rightarrow> string" where
  "render (Plain s) = s"
| "render (Under s) = ''[[u;;]'' @ s @ '']''"
| "render (Bold s) = ''[[b;#fff;]'' @ s @ '']''"

fun same_kind :: "man_seg \<Rightarrow> man_seg \<Rightarrow> bool" where
  "same_kind (Under a) (Under b) = True"
| "same_kind (Bold a) (Bold b) = True"
| "same_kind a b = False"

fun kinds_alternate :: "man_seg list \<Rightarrow> bool" where
  "kinds_alternate (a # b # segs) = (\<not> same_kind a b \<and> kinds_alternate (b # segs))"
| "kinds_alternate segs = True"

definition man_ok :: "man_seg list \<Rightarrow> bool" where
  "man_ok segs \<longleftrightarrow> kinds_alternate segs \<and>
     (\<forall>s \<in> set segs. seg_text s \<noteq> [] \<and> (\<forall>c \<in> set (seg_text s). dot c \<and> c \<noteq> BS \<and> c \<noteq> US))"

text \<open>A run of units cannot start where the next character is no backspace.\<close>

lemma unit_run_none:
  assumes "\<And>a b c. u a b c \<Longrightarrow> b = BS" "take 1 (drop 1 s) \<noteq> [BS]"
  shows "unit_run u s = ([], s)"
  using assms by (cases "(u, s)" rule: unit_run.cases) auto

lemma unit_middle: "under_unit a b c \<Longrightarrow> b = BS" "bold_unit a b c \<Longrightarrow> b = BS"
  by (simp_all add: under_unit_def bold_unit_def)

lemma under_none: "take 1 (drop 1 s) \<noteq> [BS] \<Longrightarrow> unit_run under_unit s = ([], s)"
  and bold_none: "take 1 (drop 1 s) \<noteq> [BS] \<Longrightarrow> unit_run bold_unit s = ([], s)"
  by (rule unit_run_none; auto dest: unit_middle)+

lemma replace_runs_skip:
  assumes "unit_run u (c # s) = ([], c # s)"
  shows "replace_runs u f (c # s) = c # replace_runs u f s"
  using assms by (simp add: replace_runs.simps(2))

lemma replace_runs_run:
  assumes "unit_run u s = (run, rest)" "run \<noteq> []"
  shows "replace_runs u f s = f run @ replace_runs u f rest"
  using assms by (cases s) (simp_all add: replace_runs.simps(2))

lemma second_clean:
  "\<forall>c \<in> set w. c \<noteq> BS \<Longrightarrow> take 1 rest \<noteq> [BS] \<Longrightarrow> w \<noteq> [] \<Longrightarrow>
     take 1 (drop 1 (w @ rest)) \<noteq> [BS]"
  by (cases w; cases "tl w") auto

lemma replace_runs_clean:
  assumes u: "\<And>a b c. u a b c \<Longrightarrow> b = BS"
    and "\<forall>c \<in> set w. c \<noteq> BS" "take 1 rest \<noteq> [BS]"
  shows "replace_runs u f (w @ rest) = w @ replace_runs u f rest"
  using assms(2)
proof (induction w)
  case (Cons c w)
  have "take 1 (drop 1 ((c # w) @ rest)) \<noteq> [BS]"
    by (rule second_clean) (use Cons.prems assms(3) in auto)
  then have "unit_run u (c # w @ rest) = ([], c # w @ rest)" using unit_run_none [OF u] by simp
  with Cons show ?case by (simp add: replace_runs_skip)
qed simp

lemma unit_run_units:
  assumes "\<And>c. c \<in> set w \<Longrightarrow> u (h c) BS c" "unit_run u rest = ([], rest)"
  shows "unit_run u (concat (map (\<lambda>c. [h c, BS, c]) w) @ rest) = (concat (map (\<lambda>c. [h c, BS, c]) w), rest)"
  using assms by (induction w) simp_all

text \<open>Bold text passes the first replacement.\<close>

lemma under_stage_bold:
  assumes "\<forall>c \<in> set w. c \<noteq> BS \<and> c \<noteq> US" "take 1 rest \<noteq> [BS]"
  shows "replace_runs under_unit f (concat (map (\<lambda>c. [c, BS, c]) w) @ rest) =
    concat (map (\<lambda>c. [c, BS, c]) w) @ replace_runs under_unit f rest"
  using assms(1)
proof (induction w)
  case (Cons c w)
  let ?t = "concat (map (\<lambda>c. [c, BS, c]) w) @ rest"
  have t: "take 1 ?t \<noteq> [BS]" using Cons.prems assms(2) by (cases w) auto
  have "unit_run under_unit (c # BS # c # ?t) = ([], c # BS # c # ?t)"
    using Cons.prems by (simp add: under_unit_def)
  moreover have "unit_run under_unit (BS # c # ?t) = ([], BS # c # ?t)"
    by (rule under_none) (use Cons.prems in auto)
  moreover have "unit_run under_unit (c # ?t) = ([], c # ?t)"
    by (rule under_none) (use t in auto)
  ultimately show ?case using Cons by (simp add: replace_runs_skip)
qed simp

lemma strip_under_word:
  "\<forall>c \<in> set w. c \<noteq> BS \<and> c \<noteq> US \<Longrightarrow> strip_under (concat (map (\<lambda>c. [US, BS, c]) w)) = w"
proof (induction w)
  case Nil
  show ?case by (subst strip_under.simps) simp
next
  case (Cons c w)
  let ?t = "concat (map (\<lambda>c. [US, BS, c]) w)"
  have "strip_under (US # BS # c # ?t) = strip_under (c # ?t)"
    by (subst strip_under.simps) simp
  also have "\<dots> = c # strip_under ?t" using Cons.prems by (subst strip_under.simps) auto
  finally show ?case using Cons by simp
qed

lemma keep_second_word:
  "\<forall>c \<in> set w. dot c \<Longrightarrow> keep_second (concat (map (\<lambda>c. [c, BS, c]) w)) = w"
  by (induction w) (simp_all add: bold_unit_def)

fun half_render :: "man_seg \<Rightarrow> string" where
  "half_render (Under s) = render (Under s)"
| "half_render s = overtype s"

definition seg_ok :: "man_seg \<Rightarrow> bool" where
  "seg_ok s \<longleftrightarrow> seg_text s \<noteq> [] \<and> (\<forall>c \<in> set (seg_text s). dot c \<and> c \<noteq> BS \<and> c \<noteq> US)"

lemma overtype_first: "\<forall>s \<in> set segs. seg_ok s \<Longrightarrow> take 1 (concat (map overtype segs)) \<noteq> [BS]"
proof (cases segs)
  case (Cons s segs')
  assume "\<forall>s \<in> set segs. seg_ok s"
  with Cons show ?thesis by (cases s; cases "seg_text s") (auto simp: seg_ok_def)
qed simp

lemma half_first: "\<forall>s \<in> set segs. seg_ok s \<Longrightarrow> take 1 (concat (map half_render segs)) \<noteq> [BS]"
proof (cases segs)
  case (Cons s segs')
  assume "\<forall>s \<in> set segs. seg_ok s"
  with Cons show ?thesis by (cases s; cases "seg_text s") (auto simp: seg_ok_def)
qed simp

lemma under_stop:
  assumes "\<forall>s \<in> set segs. seg_ok s" "kinds_alternate (Under w # segs)"
  shows "unit_run under_unit (concat (map overtype segs)) = ([], concat (map overtype segs))"
proof (cases segs)
  case (Cons s segs')
  have rest: "take 1 (concat (map overtype segs')) \<noteq> [BS]"
    using assms(1) Cons by (intro overtype_first) auto
  show ?thesis
  proof (cases s)
    case (Plain p)
    then have "take 1 (drop 1 (p @ concat (map overtype segs'))) \<noteq> [BS]"
      using assms(1) Cons rest by (intro second_clean) (auto simp: seg_ok_def)
    then show ?thesis using under_none Cons Plain by simp
  next
    case (Bold p)
    then show ?thesis using assms(1) Cons by (cases p) (auto simp: seg_ok_def under_unit_def)
  qed (use assms(2) Cons in auto)
qed simp

lemma bold_stop:
  assumes "\<forall>s \<in> set segs. seg_ok s" "kinds_alternate (Bold w # segs)"
  shows "unit_run bold_unit (concat (map half_render segs)) = ([], concat (map half_render segs))"
proof (cases segs)
  case (Cons s segs')
  have rest: "take 1 (concat (map half_render segs')) \<noteq> [BS]"
    using assms(1) Cons by (intro half_first) auto
  show ?thesis
  proof (cases s)
    case (Plain p)
    then have "take 1 (drop 1 (p @ concat (map half_render segs'))) \<noteq> [BS]"
      using assms(1) Cons rest by (intro second_clean) (auto simp: seg_ok_def)
    then show ?thesis using bold_none Cons Plain by simp
  qed (use assms(2) Cons in \<open>auto simp: bold_unit_def\<close>)
qed simp

lemma alternate_tl: "kinds_alternate (s # segs) \<Longrightarrow> kinds_alternate segs"
  by (cases segs) auto

lemma under_stage:
  "\<forall>s \<in> set segs. seg_ok s \<Longrightarrow> kinds_alternate segs \<Longrightarrow>
     replace_runs under_unit (\<lambda>full. ''[[u;;]'' @ strip_under full @ '']'') (concat (map overtype segs)) =
     concat (map half_render segs)"
proof (induction segs)
  case (Cons s segs)
  have rest: "take 1 (concat (map overtype segs)) \<noteq> [BS]"
    using Cons.prems by (intro overtype_first) auto
  note IH = Cons.IH [OF _ alternate_tl [OF Cons.prems(2)]]
  show ?case
  proof (cases s)
    case (Plain p)
    then have "\<forall>c \<in> set p. c \<noteq> BS" using Cons.prems by (auto simp: seg_ok_def)
    with Plain IH Cons.prems(1) replace_runs_clean [of under_unit, OF unit_middle(1) _ rest] show ?thesis by simp
  next
    case (Under p)
    then have p: "p \<noteq> []" "\<forall>c \<in> set p. dot c \<and> c \<noteq> BS \<and> c \<noteq> US"
      using Cons.prems by (auto simp: seg_ok_def)
    have "unit_run under_unit (concat (map (\<lambda>c. [US, BS, c]) p) @ concat (map overtype segs)) =
        (concat (map (\<lambda>c. [US, BS, c]) p), concat (map overtype segs))"
      by (rule unit_run_units) (use p Under Cons.prems under_stop in \<open>auto simp: under_unit_def\<close>)
    from replace_runs_run [OF this] p strip_under_word [of p] Under IH Cons.prems(1)
    show ?thesis by (cases p) simp_all
  next
    case (Bold p)
    then have "\<forall>c \<in> set p. c \<noteq> BS \<and> c \<noteq> US" using Cons.prems by (auto simp: seg_ok_def)
    with Bold IH Cons.prems(1) under_stage_bold [OF _ rest] show ?thesis by simp
  qed
qed simp

lemma bold_stage:
  "\<forall>s \<in> set segs. seg_ok s \<Longrightarrow> kinds_alternate segs \<Longrightarrow>
     replace_runs bold_unit (\<lambda>full. ''[[b;#fff;]'' @ keep_second full @ '']'') (concat (map half_render segs)) =
     concat (map render segs)"
proof (induction segs)
  case (Cons s segs)
  have rest: "take 1 (concat (map half_render segs)) \<noteq> [BS]"
    using Cons.prems by (intro half_first) auto
  note IH = Cons.IH [OF _ alternate_tl [OF Cons.prems(2)]]
  show ?case
  proof (cases s)
    case (Bold p)
    then have p: "p \<noteq> []" "\<forall>c \<in> set p. dot c \<and> c \<noteq> BS \<and> c \<noteq> US"
      using Cons.prems by (auto simp: seg_ok_def)
    have "unit_run bold_unit (concat (map (\<lambda>c. [c, BS, c]) p) @ concat (map half_render segs)) =
        (concat (map (\<lambda>c. [c, BS, c]) p), concat (map half_render segs))"
      by (rule unit_run_units) (use p Bold Cons.prems bold_stop in \<open>auto simp: bold_unit_def\<close>)
    from replace_runs_run [OF this] p keep_second_word [of p] Bold IH Cons.prems(1)
    show ?thesis by (cases p) simp_all
  next
    case (Plain p)
    then have "\<forall>c \<in> set p. c \<noteq> BS" using Cons.prems by (auto simp: seg_ok_def)
    with Plain IH Cons.prems(1) replace_runs_clean [of bold_unit, OF unit_middle(2) _ rest] show ?thesis by simp
  next
    case (Under p)
    then have "\<forall>c \<in> set (render s). c \<noteq> BS" using Cons.prems by (auto simp: seg_ok_def)
    with Under IH Cons.prems(1) replace_runs_clean [of bold_unit "render s", OF unit_middle(2) _ rest]
    show ?thesis by simp
  qed
qed simp

subsection \<open>The properties of the formatter\<close>

text \<open>Overtyped text is rendered as mark-up: for any sequence of non-empty plain,
  underlined and bold pieces of text, no two underlined and no two bold ones next to each other,
  the formatter turns each underlined piece into one \<open>[[u;;]...]\<close>, each bold piece into one
  \<open>[[b;#fff;]...]\<close>, and leaves the plain text alone.\<close>

theorem overtyping_renders:
  assumes "\<forall>s \<in> set segs. seg_ok s" "kinds_alternate segs"
  shows "overtyping (concat (map overtype segs)) = concat (map render segs)"
  using under_stage [OF assms] bold_stage [OF assms] by (simp add: overtyping_def)

theorem overtyping_renders_witness:
  "overtyping (concat (map overtype [Plain ''see '', Under ''ls'', Bold ''(1)''])) =
     ''see [[u;;]ls][[b;#fff;](1)]''"
  using overtyping_renders [of "[Plain ''see '', Under ''ls'', Bold ''(1)'']"]
  by (simp add: seg_ok_def dot_def)

text \<open>C28: \<open>from_ansi\<close> keeps the text and balances its mark-up: its output is the text of the
  input without the escape sequences, cut into pieces, with at most one \<open>[[...]\<close> open at any
  time, every one closed, and nothing left open at the end.\<close>

theorem from_ansi_balanced:
  "\<exists>out. from_ansi s = concat (map out_str out) \<and> bracketed False out \<and>
     concat (map lit_text out) = strip_escapes s"
  using from_ansi_output [of s] ansi_output_bracketed [of "ansi_split s"]
    ansi_output_text [of "ansi_split s"] ansi_split_text [of s] by auto

text \<open>The colour parameters select the right colours: \<open>38;5;n\<close> and \<open>48;5;n\<close> pick entry \<open>n\<close>
  of a palette whose entries from 16 on are the colour cube and the greys of xterm, and \<open>30 + c\<close>
  and \<open>40 + c\<close> pick the named colour \<open>c\<close>, as text colour and as background.\<close>

theorem ansi_color_codes:
  assumes "n < 256"
    and "(c, name) \<in> set (zip [0, 1, 2, 3, 4, 5, 6, 7] [''black'', ''red'', ''green'', ''yellow'', ''blue'',
      ''magenta'', ''cyan'', ''white''])"
  shows "format_ansi (nat_str 38 @ '';'' @ nat_str 5 @ '';'' @ nat_str n) =
      ([], Some (ansi_palette ! n), None) \<and>
    format_ansi (nat_str 48 @ '';'' @ nat_str 5 @ '';'' @ nat_str n) =
      ([], None, Some (ansi_palette ! n)) \<and>
    (16 \<le> n \<longrightarrow> ansi_palette ! n =
      (xterm_cube @ map (\<lambda>g. CHR ''#'' # g @ g @ g) grey_levels) ! (n - 16)) \<and>
    format_ansi (nat_str (30 + c)) = ([], oget (ansi_colors NormalColors) name, None) \<and>
    format_ansi (nat_str (40 + c)) = ([], None, oget (ansi_colors NormalColors) name)"
proof -
  have "ansi_palette ! n = drop 16 ansi_palette ! (n - 16)" if "16 \<le> n"
    using that assms(1) by (simp add: length_ansi_palette)
  then show ?thesis
    using format_8bit_color [OF assms(1)] format_basic_color [OF assms(2)]
    unfolding palette_xterm by blast
qed

theorem ansi_color_codes_witness:
  "format_ansi (nat_str 38 @ '';'' @ nat_str 5 @ '';'' @ nat_str 208) = ([], Some ''#FF8700'', None) \<and>
   format_ansi (nat_str (30 + 1)) = ([], Some ''#A00'', None)"
proof -
  have "ansi_palette ! 208 = ''#FF8700''" by (simp add: ansi_palette_def)
  then show ?thesis using ansi_color_codes [of 208 1 "''red''"] by (simp add: ansi_colors_def)
qed

end
