(* ===== verification/Sigma_Graph.thy ===== *)
theory Sigma_Graph
  imports JS_Values
begin

text \<open>
  The graph of the renderer (\<open>sigma.classes.graph\<close> in \<open>lib/sigmajs/sigma.js\<close>): arrays of nodes and
  edges, indexes of both by their ids, and the degrees of the nodes.

  An id is a string or an integer; as a key of an index it is its text (\<open>prop_key\<close>), while
  \<open>===\<close> tells \<open>1\<close> from \<open>''1''\<close>.  \<open>No_id\<close> stands for anything else.  The other attributes of a node or an
  edge are a value \<open>'a\<close>, which the methods only pass on: with the default settings \<open>clone\<close> and
  \<open>immutable\<close> they are copied.  A method returns the error it throws, if any, with the graph it leaves.
  The number of arguments is not checked here.
\<close>

subsection \<open>The state\<close>

datatype gid = Sid string | Nid int | No_id

fun prop_key :: "gid \<Rightarrow> string" where
  "prop_key (Sid s) = s"
| "prop_key (Nid n) = int_str n"
| "prop_key No_id = ''undefined''"

record 'a gnode =
  node_id :: gid
  node_data :: 'a

record 'a gedge =
  edge_id :: gid
  source :: gid
  target :: gid
  edge_data :: 'a

record 'a graph =
  nodesArray :: "'a gnode list"
  edgesArray :: "'a gedge list"
  nodesIndex :: "string \<rightharpoonup> 'a gnode"
  edgesIndex :: "string \<rightharpoonup> 'a gedge"
  inNeighborsCount :: "string \<rightharpoonup> jsnum"
  outNeighborsCount :: "string \<rightharpoonup> jsnum"
  allNeighborsCount :: "string \<rightharpoonup> jsnum"

definition graph_new :: "'a graph" where
  "graph_new = \<lparr>nodesArray = [], edgesArray = [], nodesIndex = Map.empty, edgesIndex = Map.empty,
     inNeighborsCount = Map.empty, outNeighborsCount = Map.empty, allNeighborsCount = Map.empty\<rparr>"

subsection \<open>Adding\<close>

definition in_quotes :: "string \<Rightarrow> string" where
  "in_quotes s = [CHR 0x22] @ s @ [CHR 0x22]"

definition addNode :: "'a gnode \<Rightarrow> 'a graph \<Rightarrow> string option \<times> 'a graph" where
  "addNode node g =
     (let k = prop_key (node_id node) in
      if node_id node = No_id then (Some ''The node must have a string or number id.'', g)
      else if nodesIndex g k \<noteq> None then (Some (''The node '' @ in_quotes k @ '' already exists.''), g)
      else (None, g\<lparr>inNeighborsCount := (inNeighborsCount g)(k \<mapsto> 0),
                    outNeighborsCount := (outNeighborsCount g)(k \<mapsto> 0),
                    allNeighborsCount := (allNeighborsCount g)(k \<mapsto> 0),
                    nodesArray := nodesArray g @ [node],
                    nodesIndex := (nodesIndex g)(k \<mapsto> node)\<rparr>))"

text \<open>\<open>count[id]++\<close> and \<open>count[id]--\<close>; a missing count is \<open>undefined\<close>, which becomes NaN.\<close>

definition count_by :: "jsnum \<Rightarrow> string \<Rightarrow> (string \<rightharpoonup> jsnum) \<Rightarrow> (string \<rightharpoonup> jsnum)" where
  "count_by d k m = m(k \<mapsto> (case m k of None \<Rightarrow> NaN | Some v \<Rightarrow> v + d))"

definition count_edge :: "jsnum \<Rightarrow> 'a gedge \<Rightarrow> 'a graph \<Rightarrow> 'a graph" where
  "count_edge d e g =
     g\<lparr>inNeighborsCount := count_by d (prop_key (target e)) (inNeighborsCount g),
       outNeighborsCount := count_by d (prop_key (source e)) (outNeighborsCount g),
       allNeighborsCount :=
         count_by d (prop_key (source e)) (count_by d (prop_key (target e)) (allNeighborsCount g))\<rparr>"

definition addEdge :: "'a gedge \<Rightarrow> 'a graph \<Rightarrow> string option \<times> 'a graph" where
  "addEdge edge g =
     (let k = prop_key (edge_id edge) in
      if edge_id edge = No_id then (Some ''The edge must have a string or number id.'', g)
      else if source edge = No_id \<or> nodesIndex g (prop_key (source edge)) = None
      then (Some ''The edge source must have an existing node id.'', g)
      else if target edge = No_id \<or> nodesIndex g (prop_key (target edge)) = None
      then (Some ''The edge target must have an existing node id.'', g)
      else if edgesIndex g k \<noteq> None then (Some (''The edge '' @ in_quotes k @ '' already exists.''), g)
      else (None, count_edge 1 edge (g\<lparr>edgesArray := edgesArray g @ [edge],
                                       edgesIndex := (edgesIndex g)(k \<mapsto> edge)\<rparr>)))"

subsection \<open>Dropping\<close>

definition dropEdge :: "gid \<Rightarrow> 'a graph \<Rightarrow> string option \<times> 'a graph" where
  "dropEdge v g =
     (let k = prop_key v in
      if v = No_id then (Some ''dropEdge: Wrong arguments.'', g)
      else case edgesIndex g k of
        None \<Rightarrow> (Some (''The edge '' @ in_quotes k @ '' does not exist.''), g)
      | Some edge \<Rightarrow>
          (None, count_edge (- 1) edge
                   (g\<lparr>edgesIndex := (edgesIndex g)(k := None),
                      edgesArray := remove_first (\<lambda>e. edge_id e = v) (edgesArray g)\<rparr>)))"

text \<open>The loop over the edges, from position \<open>i - 1\<close> down to the first.\<close>

primrec drop_edges :: "nat \<Rightarrow> gid \<Rightarrow> 'a graph \<Rightarrow> string option \<times> 'a graph" where
  "drop_edges 0 v g = (None, g)"
| "drop_edges (Suc i) v g =
     (let e = edgesArray g ! i in
      if source e = v \<or> target e = v then
        (case dropEdge (edge_id e) g of
           (Some x, g1) \<Rightarrow> (Some x, g1)
         | (None, g1) \<Rightarrow> drop_edges i v g1)
      else drop_edges i v g)"

definition dropNode :: "gid \<Rightarrow> 'a graph \<Rightarrow> string option \<times> 'a graph" where
  "dropNode v g =
     (let k = prop_key v in
      if v = No_id then (Some ''dropNode: Wrong arguments.'', g)
      else if nodesIndex g k = None
      then (Some (''The node '' @ in_quotes k @ '' does not exist.''), g)
      else
        let g1 = g\<lparr>nodesIndex := (nodesIndex g)(k := None),
                   nodesArray := remove_first (\<lambda>n. node_id n = v) (nodesArray g)\<rparr>
        in case drop_edges (length (edgesArray g1)) v g1 of
             (Some x, g2) \<Rightarrow> (Some x, g2)
           | (None, g2) \<Rightarrow>
               (None, g2\<lparr>inNeighborsCount := (inNeighborsCount g2)(k := None),
                         outNeighborsCount := (outNeighborsCount g2)(k := None),
                         allNeighborsCount := (allNeighborsCount g2)(k := None)\<rparr>))"

subsection \<open>Clearing and reading\<close>

definition clear :: "'a graph \<Rightarrow> 'a graph" where
  "clear g = g\<lparr>nodesArray := [], edgesArray := [], nodesIndex := Map.empty, edgesIndex := Map.empty,
     inNeighborsCount := Map.empty, outNeighborsCount := Map.empty, allNeighborsCount := Map.empty\<rparr>"

text \<open>A loop of calls, which the first error ends.\<close>

primrec each :: "('x \<Rightarrow> 's \<Rightarrow> string option \<times> 's) \<Rightarrow> 'x list \<Rightarrow> 's \<Rightarrow> string option \<times> 's" where
  "each f [] s = (None, s)"
| "each f (x # xs) s =
     (case f x s of (Some err, s1) \<Rightarrow> (Some err, s1) | (None, s1) \<Rightarrow> each f xs s1)"

definition read :: "'a gnode list \<Rightarrow> 'a gedge list \<Rightarrow> 'a graph \<Rightarrow> string option \<times> 'a graph" where
  "read ns es g =
     (case each addNode ns g of
        (Some err, g1) \<Rightarrow> (Some err, g1)
      | (None, g1) \<Rightarrow> each addEdge es g1)"

text \<open>\<open>nodes\<close>, \<open>edges\<close> and \<open>degree\<close> of one id or of an array of ids; \<open>None\<close> is \<open>undefined\<close>.  \<open>which\<close> is not the
  name of a property every object inherits.\<close>

definition look_up :: "string \<Rightarrow> (string \<rightharpoonup> 'v) \<Rightarrow> gid list \<Rightarrow> string + 'v option list" where
  "look_up name index ids =
     (if No_id \<in> set ids then Inl (name @ '': Wrong arguments.'')
      else Inr (map (\<lambda>v. index (prop_key v)) ids))"

definition graph_nodes :: "gid list \<Rightarrow> 'a graph \<Rightarrow> string + 'a gnode option list" where
  "graph_nodes ids g = look_up ''nodes'' (nodesIndex g) ids"

definition graph_edges :: "gid list \<Rightarrow> 'a graph \<Rightarrow> string + 'a gedge option list" where
  "graph_edges ids g = look_up ''edges'' (edgesIndex g) ids"

definition degree :: "gid list \<Rightarrow> string \<Rightarrow> 'a graph \<Rightarrow> string + jsnum option list" where
  "degree ids which g =
     look_up ''degree'' (if which = ''in'' then inNeighborsCount g
                         else if which = ''out'' then outNeighborsCount g
                         else allNeighborsCount g) ids"

subsection \<open>A graph as its arrays\<close>

text \<open>
  \<open>indexed ks ns es\<close> is the graph of the nodes \<open>ns\<close> and the edges \<open>es\<close>, with degrees for the keys \<open>ks\<close>: while
  a node is dropped, its edges go after it, and its degree goes last.
\<close>

definition index_by :: "('x \<Rightarrow> gid) \<Rightarrow> 'x list \<Rightarrow> (string \<rightharpoonup> 'x)" where
  "index_by f xs = map_of (map (\<lambda>x. (prop_key (f x), x)) xs)"

definition ends :: "('a gedge \<Rightarrow> gid) \<Rightarrow> 'a gedge list \<Rightarrow> string \<Rightarrow> nat" where
  "ends f es k = length (filter (\<lambda>e. prop_key (f e) = k) es)"

definition counts :: "string set \<Rightarrow> (string \<Rightarrow> nat) \<Rightarrow> (string \<rightharpoonup> jsnum)" where
  "counts ks c = (\<lambda>k. if k \<in> ks then Some (Fin (real (c k))) else None)"

definition indexed :: "string set \<Rightarrow> 'a gnode list \<Rightarrow> 'a gedge list \<Rightarrow> 'a graph" where
  "indexed ks ns es =
     \<lparr>nodesArray = ns, edgesArray = es, nodesIndex = index_by node_id ns, edgesIndex = index_by edge_id es,
      inNeighborsCount = counts ks (ends target es), outNeighborsCount = counts ks (ends source es),
      allNeighborsCount = counts ks (\<lambda>k. ends source es k + ends target es k)\<rparr>"

definition node_keys :: "'a gnode list \<Rightarrow> string list" where
  "node_keys ns = map (\<lambda>n. prop_key (node_id n)) ns"

definition edge_keys :: "'a gedge list \<Rightarrow> string list" where
  "edge_keys es = map (\<lambda>e. prop_key (edge_id e)) es"

definition sound :: "string set \<Rightarrow> 'a gnode list \<Rightarrow> 'a gedge list \<Rightarrow> bool" where
  "sound ks ns es \<longleftrightarrow>
     distinct (node_keys ns) \<and> distinct (edge_keys es) \<and> (\<forall>n \<in> set ns. node_id n \<noteq> No_id) \<and>
     (\<forall>e \<in> set es. edge_id e \<noteq> No_id \<and> source e \<noteq> No_id \<and> target e \<noteq> No_id \<and>
        prop_key (source e) \<in> ks \<and> prop_key (target e) \<in> ks)"

definition graph_ok :: "'a graph \<Rightarrow> bool" where
  "graph_ok g \<longleftrightarrow>
     (let ks = set (node_keys (nodesArray g))
      in g = indexed ks (nodesArray g) (edgesArray g) \<and> sound ks (nodesArray g) (edgesArray g))"

subsection \<open>What the operations do to the arrays\<close>

lemma option_eqI: "(\<And>y. a = Some y \<longleftrightarrow> b = Some y) \<Longrightarrow> a = b"
  by (cases a; cases b) auto

lemma index_by_None: "index_by f xs k = None \<longleftrightarrow> k \<notin> (\<lambda>x. prop_key (f x)) ` set xs"
  by (induction xs) (auto simp: index_by_def)

lemma index_by_iff:
  assumes "distinct (map (\<lambda>x. prop_key (f x)) xs)"
  shows "index_by f xs k = Some x \<longleftrightarrow> x \<in> set xs \<and> prop_key (f x) = k"
  using assms by (auto simp: index_by_def comp_def)

lemma index_by_snoc:
  assumes "distinct (map (\<lambda>x. prop_key (f x)) (xs @ [x]))"
  shows "index_by f (xs @ [x]) = (index_by f xs)(prop_key (f x) \<mapsto> x)"
  using assms by (intro ext option_eqI) (auto simp: index_by_iff image_iff)

lemma index_by_remove:
  assumes "distinct (map (\<lambda>x. prop_key (f x)) (xs @ x # ys))"
  shows "(index_by f (xs @ x # ys))(prop_key (f x) := None) = index_by f (xs @ ys)"
  using assms by (intro ext option_eqI) (auto simp: index_by_iff image_iff)

lemma without_one:
  assumes "distinct (map (\<lambda>x. prop_key (f x)) (xs @ x # ys))"
  shows "remove_first (\<lambda>y. f y = f x) (xs @ x # ys) = xs @ ys"
    "filter (\<lambda>y. f y \<noteq> f x) (xs @ x # ys) = xs @ ys"
proof -
  have n: "\<forall>y \<in> set xs. f y \<noteq> f x" "\<forall>y \<in> set ys. f y \<noteq> f x" using assms by (auto simp: image_iff)
  then show "filter (\<lambda>y. f y \<noteq> f x) (xs @ x # ys) = xs @ ys" by simp
  show "remove_first (\<lambda>y. f y = f x) (xs @ x # ys) = xs @ ys" using n(1) by (induction xs) simp_all
qed

lemma counts_upd: "c k = 0 \<Longrightarrow> (counts ks c)(k \<mapsto> Fin 0) = counts (insert k ks) c"
  by (auto simp: counts_def fun_eq_iff)

lemma counts_drop: "(counts ks c)(k := None) = counts (ks - {k}) c"
  by (auto simp: counts_def fun_eq_iff)

lemma count_by_counts:
  "k \<in> ks \<Longrightarrow> count_by 1 k (counts ks c) = counts ks (c(k := Suc (c k)))"
  "k \<in> ks \<Longrightarrow> 0 < c k \<Longrightarrow> count_by (- 1) k (counts ks c) = counts ks (c(k := c k - 1))"
  by (auto simp: counts_def count_by_def fun_eq_iff num_simps of_nat_diff)

lemma ends_snoc: "ends f (es @ [e]) = (ends f es)(prop_key (f e) := Suc (ends f es (prop_key (f e))))"
  by (auto simp: ends_def fun_eq_iff)

lemma ends_mid:
  "ends f (es @ e # es') = (ends f (es @ es'))(prop_key (f e) := Suc (ends f (es @ es') (prop_key (f e))))"
  by (auto simp: ends_def fun_eq_iff)

lemma addNode_indexed:
  assumes "node_id n \<noteq> No_id" "prop_key (node_id n) \<notin> set (node_keys ns)" "sound ks ns es"
    and "ks = set (node_keys ns)"
  shows "addNode n (indexed ks ns es) =
           (None, indexed (insert (prop_key (node_id n)) ks) (ns @ [n]) es)"
proof -
  let ?k = "prop_key (node_id n)"
  have z: "ends source es ?k = 0" "ends target es ?k = 0"
    using assms(2-4) by (auto simp: ends_def sound_def filter_empty_conv)
  have "distinct (map (\<lambda>n. prop_key (node_id n)) (ns @ [n]))"
    using assms(2,3) by (auto simp: sound_def node_keys_def)
  then show ?thesis
    using assms(1,2) z
    by (simp add: addNode_def Let_def indexed_def index_by_None node_keys_def index_by_snoc counts_upd zero_Fin)
qed

lemma addEdge_indexed:
  assumes "edge_id e \<noteq> No_id" "prop_key (edge_id e) \<notin> set (edge_keys es)" "sound ks ns es"
    and "ks = set (node_keys ns)" "source e \<noteq> No_id" "target e \<noteq> No_id"
    and "prop_key (source e) \<in> ks" "prop_key (target e) \<in> ks"
  shows "addEdge e (indexed ks ns es) = (None, indexed ks ns (es @ [e]))"
proof -
  have d: "distinct (map (\<lambda>n. prop_key (edge_id n)) (es @ [e]))"
    using assms(2,3) by (auto simp: sound_def edge_keys_def)
  have all: "(\<lambda>k. ends source (es @ [e]) k + ends target (es @ [e]) k) =
     ((\<lambda>k. ends source es k + ends target es k)
        (prop_key (target e) := Suc (ends source es (prop_key (target e)) + ends target es (prop_key (target e)))))
        (prop_key (source e) := Suc (((\<lambda>k. ends source es k + ends target es k)
           (prop_key (target e) := Suc (ends source es (prop_key (target e)) + ends target es (prop_key (target e)))))
           (prop_key (source e))))"
    by (auto simp: ends_snoc fun_eq_iff)
  show ?thesis
    using assms d unfolding addEdge_def Let_def
    by (simp add: indexed_def index_by_None node_keys_def edge_keys_def count_edge_def index_by_snoc
        count_by_counts all) (simp add: ends_snoc)
qed

lemma dropEdge_indexed:
  assumes "sound ks ns (es @ e # es')"
  shows "dropEdge (edge_id e) (indexed ks ns (es @ e # es')) = (None, indexed ks ns (es @ es'))"
proof -
  have d: "distinct (map (\<lambda>n. prop_key (edge_id n)) (es @ e # es'))"
    and k: "prop_key (source e) \<in> ks" "prop_key (target e) \<in> ks" "edge_id e \<noteq> No_id"
    using assms by (auto simp: sound_def edge_keys_def)
  have i: "index_by edge_id (es @ e # es') (prop_key (edge_id e)) = Some e"
    using d by (simp only: index_by_iff) simp
  have r: "remove_first (\<lambda>x. edge_id x = edge_id e) (es @ e # es') = es @ es'"
    by (rule without_one [OF d])
  have x: "(index_by edge_id (es @ e # es'))(prop_key (edge_id e) := None) = index_by edge_id (es @ es')"
    by (rule index_by_remove [OF d])
  have all: "count_by (- 1) (prop_key (source e)) (count_by (- 1) (prop_key (target e))
      (counts ks (\<lambda>k. ends source (es @ e # es') k + ends target (es @ e # es') k))) =
      counts ks (\<lambda>k. ends source (es @ es') k + ends target (es @ es') k)"
    using k by (auto simp: count_by_counts ends_mid intro!: arg_cong [of _ _ "counts ks"])
  have one: "count_by (- 1) (prop_key (f e)) (counts ks (ends f (es @ e # es'))) = counts ks (ends f (es @ es'))"
    if "prop_key (f e) \<in> ks" for f
    using that by (simp add: count_by_counts ends_mid)
  show ?thesis
    using k unfolding dropEdge_def Let_def
    by (simp add: indexed_def i r x all one count_edge_def)
qed

lemma sound_mid: "sound ks ns (es @ e # es') \<Longrightarrow> sound ks ns (es @ es')"
  unfolding sound_def edge_keys_def by auto

lemma drop_edges_indexed:
  assumes "sound ks ns es" "i \<le> length es"
  shows "drop_edges i v (indexed ks ns es) =
           (None, indexed ks ns (filter (\<lambda>e. source e \<noteq> v \<and> target e \<noteq> v) (take i es) @ drop i es))"
  using assms
proof (induction i arbitrary: es)
  case (Suc i)
  let ?keep = "\<lambda>e. source e \<noteq> v \<and> target e \<noteq> v"
  let ?e = "es ! i"
  have es: "es = take i es @ ?e # drop (Suc i) es" using Suc.prems(2) by (simp add: id_take_nth_drop)
  have t: "take (Suc i) es = take i es @ [?e]" using Suc.prems(2) by (simp add: take_Suc_conv_app_nth)
  have n: "edgesArray (indexed ks ns es) ! i = ?e" by (simp add: indexed_def)
  show ?case
  proof (cases "?keep ?e")
    case True
    then show ?thesis
      using Suc.IH [of es] Suc.prems t es by (simp add: n Let_def Cons_nth_drop_Suc)
  next
    case False
    let ?es = "take i es @ drop (Suc i) es"
    have d: "dropEdge (edge_id ?e) (indexed ks ns es) = (None, indexed ks ns ?es)"
      using dropEdge_indexed [of ks ns "take i es" ?e "drop (Suc i) es"] Suc.prems(1) es by simp
    have s: "sound ks ns ?es" using sound_mid [of ks ns "take i es" ?e "drop (Suc i) es"] Suc.prems(1) es by simp
    have "i \<le> length ?es" "take i ?es = take i es" "drop i ?es = drop (Suc i) es"
      using Suc.prems(2) by simp_all
    then show ?thesis using Suc.IH [OF s] False t by (auto simp: n Let_def d)
  qed
qed simp

text \<open>The nodes and edges an id is compared with by \<open>===\<close> have no other id of the same text.\<close>

definition exact_id :: "gid \<Rightarrow> 'a graph \<Rightarrow> bool" where
  "exact_id v g \<longleftrightarrow>
     (\<forall>w \<in> node_id ` set (nodesArray g) \<union> edge_id ` set (edgesArray g) \<union>
         source ` set (edgesArray g) \<union> target ` set (edgesArray g). prop_key w = prop_key v \<longrightarrow> w = v)"

lemma graph_okE:
  assumes "graph_ok g"
  obtains ns es ks where "g = indexed ks ns es" "sound ks ns es" "ks = set (node_keys ns)"
    "nodesArray g = ns" "edgesArray g = es"
  using assms by (auto simp: graph_ok_def Let_def)

lemma graph_ok_indexed: "sound (set (node_keys ns)) ns es \<Longrightarrow> graph_ok (indexed (set (node_keys ns)) ns es)"
  by (simp add: graph_ok_def Let_def indexed_def)

lemma index_node_keys: "index_by node_id ns k = None \<longleftrightarrow> k \<notin> set (node_keys ns)"
  by (auto simp: index_by_None node_keys_def)

lemma index_edge_keys: "index_by edge_id es k = None \<longleftrightarrow> k \<notin> set (edge_keys es)"
  by (auto simp: index_by_None edge_keys_def)

lemma addNode_result:
  assumes "graph_ok g"
  shows "graph_ok (snd (addNode n g)) \<and>
     (fst (addNode n g) = None \<longleftrightarrow> node_id n \<noteq> No_id \<and> prop_key (node_id n) \<notin> set (node_keys (nodesArray g))) \<and>
     (if fst (addNode n g) = None
      then nodesArray (snd (addNode n g)) = nodesArray g @ [n] \<and> edgesArray (snd (addNode n g)) = edgesArray g
      else snd (addNode n g) = g)"
proof -
  obtain ns es ks where g: "g = indexed ks ns es" "sound ks ns es" "ks = set (node_keys ns)"
    "nodesArray g = ns" "edgesArray g = es"
    using assms by (rule graph_okE)
  show ?thesis
  proof (cases "node_id n \<noteq> No_id \<and> prop_key (node_id n) \<notin> set (node_keys ns)")
    case True
    have "sound (set (node_keys (ns @ [n]))) (ns @ [n]) es"
      using True g(2,3) by (auto simp: sound_def node_keys_def)
    then show ?thesis
      using True g addNode_indexed [of n ns ks es] graph_ok_indexed [of "ns @ [n]" es]
      by (simp add: node_keys_def indexed_def)
  next
    case False
    have "nodesIndex g = index_by node_id ns" by (simp add: g(1) indexed_def)
    then show ?thesis using False assms g(4) by (auto simp: addNode_def Let_def index_node_keys)
  qed
qed

lemma addEdge_result:
  assumes "graph_ok g"
  shows "graph_ok (snd (addEdge e g)) \<and>
     (fst (addEdge e g) = None \<longleftrightarrow>
        edge_id e \<noteq> No_id \<and> source e \<noteq> No_id \<and> target e \<noteq> No_id \<and>
        {prop_key (source e), prop_key (target e)} \<subseteq> set (node_keys (nodesArray g)) \<and>
        prop_key (edge_id e) \<notin> set (edge_keys (edgesArray g))) \<and>
     (if fst (addEdge e g) = None
      then nodesArray (snd (addEdge e g)) = nodesArray g \<and> edgesArray (snd (addEdge e g)) = edgesArray g @ [e]
      else snd (addEdge e g) = g)"
proof -
  obtain ns es ks where g: "g = indexed ks ns es" "sound ks ns es" "ks = set (node_keys ns)"
    "nodesArray g = ns" "edgesArray g = es"
    using assms by (rule graph_okE)
  let ?ok = "edge_id e \<noteq> No_id \<and> source e \<noteq> No_id \<and> target e \<noteq> No_id \<and>
        {prop_key (source e), prop_key (target e)} \<subseteq> set (node_keys ns) \<and>
        prop_key (edge_id e) \<notin> set (edge_keys es)"
  show ?thesis
  proof (cases ?ok)
    case True
    have "sound ks ns (es @ [e])"
      using True g(2,3) by (auto simp: sound_def edge_keys_def)
    then show ?thesis
      using True g addEdge_indexed [of e es ks ns] graph_ok_indexed [of ns "es @ [e]"]
      by (simp add: indexed_def)
  next
    case False
    have "nodesIndex g = index_by node_id ns" "edgesIndex g = index_by edge_id es"
      by (simp_all add: g(1) indexed_def)
    then show ?thesis
      using False assms g(4,5) by (auto simp: addEdge_def Let_def index_node_keys index_edge_keys)
  qed
qed

lemma dropEdge_result:
  assumes "graph_ok g" "exact_id v g"
  shows "graph_ok (snd (dropEdge v g)) \<and>
     (fst (dropEdge v g) = None \<longleftrightarrow> v \<in> edge_id ` set (edgesArray g)) \<and>
     nodesArray (snd (dropEdge v g)) = nodesArray g \<and>
     edgesArray (snd (dropEdge v g)) = filter (\<lambda>e. edge_id e \<noteq> v) (edgesArray g)"
proof -
  obtain ns es ks where g: "g = indexed ks ns es" "sound ks ns es" "ks = set (node_keys ns)"
    "nodesArray g = ns" "edgesArray g = es"
    using assms(1) by (rule graph_okE)
  show ?thesis
  proof (cases "v \<in> edge_id ` set es")
    case True
    then obtain as e bs where es: "es = as @ e # bs" "edge_id e = v" by (auto dest: split_list)
    have "distinct (map (\<lambda>e. prop_key (edge_id e)) (as @ e # bs))"
      using g(2) es(1) by (simp add: sound_def edge_keys_def)
    then have f: "filter (\<lambda>e. edge_id e \<noteq> v) es = as @ bs"
      using without_one(2) [of edge_id as e bs] es by simp
    have "dropEdge v g = (None, indexed ks ns (as @ bs))"
      using dropEdge_indexed [of ks ns as e bs] g(1,2) es by simp
    moreover have "graph_ok (indexed ks ns (as @ bs))"
      using graph_ok_indexed [of ns "as @ bs"] sound_mid [of ks ns as e bs] g(2,3) es(1) by simp
    ultimately show ?thesis using True g(4,5) f by (simp add: indexed_def)
  next
    case False
    then have "prop_key v \<notin> set (edge_keys es)"
      using assms(2) g(5) by (auto simp: exact_id_def edge_keys_def)
    then have "edgesIndex g (prop_key v) = None" by (simp add: g(1) indexed_def index_edge_keys)
    moreover have "filter (\<lambda>e. edge_id e \<noteq> v) es = es" using False by (auto simp: filter_id_conv)
    ultimately show ?thesis using False assms(1) g(4,5) by (auto simp: dropEdge_def Let_def)
  qed
qed

lemma dropNode_result:
  assumes "graph_ok g" "exact_id v g"
  shows "graph_ok (snd (dropNode v g)) \<and>
     (fst (dropNode v g) = None \<longleftrightarrow> v \<in> node_id ` set (nodesArray g)) \<and>
     nodesArray (snd (dropNode v g)) = filter (\<lambda>n. node_id n \<noteq> v) (nodesArray g) \<and>
     edgesArray (snd (dropNode v g)) = filter (\<lambda>e. source e \<noteq> v \<and> target e \<noteq> v) (edgesArray g)"
proof -
  obtain ns es ks where g: "g = indexed ks ns es" "sound ks ns es" "ks = set (node_keys ns)"
    "nodesArray g = ns" "edgesArray g = es"
    using assms(1) by (rule graph_okE)
  let ?es = "filter (\<lambda>e. source e \<noteq> v \<and> target e \<noteq> v) es"
  show ?thesis
  proof (cases "v \<in> node_id ` set ns")
    case True
    then obtain as n bs where ns: "ns = as @ n # bs" "node_id n = v" by (auto dest: split_list)
    have d: "distinct (map (\<lambda>n. prop_key (node_id n)) (as @ n # bs))"
      using g(2) ns(1) by (simp add: sound_def node_keys_def)
    have f: "filter (\<lambda>n. node_id n \<noteq> v) ns = as @ bs"
      using without_one(2) [OF d] ns by simp
    have r: "remove_first (\<lambda>n. node_id n = v) ns = as @ bs"
      using without_one(1) [OF d] ns by simp
    have x: "(index_by node_id ns)(prop_key v := None) = index_by node_id (as @ bs)"
      using index_by_remove [OF d] ns by simp
    have k: "ks - {prop_key v} = set (node_keys (as @ bs))"
      using d ns by (auto simp: g(3) node_keys_def)
    have v: "v \<noteq> No_id" "nodesIndex g (prop_key v) \<noteq> None"
      using g(2,3) ns by (auto simp: sound_def g(1) indexed_def index_node_keys node_keys_def)
    have s: "sound ks (as @ bs) es" using g(2) d by (simp add: sound_def node_keys_def ns)
    have u: "g\<lparr>nodesIndex := (nodesIndex g)(prop_key v := None),
               nodesArray := remove_first (\<lambda>n. node_id n = v) (nodesArray g)\<rparr> = indexed ks (as @ bs) es"
      by (simp add: g(1) indexed_def r x)
    have "dropNode v g = (None, indexed (ks - {prop_key v}) (as @ bs) ?es)"
      using v drop_edges_indexed [OF s, of "length es" v]
      unfolding dropNode_def Let_def u by (simp add: indexed_def counts_drop)
    moreover have "sound (ks - {prop_key v}) (as @ bs) ?es"
    proof -
      have "prop_key (source e) \<noteq> prop_key v \<and> prop_key (target e) \<noteq> prop_key v" if "e \<in> set ?es" for e
        using that assms(2) g(5) by (auto simp: exact_id_def)
      then show ?thesis
        using s by (auto simp: sound_def edge_keys_def distinct_map inj_on_def)
    qed
    ultimately show ?thesis
      using True f g(4,5) graph_ok_indexed [of "as @ bs" ?es] unfolding k by (simp add: indexed_def)
  next
    case False
    then have nk: "prop_key v \<notin> set (node_keys ns)"
      using assms(2) g(4) by (auto simp: exact_id_def node_keys_def)
    then have "nodesIndex g (prop_key v) = None" by (simp add: g(1) indexed_def index_node_keys)
    moreover have "filter (\<lambda>n. node_id n \<noteq> v) ns = ns" using False by (auto simp: filter_id_conv)
    moreover have "?es = es" using nk g(2,3) by (auto simp: filter_id_conv sound_def)
    ultimately show ?thesis using False assms(1) g(4,5) by (auto simp: dropNode_def Let_def)
  qed
qed

subsection \<open>Reading a graph\<close>

lemma clear_indexed: "clear g = indexed {} [] []" "graph_new = indexed {} [] []"
  by (simp_all add: clear_def graph_new_def indexed_def index_by_def counts_def)

lemma each_addNode:
  assumes "sound (set (node_keys (as @ ns))) (as @ ns) []"
  shows "each addNode ns (indexed (set (node_keys as)) as []) =
           (None, indexed (set (node_keys (as @ ns))) (as @ ns) [])"
  using assms
proof (induction ns arbitrary: as)
  case (Cons n ns)
  have "addNode n (indexed (set (node_keys as)) as []) =
          (None, indexed (set (node_keys (as @ [n]))) (as @ [n]) [])"
    using Cons.prems addNode_indexed [of n as "set (node_keys as)" "[]"]
    by (simp add: sound_def node_keys_def image_iff)
  then show ?case using Cons.IH [of "as @ [n]"] Cons.prems by simp
qed simp

lemma each_addEdge:
  assumes "sound (set (node_keys ns)) ns (as @ es)"
  shows "each addEdge es (indexed (set (node_keys ns)) ns as) = (None, indexed (set (node_keys ns)) ns (as @ es))"
  using assms
proof (induction es arbitrary: as)
  case (Cons e es)
  have "addEdge e (indexed (set (node_keys ns)) ns as) = (None, indexed (set (node_keys ns)) ns (as @ [e]))"
    using Cons.prems by (intro addEdge_indexed) (auto simp: sound_def edge_keys_def)
  then show ?case using Cons.IH [of "as @ [e]"] Cons.prems by simp
qed simp

lemma each_ok:
  assumes "\<And>x s. P s \<Longrightarrow> x \<in> set xs \<Longrightarrow> P (snd (f x s))" "P s"
  shows "P (snd (each f xs s))"
  using assms
proof (induction xs arbitrary: s)
  case (Cons x xs)
  have "P (snd (f x s))" using Cons.prems by simp
  then show ?case using Cons.IH Cons.prems(1) by (auto split: prod.split option.split)
qed simp

subsection \<open>Any sequence of calls\<close>

datatype 'a graph_call =
    Add_node "'a gnode"
  | Add_edge "'a gedge"
  | Drop_node gid
  | Drop_edge gid
  | Clear
  | Read "'a gnode list" "'a gedge list"

fun run_call :: "'a graph_call \<Rightarrow> 'a graph \<Rightarrow> string option \<times> 'a graph" where
  "run_call (Add_node n) g = addNode n g"
| "run_call (Add_edge e) g = addEdge e g"
| "run_call (Drop_node v) g = dropNode v g"
| "run_call (Drop_edge v) g = dropEdge v g"
| "run_call Clear g = (None, clear g)"
| "run_call (Read ns es) g = read ns es g"

definition graph_calls :: "'a graph_call list \<Rightarrow> 'a graph \<Rightarrow> 'a graph" where
  "graph_calls cs g = fold (\<lambda>c g. snd (run_call c g)) cs g"

definition gids :: "'a gnode list \<Rightarrow> 'a gedge list \<Rightarrow> gid set" where
  "gids ns es = node_id ` set ns \<union> edge_id ` set es \<union> source ` set es \<union> target ` set es"

fun call_ids :: "'a graph_call \<Rightarrow> gid set" where
  "call_ids (Add_node n) = gids [n] []"
| "call_ids (Add_edge e) = gids [] [e]"
| "call_ids (Drop_node v) = {v}"
| "call_ids (Drop_edge v) = {v}"
| "call_ids Clear = {}"
| "call_ids (Read ns es) = gids ns es"

text \<open>The invariant of graphs whose ids are strings.\<close>

definition string_graph :: "'a graph \<Rightarrow> bool" where
  "string_graph g \<longleftrightarrow> graph_ok g \<and> gids (nodesArray g) (edgesArray g) \<subseteq> range Sid"

lemma string_exact: "string_graph g \<Longrightarrow> v \<in> range Sid \<Longrightarrow> exact_id v g"
  unfolding string_graph_def exact_id_def gids_def by fastforce

lemma string_addNode:
  "string_graph g \<Longrightarrow> node_id n \<in> range Sid \<Longrightarrow> string_graph (snd (addNode n g))"
  using addNode_result [of g n] by (auto simp: string_graph_def gids_def split: if_splits)

lemma string_addEdge:
  "string_graph g \<Longrightarrow> {edge_id e, source e, target e} \<subseteq> range Sid \<Longrightarrow> string_graph (snd (addEdge e g))"
  using addEdge_result [of g e] by (auto simp: string_graph_def gids_def split: if_splits)

lemma string_graph_call:
  assumes "string_graph g" "call_ids c \<subseteq> range Sid"
  shows "string_graph (snd (run_call c g))"
proof (cases c)
  case (Add_node n)
  then show ?thesis using string_addNode assms by (simp add: gids_def)
next
  case (Add_edge e)
  then show ?thesis using assms by (simp add: gids_def string_addEdge)
next
  case (Drop_node v)
  then have "exact_id v g" using string_exact assms by simp
  then show ?thesis
    using dropNode_result [of g v] assms(1) by (auto simp: Drop_node string_graph_def gids_def)
next
  case (Drop_edge v)
  then have "exact_id v g" using string_exact assms by simp
  then show ?thesis
    using dropEdge_result [of g v] assms(1) by (auto simp: Drop_edge string_graph_def gids_def)
next
  case Clear
  then show ?thesis
    using graph_ok_indexed [of "[]" "[]"]
    by (simp add: string_graph_def clear_indexed node_keys_def sound_def edge_keys_def) (simp add: indexed_def gids_def)
next
  case (Read ns es)
  have "string_graph (snd (each addNode ns g))"
    using assms by (intro each_ok [where P = string_graph] string_addNode) (auto simp: Read gids_def)
  moreover have "string_graph (snd (each addEdge es h))" if "string_graph h" for h
    using assms(2) that by (intro each_ok [where P = string_graph] string_addEdge) (auto simp: Read gids_def)
  ultimately show ?thesis by (auto simp: Read read_def split: prod.split option.split)
qed

lemma string_graph_calls:
  "string_graph g \<Longrightarrow> \<forall>c \<in> set cs. call_ids c \<subseteq> range Sid \<Longrightarrow> string_graph (graph_calls cs g)"
  unfolding graph_calls_def by (induction cs arbitrary: g) (simp_all add: string_graph_call)

lemma string_graph_new: "string_graph graph_new"
  using graph_ok_indexed [of "[]" "[]"]
  by (simp add: string_graph_def clear_indexed node_keys_def sound_def edge_keys_def) (simp add: indexed_def gids_def)

lemma prop_key_string: "v \<in> range Sid \<Longrightarrow> w \<in> range Sid \<Longrightarrow> prop_key v = prop_key w \<longleftrightarrow> v = w"
  by auto


subsection \<open>The properties of the graph\<close>

lemma string_graphE:
  assumes "string_graph g"
  obtains ns es ks where "g = indexed ks ns es" "sound ks ns es" "ks = set (node_keys ns)"
    "nodesArray g = ns" "edgesArray g = es" "distinct (map (\<lambda>n. prop_key (node_id n)) ns)"
    "distinct (map (\<lambda>e. prop_key (edge_id e)) es)"
    "\<And>v w. v \<in> gids ns es \<Longrightarrow> w \<in> gids ns es \<Longrightarrow> prop_key v = prop_key w \<longleftrightarrow> v = w"
proof -
  have ok: "graph_ok g" and S: "gids (nodesArray g) (edgesArray g) \<subseteq> range Sid"
    using assms by (simp_all add: string_graph_def)
  obtain ns es ks where i: "g = indexed ks ns es" "sound ks ns es" "ks = set (node_keys ns)"
    "nodesArray g = ns" "edgesArray g = es"
    using ok by (rule graph_okE)
  have "prop_key v = prop_key w \<longleftrightarrow> v = w" if "v \<in> gids ns es" "w \<in> gids ns es" for v w
    using that S i(4,5) prop_key_string by blast
  then show thesis
    using that i by (simp add: sound_def node_keys_def edge_keys_def)
qed

lemma string_graph_node:
  assumes "string_graph g" "n \<in> set (nodesArray g)"
  shows "graph_nodes [node_id n] g = Inr [Some n]"
    "degree [node_id n] ''in'' g =
       Inr [Some (Fin (real (length (filter (\<lambda>e. target e = node_id n) (edgesArray g)))))]"
    "degree [node_id n] ''out'' g =
       Inr [Some (Fin (real (length (filter (\<lambda>e. source e = node_id n) (edgesArray g)))))]"
proof -
  obtain ns es ks where i: "g = indexed ks ns es" "sound ks ns es" "ks = set (node_keys ns)"
    "nodesArray g = ns" "edgesArray g = es" "distinct (map (\<lambda>n. prop_key (node_id n)) ns)"
    "\<And>v w. v \<in> gids ns es \<Longrightarrow> w \<in> gids ns es \<Longrightarrow> prop_key v = prop_key w \<longleftrightarrow> v = w"
    using assms(1) by (rule string_graphE) blast
  have n: "n \<in> set ns" using assms(2) i(4) by simp
  have ends: "ends f es (prop_key (node_id n)) = length (filter (\<lambda>e. f e = node_id n) es)"
    if "f = source \<or> f = target" for f
    unfolding ends_def using that n by (intro arg_cong [of _ _ length] filter_cong refl i(7)) (auto simp: gids_def)
  have "prop_key (node_id n) \<in> ks" "node_id n \<noteq> No_id"
    using n i(2,3) by (simp_all add: node_keys_def sound_def)
  moreover have "index_by node_id ns (prop_key (node_id n)) = Some n"
    using n i(6) by (simp add: index_by_iff)
  ultimately show "graph_nodes [node_id n] g = Inr [Some n]"
    "degree [node_id n] ''in'' g =
       Inr [Some (Fin (real (length (filter (\<lambda>e. target e = node_id n) (edgesArray g)))))]"
    "degree [node_id n] ''out'' g =
       Inr [Some (Fin (real (length (filter (\<lambda>e. source e = node_id n) (edgesArray g)))))]"
    unfolding i(5) using ends by (simp_all add: i(1) graph_nodes_def degree_def look_up_def indexed_def counts_def)
qed

lemma string_graph_edge:
  assumes "string_graph g" "e \<in> set (edgesArray g)"
  shows "graph_edges [edge_id e] g = Inr [Some e]" "{source e, target e} \<subseteq> node_id ` set (nodesArray g)"
proof -
  obtain ns es ks where i: "g = indexed ks ns es" "sound ks ns es" "ks = set (node_keys ns)"
    "nodesArray g = ns" "edgesArray g = es" "distinct (map (\<lambda>e. prop_key (edge_id e)) es)"
    "\<And>v w. v \<in> gids ns es \<Longrightarrow> w \<in> gids ns es \<Longrightarrow> prop_key v = prop_key w \<longleftrightarrow> v = w"
    using assms(1) by (rule string_graphE) blast
  have e: "e \<in> set es" using assms(2) i(5) by simp
  have "index_by edge_id es (prop_key (edge_id e)) = Some e" "edge_id e \<noteq> No_id"
    using e i(2,6) by (simp_all add: index_by_iff sound_def)
  then show "graph_edges [edge_id e] g = Inr [Some e]"
    by (simp add: i(1) graph_edges_def look_up_def indexed_def)
  have "f e \<in> node_id ` set ns" if f: "f = source \<or> f = target" for f
  proof -
    have "prop_key (f e) \<in> set (node_keys ns)" using f e i(2,3) by (auto simp: sound_def)
    then obtain n where n: "n \<in> set ns" "prop_key (node_id n) = prop_key (f e)"
      by (auto simp: node_keys_def)
    have "node_id n = f e" using f e n i(7) [of "node_id n" "f e"] by (auto simp: gids_def)
    then show ?thesis using n(1) by (metis imageI)
  qed
  then show "{source e, target e} \<subseteq> node_id ` set (nodesArray g)" using i(4) by simp
qed

text \<open>C30: after any sequence of calls whose ids are strings, those that throw included, the graph is
  consistent: the indexes find exactly the nodes and edges of the arrays, every edge has its
  ends, and the degree of a node is the number of its edges.\<close>

theorem graph_calls_consistent:
  assumes "\<forall>c \<in> set cs. call_ids c \<subseteq> range Sid" "graph_calls cs graph_new = g"
  shows "graph_ok g \<and>
         (\<forall>n \<in> set (nodesArray g).
            graph_nodes [node_id n] g = Inr [Some n] \<and>
            degree [node_id n] ''in'' g =
              Inr [Some (Fin (real (length (filter (\<lambda>e. target e = node_id n) (edgesArray g)))))] \<and>
            degree [node_id n] ''out'' g =
              Inr [Some (Fin (real (length (filter (\<lambda>e. source e = node_id n) (edgesArray g)))))]) \<and>
         (\<forall>e \<in> set (edgesArray g).
            graph_edges [edge_id e] g = Inr [Some e] \<and>
            {source e, target e} \<subseteq> node_id ` set (nodesArray g))"
proof -
  have g: "string_graph g" using string_graph_calls [OF string_graph_new assms(1)] assms(2) by simp
  then have "graph_ok g" by (simp add: string_graph_def)
  then show ?thesis using string_graph_node [OF g] string_graph_edge [OF g] by blast
qed

text \<open>
  Numbers and strings of the same text do not mix: the index of the nodes does not tell them apart,
  the loop over the array does.  A node with the number 1 as its id is not dropped as \<open>''1''\<close>; it goes
  from the index and stays in the array.
\<close>

lemma mixed_ids_inconsistent:
  fixes n :: "'a gnode"
  assumes "node_id n = Nid 1"
  shows "nodesArray (snd (dropNode (Sid ''1'') (snd (addNode n graph_new)))) = [n]"
    "graph_nodes [Nid 1] (snd (dropNode (Sid ''1'') (snd (addNode n graph_new)))) = Inr [None]"
proof -
  have "int_str 1 = ''1''" by code_simp
  then show "nodesArray (snd (dropNode (Sid ''1'') (snd (addNode n graph_new)))) = [n]"
    "graph_nodes [Nid 1] (snd (dropNode (Sid ''1'') (snd (addNode n graph_new)))) = Inr [None]"
    using assms
    by (simp_all add: dropNode_def addNode_def graph_new_def graph_nodes_def look_up_def Let_def)
qed

text \<open>C31: \<open>dropNode\<close> takes the node away and exactly the edges at one of its ends, and throws for an id
  that no node has; a graph with other ids of the same text is left out.\<close>

theorem dropNode_drops_incident:
  assumes "graph_ok g" "exact_id v g"
  shows "graph_ok (snd (dropNode v g)) \<and>
         (fst (dropNode v g) = None \<longleftrightarrow> v \<in> node_id ` set (nodesArray g)) \<and>
         nodesArray (snd (dropNode v g)) = filter (\<lambda>n. node_id n \<noteq> v) (nodesArray g) \<and>
         edgesArray (snd (dropNode v g)) = filter (\<lambda>e. source e \<noteq> v \<and> target e \<noteq> v) (edgesArray g)"
  using dropNode_result [OF assms] .

text \<open>C32: a consistent graph is read back from its nodes and edges, into a graph that has been
  cleared: all indexes and degrees are the same again.\<close>

theorem read_rebuilds_graph:
  assumes "graph_ok g"
  shows "read (nodesArray g) (edgesArray g) (clear h) = (None, g)"
proof -
  obtain ns es ks where i: "g = indexed ks ns es" "sound ks ns es" "ks = set (node_keys ns)"
    "nodesArray g = ns" "edgesArray g = es"
    using assms by (rule graph_okE)
  have "sound (set (node_keys ns)) ns []" using i(2,3) by (simp add: sound_def edge_keys_def)
  then have "each addNode ns (clear h) = (None, indexed (set (node_keys ns)) ns [])"
    using each_addNode [of "[]" ns] by (simp add: clear_indexed node_keys_def)
  then show ?thesis
    using each_addEdge [of ns "[]" es] i by (simp add: read_def)
qed

text \<open>A graph to try these on: two nodes, an edge between them, and an edge at one node.\<close>

definition demo_calls :: "nat graph_call list" where
  "demo_calls =
     [Read [\<lparr>node_id = Sid ''a'', node_data = 1\<rparr>, \<lparr>node_id = Sid ''b'', node_data = 2\<rparr>]
           [\<lparr>edge_id = Sid ''e'', source = Sid ''a'', target = Sid ''b'', edge_data = 0\<rparr>],
      Add_edge \<lparr>edge_id = Sid ''f'', source = Sid ''b'', target = Sid ''b'', edge_data = 0\<rparr>,
      Add_node \<lparr>node_id = Sid ''a'', node_data = 7\<rparr>]"

lemma demo_calls_strings: "\<forall>c \<in> set demo_calls. call_ids c \<subseteq> range Sid"
  by (simp add: demo_calls_def gids_def)

lemma demo_graph: "string_graph (graph_calls demo_calls graph_new)"
  by (rule string_graph_calls [OF string_graph_new demo_calls_strings])

lemma demo_arrays:
  "map node_id (nodesArray (graph_calls demo_calls graph_new)) = [Sid ''a'', Sid ''b'']"
  "map edge_id (edgesArray (graph_calls demo_calls graph_new)) = [Sid ''e'', Sid ''f'']"
  by (simp_all add: graph_calls_def demo_calls_def read_def addNode_def addEdge_def graph_new_def count_edge_def Let_def)

theorem graph_calls_consistent_witness:
  "graph_ok (graph_calls demo_calls graph_new) \<and>
   map edge_id (edgesArray (graph_calls demo_calls graph_new)) = [Sid ''e'', Sid ''f'']"
  using graph_calls_consistent [OF demo_calls_strings refl] demo_arrays(2) by blast

theorem dropNode_drops_incident_witness:
  "fst (dropNode (Sid ''a'') (graph_calls demo_calls graph_new)) = None \<and>
   map edge_id (edgesArray (snd (dropNode (Sid ''a'') (graph_calls demo_calls graph_new)))) = [Sid ''f'']"
proof -
  let ?g = "graph_calls demo_calls graph_new"
  have ok: "graph_ok ?g" "exact_id (Sid ''a'') ?g"
    using demo_graph string_exact [OF demo_graph, of "Sid ''a''"] by (simp_all add: string_graph_def)
  have "node_id ` set (nodesArray ?g) = {Sid ''a'', Sid ''b''}"
    using arg_cong [OF demo_arrays(1), of set] by simp
  moreover have "map edge_id (filter (\<lambda>e. source e \<noteq> Sid ''a'' \<and> target e \<noteq> Sid ''a'') (edgesArray ?g)) = [Sid ''f'']"
    by (simp add: graph_calls_def demo_calls_def read_def addNode_def addEdge_def graph_new_def count_edge_def Let_def)
  ultimately show ?thesis using dropNode_drops_incident [OF ok] by simp
qed

theorem read_rebuilds_graph_witness:
  "read (nodesArray (graph_calls demo_calls graph_new)) (edgesArray (graph_calls demo_calls graph_new))
     (clear graph_new) = (None, graph_calls demo_calls graph_new)"
  using demo_graph by (intro read_rebuilds_graph) (simp add: string_graph_def)


end
