(* ===== verification/Sigma_Utils.thy ===== *)
theory Sigma_Utils
  imports JS_Values
begin

text \<open>
  The helpers of the graph renderer (\<open>sigma.utils\<close> in \<open>lib/sigmajs/sigma.js\<close>): objects and
  packages, identifiers, colours, the geometry of curves, the easing functions, the accessors of
  DOM events, double clicks, the matrices, and the animation-frame fallback.  Points are records of
  two numbers.
\<close>

subsection \<open>Objects, packages, identifiers\<close>

type_synonym jsobj = "(string \<times> jsval) list"

definition copy_keys :: "'v obj \<Rightarrow> 'v obj \<Rightarrow> 'v obj" where
  "copy_keys arg res = fold (\<lambda>k r. oset k (the (oget arg k)) r) (own_keys arg) res"

definition extend_objs :: "'v obj list \<Rightarrow> 'v obj" where
  "extend_objs args = foldr copy_keys args []"

text \<open>\<open>pkg\<close>: walks the packages below the root, creating the missing ones; gives the root and the
  package.  A value that is no object ends the walk with a TypeError unless it is the last one.\<close>

fun pkg_walk :: "string list \<Rightarrow> jsobj \<Rightarrow> string + jsval \<times> jsobj" where
  "pkg_walk [] context = Inr (JObj context, context)"
| "pkg_walk (objName # names) context =
     (case oget context objName of
        None \<Rightarrow>
          (case pkg_walk names [] of
             Inl e \<Rightarrow> Inl e
           | Inr (p, c) \<Rightarrow> Inr (p, oset objName (JObj c) context))
      | Some (JObj c) \<Rightarrow>
          (case pkg_walk names c of
             Inl e \<Rightarrow> Inl e
           | Inr (p, c') \<Rightarrow> Inr (p, oset objName (JObj c') context))
      | Some v \<Rightarrow>
          if names = [] then Inr (v, context)
          else Inl ''TypeError: Cannot use 'in' operator'')"

definition utils_pkg :: "string \<Rightarrow> jsobj \<Rightarrow> string + jsval \<times> jsobj" where
  "utils_pkg pkgName global = pkg_walk (split_on (CHR ''.'') pkgName) global"

definition utils_id :: "nat \<Rightarrow> nat \<times> nat" where
  "utils_id i = (i + 1, i + 1)"

subsection \<open>Colours\<close>

definition charAt :: "string \<Rightarrow> nat \<Rightarrow> string" where
  "charAt s i = (if i < length s then [s ! i] else [])"

definition skip_blanks :: "string \<Rightarrow> string" where
  "skip_blanks s = dropWhile (\<lambda>c. c = CHR '' '') s"

definition expect :: "string \<Rightarrow> string \<Rightarrow> string option" where
  "expect p s = (if take (length p) s = p then Some (drop (length p) s) else None)"

text \<open>\<open>/^ *rgba? *\(/\<close>: what follows the parenthesis.\<close>

definition rgb_head :: "string \<Rightarrow> string option" where
  "rgb_head s =
     (case expect ''rgb'' (skip_blanks s) of
        None \<Rightarrow> None
      | Some s1 \<Rightarrow> expect ''('' (skip_blanks (if take 1 s1 = ''a'' then drop 1 s1 else s1)))"

text \<open>\<open> *([0-9]*) *\<close>: the digits and what follows.\<close>

definition rgb_field :: "string \<Rightarrow> string \<times> string" where
  "rgb_field s =
     (let s1 = skip_blanks s
      in (takeWhile (\<lambda>c. digit_val c \<noteq> None) s1,
          skip_blanks (dropWhile (\<lambda>c. digit_val c \<noteq> None) s1)))"

text \<open>\<open>(,.*)?\) *$\<close>\<close>

definition rgb_tail :: "string \<Rightarrow> bool" where
  "rgb_tail s \<longleftrightarrow>
     (take 1 s = '')'' \<and> skip_blanks (drop 1 s) = []) \<or>
     (take 1 s = '','' \<and> take 1 (skip_blanks (rev s)) = '')'' \<and>
      (\<forall>c \<in> set s. c \<noteq> CHR 0x0A \<and> c \<noteq> CHR 0x0D))"

definition rgb_match :: "string \<Rightarrow> (string \<times> string \<times> string) option" where
  "rgb_match val =
     (case rgb_head val of
        None \<Rightarrow> None
      | Some s0 \<Rightarrow>
          (case rgb_field s0 of (f1, s1) \<Rightarrow>
             (case expect '','' s1 of
                None \<Rightarrow> None
              | Some s1 \<Rightarrow>
                  (case rgb_field s1 of (f2, s2) \<Rightarrow>
                     (case expect '','' s2 of
                        None \<Rightarrow> None
                      | Some s2 \<Rightarrow>
                          (case rgb_field s2 of (f3, s3) \<Rightarrow>
                             if rgb_tail s3 then Some (f1, f2, f3) else None))))))"

text \<open>\<open>+s\<close> of a string of digits.\<close>

definition digits_num :: "string \<Rightarrow> jsnum" where
  "digits_num s = (case digits_val 0 s of None \<Rightarrow> NaN | Some n \<Rightarrow> Fin (real n))"

definition floatColor :: "string \<Rightarrow> string + jsnum" where
  "floatColor val =
     (let combine = (\<lambda>r g b. r * 256 * 256 + g * 256 + b) in
      if take 1 val = ''#'' then
        let val = drop 1 val in
        Inr (if length val = 3
             then combine (parseInt16 (charAt val 0 @ charAt val 0))
                          (parseInt16 (charAt val 1 @ charAt val 1))
                          (parseInt16 (charAt val 2 @ charAt val 2))
             else combine (parseInt16 (charAt val 0 @ charAt val 1))
                          (parseInt16 (charAt val 2 @ charAt val 3))
                          (parseInt16 (charAt val 4 @ charAt val 5)))
      else if rgb_head val \<noteq> None then
        (case rgb_match val of
           None \<Rightarrow> Inl ''TypeError: val is null''
         | Some (r, g, b) \<Rightarrow> Inr (combine (digits_num r) (digits_num g) (digits_num b)))
      else Inr (combine 0 0 0))"

subsection \<open>Geometry\<close>

record point =
  px :: jsnum
  py :: jsnum

abbreviation pt :: "jsnum \<Rightarrow> jsnum \<Rightarrow> point" where
  "pt a b \<equiv> \<lparr>px = a, py = b\<rparr>"

definition getQuadraticControlPoint :: "jsnum \<Rightarrow> jsnum \<Rightarrow> jsnum \<Rightarrow> jsnum \<Rightarrow> point" where
  "getQuadraticControlPoint x1 y1 x2 y2 =
     pt ((x1 + x2) / 2 + (y2 - y1) / 4) ((y1 + y2) / 2 + (x1 - x2) / 4)"

definition getPointOnQuadraticCurve ::
    "jsnum \<Rightarrow> jsnum \<Rightarrow> jsnum \<Rightarrow> jsnum \<Rightarrow> jsnum \<Rightarrow> jsnum \<Rightarrow> jsnum \<Rightarrow> point" where
  "getPointOnQuadraticCurve t x1 y1 x2 y2 xi yi =
     pt ((1 - t) ^ 2 * x1 + 2 * (1 - t) * t * xi + t ^ 2 * x2)
        ((1 - t) ^ 2 * y1 + 2 * (1 - t) * t * yi + t ^ 2 * y2)"

definition getPointOnBezierCurve ::
    "jsnum \<Rightarrow> jsnum \<Rightarrow> jsnum \<Rightarrow> jsnum \<Rightarrow> jsnum \<Rightarrow> jsnum \<Rightarrow> jsnum \<Rightarrow> jsnum \<Rightarrow> jsnum \<Rightarrow> point" where
  "getPointOnBezierCurve t x1 y1 x2 y2 cx cy dx dy =
     (let B0_t = (1 - t) ^ 3;
          B1_t = 3 * t * (1 - t) ^ 2;
          B2_t = 3 * t ^ 2 * (1 - t);
          B3_t = t ^ 3
      in pt ((B0_t * x1) + (B1_t * cx) + (B2_t * dx) + (B3_t * x2))
            ((B0_t * y1) + (B1_t * cy) + (B2_t * dy) + (B3_t * y2)))"

definition getSelfLoopControlPoints :: "jsnum \<Rightarrow> jsnum \<Rightarrow> jsnum \<Rightarrow> point \<times> point" where
  "getSelfLoopControlPoints x y sz = (pt (x - sz * 7) y, pt x (y + sz * 7))"

definition getDistance :: "jsnum \<Rightarrow> jsnum \<Rightarrow> jsnum \<Rightarrow> jsnum \<Rightarrow> jsnum" where
  "getDistance x0 y0 x1 y1 = js_sqrt ((x1 - x0) ^ 2 + (y1 - y0) ^ 2)"

text \<open>\<open>None\<close> is the result \<open>false\<close>; otherwise the two points \<open>(xi, yi)\<close> and \<open>(xi_prime, yi_prime)\<close>.\<close>

definition getCircleIntersection ::
    "jsnum \<Rightarrow> jsnum \<Rightarrow> jsnum \<Rightarrow> jsnum \<Rightarrow> jsnum \<Rightarrow> jsnum \<Rightarrow> (point \<times> point) option" where
  "getCircleIntersection x0 y0 r0 x1 y1 r1 =
     (let dx = x1 - x0;
          dy = y1 - y0;
          d = js_sqrt ((dy * dy) + (dx * dx))
      in if d > r0 + r1 then None
         else if d < js_abs (r0 - r1) then None
         else
           let a = ((r0 * r0) - (r1 * r1) + (d * d)) / (2 * d);
               x2 = x0 + (dx * a / d);
               y2 = y0 + (dy * a / d);
               h = js_sqrt ((r0 * r0) - (a * a));
               rx = - dy * (h / d);
               ry = dx * (h / d)
           in Some (pt (x2 + rx) (y2 + ry), pt (x2 - rx) (y2 - ry)))"

definition isPointOnSegment ::
    "jsnum \<Rightarrow> jsnum \<Rightarrow> jsnum \<Rightarrow> jsnum \<Rightarrow> jsnum \<Rightarrow> jsnum \<Rightarrow> jsnum \<Rightarrow> bool" where
  "isPointOnSegment x y x1 y1 x2 y2 epsilon =
     (let crossProduct = js_abs ((y - y1) * (x2 - x1) - (x - x1) * (y2 - y1));
          d = getDistance x1 y1 x2 y2;
          nCrossProduct = crossProduct / d
      in nCrossProduct < epsilon \<and>
         js_min x1 x2 \<le> x \<and> x \<le> js_max x1 x2 \<and>
         js_min y1 y2 \<le> y \<and> y \<le> js_max y1 y2)"

text \<open>
  The search for the parameter of the nearest point of a curve, for at most \<open>i\<close> turns:
  \<open>curve\<close> gives the point at a parameter, the result is the last distance.
\<close>

fun curve_search ::
    "(jsnum \<Rightarrow> point) \<Rightarrow> jsnum \<Rightarrow> jsnum \<Rightarrow> jsnum \<Rightarrow> nat \<Rightarrow> jsnum \<Rightarrow> jsnum \<Rightarrow> jsnum \<Rightarrow> jsnum" where
  "curve_search curve x y epsilon 0 t r dt = dt"
| "curve_search curve x y epsilon (Suc i) t r dt =
     (if t \<ge> 0 \<and> t \<le> 1 \<and> dt > epsilon \<and> (r > Fin (1 / 1000) \<or> r < - Fin (1 / 1000)) then
        let old_dt = dt;
            dt = getDistance x y (px (curve t)) (py (curve t))
        in if dt > old_dt then
             let r = - r / 2 in curve_search curve x y epsilon i (t + r) r dt
           else if t + r < 0 \<or> t + r > 1 then
             curve_search curve x y epsilon i t (r / 2) old_dt
           else curve_search curve x y epsilon i (t + r) r dt
      else dt)"

definition isPointOnQuadraticCurve ::
    "jsnum \<Rightarrow> jsnum \<Rightarrow> jsnum \<Rightarrow> jsnum \<Rightarrow> jsnum \<Rightarrow> jsnum \<Rightarrow> jsnum \<Rightarrow> jsnum \<Rightarrow> jsnum \<Rightarrow> bool" where
  "isPointOnQuadraticCurve x y x1 y1 x2 y2 cpx cpy epsilon =
     (let dP1P2 = getDistance x1 y1 x2 y2 in
      if js_abs (x - x1) > dP1P2 \<or> js_abs (y - y1) > dP1P2 then False
      else
        let dP1 = getDistance x y x1 y1;
            dP2 = getDistance x y x2 y2;
            t = Fin (1 / 2);
            r = (if dP1 < dP2 then - Fin (1 / 100) else Fin (1 / 100));
            curve = (\<lambda>t. getPointOnQuadraticCurve t x1 y1 x2 y2 cpx cpy);
            dt = getDistance x y (px (curve t)) (py (curve t))
        in curve_search curve x y epsilon 100 t r dt < epsilon)"

definition isPointOnBezierCurve ::
    "jsnum \<Rightarrow> jsnum \<Rightarrow> jsnum \<Rightarrow> jsnum \<Rightarrow> jsnum \<Rightarrow> jsnum \<Rightarrow> jsnum \<Rightarrow> jsnum \<Rightarrow> jsnum \<Rightarrow> jsnum \<Rightarrow>
     jsnum \<Rightarrow> bool" where
  "isPointOnBezierCurve x y x1 y1 x2 y2 cpx1 cpy1 cpx2 cpy2 epsilon =
     (let dP1CP1 = getDistance x1 y1 cpx1 cpy1 in
      if js_abs (x - x1) > dP1CP1 \<or> js_abs (y - y1) > dP1CP1 then False
      else
        let dP1 = getDistance x y x1 y1;
            dP2 = getDistance x y x2 y2;
            t = Fin (1 / 2);
            r = (if dP1 < dP2 then - Fin (1 / 100) else Fin (1 / 100));
            curve = (\<lambda>t. getPointOnBezierCurve t x1 y1 x2 y2 cpx1 cpy1 cpx2 cpy2);
            dt = getDistance x y (px (curve t)) (py (curve t))
        in curve_search curve x y epsilon 100 t r dt < epsilon)"

subsection \<open>DOM events\<close>

definition first_num :: "jsval list \<Rightarrow> jsval" where
  "first_num vs = foldr (\<lambda>v r. if v \<noteq> JUndef \<and> truthy v then v else r) (butlast vs)
     (if last vs \<noteq> JUndef then last vs else JBool False)"

definition getX :: "jsobj \<Rightarrow> jsval" where
  "getX e = first_num [get_prop e ''offsetX'', get_prop e ''layerX'', get_prop e ''clientX'']"

definition getY :: "jsobj \<Rightarrow> jsval" where
  "getY e = first_num [get_prop e ''offsetY'', get_prop e ''layerY'', get_prop e ''clientY'']"

definition neg_val :: "jsval \<Rightarrow> jsval" where
  "neg_val v = JNum (- to_num v)"

definition getDelta :: "jsobj \<Rightarrow> jsval" where
  "getDelta e =
     (let w = get_prop e ''wheelDelta''; d = get_prop e ''detail''
      in if w \<noteq> JUndef \<and> truthy w then w
         else if d \<noteq> JUndef then neg_val d else JBool False)"

text \<open>\<open>getOffset\<close>: the DOM elements from the given one up to the root, as their offsets.\<close>

fun getOffset :: "(int \<times> int) list \<Rightarrow> int \<times> int" where
  "getOffset [] = (0, 0)"
| "getOffset ((offsetTop, offsetLeft) # parents) =
     (case getOffset parents of (tp, left) \<Rightarrow> (offsetTop + tp, offsetLeft + left))"

text \<open>
  Double clicks: the counter of one handler; a click, or one of the timers set by a first click.
  The result of a click says whether the callback is called.
\<close>

datatype click_event = Click | Timeout

record click_state =
  clicks :: nat
  timers :: nat

definition click_init :: click_state where
  "click_init = \<lparr>clicks = 0, timers = 0\<rparr>"

definition doubleClick_step :: "click_event \<Rightarrow> click_state \<Rightarrow> bool \<times> click_state" where
  "doubleClick_step ev s =
     (case ev of
        Click \<Rightarrow>
          let c = clicks s + 1 in
          if c = 2 then (True, s\<lparr>clicks := 0\<rparr>)
          else if c = 1 then (False, s\<lparr>clicks := c, timers := timers s + 1\<rparr>)
          else (False, s\<lparr>clicks := c\<rparr>)
      | Timeout \<Rightarrow>
          if 0 < timers s then (False, s\<lparr>clicks := 0, timers := timers s - 1\<rparr>) else (False, s))"

fun click_run :: "click_event list \<Rightarrow> click_state \<Rightarrow> bool list \<times> click_state" where
  "click_run [] s = ([], s)"
| "click_run (e # es) s =
     (let (b, s1) = doubleClick_step e s; (bs, s2) = click_run es s1 in (b # bs, s2))"

subsection \<open>Easing functions\<close>

datatype easing = LinearNone | QuadraticIn | QuadraticOut | QuadraticInOut | CubicIn | CubicOut | CubicInOut

fun easings :: "easing \<Rightarrow> jsnum \<Rightarrow> jsnum" where
  "easings LinearNone k = k"
| "easings QuadraticIn k = k * k"
| "easings QuadraticOut k = k * (2 - k)"
| "easings QuadraticInOut k =
     (let k = k * 2 in
      if k < 1 then Fin (1 / 2) * k * k
      else let k = k - 1 in - Fin (1 / 2) * (k * (k - 2) - 1))"
| "easings CubicIn k = k * k * k"
| "easings CubicOut k = (let k = k - 1 in k * k * k + 1)"
| "easings CubicInOut k =
     (let k = k * 2 in
      if k < 1 then Fin (1 / 2) * k * k * k
      else let k = k - 2 in Fin (1 / 2) * (k * k * k + 2))"

subsection \<open>Matrices\<close>

definition mat_translation :: "jsnum \<Rightarrow> jsnum \<Rightarrow> jsnum list" where
  "mat_translation dx dy = [1, 0, 0, 0, 1, 0, dx, dy, 1]"

definition mat_rotation :: "jsnum \<Rightarrow> bool \<Rightarrow> jsnum list" where
  "mat_rotation angle m2 =
     (let c = js_cos angle; s = js_sin angle
      in if m2 then [c, - s, s, c] else [c, - s, 0, s, c, 0, 0, 0, 1])"

definition mat_scale :: "jsnum \<Rightarrow> bool \<Rightarrow> jsnum list" where
  "mat_scale ratio m2 =
     (if m2 then [ratio, 0, 0, ratio] else [ratio, 0, 0, 0, ratio, 0, 0, 0, 1])"

text \<open>An entry that is not there reads as \<open>undefined\<close>, which arithmetic turns into NaN.\<close>

definition entry :: "jsnum list \<Rightarrow> nat \<Rightarrow> jsnum" where
  "entry a i = (if i < length a then a ! i else NaN)"

definition mat_multiply :: "jsnum list \<Rightarrow> jsnum list \<Rightarrow> bool \<Rightarrow> jsnum list" where
  "mat_multiply a b m2 =
     (let l = (if m2 then 2 else 3);
          a00 = entry a (0 * l + 0); a01 = entry a (0 * l + 1); a02 = entry a (0 * l + 2);
          a10 = entry a (1 * l + 0); a11 = entry a (1 * l + 1); a12 = entry a (1 * l + 2);
          a20 = entry a (2 * l + 0); a21 = entry a (2 * l + 1); a22 = entry a (2 * l + 2);
          b00 = entry b (0 * l + 0); b01 = entry b (0 * l + 1); b02 = entry b (0 * l + 2);
          b10 = entry b (1 * l + 0); b11 = entry b (1 * l + 1); b12 = entry b (1 * l + 2);
          b20 = entry b (2 * l + 0); b21 = entry b (2 * l + 1); b22 = entry b (2 * l + 2)
      in if m2 then
           [a00 * b00 + a01 * b10, a00 * b01 + a01 * b11,
            a10 * b00 + a11 * b10, a10 * b01 + a11 * b11]
         else
           [a00 * b00 + a01 * b10 + a02 * b20, a00 * b01 + a01 * b11 + a02 * b21,
            a00 * b02 + a01 * b12 + a02 * b22,
            a10 * b00 + a11 * b10 + a12 * b20, a10 * b01 + a11 * b11 + a12 * b21,
            a10 * b02 + a11 * b12 + a12 * b22,
            a20 * b00 + a21 * b10 + a22 * b20, a20 * b01 + a21 * b11 + a22 * b21,
            a20 * b02 + a21 * b12 + a22 * b22])"

subsection \<open>The animation-frame fallback\<close>

text \<open>\<open>requestAnimationFrame\<close> where the browser has none: the delay of the timer, the time the
  callback is called with, and the new \<open>lastTime\<close>.\<close>

definition raf_request :: "int \<Rightarrow> int \<Rightarrow> int \<times> int \<times> int" where
  "raf_request currTime lastTime =
     (let timeToCall = max 0 (16 - (currTime - lastTime))
      in (timeToCall, currTime + timeToCall, currTime + timeToCall))"

subsection \<open>Facts about the helpers\<close>

lemma copy_keys_get:
  assumes "owf arg"
  shows "oget (copy_keys arg res) k = (case oget arg k of None \<Rightarrow> oget res k | Some v \<Rightarrow> Some v)"
proof -
  have "oget (fold (\<lambda>k r. oset k (the (oget arg k)) r) ks res) k =
      (if k \<in> set ks then Some (the (oget arg k)) else oget res k)" for ks
    by (induction ks arbitrary: res) (auto simp: oget_oset)
  then have "oget (copy_keys arg res) k = (if k \<in> set (okeys arg) then Some (the (oget arg k)) else oget res k)"
    unfolding copy_keys_def by (simp only: set_own_keys)
  then show ?thesis using oget_None_iff [of arg k] by (cases "oget arg k") auto
qed

lemma copy_keys_owf: "owf res \<Longrightarrow> owf (copy_keys arg res)"
proof -
  assume "owf res"
  then have "owf (fold (\<lambda>k r. oset k (the (oget arg k)) r) ks res)" for ks
    by (induction ks arbitrary: res) auto
  then show ?thesis by (simp add: copy_keys_def)
qed

text \<open>An earlier argument of \<open>extend\<close> wins over a later one.\<close>

lemma extend_first_wins:
  assumes "\<forall>a \<in> set args. owf a"
  shows "oget (extend_objs args) k = List.find (\<lambda>v. True) (List.map_filter (\<lambda>a. oget a k) args)"
  using assms
  by (induction args) (auto simp: extend_objs_def copy_keys_get map_filter_simps split: option.splits)

lemma oset_twice: "oset k v (oset k v m) = oset k v m"
  by (induction m) auto

text \<open>Packages: a walk over fresh ns creates them, and walking again finds the same package.\<close>

lemma pkg_walk_stable:
  "pkg_walk ns rt = Inr (p, rt') \<Longrightarrow> pkg_walk ns rt' = Inr (p, rt')"
proof (induction ns rt arbitrary: p rt' rule: pkg_walk.induct)
  case (1 ctxt)
  then show ?case by auto
next
  case (2 n ns ctxt)
  have step: "pkg_walk (n # ns) (oset n (JObj c') ctxt) = Inr (p, oset n (JObj c') ctxt)"
    if "pkg_walk ns c' = Inr (p, c')" for c'
    using that by (simp add: oget_oset oset_twice)
  show ?case
  proof (cases "oget ctxt n")
    case None
    with "2.prems" obtain c where c: "pkg_walk ns [] = Inr (p, c)" "rt' = oset n (JObj c) ctxt"
      by (auto split: sum.splits)
    with step "2.IH"(1) [OF None c(1)] show ?thesis by blast
  next
    case (Some v)
    show ?thesis
    proof (cases "\<exists>c. v = JObj c")
      case True
      then obtain c where v: "v = JObj c" ..
      with "2.prems" Some obtain c' where c: "pkg_walk ns c = Inr (p, c')" "rt' = oset n (JObj c') ctxt"
        by (auto split: sum.splits)
      with step "2.IH"(2) [OF Some v c(1)] show ?thesis by blast
    next
      case False
      with "2.prems" Some show ?thesis by (cases v) (auto split: if_splits)
    qed
  qed
qed

subsection \<open>Colours: the hexadecimal notation is read back\<close>

definition hex_char :: "nat \<Rightarrow> char" where
  "hex_char d = (if d < 10 then char_of (48 + d) else char_of (87 + d))"

definition hex_byte :: "nat \<Rightarrow> string" where
  "hex_byte n = [hex_char (n div 16), hex_char (n mod 16)]"

lemma hex_char_facts:
  assumes "d < 16"
  shows "hex_val (hex_char d) = Some d" "\<not> is_space (hex_char d)" "hex_char d \<noteq> CHR ''-''"
    "hex_char d \<noteq> CHR ''+''" "hex_char d \<noteq> CHR ''x''" "hex_char d \<noteq> CHR ''X''"
proof -
  have code: "of_char (hex_char d) = (if d < 10 then 48 + d else 87 + d)"
    using assms by (simp add: hex_char_def of_char_of)
  then show "hex_val (hex_char d) = Some d" using assms by (simp add: hex_val_def Let_def)
  have ne: "hex_char d \<noteq> c" if "of_char c \<notin> {48 ..< 58} \<union> {97 ..< 103 :: nat}" for c
    using that code assms by (auto split: if_splits)
  show "hex_char d \<noteq> CHR ''-''" "hex_char d \<noteq> CHR ''+''" "hex_char d \<noteq> CHR ''x''"
    "hex_char d \<noteq> CHR ''X''"
    by (rule ne; simp)+
  show "\<not> is_space (hex_char d)" unfolding is_space_def using ne by simp
qed

lemma parseInt16_byte:
  assumes "a < 16" "b < 16"
  shows "parseInt16 [hex_char a, hex_char b] = Fin (real (16 * a + b))"
  using hex_char_facts [OF assms(1)] hex_char_facts [OF assms(2)]
  by (simp add: parseInt16_def hex_number_def)
lemma floatColor_long:
  assumes "r < 256" "g < 256" "b < 256"
  shows "floatColor (''#'' @ hex_byte r @ hex_byte g @ hex_byte b) =
    Inr (Fin (real (65536 * r + 256 * g + b)))"
proof -
  have d: "n div 16 < 16" "n mod 16 < 16" "16 * (n div 16) + n mod 16 = n" if "n < 256" for n :: nat
    using that by auto
  have P: "parseInt16 [hex_char (n div 16), hex_char (n mod 16)] = Fin (real n)" if "n < 256" for n
    unfolding parseInt16_byte [OF d(1,2) [OF that]] d(3) [OF that] ..
  show ?thesis
    by (simp add: floatColor_def hex_byte_def charAt_def P [OF assms(1)] P [OF assms(2)]
        P [OF assms(3)] num_simps numeral_2_eq_2 numeral_3_eq_3)
qed

lemma floatColor_short:
  assumes "r < 16" "g < 16" "b < 16"
  shows "floatColor (''#'' @ [hex_char r, hex_char g, hex_char b]) =
    floatColor (''#'' @ hex_byte (17 * r) @ hex_byte (17 * g) @ hex_byte (17 * b))"
proof -
  have P: "parseInt16 [hex_char n, hex_char n] = Fin (real (17 * n))" if "n < 16" for n
    using parseInt16_byte [OF that that] by simp
  have "floatColor (''#'' @ [hex_char r, hex_char g, hex_char b]) =
      Inr (Fin (real (65536 * (17 * r) + 256 * (17 * g) + 17 * b)))"
    by (simp add: floatColor_def charAt_def P [OF assms(1)] P [OF assms(2)] P [OF assms(3)] num_simps
        numeral_2_eq_2)
  then show ?thesis using assms by (subst floatColor_long) simp_all
qed

subsection \<open>Geometry on finite numbers\<close>

lemma js_sqrt_nonneg [num_simps]: "0 \<le> a \<Longrightarrow> js_sqrt (Fin a) = Fin (sqrt a)"
  by simp

declare js_sqrt.simps(1) [simp del]

lemma getDistance_Fin:
  "getDistance (Fin a) (Fin b) (Fin c) (Fin d) = Fin (sqrt ((c - a)\<^sup>2 + (d - b)\<^sup>2))"
  by (simp add: getDistance_def num_simps)

lemma quadratic_curve_Fin:
  "getPointOnQuadraticCurve (Fin t) (Fin x1) (Fin y1) (Fin x2) (Fin y2) (Fin xi) (Fin yi) =
     pt (Fin ((1 - t)\<^sup>2 * x1 + 2 * (1 - t) * t * xi + t\<^sup>2 * x2))
        (Fin ((1 - t)\<^sup>2 * y1 + 2 * (1 - t) * t * yi + t\<^sup>2 * y2))"
  by (simp add: getPointOnQuadraticCurve_def num_simps)

lemma bezier_curve_Fin:
  "\<exists>a b. getPointOnBezierCurve (Fin t) (Fin x1) (Fin y1) (Fin x2) (Fin y2) (Fin cx) (Fin cy) (Fin dx)
     (Fin dy) = pt (Fin a) (Fin b)"
  by (simp add: getPointOnBezierCurve_def num_simps)

text \<open>Heron: the two circles meet exactly when the triangle inequalities hold.\<close>

lemma circle_height:
  fixes d r0 r1 :: real
  assumes "0 < d" "d \<le> r0 + r1" "\<bar>r0 - r1\<bar> \<le> d"
  shows "0 \<le> r0\<^sup>2 - ((r0\<^sup>2 - r1\<^sup>2 + d\<^sup>2) / (2 * d))\<^sup>2"
proof -
  have "0 \<le> (r0 + r1 - d) * (d + r1 - r0) * ((d + r0 - r1) * (d + r0 + r1))"
    using assms by (intro mult_nonneg_nonneg) auto
  also have "\<dots> = 4 * d\<^sup>2 * r0\<^sup>2 - (r0\<^sup>2 - r1\<^sup>2 + d\<^sup>2)\<^sup>2"
    by (simp add: power2_eq_square algebra_simps)
  finally have "(r0\<^sup>2 - r1\<^sup>2 + d\<^sup>2)\<^sup>2 \<le> r0\<^sup>2 * (2 * d)\<^sup>2"
    by (simp add: power_mult_distrib mult.commute)
  then have "(r0\<^sup>2 - r1\<^sup>2 + d\<^sup>2)\<^sup>2 / (2 * d)\<^sup>2 \<le> r0\<^sup>2"
    using assms(1) by (simp add: divide_le_eq)
  then show ?thesis by (simp add: power_divide)
qed

lemma circle_point:
  fixes d dx dy a h r0 r1 :: real
  assumes "0 < d" "d\<^sup>2 = dx\<^sup>2 + dy\<^sup>2" "a\<^sup>2 + h\<^sup>2 = r0\<^sup>2" "2 * d * a = r0\<^sup>2 - r1\<^sup>2 + d\<^sup>2"
  shows "(dx * a / d - dy * (h / d))\<^sup>2 + (dy * a / d + dx * (h / d))\<^sup>2 = r0\<^sup>2"
    and "(dx * a / d - dx - dy * (h / d))\<^sup>2 + (dy * a / d - dy + dx * (h / d))\<^sup>2 = r1\<^sup>2"
proof -
  have e: "(dx * u / d - dy * (h / d))\<^sup>2 + (dy * u / d + dx * (h / d))\<^sup>2 = u\<^sup>2 + h\<^sup>2" for u
  proof -
    have "(dx * u / d - dy * (h / d))\<^sup>2 + (dy * u / d + dx * (h / d))\<^sup>2 =
        (dx\<^sup>2 + dy\<^sup>2) * (u\<^sup>2 + h\<^sup>2) / d\<^sup>2"
      by (simp add: power2_eq_square field_simps assms(1) less_imp_neq [OF assms(1), symmetric])
    then show ?thesis using assms(1) by (simp add: assms(2) [symmetric])
  qed
  from e [of a] assms(3) show "(dx * a / d - dy * (h / d))\<^sup>2 + (dy * a / d + dx * (h / d))\<^sup>2 = r0\<^sup>2"
    by simp
  have s: "dx * a / d - dx = dx * (a - d) / d" "dy * a / d - dy = dy * (a - d) / d"
    using assms(1) by (simp_all add: field_simps)
  have "(a - d)\<^sup>2 + h\<^sup>2 = r1\<^sup>2"
    using assms(3,4) by (simp add: power2_eq_square algebra_simps)
  with e [of "a - d"] s show "(dx * a / d - dx - dy * (h / d))\<^sup>2 + (dy * a / d - dy + dx * (h / d))\<^sup>2 = r1\<^sup>2"
    by simp
qed

definition on_circle :: "point \<Rightarrow> real \<Rightarrow> real \<Rightarrow> real \<Rightarrow> bool" where
  "on_circle p x y r \<longleftrightarrow> (\<exists>a b. p = pt (Fin a) (Fin b) \<and> (a - x)\<^sup>2 + (b - y)\<^sup>2 = r\<^sup>2)"

lemma on_circleI: "(a - x)\<^sup>2 + (b - y)\<^sup>2 = r\<^sup>2 \<Longrightarrow> on_circle (pt (Fin a) (Fin b)) x y r"
  by (auto simp: on_circle_def)

lemma circle_intersection:
  fixes x0 y0 r0 x1 y1 r1 :: real
  defines "d \<equiv> sqrt ((y1 - y0)\<^sup>2 + (x1 - x0)\<^sup>2)"
  assumes "0 < d"
  shows "case getCircleIntersection (Fin x0) (Fin y0) (Fin r0) (Fin x1) (Fin y1) (Fin r1) of
      None \<Rightarrow> r0 + r1 < d \<or> d < \<bar>r0 - r1\<bar>
    | Some (p, q) \<Rightarrow> d \<le> r0 + r1 \<and> \<bar>r0 - r1\<bar> \<le> d \<and>
        on_circle p x0 y0 r0 \<and> on_circle p x1 y1 r1 \<and> on_circle q x0 y0 r0 \<and> on_circle q x1 y1 r1"
proof (cases "r0 + r1 < d \<or> d < \<bar>r0 - r1\<bar>")
  case True
  moreover have "js_sqrt (Fin ((y1 - y0) * (y1 - y0) + (x1 - x0) * (x1 - x0))) = Fin d"
    by (simp add: d_def power2_eq_square js_sqrt_nonneg sum_squares_ge_zero)
  ultimately have "getCircleIntersection (Fin x0) (Fin y0) (Fin r0) (Fin x1) (Fin y1) (Fin r1) = None"
    by (auto simp: getCircleIntersection_def num_simps Let_def)
  with True show ?thesis by simp
next
  case False
  let ?dx = "x1 - x0" and ?dy = "y1 - y0"
  define a where "a = (r0\<^sup>2 - r1\<^sup>2 + d\<^sup>2) / (2 * d)"
  define h where "h = sqrt (r0\<^sup>2 - a\<^sup>2)"
  have tri: "d \<le> r0 + r1" "\<bar>r0 - r1\<bar> \<le> d" using False by auto
  have pos: "0 \<le> r0\<^sup>2 - a\<^sup>2" unfolding a_def by (rule circle_height [OF assms(2) tri])
  have d2: "d\<^sup>2 = ?dx\<^sup>2 + ?dy\<^sup>2" by (simp add: d_def add.commute)
  have ah: "a\<^sup>2 + h\<^sup>2 = r0\<^sup>2" "a\<^sup>2 + (- h)\<^sup>2 = r0\<^sup>2" using pos by (simp_all add: h_def)
  have da: "2 * d * a = r0\<^sup>2 - r1\<^sup>2 + d\<^sup>2" using assms(2) by (simp add: a_def)
  note P = circle_point [OF assms(2) d2 ah(1) da] and Q = circle_point [OF assms(2) d2 ah(2) da]
  have js: "js_sqrt (Fin (?dy * ?dy + ?dx * ?dx)) = Fin d"
    by (simp add: d_def power2_eq_square js_sqrt_nonneg sum_squares_ge_zero)
  have "getCircleIntersection (Fin x0) (Fin y0) (Fin r0) (Fin x1) (Fin y1) (Fin r1) =
      Some (pt (Fin (x0 + ?dx * a / d + - ?dy * (h / d))) (Fin (y0 + ?dy * a / d + ?dx * (h / d))),
            pt (Fin (x0 + ?dx * a / d - - ?dy * (h / d))) (Fin (y0 + ?dy * a / d - ?dx * (h / d))))"
    using False assms(2) pos
    by (simp add: getCircleIntersection_def num_simps Let_def js a_def h_def power2_eq_square)
  moreover have eq: "x0 + ?dx * a / d + - ?dy * (h / d) - x1 = ?dx * a / d - ?dx - ?dy * (h / d)"
    "x0 + ?dx * a / d - - ?dy * (h / d) - x1 = ?dx * a / d - ?dx - ?dy * (- h / d)"
    "y0 + ?dy * a / d + ?dx * (h / d) - y1 = ?dy * a / d - ?dy + ?dx * (h / d)"
    "y0 + ?dy * a / d - ?dx * (h / d) - y1 = ?dy * a / d - ?dy + ?dx * (- h / d)"
    "x0 + ?dx * a / d + - ?dy * (h / d) - x0 = ?dx * a / d - ?dy * (h / d)"
    "x0 + ?dx * a / d - - ?dy * (h / d) - x0 = ?dx * a / d - ?dy * (- h / d)"
    "y0 + ?dy * a / d + ?dx * (h / d) - y0 = ?dy * a / d + ?dx * (h / d)"
    "y0 + ?dy * a / d - ?dx * (h / d) - y0 = ?dy * a / d + ?dx * (- h / d)"
    using assms(2) by (simp_all add: field_simps)
  moreover have "on_circle (pt (Fin (x0 + ?dx * a / d + - ?dy * (h / d))) (Fin (y0 + ?dy * a / d + ?dx * (h / d)))) x0 y0 r0"
    by (rule on_circleI, unfold eq, rule P(1))
  moreover have "on_circle (pt (Fin (x0 + ?dx * a / d + - ?dy * (h / d))) (Fin (y0 + ?dy * a / d + ?dx * (h / d)))) x1 y1 r1"
    by (rule on_circleI, unfold eq, rule P(2))
  moreover have "on_circle (pt (Fin (x0 + ?dx * a / d - - ?dy * (h / d))) (Fin (y0 + ?dy * a / d - ?dx * (h / d)))) x0 y0 r0"
    by (rule on_circleI, unfold eq, rule Q(1))
  moreover have "on_circle (pt (Fin (x0 + ?dx * a / d - - ?dy * (h / d))) (Fin (y0 + ?dy * a / d - ?dx * (h / d)))) x1 y1 r1"
    by (rule on_circleI, unfold eq, rule Q(2))
  ultimately show ?thesis using tri by (simp only: option.case prod.case simp_thms)
qed
text \<open>The search: the distance it returns is the distance to some point of the curve.\<close>

definition near_curve :: "(jsnum \<Rightarrow> point) \<Rightarrow> jsnum \<Rightarrow> jsnum \<Rightarrow> jsnum \<Rightarrow> bool" where
  "near_curve curve x y dt \<longleftrightarrow>
     (\<exists>u. 0 \<le> u \<and> u \<le> 1 \<and> dt = getDistance x y (px (curve (Fin u))) (py (curve (Fin u))))"

lemma curve_search_near:
  assumes "near_curve curve x y dt"
  shows "near_curve curve x y (curve_search curve x y eps i (Fin t) (Fin r) dt)"
  using assms
proof (induction i arbitrary: t r dt)
  case (Suc i)
  show ?case
  proof (cases "Fin t \<ge> 0 \<and> Fin t \<le> 1 \<and> dt > eps \<and> (Fin r > Fin (1 / 1000) \<or> Fin r < - Fin (1 / 1000))")
    case True
    then have t: "0 \<le> t" "t \<le> 1" by (simp_all add: num_simps)
    then have new: "near_curve curve x y (getDistance x y (px (curve (Fin t))) (py (curve (Fin t))))"
      unfolding near_curve_def by blast
    show ?thesis using True Suc.IH [OF new] Suc.IH [OF Suc.prems]
      by (simp add: Let_def num_simps)
  next
    case False
    then show ?thesis using Suc.prems by (simp only: curve_search.simps if_False)
  qed
qed simp

lemma half_near: "near_curve curve x y (getDistance x y (px (curve (Fin (1 / 2)))) (py (curve (Fin (1 / 2)))))"
  unfolding near_curve_def by (intro exI [of _ "1 / 2"]) simp

lemma on_quadratic_curve_near:
  assumes "isPointOnQuadraticCurve x y x1 y1 x2 y2 cpx cpy eps"
  shows "\<exists>dt < eps. near_curve (\<lambda>t. getPointOnQuadraticCurve t x1 y1 x2 y2 cpx cpy) x y dt"
proof -
  let ?c = "\<lambda>t. getPointOnQuadraticCurve t x1 y1 x2 y2 cpx cpy"
  let ?dt = "getDistance x y (px (?c (Fin (1 / 2)))) (py (?c (Fin (1 / 2))))"
  from assms obtain r where "curve_search ?c x y eps 100 (Fin (1 / 2)) (Fin r) ?dt < eps"
    by (auto simp: isPointOnQuadraticCurve_def Let_def simp del: curve_search.simps split: if_splits)
  with curve_search_near [OF half_near [of ?c x y]] show ?thesis by blast
qed

lemma on_bezier_curve_near:
  assumes "isPointOnBezierCurve x y x1 y1 x2 y2 cpx1 cpy1 cpx2 cpy2 eps"
  shows "\<exists>dt < eps. near_curve (\<lambda>t. getPointOnBezierCurve t x1 y1 x2 y2 cpx1 cpy1 cpx2 cpy2) x y dt"
proof -
  let ?c = "\<lambda>t. getPointOnBezierCurve t x1 y1 x2 y2 cpx1 cpy1 cpx2 cpy2"
  let ?dt = "getDistance x y (px (?c (Fin (1 / 2)))) (py (?c (Fin (1 / 2))))"
  from assms obtain r where "curve_search ?c x y eps 100 (Fin (1 / 2)) (Fin r) ?dt < eps"
    by (auto simp: isPointOnBezierCurve_def Let_def simp del: curve_search.simps split: if_splits)
  with curve_search_near [OF half_near [of ?c x y]] show ?thesis by blast
qed

lemma on_segment_Fin:
  "isPointOnSegment (Fin x) (Fin y) (Fin x1) (Fin y1) (Fin x2) (Fin y2) (Fin eps) \<Longrightarrow>
     (x1, y1) \<noteq> (x2, y2) \<Longrightarrow>
     \<bar>(y - y1) * (x2 - x1) - (x - x1) * (y2 - y1)\<bar> < eps * sqrt ((x2 - x1)\<^sup>2 + (y2 - y1)\<^sup>2) \<and>
     x \<in> {min x1 x2 .. max x1 x2} \<and> y \<in> {min y1 y2 .. max y1 y2}"
proof -
  assume on: "isPointOnSegment (Fin x) (Fin y) (Fin x1) (Fin y1) (Fin x2) (Fin y2) (Fin eps)"
    and ne: "(x1, y1) \<noteq> (x2, y2)"
  from ne have "0 < (x2 - x1)\<^sup>2 + (y2 - y1)\<^sup>2" by (auto simp: sum_power2_gt_zero_iff)
  with on show ?thesis
    by (auto simp: isPointOnSegment_def getDistance_Fin num_simps Let_def pos_divide_less_eq
        split: if_splits)
qed

subsection \<open>Easing functions\<close>

fun ease :: "easing \<Rightarrow> real \<Rightarrow> real" where
  "ease LinearNone k = k"
| "ease QuadraticIn k = k\<^sup>2"
| "ease QuadraticOut k = 1 - (1 - k)\<^sup>2"
| "ease QuadraticInOut k = (if k < 1 / 2 then 2 * k\<^sup>2 else 1 - 2 * (1 - k)\<^sup>2)"
| "ease CubicIn k = k ^ 3"
| "ease CubicOut k = 1 - (1 - k) ^ 3"
| "ease CubicInOut k = (if k < 1 / 2 then 4 * k ^ 3 else 1 - 4 * (1 - k) ^ 3)"

lemma easings_ease: "easings e (Fin k) = Fin (ease e k)"
  by (cases e) (simp_all add: num_simps Let_def power2_eq_square power3_eq_cube field_simps)

lemma ease_ends: "ease e 0 = 0" "ease e 1 = 1"
  by (cases e; simp)+

lemma ease_mono:
  assumes "0 \<le> k" "k \<le> l" "l \<le> 1"
  shows "ease e k \<le> ease e l"
proof -
  have up: "k ^ n \<le> l ^ n" "(1 - l) ^ n \<le> (1 - k) ^ n" for n
    using assms by (auto intro!: power_mono)
  have half: "k < 1 / 2 \<Longrightarrow> k ^ n \<le> (1 / 2) ^ n" "\<not> l < 1 / 2 \<Longrightarrow> (1 - l) ^ n \<le> (1 / 2) ^ n" for n
    using assms by (auto intro!: power_mono)
  show ?thesis
    using up [of 2] up [of 3] half(1) [of 2] half(1) [of 3] half(2) [of 2] half(2) [of 3] assms
    by (cases e) (auto simp: power_divide)
qed

subsection \<open>Matrices\<close>

text \<open>Matrices of finite entries, row by row, and their product as a sum.\<close>

definition fin_matrix :: "nat \<Rightarrow> (nat \<Rightarrow> nat \<Rightarrow> real) \<Rightarrow> jsnum list" where
  "fin_matrix n f = concat (map (\<lambda>i. map (\<lambda>j. Fin (f i j)) [0 ..< n]) [0 ..< n])"

lemma fin_matrix_2: "fin_matrix 2 f = [Fin (f 0 0), Fin (f 0 1), Fin (f 1 0), Fin (f 1 1)]"
  by (simp add: fin_matrix_def numeral_2_eq_2)

lemma fin_matrix_3: "fin_matrix 3 f =
    [Fin (f 0 0), Fin (f 0 1), Fin (f 0 2), Fin (f 1 0), Fin (f 1 1), Fin (f 1 2),
     Fin (f 2 0), Fin (f 2 1), Fin (f 2 2)]"
  by (simp add: fin_matrix_def numeral_3_eq_3 numeral_2_eq_2)

lemma entry_3:
  "entry (fin_matrix 3 f) 0 = Fin (f 0 0)" "entry (fin_matrix 3 f) (Suc 0) = Fin (f 0 1)"
  "entry (fin_matrix 3 f) 2 = Fin (f 0 2)" "entry (fin_matrix 3 f) (Suc (Suc 0)) = Fin (f 0 2)"
  "entry (fin_matrix 3 f) 3 = Fin (f 1 0)"
  "entry (fin_matrix 3 f) 4 = Fin (f 1 1)" "entry (fin_matrix 3 f) 5 = Fin (f 1 2)"
  "entry (fin_matrix 3 f) 6 = Fin (f 2 0)" "entry (fin_matrix 3 f) 7 = Fin (f 2 1)"
  "entry (fin_matrix 3 f) 8 = Fin (f 2 2)"
  by (simp_all add: fin_matrix_3 entry_def)

lemma entry_2:
  "entry (fin_matrix 2 f) 0 = Fin (f 0 0)" "entry (fin_matrix 2 f) (Suc 0) = Fin (f 0 1)"
  "entry (fin_matrix 2 f) 2 = Fin (f 1 0)" "entry (fin_matrix 2 f) (Suc (Suc 0)) = Fin (f 1 0)"
  "entry (fin_matrix 2 f) 3 = Fin (f 1 1)"
  by (simp_all add: fin_matrix_2 entry_def)

lemma sum_3: "(\<Sum>k<3. h k) = h 0 + h 1 + h (2 :: nat)" for h :: "nat \<Rightarrow> real"
  by (simp add: eval_nat_numeral)

lemma sum_2: "(\<Sum>k<2. h k) = h 0 + h (1 :: nat)" for h :: "nat \<Rightarrow> real"
  by (simp add: eval_nat_numeral)

lemma mat_multiply_3:
  "mat_multiply (fin_matrix 3 f) (fin_matrix 3 g) False =
     fin_matrix 3 (\<lambda>i j. \<Sum>k<3. f i k * g k j)"
  unfolding mat_multiply_def Let_def if_False fin_matrix_3 [of "\<lambda>i j. \<Sum>k<3. f i k * g k j"]
  by (simp add: entry_3 sum_3)

lemma mat_multiply_2:
  "mat_multiply (fin_matrix 2 f) (fin_matrix 2 g) True =
     fin_matrix 2 (\<lambda>i j. \<Sum>k<2. f i k * g k j)"
  unfolding mat_multiply_def Let_def if_True fin_matrix_2 [of "\<lambda>i j. \<Sum>k<2. f i k * g k j"]
  by (simp add: entry_2 sum_2)

lemma fin_matrix_cong:
  "(\<And>i j. i < n \<Longrightarrow> j < n \<Longrightarrow> f i j = g i j) \<Longrightarrow> fin_matrix n f = fin_matrix n g"
  unfolding fin_matrix_def by (intro arg_cong [of _ _ concat] map_cong refl) auto

lemma mat_multiply_assoc:
  "mat_multiply (mat_multiply (fin_matrix 3 f) (fin_matrix 3 g) False) (fin_matrix 3 h) False =
     mat_multiply (fin_matrix 3 f) (mat_multiply (fin_matrix 3 g) (fin_matrix 3 h) False) False"
  unfolding mat_multiply_3
  by (rule fin_matrix_cong) (simp add: sum_3 algebra_simps)

subsection \<open>Double clicks and frames\<close>

text \<open>Without a timer firing in between, every second click calls the callback.\<close>

lemma click_pairs:
  "fst (click_run (replicate (2 * n) Click) \<lparr>clicks = 0, timers = m\<rparr>) = concat (replicate n [False, True])"
  by (induction n arbitrary: m) (simp_all add: doubleClick_step_def Let_def case_prod_beta)

text \<open>A timer of an earlier pair is not cancelled: it can separate the clicks of a later pair.\<close>

lemma stale_timer:
  "fst (click_run [Click, Click, Click, Timeout, Click] click_init) = [False, True, False, False, False]"
  by (simp add: click_init_def doubleClick_step_def)

lemma raf_spacing:
  "raf_request now prev = (delay, t, prev') \<Longrightarrow> 0 \<le> delay \<and> t = now + delay \<and> prev' = t \<and>
     16 \<le> t - prev"
  by (auto simp: raf_request_def Let_def)
subsection \<open>The properties of the helpers\<close>

text \<open>A colour written in hexadecimal is read as its number: \<open>#rrggbb\<close> gives
  \<open>65536 r + 256 g + b\<close>, so different colours give different numbers, and \<open>#rgb\<close> is the
  colour whose digits are doubled.\<close>

theorem floatColor_reads_hex:
  assumes "r < 256" "g < 256" "b < 256" "r1 < 16" "g1 < 16" "b1 < 16"
  shows "floatColor (''#'' @ hex_byte r @ hex_byte g @ hex_byte b) =
      Inr (Fin (real (65536 * r + 256 * g + b))) \<and>
    floatColor (''#'' @ [hex_char r1, hex_char g1, hex_char b1]) =
      floatColor (''#'' @ hex_byte (17 * r1) @ hex_byte (17 * g1) @ hex_byte (17 * b1)) \<and>
    (\<forall>r' g' b'. r' < 256 \<longrightarrow> g' < 256 \<longrightarrow> b' < 256 \<longrightarrow>
      floatColor (''#'' @ hex_byte r' @ hex_byte g' @ hex_byte b') =
        floatColor (''#'' @ hex_byte r @ hex_byte g @ hex_byte b) \<longrightarrow> r' = r \<and> g' = g \<and> b' = b)"
proof -
  have "r' = r \<and> g' = g \<and> b' = b"
    if n: "r' < 256" "g' < 256" "b' < 256" "floatColor (''#'' @ hex_byte r' @ hex_byte g' @ hex_byte b') =
        floatColor (''#'' @ hex_byte r @ hex_byte g @ hex_byte b)" for r' g' b'
  proof -
    from n(4) have e: "65536 * r' + 256 * g' + b' = 65536 * r + 256 * g + b"
      unfolding floatColor_long [OF n(1-3)] floatColor_long [OF assms(1-3)]
      by (simp only: sum.inject jsnum.inject of_nat_eq_iff)
    have r: "r' = r" using e n(1-3) assms(1-3) by linarith
    moreover have "g' = g" using r e n(1-3) assms(1-3) by linarith
    ultimately show ?thesis using e by simp
  qed
  then show ?thesis
    using floatColor_long [OF assms(1-3)] floatColor_short [OF assms(4-6)] by blast
qed

theorem floatColor_reads_hex_witness:
  "floatColor (''#'' @ hex_byte 255 @ hex_byte 128 @ hex_byte 0) = Inr (Fin 16744448)"
  using floatColor_reads_hex [of 255 128 0 15 8 0] by simp

text \<open>The circle intersection used to shorten edges is exact: for two circles with different
  centres it reports no intersection only when one lies outside or inside the other, and
  otherwise both points it returns lie on both circles.\<close>

theorem circle_intersection_correct:
  fixes x0 y0 r0 x1 y1 r1 :: real
  assumes "(x0, y0) \<noteq> (x1, y1)"
  shows "case getCircleIntersection (Fin x0) (Fin y0) (Fin r0) (Fin x1) (Fin y1) (Fin r1) of
      None \<Rightarrow> r0 + r1 < sqrt ((y1 - y0)\<^sup>2 + (x1 - x0)\<^sup>2) \<or>
        sqrt ((y1 - y0)\<^sup>2 + (x1 - x0)\<^sup>2) < \<bar>r0 - r1\<bar>
    | Some (p, q) \<Rightarrow> sqrt ((y1 - y0)\<^sup>2 + (x1 - x0)\<^sup>2) \<le> r0 + r1 \<and>
        \<bar>r0 - r1\<bar> \<le> sqrt ((y1 - y0)\<^sup>2 + (x1 - x0)\<^sup>2) \<and>
        on_circle p x0 y0 r0 \<and> on_circle p x1 y1 r1 \<and> on_circle q x0 y0 r0 \<and> on_circle q x1 y1 r1"
proof -
  have "0 < sqrt ((y1 - y0)\<^sup>2 + (x1 - x0)\<^sup>2)"
    using assms by (auto simp: sum_power2_gt_zero_iff)
  then show ?thesis by (rule circle_intersection)
qed

theorem circle_intersection_correct_witness:
  "\<exists>p q. getCircleIntersection (Fin 0) (Fin 0) (Fin 5) (Fin 6) (Fin 0) (Fin 5) = Some (p, q) \<and>
     on_circle p 0 0 5 \<and> on_circle p 6 0 5 \<and> on_circle q 0 0 5 \<and> on_circle q 6 0 5"
proof -
  have "getCircleIntersection (Fin 0) (Fin 0) (Fin 5) (Fin 6) (Fin 0) (Fin 5) \<noteq> None"
    by (simp add: getCircleIntersection_def num_simps Let_def)
  with circle_intersection_correct [of 0 0 6 0 5 5] show ?thesis by (auto split: option.splits)
qed

text \<open>The hit tests of the edges are sound: a point reported on a curve is within \<open>epsilon\<close> of
  some point of that curve (for a quadratic and for a cubic curve), although the search stops
  after at most 100 turns; a point reported on a segment is within \<open>epsilon\<close> of its line and in its
  bounding box.\<close>

theorem hit_tests_sound:
  fixes x y x1 y1 x2 y2 :: real
  assumes "(x1, y1) \<noteq> (x2, y2)"
  shows "(isPointOnQuadraticCurve p q a1 b1 a2 b2 cx cy eps \<longrightarrow>
      (\<exists>dt < eps. near_curve (\<lambda>t. getPointOnQuadraticCurve t a1 b1 a2 b2 cx cy) p q dt)) \<and>
    (isPointOnBezierCurve p q a1 b1 a2 b2 cx cy dx dy eps \<longrightarrow>
      (\<exists>dt < eps. near_curve (\<lambda>t. getPointOnBezierCurve t a1 b1 a2 b2 cx cy dx dy) p q dt)) \<and>
    (isPointOnSegment (Fin x) (Fin y) (Fin x1) (Fin y1) (Fin x2) (Fin y2) (Fin e) \<longrightarrow>
      \<bar>(y - y1) * (x2 - x1) - (x - x1) * (y2 - y1)\<bar> < e * sqrt ((x2 - x1)\<^sup>2 + (y2 - y1)\<^sup>2) \<and>
      x \<in> {min x1 x2 .. max x1 x2} \<and> y \<in> {min y1 y2 .. max y1 y2})"
proof (intro conjI)
  show "isPointOnQuadraticCurve p q a1 b1 a2 b2 cx cy eps \<longrightarrow>
      (\<exists>dt < eps. near_curve (\<lambda>t. getPointOnQuadraticCurve t a1 b1 a2 b2 cx cy) p q dt)"
    using on_quadratic_curve_near by simp
  show "isPointOnBezierCurve p q a1 b1 a2 b2 cx cy dx dy eps \<longrightarrow>
      (\<exists>dt < eps. near_curve (\<lambda>t. getPointOnBezierCurve t a1 b1 a2 b2 cx cy dx dy) p q dt)"
    using on_bezier_curve_near by simp
qed (use on_segment_Fin [OF _ assms] in blast)

theorem hit_tests_sound_witness:
  "isPointOnSegment (Fin 1) (Fin 1) (Fin 0) (Fin 0) (Fin 2) (Fin 2) (Fin 1) \<and>
   \<bar>(1 - 0) * (2 - 0) - (1 - 0) * (2 - 0)\<bar> < 1 * sqrt ((2 - 0)\<^sup>2 + (2 - 0)\<^sup>2 :: real)"
proof -
  have on: "isPointOnSegment (Fin 1) (Fin 1) (Fin 0) (Fin 0) (Fin 2) (Fin 2) (Fin 1)"
    by (simp add: isPointOnSegment_def getDistance_Fin num_simps)
  with hit_tests_sound [of 0 0 2 2 NaN NaN NaN NaN NaN NaN NaN NaN NaN NaN NaN 1 1 1] show ?thesis by simp
qed

text \<open>Every easing function is a monotone ramp from 0 to 1 on the unit interval.\<close>

theorem easings_are_ramps:
  assumes "0 \<le> k" "k \<le> l" "l \<le> 1"
  shows "easings e 0 = 0 \<and> easings e 1 = 1 \<and>
    0 \<le> easings e (Fin k) \<and> easings e (Fin k) \<le> easings e (Fin l) \<and> easings e (Fin l) \<le> 1"
proof -
  from assms have "0 \<le> k" "k \<le> 1" "0 \<le> l" by auto
  with assms ease_mono [of 0 k e] ease_mono [of k l e] ease_mono [of l 1 e] show ?thesis
    by (simp add: zero_Fin one_Fin easings_ease ease_ends)
qed

theorem easings_are_ramps_witness:
  "easings CubicInOut (Fin (1 / 4)) \<le> easings CubicInOut (Fin (3 / 4)) \<and>
   easings CubicInOut (Fin (1 / 4)) = Fin (1 / 16)"
  using easings_are_ramps [of "1 / 4" "3 / 4" CubicInOut]
  by (simp add: easings_ease power3_eq_cube)

end
