(* ===== verification/Sigma_Quad.thy ===== *)
theory Sigma_Quad
  imports Sigma_Utils
begin

text \<open>
  The quadtree of the graph renderer (\<open>sigma.classes.quad\<close> in \<open>lib/sigmajs/sigma.js\<close>), which
  finds the nodes at a point or in a rectangle.  A quad holds the elements of a leaf and up to four
  child quads; \<open>nodes\<close> is the list of the four places, \<open>None\<close> where the code has \<open>undefined\<close>.
  Elements are of any type; what the code reads of them (their position, their id) are arguments.
  The serialised form of a rectangle is the list of its finite numbers, \<open>None\<close> for the others
  (which \<open>JSON.stringify\<close> writes \<open>null\<close>).
\<close>

subsection \<open>Geometric operations\<close>

record sized_point =
  nx :: jsnum
  ny :: jsnum
  nsize :: jsnum

record rect =
  x1 :: jsnum
  y1 :: jsnum
  x2 :: jsnum
  y2 :: jsnum
  height :: jsnum

record bounds =
  b_x :: jsnum
  b_y :: jsnum
  bwidth :: jsnum
  bheight :: jsnum

text \<open>\<open>===\<close> on numbers.\<close>

definition num_same :: "jsnum \<Rightarrow> jsnum \<Rightarrow> bool" where
  "num_same a b \<longleftrightarrow> a \<noteq> NaN \<and> a = b"

definition pointToSquare :: "sized_point \<Rightarrow> rect" where
  "pointToSquare n =
     \<lparr>x1 = nx n - nsize n, y1 = ny n - nsize n, x2 = nx n + nsize n, y2 = ny n - nsize n,
      height = nsize n * 2\<rparr>"

definition isAxisAligned :: "rect \<Rightarrow> bool" where
  "isAxisAligned r \<longleftrightarrow> num_same (x1 r) (x2 r) \<or> num_same (y1 r) (y2 r)"

definition axisAlignedTopPoints :: "rect \<Rightarrow> rect" where
  "axisAlignedTopPoints r =
     (if num_same (y1 r) (y2 r) \<and> x1 r < x2 r then r
      else if num_same (x1 r) (x2 r) \<and> y2 r > y1 r then
        \<lparr>x1 = x1 r - height r, y1 = y1 r, x2 = x1 r, y2 = y1 r, height = height r\<rparr>
      else if num_same (x1 r) (x2 r) \<and> y2 r < y1 r then
        \<lparr>x1 = x1 r, y1 = y2 r, x2 = x2 r + height r, y2 = y2 r, height = height r\<rparr>
      else
        \<lparr>x1 = x2 r, y1 = y1 r - height r, x2 = x1 r, y2 = y1 r - height r, height = height r\<rparr>)"

definition lowerLeftCoor :: "rect \<Rightarrow> point" where
  "lowerLeftCoor r =
     (let width = js_sqrt ((x2 r - x1 r) ^ 2 + (y2 r - y1 r) ^ 2)
      in pt (x1 r - (y2 r - y1 r) * height r / width) (y1 r + (x2 r - x1 r) * height r / width))"

definition lowerRightCoor :: "rect \<Rightarrow> point \<Rightarrow> point" where
  "lowerRightCoor r llc = pt (px llc - x1 r + x2 r) (py llc - y1 r + y2 r)"

definition rectangleCorners :: "rect \<Rightarrow> point list" where
  "rectangleCorners r =
     (let llc = lowerLeftCoor r;
          lrc = lowerRightCoor r llc
      in [pt (x1 r) (y1 r), pt (x2 r) (y2 r), pt (px llc) (py llc), pt (px lrc) (py lrc)])"

definition splitSquare :: "bounds \<Rightarrow> point list list" where
  "splitSquare b =
     [[pt (b_x b) (b_y b), pt (b_x b + bwidth b / 2) (b_y b),
       pt (b_x b) (b_y b + bheight b / 2), pt (b_x b + bwidth b / 2) (b_y b + bheight b / 2)],
      [pt (b_x b + bwidth b / 2) (b_y b), pt (b_x b + bwidth b) (b_y b),
       pt (b_x b + bwidth b / 2) (b_y b + bheight b / 2), pt (b_x b + bwidth b) (b_y b + bheight b / 2)],
      [pt (b_x b) (b_y b + bheight b / 2), pt (b_x b + bwidth b / 2) (b_y b + bheight b / 2),
       pt (b_x b) (b_y b + bheight b), pt (b_x b + bwidth b / 2) (b_y b + bheight b)],
      [pt (b_x b + bwidth b / 2) (b_y b + bheight b / 2), pt (b_x b + bwidth b) (b_y b + bheight b / 2),
       pt (b_x b + bwidth b / 2) (b_y b + bheight b), pt (b_x b + bwidth b) (b_y b + bheight b)]]"

definition axis4 :: "point list \<Rightarrow> point list \<Rightarrow> point list" where
  "axis4 c1 c2 =
     [pt (px (c1 ! 1) - px (c1 ! 0)) (py (c1 ! 1) - py (c1 ! 0)),
      pt (px (c1 ! 1) - px (c1 ! 3)) (py (c1 ! 1) - py (c1 ! 3)),
      pt (px (c2 ! 0) - px (c2 ! 2)) (py (c2 ! 0) - py (c2 ! 2)),
      pt (px (c2 ! 0) - px (c2 ! 1)) (py (c2 ! 0) - py (c2 ! 1))]"

definition projection :: "point \<Rightarrow> point \<Rightarrow> point" where
  "projection c a =
     (let l = (px c * px a + py c * py a) / (px a ^ 2 + py a ^ 2)
      in pt (l * px a) (l * py a))"

definition axisCollision :: "point \<Rightarrow> point list \<Rightarrow> point list \<Rightarrow> bool" where
  "axisCollision a c1 c2 =
     (let scalar = (\<lambda>c. let p = projection c a in px p * px a + py p * py a);
          sc1 = map (\<lambda>ci. scalar (c1 ! ci)) [0 ..< 4];
          sc2 = map (\<lambda>ci. scalar (c2 ! ci)) [0 ..< 4];
          maxc1 = fold js_max sc1 NInf;
          maxc2 = fold js_max sc2 NInf;
          minc1 = fold js_min sc1 PInf;
          minc2 = fold js_min sc2 PInf
      in minc2 \<le> maxc1 \<and> maxc2 \<ge> minc1)"

definition collision :: "point list \<Rightarrow> point list \<Rightarrow> bool" where
  "collision c1 c2 = list_all (\<lambda>a. axisCollision a c1 c2) (axis4 c1 c2)"

subsection \<open>The quad functions\<close>

datatype 'e quad = Quad (level: nat) (qbounds: bounds) (corners: "point list list")
  (maxElements: nat) (maxLevel: nat) (elements: "'e list") (nodes: "'e quad option list")

text \<open>\<open>_quadTree\<close>: an absent or zero parameter takes its default.\<close>

definition or_default :: "nat option \<Rightarrow> nat \<Rightarrow> nat" where
  "or_default v d = (case v of None \<Rightarrow> d | Some n \<Rightarrow> if n = 0 then d else n)"

definition quadTree :: "bounds \<Rightarrow> nat \<Rightarrow> nat option \<Rightarrow> nat option \<Rightarrow> 'e quad" where
  "quadTree b lev maxEl maxLev =
     Quad lev b (splitSquare b) (or_default maxEl 20) (or_default maxLev 4) [] [None, None, None, None]"

definition quadIndex :: "point \<Rightarrow> bounds \<Rightarrow> nat" where
  "quadIndex p b =
     (let xmp = b_x b + bwidth b / 2;
          ymp = b_y b + bheight b / 2;
          top = py p < ymp;
          left = px p < xmp
      in if top then (if left then 0 else 1) else (if left then 2 else 3))"

definition quadIndexes :: "rect \<Rightarrow> point list list \<Rightarrow> nat list" where
  "quadIndexes r quadCorners =
     filter (\<lambda>i. x2 r \<ge> px (quadCorners ! i ! 0) \<and> x1 r \<le> px (quadCorners ! i ! 1) \<and>
         y1 r + height r \<ge> py (quadCorners ! i ! 0) \<and> y1 r \<le> py (quadCorners ! i ! 2)) [0 ..< 4]"

definition quadCollision :: "point list \<Rightarrow> point list list \<Rightarrow> nat list" where
  "quadCollision cs quadCorners = filter (\<lambda>i. collision cs (quadCorners ! i)) [0 ..< 4]"

definition quadSubdivide :: "nat \<Rightarrow> 'e quad \<Rightarrow> 'e quad" where
  "quadSubdivide index q =
     (let next = level q + 1;
          subw = js_round (bwidth (qbounds q) / 2);
          subh = js_round (bheight (qbounds q) / 2);
          qx = js_round (b_x (qbounds q));
          qy = js_round (b_y (qbounds q));
          x = (if index = 0 \<or> index = 2 then qx else qx + subw);
          y = (if index = 0 \<or> index = 1 then qy else qy + subh)
      in quadTree \<lparr>b_x = x, b_y = y, bwidth = subw, bheight = subh\<rparr> next
           (Some (maxElements q)) (Some (maxLevel q)))"

definition node_at :: "'e quad \<Rightarrow> nat \<Rightarrow> 'e quad option" where
  "node_at q i = (if i < length (nodes q) then nodes q ! i else None)"

text \<open>How many levels are left in a quad or below it, for the recursions.\<close>

primrec gap :: "'e quad \<Rightarrow> nat" where
  "gap (Quad l b c me ml es ns) =
     foldr max (map (\<lambda>n. case n of None \<Rightarrow> 0 | Some g \<Rightarrow> g) (map (map_option gap) ns)) (ml - l)"

lemma foldr_max_ge: "(a :: nat) \<le> foldr max xs a" "x \<in> set xs \<Longrightarrow> x \<le> foldr max xs a"
  by (induction xs) (auto simp: le_max_iff_disj)

lemma gap_level: "maxLevel q - level q \<le> gap q"
  by (cases q) (simp add: foldr_max_ge)

lemma gap_child: "node_at q i = Some c \<Longrightarrow> gap c \<le> gap q"
proof (cases q)
  case (Quad l b cs me ml es ns)
  assume "node_at q i = Some c"
  with Quad have "Some c \<in> set ns" by (auto simp: node_at_def split: if_splits) (metis nth_mem)
  then have "gap c \<in> set (map (\<lambda>n. case n of None \<Rightarrow> 0 | Some g \<Rightarrow> g) (map (map_option gap) ns))"
    by force
  with Quad show ?thesis by (simp add: foldr_max_ge(2) del: set_map)
qed

lemma size_child: "node_at q i = Some c \<Longrightarrow> size c < size q"
proof (cases q)
  case (Quad l b cs me ml es ns)
  assume "node_at q i = Some c"
  with Quad have "Some c \<in> set ns" by (auto simp: node_at_def split: if_splits) (metis nth_mem)
  then have "size_option size (Some c) \<le> size_list (size_option size) ns"
    by (rule size_list_estimation') simp
  with Quad show ?thesis by simp
qed

lemma gap_subdivide:
  "level q < maxLevel q \<Longrightarrow> gap (quadSubdivide i q) < gap q"
  using gap_level [of q] by (simp add: quadSubdivide_def quadTree_def or_default_def Let_def)

function quadInsert :: "'e \<Rightarrow> rect \<Rightarrow> 'e quad \<Rightarrow> 'e quad" where
  "quadInsert el sizedPoint q =
     (if level q < maxLevel q then
        let indexes = quadIndexes sizedPoint (corners q)
        in Quad (level q) (qbounds q) (corners q) (maxElements q) (maxLevel q) (elements q)
             (map (\<lambda>i. if i \<in> set indexes
                       then Some (quadInsert el sizedPoint
                                    (case node_at q i of None \<Rightarrow> quadSubdivide i q | Some c \<Rightarrow> c))
                       else node_at q i) [0 ..< 4])
      else Quad (level q) (qbounds q) (corners q) (maxElements q) (maxLevel q) (elements q @ [el])
             (nodes q))"
  by pat_completeness auto
termination
proof (relation "measures [\<lambda>(el, sp, q). gap q, \<lambda>(el, sp, q). size q]")
  show "wf (measures [\<lambda>(el, sp, q). gap q, \<lambda>(el, sp, q). size q])" by simp
  fix el :: 'e and sp and q :: "'e quad" and indexes i
  assume "level q < maxLevel q"
  then show "((el, sp, case node_at q i of None \<Rightarrow> quadSubdivide i q | Some c \<Rightarrow> c), el, sp, q)
      \<in> measures [\<lambda>(el, sp, q). gap q, \<lambda>(el, sp, q). size q]"
    using gap_subdivide [of q i] gap_child [of q i] size_child [of q i]
    by (auto split: option.splits)
qed

declare quadInsert.simps [simp del]

function quadRetrievePoint :: "point \<Rightarrow> 'e quad \<Rightarrow> 'e list" where
  "quadRetrievePoint p q =
     (if level q < maxLevel q then
        (case node_at q (quadIndex p (qbounds q)) of
           None \<Rightarrow> []
         | Some c \<Rightarrow> quadRetrievePoint p c)
      else elements q)"
  by pat_completeness auto
termination by (relation "measure (\<lambda>(p, q). size q)") (auto dest: size_child)

declare quadRetrievePoint.simps [simp del]

text \<open>\<open>els\<close> is an object: the elements found so far, under their ids (\<open>key\<close>).\<close>

definition collect :: "('e \<Rightarrow> string) \<Rightarrow> 'e list \<Rightarrow> 'e obj \<Rightarrow> 'e obj" where
  "collect key es els =
     fold (\<lambda>e els. if \<not> ohas els (key e) then oset (key e) e els else els) es els"

function quadRetrieveArea ::
    "('e \<Rightarrow> string) \<Rightarrow> 'r \<Rightarrow> 'e quad \<Rightarrow> ('r \<Rightarrow> point list list \<Rightarrow> nat list) \<Rightarrow> 'e obj \<Rightarrow> 'e obj" where
  "quadRetrieveArea key rectData q collisionFunc els =
     (if level q < maxLevel q then
        fold (\<lambda>i els. case node_at q i of
                          None \<Rightarrow> els
                        | Some c \<Rightarrow> quadRetrieveArea key rectData c collisionFunc els)
             (collisionFunc rectData (corners q)) els
      else collect key (elements q) els)"
  by pat_completeness auto
termination
  by (relation "measure (\<lambda>(key, r, q, f, els). size q)") (auto dest: size_child)

declare quadRetrieveArea.simps [simp del]

subsection \<open>The quad object\<close>

type_synonym query = "jsnum option list"

record 'e quad_state =
  tree :: "'e quad option"
  cache_query :: "query option"
  cache_result :: "'e list"

definition quad_new :: "'e quad_state" where
  "quad_new = \<lparr>tree = None, cache_query = None, cache_result = []\<rparr>"

record quad_params =
  p_bounds :: "bounds option"
  p_maxElements :: "nat option"
  p_maxLevel :: "nat option"

text \<open>\<open>node_pos\<close> reads the (prefixed) position and size of a node.\<close>

definition quad_index ::
    "('e \<Rightarrow> sized_point) \<Rightarrow> 'e list \<Rightarrow> quad_params \<Rightarrow> 'e quad_state \<Rightarrow> string + 'e quad_state" where
  "quad_index node_pos ns params st =
     (case p_bounds params of
        None \<Rightarrow> Inl ''sigma.classes.quad.index: bounds information not given.''
      | Some b \<Rightarrow>
          let t = quadTree b 0 (p_maxElements params) (p_maxLevel params);
              t = fold (\<lambda>n t. quadInsert n (pointToSquare (node_pos n)) t) ns t
          in Inr (st\<lparr>tree := Some t, cache_query := None, cache_result := []\<rparr>))"

definition quad_point :: "jsnum \<Rightarrow> jsnum \<Rightarrow> 'e quad_state \<Rightarrow> 'e list" where
  "quad_point x y st = (case tree st of None \<Rightarrow> [] | Some t \<Rightarrow> quadRetrievePoint (pt x y) t)"

definition json_num :: "jsnum \<Rightarrow> jsnum option" where
  "json_num v = (if finite_num v then Some v else None)"

definition serialize :: "rect \<Rightarrow> query" where
  "serialize r = map json_num [x1 r, y1 r, x2 r, y2 r, height r]"

definition retrieve_rect :: "('e \<Rightarrow> string) \<Rightarrow> rect \<Rightarrow> 'e quad \<Rightarrow> 'e obj" where
  "retrieve_rect key r t =
     (if isAxisAligned r then quadRetrieveArea key (axisAlignedTopPoints r) t quadIndexes []
      else quadRetrieveArea key (rectangleCorners r) t quadCollision [])"

definition quad_area :: "('e \<Rightarrow> string) \<Rightarrow> rect \<Rightarrow> 'e quad_state \<Rightarrow> 'e list \<times> 'e quad_state" where
  "quad_area key r st =
     (let serialized = serialize r in
      if cache_query st = Some serialized then (cache_result st, st)
      else
        let found = (case tree st of None \<Rightarrow> [] | Some t \<Rightarrow> retrieve_rect key r t);
            nodesArray = map (\<lambda>i. the (oget found i)) (own_keys found)
        in (nodesArray, st\<lparr>cache_query := Some serialized, cache_result := nodesArray\<rparr>))"

subsection \<open>Regions of the plane\<close>

definition fin_pt :: "point \<Rightarrow> bool" where
  "fin_pt p \<longleftrightarrow> finite_num (px p) \<and> finite_num (py p)"

definition in_bounds :: "point \<Rightarrow> bounds \<Rightarrow> bool" where
  "in_bounds p b \<longleftrightarrow> b_x b \<le> px p \<and> px p \<le> b_x b + bwidth b \<and> b_y b \<le> py p \<and> py p \<le> b_y b + bheight b"

definition in_rect :: "rect \<Rightarrow> point \<Rightarrow> bool" where
  "in_rect r p \<longleftrightarrow> x1 r \<le> px p \<and> px p \<le> x2 r \<and> y1 r \<le> py p \<and> py p \<le> y1 r + height r"

text \<open>The four quarters of a square, in the order of the code.\<close>

definition quadrant :: "nat \<Rightarrow> bounds \<Rightarrow> bounds" where
  "quadrant i b =
     \<lparr>b_x = (if i = 0 \<or> i = 2 then b_x b else b_x b + bwidth b / 2),
      b_y = (if i = 0 \<or> i = 1 then b_y b else b_y b + bheight b / 2),
      bwidth = bwidth b / 2, bheight = bheight b / 2\<rparr>"

text \<open>Integral bounds whose sides can be halved \<open>k\<close> times.\<close>

definition aligned :: "nat \<Rightarrow> bounds \<Rightarrow> bool" where
  "aligned k b \<longleftrightarrow>
     (\<exists>i j m n :: int. 0 < m \<and> 0 < n \<and>
        b = \<lparr>b_x = Fin (of_int i), b_y = Fin (of_int j), bwidth = Fin (of_int (2 ^ k * m)),
             bheight = Fin (of_int (2 ^ k * n))\<rparr>)"

lemma alignedE:
  assumes "aligned k b"
  obtains x y w h where "b = \<lparr>b_x = Fin x, b_y = Fin y, bwidth = Fin w, bheight = Fin h\<rparr>" "0 < w" "0 < h"
  using assms by (auto simp: aligned_def)

lemma fin_ptE:
  assumes "fin_pt p"
  obtains a c where "p = pt (Fin a) (Fin c)"
  using assms by (cases p) (auto simp: fin_pt_def finite_num_iff)

lemma js_round_int: "js_round (Fin (of_int i)) = Fin (of_int i)"
  by (simp add: floor_add_int)

lemma aligned_half:
  assumes "aligned (Suc k) b"
  shows "aligned k (quadrant i b)"
    and "qbounds (quadSubdivide i (Quad l b c me ml es ns)) = quadrant i b"
proof -
  from assms obtain x y m n :: int where mn: "0 < m" "0 < n" and
    b: "b = \<lparr>b_x = Fin (of_int x), b_y = Fin (of_int y), bwidth = Fin (of_int (2 ^ Suc k * m)),
         bheight = Fin (of_int (2 ^ Suc k * n))\<rparr>"
    by (auto simp: aligned_def)
  have half: "Fin (of_int (2 ^ Suc k * m)) / 2 = Fin (of_int (2 ^ k * m))" for m
    by (simp add: num_simps)
  define x' y' where "x' = (if i = 0 \<or> i = 2 then x else x + 2 ^ k * m)"
    and "y' = (if i = 0 \<or> i = 1 then y else y + 2 ^ k * n)"
  have q: "quadrant i b = \<lparr>b_x = Fin (of_int x'), b_y = Fin (of_int y'), bwidth = Fin (of_int (2 ^ k * m)),
      bheight = Fin (of_int (2 ^ k * n))\<rparr>"
    unfolding quadrant_def b bounds.simps half x'_def y'_def by simp
  show "aligned k (quadrant i b)" unfolding aligned_def q using mn by blast
  have "js_round (b_x b) = b_x b" "js_round (b_y b) = b_y b" "js_round (bwidth b / 2) = bwidth b / 2"
    "js_round (bheight b / 2) = bheight b / 2"
    by (simp_all only: b bounds.simps half js_round_int)
  then show "qbounds (quadSubdivide i (Quad l b c me ml es ns)) = quadrant i b"
    by (simp add: quadSubdivide_def quadTree_def Let_def quadrant_def)
qed

text \<open>Every point of a square lies in the quarter that \<open>quadIndex\<close> picks.\<close>

lemma quadIndex_quadrant:
  assumes "aligned k b" "fin_pt p" "in_bounds p b"
  shows "quadIndex p b < 4" "in_bounds p (quadrant (quadIndex p b) b)"
proof -
  show "quadIndex p b < 4" by (simp add: quadIndex_def Let_def)
  obtain a c where p: "p = pt (Fin a) (Fin c)" using assms(2) by (rule fin_ptE)
  obtain x y w h where b: "b = \<lparr>b_x = Fin x, b_y = Fin y, bwidth = Fin w, bheight = Fin h\<rparr>" "0 < w" "0 < h"
    using assms(1) by (rule alignedE)
  show "in_bounds p (quadrant (quadIndex p b) b)"
    using assms(3) b(2,3)
    by (simp add: quadIndex_def Let_def in_bounds_def quadrant_def p b(1) num_simps field_simps)
qed

lemma corners_quadrant:
  assumes "i < 4"
  shows "px (splitSquare b ! i ! 0) = b_x (quadrant i b)" "py (splitSquare b ! i ! 0) = b_y (quadrant i b)"
    "i = 0 \<or> i = 2 \<Longrightarrow> px (splitSquare b ! i ! 1) = b_x b + bwidth b / 2"
    "i = 1 \<or> i = 3 \<Longrightarrow> px (splitSquare b ! i ! 1) = b_x b + bwidth b"
    "i = 0 \<or> i = 1 \<Longrightarrow> py (splitSquare b ! i ! 2) = b_y b + bheight b / 2"
    "i = 2 \<or> i = 3 \<Longrightarrow> py (splitSquare b ! i ! 2) = b_y b + bheight b"
  using assms by (auto simp: splitSquare_def quadrant_def less_Suc_eq numeral_2_eq_2 numeral_3_eq_3
      eval_nat_numeral)

lemma less_4: "i < 4 \<longleftrightarrow> i = 0 \<or> i = 1 \<or> i = 2 \<or> i = (3 :: nat)"
  by auto

lemma jsnum_le_trans: "a \<le> b \<Longrightarrow> b \<le> c \<Longrightarrow> a \<le> (c :: jsnum)"
  by (cases a; cases b; cases c) auto

text \<open>A rectangle that shares a point with a quarter is sent to that quarter.\<close>

lemma quadIndexes_complete:
  assumes "aligned k b" "fin_pt p" "in_rect r p" "i < 4" "in_bounds p (quadrant i b)"
  shows "i \<in> set (quadIndexes r (splitSquare b))"
proof -
  obtain x y w h where b: "b = \<lparr>b_x = Fin x, b_y = Fin y, bwidth = Fin w, bheight = Fin h\<rparr>" "0 < w" "0 < h"
    using assms(1) by (rule alignedE)
  obtain a c where p: "p = pt (Fin a) (Fin c)" using assms(2) by (rule fin_ptE)
  have ends: "b_x (quadrant i b) + bwidth (quadrant i b) = px (splitSquare b ! i ! 1)"
    "b_y (quadrant i b) + bheight (quadrant i b) = py (splitSquare b ! i ! 2)"
    using assms(4) by (auto simp: less_4 quadrant_def splitSquare_def b(1) num_simps)
  from assms(3,5) have "x2 r \<ge> px (splitSquare b ! i ! 0)" "x1 r \<le> px (splitSquare b ! i ! 1)"
    "y1 r + height r \<ge> py (splitSquare b ! i ! 0)" "y1 r \<le> py (splitSquare b ! i ! 2)"
    unfolding in_rect_def in_bounds_def corners_quadrant(1,2) [OF assms(4)] ends
    by (auto intro: jsnum_le_trans)
  with assms(4) show ?thesis by (simp add: quadIndexes_def)
qed
subsection \<open>The tree invariant, and where an element is stored\<close>

text \<open>\<open>k\<close> is the number of levels below a quad.\<close>

fun tree_ok :: "nat \<Rightarrow> 'e quad \<Rightarrow> bool" where
  "tree_ok 0 q \<longleftrightarrow> level q = maxLevel q \<and> 0 < maxLevel q"
| "tree_ok (Suc k) q \<longleftrightarrow> level q + Suc k = maxLevel q \<and> corners q = splitSquare (qbounds q) \<and>
     length (nodes q) = 4 \<and>
     (\<forall>i < 4. \<forall>c. node_at q i = Some c \<longrightarrow>
        tree_ok k c \<and> qbounds c = quadrant i (qbounds q) \<and> maxLevel c = maxLevel q)"

fun covers :: "'e \<Rightarrow> point \<Rightarrow> nat \<Rightarrow> 'e quad \<Rightarrow> bool" where
  "covers el p 0 q \<longleftrightarrow> el \<in> set (elements q)"
| "covers el p (Suc k) q \<longleftrightarrow>
     (\<forall>i < 4. in_bounds p (quadrant i (qbounds q)) \<longrightarrow>
        (\<exists>c. node_at q i = Some c \<and> covers el p k c))"

lemma tree_ok_level: "tree_ok k q \<Longrightarrow> level q + k = maxLevel q"
  by (cases k) auto

lemma insert_fields:
  "level (quadInsert el r q) = level q" "qbounds (quadInsert el r q) = qbounds q"
  "maxLevel (quadInsert el r q) = maxLevel q" "corners (quadInsert el r q) = corners q"
  by (subst quadInsert.simps; simp add: Let_def)+

lemma node_at_insert:
  assumes "level q < maxLevel q" "i < 4"
  shows "node_at (quadInsert el r q) i =
    (if i \<in> set (quadIndexes r (corners q))
     then Some (quadInsert el r (case node_at q i of None \<Rightarrow> quadSubdivide i q | Some c \<Rightarrow> c))
     else node_at q i)"
proof -
  have "[0 ..< 4] ! i = i" using assms(2) by simp
  with assms show ?thesis
    by (subst quadInsert.simps) (simp add: node_at_def [of "Quad _ _ _ _ _ _ _"] Let_def cong: if_cong option.case_cong)
qed

lemma nodes_insert:
  "level q < maxLevel q \<Longrightarrow> length (nodes (quadInsert el r q)) = 4"
  by (subst quadInsert.simps) (simp add: Let_def)

lemma subdivide_fields:
  "level (quadSubdivide i q) = level q + 1" "elements (quadSubdivide i q) = []"
  "corners (quadSubdivide i q) = splitSquare (qbounds (quadSubdivide i q))"
  "node_at (quadSubdivide i q) j = None" "length (nodes (quadSubdivide i q)) = 4"
  by (auto simp: quadSubdivide_def quadTree_def Let_def node_at_def nth_Cons split: nat.splits)

lemma subdivide_maxLevel: "0 < maxLevel q \<Longrightarrow> maxLevel (quadSubdivide i q) = maxLevel q"
  by (simp add: quadSubdivide_def quadTree_def Let_def or_default_def)

lemma subdivide_ok:
  assumes "aligned (Suc k) (qbounds q)" "level q + Suc k = maxLevel q"
  shows "tree_ok k (quadSubdivide i q)" "qbounds (quadSubdivide i q) = quadrant i (qbounds q)"
proof -
  obtain l b c me ml es ns where q: "q = Quad l b c me ml es ns" by (cases q)
  from aligned_half(2) [of k b i] assms(1) show "qbounds (quadSubdivide i q) = quadrant i (qbounds q)"
    by (simp add: q)
  from assms(2) show "tree_ok k (quadSubdivide i q)"
    by (cases k) (simp_all add: subdivide_fields subdivide_maxLevel)
qed

lemma insert_ok:
  "tree_ok k q \<Longrightarrow> aligned k (qbounds q) \<Longrightarrow> tree_ok k (quadInsert el r q)"
proof (induction k arbitrary: q)
  case 0
  then show ?case by (simp add: insert_fields)
next
  case (Suc k)
  then have lv: "level q < maxLevel q" by auto
  show ?case
  proof (simp add: insert_fields nodes_insert lv, intro conjI allI impI)
    show "Suc (level q + k) = maxLevel q" "corners q = splitSquare (qbounds q)" using Suc.prems by auto
    fix i c assume i: "i < 4" and c: "node_at (quadInsert el r q) i = Some c"
    let ?d = "case node_at q i of None \<Rightarrow> quadSubdivide i q | Some c \<Rightarrow> c"
    have d: "tree_ok k ?d \<and> qbounds ?d = quadrant i (qbounds q) \<and> maxLevel ?d = maxLevel q"
      using Suc.prems i subdivide_ok [of k q i] subdivide_maxLevel [of q i]
      by (auto split: option.splits)
    moreover have "aligned k (quadrant i (qbounds q))" using Suc.prems(2) by (rule aligned_half(1))
    ultimately have new: "tree_ok k (quadInsert el r ?d)" by (intro Suc.IH) auto
    show "tree_ok k c" "qbounds c = quadrant i (qbounds q)" "maxLevel c = maxLevel q"
      using c i new d Suc.prems by (auto simp: node_at_insert lv insert_fields split: if_splits)
  qed
qed

lemma insert_keeps:
  "tree_ok k q \<Longrightarrow> covers e p k q \<Longrightarrow> covers e p k (quadInsert el r q)"
proof (induction k arbitrary: q)
  case 0
  then show ?case by (subst quadInsert.simps) simp
next
  case (Suc k)
  then have lv: "level q < maxLevel q" by auto
  show ?case
  proof (simp add: insert_fields, intro allI impI)
    fix i :: nat assume i: "i < 4" "in_bounds p (quadrant i (qbounds q))"
    with Suc.prems obtain c where c: "node_at q i = Some c" "covers e p k c" "tree_ok k c"
      by (auto simp del: split_paired_All)
    with Suc.IH [OF c(3,2)] i show "\<exists>c. node_at (quadInsert el r q) i = Some c \<and> covers e p k c"
      by (auto simp: node_at_insert lv)
  qed
qed

lemma insert_covers:
  assumes "fin_pt p" "in_rect r p"
  shows "tree_ok k q \<Longrightarrow> aligned k (qbounds q) \<Longrightarrow> covers el p k (quadInsert el r q)"
proof (induction k arbitrary: q)
  case 0
  then show ?case by (subst quadInsert.simps) simp
next
  case (Suc k)
  then have lv: "level q < maxLevel q" by auto
  show ?case
  proof (simp add: insert_fields, intro allI impI)
    fix i :: nat assume i: "i < 4" "in_bounds p (quadrant i (qbounds q))"
    have hit: "i \<in> set (quadIndexes r (corners q))"
      using quadIndexes_complete [OF Suc.prems(2) assms i] Suc.prems(1) by simp
    let ?d = "case node_at q i of None \<Rightarrow> quadSubdivide i q | Some c \<Rightarrow> c"
    have "tree_ok k ?d \<and> qbounds ?d = quadrant i (qbounds q)"
      using Suc.prems i subdivide_ok [of k q i] by (auto split: option.splits)
    with Suc.IH [of ?d] aligned_half(1) [OF Suc.prems(2), of i]
    have "covers el p k (quadInsert el r ?d)" by simp
    with hit i show "\<exists>c. node_at (quadInsert el r q) i = Some c \<and> covers el p k c"
      by (auto simp: node_at_insert lv)
  qed
qed

lemma retrievePoint_finds:
  assumes "fin_pt p"
  shows "tree_ok k q \<Longrightarrow> aligned k (qbounds q) \<Longrightarrow> in_bounds p (qbounds q) \<Longrightarrow> covers el p k q \<Longrightarrow>
    el \<in> set (quadRetrievePoint p q)"
proof (induction k arbitrary: q)
  case 0
  then show ?case by (subst quadRetrievePoint.simps) simp
next
  case (Suc k)
  note qi = quadIndex_quadrant [OF Suc.prems(2) assms Suc.prems(3)]
  let ?i = "quadIndex p (qbounds q)"
  from Suc.prems(4) qi obtain c where c: "node_at q ?i = Some c" "covers el p k c" by auto
  with Suc.prems(1) qi have "tree_ok k c" "qbounds c = quadrant ?i (qbounds q)" by auto
  with Suc.IH [of c] aligned_half(1) [OF Suc.prems(2), of ?i] qi c
  have "el \<in> set (quadRetrievePoint p c)" by simp
  with c Suc.prems(1) show ?case by (subst quadRetrievePoint.simps) simp
qed

subsection \<open>Area queries: the contract of a collision function\<close>

text \<open>
  \<open>collide\<close> chooses the quarters a query is sent to; it may choose too many, but every quarter
  that shares a point with the \<open>region\<close> of the query must be among them.
\<close>

locale area_query =
  fixes collide :: "'r \<Rightarrow> point list list \<Rightarrow> nat list"
    and region :: "'r \<Rightarrow> point \<Rightarrow> bool"
  assumes complete: "aligned k b \<Longrightarrow> fin_pt p \<Longrightarrow> region r p \<Longrightarrow> i < 4 \<Longrightarrow>
      in_bounds p (quadrant i b) \<Longrightarrow> i \<in> set (collide r (splitSquare b))"
begin

lemma collect_keeps: "ohas els k \<Longrightarrow> ohas (collect key es els) k"
  unfolding collect_def by (induction es arbitrary: els) (auto simp: oget_oset)

lemma collect_adds: "e \<in> set es \<Longrightarrow> ohas (collect key es els) (key e)"
  unfolding collect_def
proof (induction es arbitrary: els)
  case (Cons a es)
  show ?case
  proof (cases "e = a")
    case True
    have "ohas (if \<not> ohas els (key a) then oset (key a) a els else els) (key e)"
      using True by (auto simp: oget_oset)
    from collect_keeps [unfolded collect_def, OF this] show ?thesis by simp
  next
    case False
    with Cons show ?thesis by auto
  qed
qed simp

lemma area_keeps: "ohas els k \<Longrightarrow> ohas (quadRetrieveArea key r q collide els) k"
proof (induction key r q collide els rule: quadRetrieveArea.induct)
  case (1 key r q f els)
  show ?case
  proof (cases "level q < maxLevel q")
    case True
    have "ohas (fold (\<lambda>i els. case node_at q i of None \<Rightarrow> els
        | Some c \<Rightarrow> quadRetrieveArea key r c f els) is els) k"
      if "set is \<subseteq> set (f r (corners q))" "ohas els k" for "is" els
      using that "1.IH" [OF True]
      by (induction "is" arbitrary: els) (auto split: option.splits)
    with True "1.prems" show ?thesis by (subst quadRetrieveArea.simps) simp
  next
    case False
    with "1.prems" collect_keeps show ?thesis by (subst quadRetrieveArea.simps) simp
  qed
qed

lemma area_finds:
  assumes "fin_pt p" "region r p"
  shows "tree_ok k q \<Longrightarrow> aligned k (qbounds q) \<Longrightarrow> in_bounds p (qbounds q) \<Longrightarrow> covers el p k q \<Longrightarrow>
    ohas (quadRetrieveArea key r q collide els) (key el)"
proof (induction k arbitrary: q els)
  case 0
  then show ?case using collect_adds by (subst quadRetrieveArea.simps) simp
next
  case (Suc k)
  note qi = quadIndex_quadrant [OF Suc.prems(2) assms(1) Suc.prems(3)]
  let ?i = "quadIndex p (qbounds q)"
  from Suc.prems(4) qi obtain c where c: "node_at q ?i = Some c" "covers el p k c" by auto
  with Suc.prems(1) qi have c2: "tree_ok k c" "qbounds c = quadrant ?i (qbounds q)" by auto
  have hit: "?i \<in> set (collide r (corners q))"
    using complete [OF Suc.prems(2) assms qi] Suc.prems(1) by simp
  let ?step = "\<lambda>i els. case node_at q i of None \<Rightarrow> els | Some c \<Rightarrow> quadRetrieveArea key r c collide els"
  have found: "ohas (?step ?i els) (key el)" for els
    using Suc.IH [of c els] c c2 aligned_half(1) [OF Suc.prems(2), of ?i] qi by simp
  have keep: "ohas (fold ?step is els) (key el)" if "ohas els (key el)" for "is" els
    using that by (induction "is" arbitrary: els) (auto split: option.splits intro: area_keeps [simplified])
  obtain as bs where "collide r (corners q) = as @ ?i # bs" using hit by (meson split_list)
  with keep [OF found] Suc.prems(1) show ?case
    by (subst quadRetrieveArea.simps) simp
qed

end

interpretation axis_aligned: area_query quadIndexes in_rect
  by unfold_locales (rule quadIndexes_complete)

subsection \<open>Rotated queries: the separating-axis test\<close>

text \<open>The points of a parallelogram given by its corners: top left, top right, lower left, lower right.\<close>

definition in_hull :: "point list \<Rightarrow> point \<Rightarrow> bool" where
  "in_hull cs p \<longleftrightarrow>
     (\<exists>ax ay ux uy vx vy s t. (ux, uy) \<noteq> (0, 0) \<and> (vx, vy) \<noteq> (0, 0) \<and>
        0 \<le> s \<and> s \<le> 1 \<and> 0 \<le> t \<and> t \<le> 1 \<and>
        cs = [pt (Fin ax) (Fin ay), pt (Fin (ax + ux)) (Fin (ay + uy)),
              pt (Fin (ax + vx)) (Fin (ay + vy)), pt (Fin (ax + ux + vx)) (Fin (ay + uy + vy))] \<and>
        p = pt (Fin (ax + s * ux + t * vx)) (Fin (ay + s * uy + t * vy)))"

lemma in_hullE:
  assumes "in_hull cs p"
  obtains ax ay ux uy vx vy s t where "(ux, uy) \<noteq> (0, 0)" "(vx, vy) \<noteq> (0, 0)"
    "0 \<le> s" "s \<le> 1" "0 \<le> t" "t \<le> 1"
    "cs = [pt (Fin ax) (Fin ay), pt (Fin (ax + ux)) (Fin (ay + uy)),
       pt (Fin (ax + vx)) (Fin (ay + vy)), pt (Fin (ax + ux + vx)) (Fin (ay + uy + vy))]"
    "p = pt (Fin (ax + s * ux + t * vx)) (Fin (ay + s * uy + t * vy))"
  using assms unfolding in_hull_def by blast

definition along :: "real \<Rightarrow> real \<Rightarrow> point \<Rightarrow> real" where
  "along u v c = real_of (px c) * u + real_of (py c) * v"

lemma projection_along:
  assumes "(u, v) \<noteq> (0, 0)" "fin_pt c"
  shows "(let p = projection c (pt (Fin u) (Fin v)) in px p * Fin u + py p * Fin v) = Fin (along u v c)"
proof -
  obtain a b where c: "c = pt (Fin a) (Fin b)" using assms(2) by (rule fin_ptE)
  have nz: "u\<^sup>2 + v\<^sup>2 \<noteq> 0" using assms(1) by (simp add: sum_power2_eq_zero_iff)
  have "q * u * u + q * v * v = q * (u\<^sup>2 + v\<^sup>2)" for q
    by (simp add: power2_eq_square algebra_simps)
  then have "(a * u + b * v) / (u\<^sup>2 + v\<^sup>2) * u * u + (a * u + b * v) / (u\<^sup>2 + v\<^sup>2) * v * v =
      (a * u + b * v) / (u\<^sup>2 + v\<^sup>2) * (u\<^sup>2 + v\<^sup>2)" .
  also have "\<dots> = a * u + b * v" using nz by simp
  finally have "(a * u + b * v) / (u\<^sup>2 + v\<^sup>2) * u * u + (a * u + b * v) / (u\<^sup>2 + v\<^sup>2) * v * v = a * u + b * v" .
  then show ?thesis using nz by (auto simp: projection_def Let_def c num_simps along_def)
qed

lemma fold_max_Fin: "fold js_max (map Fin xs) (Fin a) = Fin (fold max xs a)"
  by (induction xs arbitrary: a) (simp_all add: js_max_Fin max.commute)

lemma fold_min_Fin: "fold js_min (map Fin xs) (Fin a) = Fin (fold min xs a)"
  by (induction xs arbitrary: a) (simp_all add: js_min_Fin min.commute)

lemma fold_max_ge: "(a :: real) \<le> fold max xs a"
  by (induction xs arbitrary: a) (auto intro: order_trans [OF max.cobounded2])

lemma fold_max_bounds: "(a :: real) \<le> fold max xs a" "x \<in> set xs \<Longrightarrow> x \<le> fold max xs a"
  by (rule fold_max_ge, induction xs arbitrary: a)
     (auto intro: order_trans [OF max.cobounded1 fold_max_ge])

lemma fold_min_le: "fold min xs a \<le> (a :: real)"
  by (induction xs arbitrary: a) (auto intro: order_trans [OF _ min.cobounded2])

lemma fold_min_bounds: "fold min xs a \<le> (a :: real)" "x \<in> set xs \<Longrightarrow> fold min xs a \<le> x"
  by (rule fold_min_le, induction xs arbitrary: a)
     (auto intro: order_trans [OF fold_min_le min.cobounded1])

lemma axisCollision_shared:
  assumes "(u, v) \<noteq> (0, 0)" "length c1 = 4" "length c2 = 4" "\<forall>c \<in> set c1 \<union> set c2. fin_pt c"
    and "c \<in> set c1" "x \<le> along u v c" "c' \<in> set c1" "along u v c' \<le> x"
    and "d \<in> set c2" "x \<le> along u v d" "d' \<in> set c2" "along u v d' \<le> x"
  shows "axisCollision (pt (Fin u) (Fin v)) c1 c2"
proof -
  let ?f = "along u v"
  have sc: "map (\<lambda>i. let p = projection (cs ! i) (pt (Fin u) (Fin v)) in px p * Fin u + py p * Fin v) [0 ..< 4]
      = map Fin (map ?f cs)" if "length cs = 4" "\<forall>c \<in> set cs. fin_pt c" for cs
    by (rule nth_equalityI) (use that projection_along [OF assms(1)] in auto)
  have fold: "fold js_max (map Fin xs) NInf = Fin (fold max (tl xs) (hd xs))"
    "fold js_min (map Fin xs) PInf = Fin (fold min (tl xs) (hd xs))" if "xs \<noteq> []" for xs
    using that by (cases xs; simp add: fold_max_Fin fold_min_Fin)+
  have bnd: "?f e \<le> fold max (tl (map ?f cs)) (hd (map ?f cs))"
    "fold min (tl (map ?f cs)) (hd (map ?f cs)) \<le> ?f e" if "e \<in> set cs" for e cs
    using that by (cases cs; auto simp: fold_max_bounds fold_min_bounds)+
  have ne: "map ?f c1 \<noteq> []" "map ?f c2 \<noteq> []" using assms(2,3) by auto
  show ?thesis
    unfolding axisCollision_def point.simps sc [OF assms(2)] sc [OF assms(3)] Let_def [of "map _ _"]
    using assms(4) sc [OF assms(2)] sc [OF assms(3)] fold [OF ne(1)] fold [OF ne(2)]
      bnd [OF assms(5)] bnd [OF assms(7)] bnd [OF assms(9)] bnd [OF assms(11)] assms(6,8,10,12)
    by (simp add: Let_def)
qed

text \<open>A point of a parallelogram lies between two of its corners along any direction.\<close>

lemma scale_between:
  fixes s g :: real
  assumes "0 \<le> s" "s \<le> 1"
  shows "min 0 g \<le> s * g" "s * g \<le> max 0 g"
proof -
  have "0 \<le> g \<Longrightarrow> 0 \<le> s * g \<and> 0 \<le> (1 - s) * g" "g \<le> 0 \<Longrightarrow> s * g \<le> 0 \<and> (1 - s) * g \<le> 0"
    using assms by (auto intro: mult_nonneg_nonneg mult_nonneg_nonpos)
  then show "min 0 g \<le> s * g" "s * g \<le> max 0 g"
    by (auto simp: min_def max_def left_diff_distrib)
qed

lemma bilinear_between:
  fixes f g h s t :: real
  assumes "0 \<le> s" "s \<le> 1" "0 \<le> t" "t \<le> 1"
  shows "f + s * g + t * h \<le> max (max f (f + g)) (max (f + h) (f + g + h))"
    and "min (min f (f + g)) (min (f + h) (f + g + h)) \<le> f + s * g + t * h"
proof -
  have "f + a + b \<le> max (max f (f + g)) (max (f + h) (f + g + h)) \<and>
      min (min f (f + g)) (min (f + h) (f + g + h)) \<le> f + a + b"
    if "min 0 g \<le> a" "a \<le> max 0 g" "min 0 h \<le> b" "b \<le> max 0 h" for a b
    using that by (auto simp: max_def min_def split: if_splits)
  from this [OF scale_between [OF assms(1,2)] scale_between [OF assms(3,4)]]
  show "f + s * g + t * h \<le> max (max f (f + g)) (max (f + h) (f + g + h))"
    and "min (min f (f + g)) (min (f + h) (f + g + h)) \<le> f + s * g + t * h" by simp_all
qed
lemma hull_points:
  assumes "in_hull cs p"
  shows "length cs = 4" "\<forall>c \<in> set cs. fin_pt c"
    "\<exists>c \<in> set cs. along u v p \<le> along u v c" "\<exists>c \<in> set cs. along u v c \<le> along u v p"
proof -
  obtain ax ay ux uy vx vy s t where st: "0 \<le> s" "s \<le> 1" "0 \<le> t" "t \<le> 1"
    and cs: "cs = [pt (Fin ax) (Fin ay), pt (Fin (ax + ux)) (Fin (ay + uy)),
       pt (Fin (ax + vx)) (Fin (ay + vy)), pt (Fin (ax + ux + vx)) (Fin (ay + uy + vy))]"
    and p: "p = pt (Fin (ax + s * ux + t * vx)) (Fin (ay + s * uy + t * vy))"
    using assms by (rule in_hullE)
  show "length cs = 4" "\<forall>c \<in> set cs. fin_pt c" by (simp_all add: cs fin_pt_def)
  have A: "along u v p = along u v (cs ! 0) + s * (ux * u + uy * v) + t * (vx * u + vy * v)"
    "along u v (cs ! 1) = along u v (cs ! 0) + (ux * u + uy * v)"
    "along u v (cs ! 2) = along u v (cs ! 0) + (vx * u + vy * v)"
    "along u v (cs ! 3) = along u v (cs ! 0) + (ux * u + uy * v) + (vx * u + vy * v)"
    by (simp_all add: along_def cs p algebra_simps)
  note B = bilinear_between [OF st, of "along u v (cs ! 0)" "ux * u + uy * v" "vx * u + vy * v",
      folded A]
  have mem: "cs ! 0 \<in> set cs" "cs ! 1 \<in> set cs" "cs ! 2 \<in> set cs" "cs ! 3 \<in> set cs" by (simp_all add: cs)
  from B mem show "\<exists>c \<in> set cs. along u v p \<le> along u v c" "\<exists>c \<in> set cs. along u v c \<le> along u v p"
    unfolding le_max_iff_disj min_le_iff_disj by blast+
qed

lemma collision_shared:
  assumes "in_hull c1 p" "in_hull c2 p"
  shows "collision c1 c2"
proof -
  have one: "axisCollision (pt (Fin u) (Fin v)) c1 c2" if "(u, v) \<noteq> (0, 0)" for u v
  proof -
    obtain c c' where c: "c \<in> set c1" "along u v p \<le> along u v c" "c' \<in> set c1" "along u v c' \<le> along u v p"
      using hull_points(3,4) [OF assms(1)] by blast
    obtain d d' where d: "d \<in> set c2" "along u v p \<le> along u v d" "d' \<in> set c2" "along u v d' \<le> along u v p"
      using hull_points(3,4) [OF assms(2)] by blast
    show ?thesis
      by (rule axisCollision_shared [OF that hull_points(1) [OF assms(1)] hull_points(1) [OF assms(2)] _ c d])
        (use hull_points(2) [OF assms(1)] hull_points(2) [OF assms(2)] in auto)
  qed
  obtain ax ay ux uy vx vy where n1: "(ux, uy) \<noteq> (0, 0)" "(vx, vy) \<noteq> (0, 0)"
    and c1: "c1 = [pt (Fin ax) (Fin ay), pt (Fin (ax + ux)) (Fin (ay + uy)),
       pt (Fin (ax + vx)) (Fin (ay + vy)), pt (Fin (ax + ux + vx)) (Fin (ay + uy + vy))]"
    using assms(1) by (rule in_hullE)
  obtain bx by' wx wy zx zy where n2: "(wx, wy) \<noteq> (0, 0)" "(zx, zy) \<noteq> (0, 0)"
    and c2: "c2 = [pt (Fin bx) (Fin by'), pt (Fin (bx + wx)) (Fin (by' + wy)),
       pt (Fin (bx + zx)) (Fin (by' + zy)), pt (Fin (bx + wx + zx)) (Fin (by' + wy + zy))]"
    using assms(2) by (rule in_hullE)
  have "axis4 c1 c2 = [pt (Fin ux) (Fin uy), pt (Fin (- vx)) (Fin (- vy)), pt (Fin (- zx)) (Fin (- zy)),
      pt (Fin (- wx)) (Fin (- wy))]"
    by (simp add: axis4_def c1 c2 num_simps)
  moreover have "(- vx, - vy) \<noteq> (0, 0)" "(- zx, - zy) \<noteq> (0, 0)" "(- wx, - wy) \<noteq> (0, 0)"
    using n1 n2 by auto
  ultimately show ?thesis using one n1(1) by (simp add: collision_def)
qed

lemma quadrant_hull:
  assumes "aligned k b" "fin_pt p" "i < 4" "in_bounds p (quadrant i b)"
  shows "in_hull (splitSquare b ! i) p"
proof -
  obtain x y w h where b: "b = \<lparr>b_x = Fin x, b_y = Fin y, bwidth = Fin w, bheight = Fin h\<rparr>" "0 < w" "0 < h"
    using assms(1) by (rule alignedE)
  obtain a c where p: "p = pt (Fin a) (Fin c)" using assms(2) by (rule fin_ptE)
  define qx qy where "qx = (if i = 0 \<or> i = 2 then x else x + w / 2)"
    and "qy = (if i = 0 \<or> i = 1 then y else y + h / 2)"
  have cs: "splitSquare b ! i = [pt (Fin qx) (Fin qy), pt (Fin (qx + w / 2)) (Fin (qy + 0)),
      pt (Fin (qx + 0)) (Fin (qy + h / 2)), pt (Fin (qx + w / 2 + 0)) (Fin (qy + 0 + h / 2))]"
    using assms(3) by (auto simp: less_4 splitSquare_def b(1) num_simps qx_def qy_def)
  have q: "qx \<le> a" "a \<le> qx + w / 2" "qy \<le> c" "c \<le> qy + h / 2"
    using assms(4) by (auto simp: in_bounds_def quadrant_def b(1) p num_simps qx_def qy_def split: if_splits)
  define s t where "s = (a - qx) / (w / 2)" and "t = (c - qy) / (h / 2)"
  have "0 \<le> s" "s \<le> 1" "0 \<le> t" "t \<le> 1" using q b(2,3) by (simp_all add: s_def t_def field_simps)
  moreover have "a = qx + s * (w / 2) + t * 0" "c = qy + s * 0 + t * (h / 2)"
    using b(2,3) by (simp_all add: s_def t_def field_simps)
  moreover have "(w / 2, 0) \<noteq> (0, 0)" "(0, h / 2) \<noteq> (0, 0 :: real)" using b by simp_all
  ultimately show ?thesis unfolding in_hull_def cs p by blast
qed

interpretation rotated: area_query quadCollision in_hull
proof
  fix k b p r i
  assume "aligned k b" "fin_pt p" "in_hull r p" "(i :: nat) < 4" "in_bounds p (quadrant i b)"
  then show "i \<in> set (quadCollision r (splitSquare b))"
    using collision_shared [OF _ quadrant_hull] by (auto simp: quadCollision_def)
qed

text \<open>The region of a rectangle that is not axis aligned.\<close>

lemma rectangleCorners_hull:
  fixes a1 b1 a2 b2 h s t :: real
  defines "w \<equiv> sqrt ((a2 - a1)\<^sup>2 + (b2 - b1)\<^sup>2)"
  assumes "(a1, b1) \<noteq> (a2, b2)" "h \<noteq> 0" "0 \<le> s" "s \<le> 1" "0 \<le> t" "t \<le> 1"
  shows "in_hull (rectangleCorners \<lparr>x1 = Fin a1, y1 = Fin b1, x2 = Fin a2, y2 = Fin b2, height = Fin h\<rparr>)
    (pt (Fin (a1 + s * (a2 - a1) + t * (- (b2 - b1) * h / w)))
        (Fin (b1 + s * (b2 - b1) + t * ((a2 - a1) * h / w))))"
proof -
  have w: "0 < w" using assms(2) by (auto simp: w_def sum_power2_gt_zero_iff)
  have js: "js_sqrt (Fin ((a2 - a1)\<^sup>2 + (b2 - b1)\<^sup>2)) = Fin w" by (simp add: w_def js_sqrt_nonneg)
  let ?vx = "- (b2 - b1) * h / w" and ?vy = "(a2 - a1) * h / w"
  have cs: "rectangleCorners \<lparr>x1 = Fin a1, y1 = Fin b1, x2 = Fin a2, y2 = Fin b2, height = Fin h\<rparr> =
     [pt (Fin a1) (Fin b1), pt (Fin (a1 + (a2 - a1))) (Fin (b1 + (b2 - b1))),
      pt (Fin (a1 + ?vx)) (Fin (b1 + ?vy)), pt (Fin (a1 + (a2 - a1) + ?vx)) (Fin (b1 + (b2 - b1) + ?vy))]"
    using w by (simp add: rectangleCorners_def lowerLeftCoor_def lowerRightCoor_def Let_def num_simps js
        del: js_sqrt.simps) (simp add: field_simps)
  have "(a2 - a1, b2 - b1) \<noteq> (0, 0)" "(?vx, ?vy) \<noteq> (0, 0)" using assms(2,3) w by auto
  with assms(4-7) show ?thesis unfolding in_hull_def cs by blast
qed

subsection \<open>Soundness: only stored elements are returned, each id once\<close>

lemma child_elements: "node_at q i = Some c \<Longrightarrow> set_quad c \<subseteq> set_quad q"
proof (cases q)
  case (Quad l b cs me ml es ns)
  assume "node_at q i = Some c"
  with Quad have "Some c \<in> set ns" by (auto simp: node_at_def split: if_splits) (metis nth_mem)
  with Quad show ?thesis by auto
qed

lemma leaf_elements: "set (elements q) \<subseteq> set_quad q"
  by (cases q) auto

lemma subdivide_empty: "set_quad (quadSubdivide i q) = {}" "set_quad (quadTree b l me ml) = {}"
  by (simp_all add: quadSubdivide_def quadTree_def Let_def)

lemma insert_elements: "set_quad (quadInsert el r q) \<subseteq> insert el (set_quad q)"
proof (induction el r q rule: quadInsert.induct)
  case (1 el r q)
  show ?case
  proof (cases "level q < maxLevel q")
    case True
    have "set_option o' \<subseteq> {}" if "o' = None" for o' :: "'a quad option" using that by simp
    have new: "set_quad (quadInsert el r (case node_at q i of None \<Rightarrow> quadSubdivide i q | Some c \<Rightarrow> c))
        \<subseteq> insert el (set_quad q)" if "i \<in> set (quadIndexes r (corners q))" "i < 4" for i
      using "1.IH" [OF True refl, of i] that child_elements [of q i] subdivide_empty(1) [of i q]
      by (auto split: option.splits)
    show ?thesis
      using True new child_elements leaf_elements [of q]
      by (subst quadInsert.simps) (fastforce simp: Let_def split: if_splits)
  next
    case False
    then show ?thesis by (subst quadInsert.simps) (cases q, auto)
  qed
qed

lemma retrievePoint_sound: "set (quadRetrievePoint p q) \<subseteq> set_quad q"
proof (induction p q rule: quadRetrievePoint.induct)
  case (1 p q)
  show ?case
  proof (cases "level q < maxLevel q")
    case True
    show ?thesis
    proof (cases "node_at q (quadIndex p (qbounds q))")
      case None
      with True show ?thesis by (subst quadRetrievePoint.simps) simp
    next
      case (Some c)
      with True "1.IH" [OF True Some] child_elements [OF Some] show ?thesis
        by (subst quadRetrievePoint.simps) auto
    qed
  next
    case False
    with leaf_elements [of q] show ?thesis by (subst quadRetrievePoint.simps) simp
  qed
qed

text \<open>The object of the results: every element under its own id.\<close>

definition found_ok :: "('e \<Rightarrow> string) \<Rightarrow> 'e set \<Rightarrow> 'e obj \<Rightarrow> bool" where
  "found_ok key S els \<longleftrightarrow> owf els \<and> (\<forall>k e. oget els k = Some e \<longrightarrow> key e = k \<and> e \<in> S)"

lemma found_ok_set: "found_ok key S els \<Longrightarrow> e \<in> S \<Longrightarrow> found_ok key S (oset (key e) e els)"
  unfolding found_ok_def by (auto simp: oget_oset simp del: map_of_eq_Some_iff split: if_splits)

lemma found_ok_collect:
  "set es \<subseteq> S \<Longrightarrow> found_ok key S els \<Longrightarrow> found_ok key S (collect key es els)"
  unfolding collect_def
proof (induction es arbitrary: els)
  case (Cons e es)
  have "found_ok key S (if \<not> ohas els (key e) then oset (key e) e els else els)"
    using Cons.prems by (simp add: found_ok_set)
  with Cons show ?case by simp
qed simp

lemma found_ok_area:
  "set_quad q \<subseteq> S \<Longrightarrow> found_ok key S els \<Longrightarrow> found_ok key S (quadRetrieveArea key r q f els)"
proof (induction key r q f els rule: quadRetrieveArea.induct)
  case (1 key r q f els)
  show ?case
  proof (cases "level q < maxLevel q")
    case True
    have "found_ok key S (fold (\<lambda>i els. case node_at q i of None \<Rightarrow> els
        | Some c \<Rightarrow> quadRetrieveArea key r c f els) is els)"
      if "set is \<subseteq> set (f r (corners q))" "found_ok key S els" for "is" els
      using that
    proof (induction "is" arbitrary: els)
      case (Cons i "is")
      show ?case
      proof (cases "node_at q i")
        case (Some c)
        have "set_quad c \<subseteq> S" using child_elements [OF Some] "1.prems"(1) by blast
        with "1.IH" [OF True _ Some] Cons.prems have "found_ok key S (quadRetrieveArea key r c f els)"
          by simp
        with Cons Some show ?thesis by simp
      qed (use Cons in simp)
    qed simp
    with True "1.prems" show ?thesis by (subst quadRetrieveArea.simps) simp
  next
    case False
    with "1.prems" leaf_elements [of q] found_ok_collect [of "elements q" S key els] show ?thesis
      by (subst quadRetrieveArea.simps) auto
  qed
qed

lemma found_list:
  assumes "found_ok key S els"
  shows "map key (map (\<lambda>i. the (oget els i)) (own_keys els)) = own_keys els"
    and "set (map (\<lambda>i. the (oget els i)) (own_keys els)) \<subseteq> S"
    and "distinct (own_keys els)"
proof -
  have some: "\<exists>e. oget els i = Some e \<and> key e = i \<and> e \<in> S" if "i \<in> set (own_keys els)" for i
  proof -
    from that have "oget els i \<noteq> None" by (simp add: oget_None_iff)
    with assms show ?thesis by (auto simp: found_ok_def)
  qed
  show "map key (map (\<lambda>i. the (oget els i)) (own_keys els)) = own_keys els"
    unfolding map_map by (rule map_idI) (use some in fastforce)
  show "set (map (\<lambda>i. the (oget els i)) (own_keys els)) \<subseteq> S"
    using some by fastforce
  show "distinct (own_keys els)" using assms by (simp add: found_ok_def distinct_own_keys)
qed

subsection \<open>The quad object: indexing, queries and the cache\<close>

lemma index_elements:
  assumes "quad_index node_pos ns params st = Inr st'"
  obtains t where "tree st' = Some t" "set_quad t \<subseteq> set ns" "cache_query st' = None"
proof -
  let ?ins = "\<lambda>n t. quadInsert n (pointToSquare (node_pos n)) t"
  have step: "set_quad (fold ?ins xs t) \<subseteq> set xs \<union> set_quad t" for xs and t :: "'a quad"
  proof (induction xs arbitrary: t)
    case (Cons x xs)
    show ?case
      using Cons.IH [of "?ins x t"] insert_elements [of x "pointToSquare (node_pos x)" t] by auto
  qed simp
  obtain b where "p_bounds params = Some b"
    using assms by (cases "p_bounds params") (simp_all add: quad_index_def)
  with assms have "st' = st\<lparr>tree := Some (fold ?ins ns (quadTree b 0 (p_maxElements params) (p_maxLevel params))),
      cache_query := None, cache_result := []\<rparr>"
    by (simp add: quad_index_def Let_def)
  then show thesis using that step [of ns "quadTree b 0 _ _"] by (simp add: subdivide_empty)
qed

lemma index_tree:
  assumes "quad_index node_pos ns params st = Inr st'" "p_bounds params = Some b"
    and "aligned (or_default (p_maxLevel params) 4) b"
  obtains t where "tree st' = Some t" "tree_ok (or_default (p_maxLevel params) 4) t" "qbounds t = b"
    "set_quad t \<subseteq> set ns" "cache_query st' = None"
    "\<And>el p. el \<in> set ns \<Longrightarrow> fin_pt p \<Longrightarrow> in_rect (pointToSquare (node_pos el)) p \<Longrightarrow>
      covers el p (or_default (p_maxLevel params) 4) t"
proof -
  let ?k = "or_default (p_maxLevel params) 4"
  let ?t0 = "quadTree b 0 (p_maxElements params) (p_maxLevel params)"
  let ?ins = "\<lambda>n t. quadInsert n (pointToSquare (node_pos n)) t"
  have k: "0 < ?k" by (auto simp: or_default_def split: option.splits)
  then obtain k where k': "?k = Suc k" by (cases ?k) auto
  have t0: "tree_ok ?k ?t0" "qbounds ?t0 = b"
    unfolding k' by (auto simp: quadTree_def k' node_at_def nth_Cons split: nat.splits)
  have step: "tree_ok ?k (fold ?ins xs t) \<and> qbounds (fold ?ins xs t) = b \<and>
      set_quad (fold ?ins xs t) \<subseteq> set xs \<union> set_quad t \<and>
      (\<forall>el p. covers el p ?k t \<longrightarrow> covers el p ?k (fold ?ins xs t)) \<and>
      (\<forall>el p. el \<in> set xs \<and> fin_pt p \<and> in_rect (pointToSquare (node_pos el)) p \<longrightarrow>
        covers el p ?k (fold ?ins xs t))"
    if "tree_ok ?k t" "qbounds t = b" for xs and t :: "'a quad"
    using that
  proof (induction xs arbitrary: t)
    case (Cons x xs)
    have al: "aligned ?k (qbounds t)" using Cons.prems assms(3) by simp
    have 1: "tree_ok ?k (?ins x t)" "qbounds (?ins x t) = b"
      using insert_ok [OF Cons.prems(1) al] Cons.prems(2) by (simp_all add: insert_fields)
    have 2: "covers el p ?k (?ins x t)" if "covers el p ?k t" for el p
      using insert_keeps [OF Cons.prems(1) that] .
    have 3: "covers x p ?k (?ins x t)" if "fin_pt p" "in_rect (pointToSquare (node_pos x)) p" for p
      using insert_covers [OF that Cons.prems(1) al] .
    show ?case
      using Cons.IH [OF 1] 2 3 insert_elements [of x "pointToSquare (node_pos x)" t] by auto
  qed simp
  have st': "st' = st\<lparr>tree := Some (fold ?ins ns ?t0), cache_query := None, cache_result := []\<rparr>"
    using assms(1,2) by (simp add: quad_index_def Let_def)
  show ?thesis
    by (rule that [of "fold ?ins ns ?t0"])
      (use step [OF t0, of ns] in \<open>simp_all add: st' subdivide_empty\<close>)
qed

definition rect_region :: "rect \<Rightarrow> point \<Rightarrow> bool" where
  "rect_region r p =
     (if isAxisAligned r then in_rect (axisAlignedTopPoints r) p else in_hull (rectangleCorners r) p)"

lemma retrieve_finds:
  assumes "tree_ok k t" "aligned k (qbounds t)" "fin_pt p" "in_bounds p (qbounds t)" "covers el p k t"
    and "rect_region r p"
  shows "ohas (retrieve_rect key r t) (key el)"
proof (cases "isAxisAligned r")
  case True
  then show ?thesis
    using axis_aligned.area_finds [OF assms(3) _ assms(1,2,4,5)] assms(6)
    by (simp only: retrieve_rect_def rect_region_def if_True) simp
next
  case False
  then show ?thesis
    using rotated.area_finds [OF assms(3) _ assms(1,2,4,5)] assms(6)
    by (simp only: retrieve_rect_def rect_region_def if_False) simp
qed

lemma retrieve_ok: "set_quad t \<subseteq> S \<Longrightarrow> found_ok key S (retrieve_rect key r t)"
  unfolding retrieve_rect_def by (auto intro!: found_ok_area) (simp_all add: found_ok_def)

text \<open>What a query answers when nothing is cached, and the invariant of the cache.\<close>

definition fresh_area :: "('e \<Rightarrow> string) \<Rightarrow> rect \<Rightarrow> 'e quad option \<Rightarrow> 'e list" where
  "fresh_area key r t =
     (let found = (case t of None \<Rightarrow> [] | Some t \<Rightarrow> retrieve_rect key r t)
      in map (\<lambda>i. the (oget found i)) (own_keys found))"

definition fin_rect :: "rect \<Rightarrow> bool" where
  "fin_rect r \<longleftrightarrow> finite_num (x1 r) \<and> finite_num (y1 r) \<and> finite_num (x2 r) \<and> finite_num (y2 r) \<and>
     finite_num (height r)"

definition cache_ok :: "('e \<Rightarrow> string) \<Rightarrow> 'e quad_state \<Rightarrow> bool" where
  "cache_ok key st \<longleftrightarrow>
     (\<forall>s. cache_query st = Some s \<longrightarrow>
        (\<exists>r. fin_rect r \<and> s = serialize r \<and> cache_result st = fresh_area key r (tree st)))"

lemma serialize_inj:
  assumes "fin_rect r" "fin_rect r'" "serialize r = serialize r'"
  shows "r = (r' :: rect)"
proof -
  have S: "serialize s = map Some [x1 s, y1 s, x2 s, y2 s, height s]" if "fin_rect s" for s :: rect
    using that by (simp only: serialize_def json_num_def fin_rect_def if_True list.map)
  from assms(3) have "x1 r = x1 r' \<and> y1 r = y1 r' \<and> x2 r = x2 r' \<and> y2 r = y2 r' \<and> height r = height r'"
    unfolding S [OF assms(1)] S [OF assms(2)] by simp
  then show ?thesis by (intro rect.equality) simp_all
qed

lemma area_cache:
  assumes "cache_ok key st" "fin_rect r" "quad_area key r st = (res, st')"
  shows "res = fresh_area key r (tree st)" "cache_ok key st'" "tree st' = tree st"
proof -
  have "res = fresh_area key r (tree st) \<and> cache_ok key st' \<and> tree st' = tree st"
  proof (cases "cache_query st = Some (serialize r)")
    case True
    with assms(1) obtain r0 where r0: "fin_rect r0" "serialize r = serialize r0"
      "cache_result st = fresh_area key r0 (tree st)" by (auto simp: cache_ok_def)
    have "r = r0" by (rule serialize_inj [OF assms(2) r0(1,2)])
    with True r0(3) assms(1,3) show ?thesis
      by (auto simp: quad_area_def)
  next
    case False
    then have "quad_area key r st = (fresh_area key r (tree st),
        st\<lparr>cache_query := Some (serialize r), cache_result := fresh_area key r (tree st)\<rparr>)"
      by (simp only: quad_area_def Let_def fresh_area_def if_False)
    with assms show ?thesis by (auto simp: cache_ok_def)
  qed
  then show "res = fresh_area key r (tree st)" "cache_ok key st'" "tree st' = tree st" by auto
qed

fun area_all :: "('e \<Rightarrow> string) \<Rightarrow> rect list \<Rightarrow> 'e quad_state \<Rightarrow> 'e list list \<times> 'e quad_state" where
  "area_all key [] st = ([], st)"
| "area_all key (r # rs) st =
     (let (a, st1) = quad_area key r st; (as, st2) = area_all key rs st1 in (a # as, st2))"

lemma area_all_fresh:
  "cache_ok key st \<Longrightarrow> \<forall>r \<in> set rs. fin_rect r \<Longrightarrow>
     fst (area_all key rs st) = map (\<lambda>r. fresh_area key r (tree st)) rs"
proof (induction rs arbitrary: st)
  case (Cons r rs)
  obtain a st1 where a: "quad_area key r st = (a, st1)" by fastforce
  have "fin_rect r" using Cons.prems by simp
  note A = area_cache [OF Cons.prems(1) this a]
  from Cons.IH [OF A(2)] Cons.prems A(1,3) a show ?case by (simp add: case_prod_beta Let_def)
qed simp

lemma area_finds_node:
  assumes "quad_index node_pos ns params st = Inr st'" "p_bounds params = Some b"
    and "aligned (or_default (p_maxLevel params) 4) b"
    and "n \<in> set ns" "fin_pt p" "in_bounds p b" "in_rect (pointToSquare (node_pos n)) p" "rect_region r p"
  shows "\<exists>e \<in> set (fst (quad_area key r st')). key e = key n"
proof -
  obtain t where t: "tree st' = Some t" "tree_ok (or_default (p_maxLevel params) 4) t" "qbounds t = b"
    "cache_query st' = None" "covers n p (or_default (p_maxLevel params) 4) t"
    by (rule index_tree [OF assms(1-3)]) (use assms(4,5,7) in blast)
  have has: "ohas (retrieve_rect key r t) (key n)"
    using retrieve_finds [OF t(2) _ assms(5) _ t(5) assms(8)] t(3) assms(3,6) by simp
  have res: "fst (quad_area key r st') = fresh_area key r (Some t)"
    by (simp add: quad_area_def fresh_area_def Let_def t)
  have "map key (fresh_area key r (Some t)) = own_keys (retrieve_rect key r t)"
    unfolding fresh_area_def Let_def option.case
    by (rule found_list(1) [OF retrieve_ok [OF subset_refl]])
  then have "key n \<in> set (map key (fresh_area key r (Some t)))"
    using has by (simp only: set_own_keys ohas_iff set_map)
  then show ?thesis unfolding res by auto
qed

subsection \<open>The properties of the quadtree\<close>

text \<open>C36: area queries are complete when the bounds are integral and their sides are multiples of two to the
  power \<open>maxLevel\<close> (4 unless given), so that the tree can halve them down to its leaves: every indexed
  node whose square shares a point (within the bounds) with the queried rectangle, axis aligned or
  rotated, is among the results (under its id).  Other bounds can lose nodes
  (\<open>unaligned_bounds_lose_node\<close>).\<close>

theorem quad_area_complete:
  assumes "quad_index node_pos ns params st = Inr st'" "p_bounds params = Some b"
    and "aligned (or_default (p_maxLevel params) 4) b"
    and "n \<in> set ns" "fin_pt p" "in_bounds p b" "in_rect (pointToSquare (node_pos n)) p" "rect_region r p"
  shows "\<exists>e \<in> set (fst (quad_area key r st')). key e = key n"
  using area_finds_node [OF assms] .

definition demo_quad :: "(string \<times> sized_point) quad_state" where
  "demo_quad = projr (quad_index snd
     [(''a'', \<lparr>nx = 8, ny = 8, nsize = 1\<rparr>), (''b'', \<lparr>nx = 3, ny = 12, nsize = 2\<rparr>)]
     \<lparr>p_bounds = Some \<lparr>b_x = 0, b_y = 0, bwidth = 16, bheight = 16\<rparr>, p_maxElements = None,
      p_maxLevel = None\<rparr> quad_new)"

lemma demo_index:
  "quad_index snd
     [(''a'', \<lparr>nx = 8, ny = 8, nsize = 1\<rparr>), (''b'', \<lparr>nx = 3, ny = 12, nsize = 2\<rparr>)]
     \<lparr>p_bounds = Some \<lparr>b_x = 0, b_y = 0, bwidth = 16, bheight = 16\<rparr>, p_maxElements = None,
      p_maxLevel = None\<rparr> quad_new = Inr demo_quad"
  by (simp add: demo_quad_def quad_index_def Let_def)

lemma demo_aligned: "aligned 4 \<lparr>b_x = 0, b_y = 0, bwidth = 16, bheight = 16\<rparr>"
  unfolding aligned_def
  by (rule exI [of _ 0], rule exI [of _ 0], rule exI [of _ 1], rule exI [of _ 1]) (simp add: num_simps)

theorem quad_area_complete_witness:
  "\<exists>e \<in> set (fst (quad_area fst \<lparr>x1 = 2, y1 = 9, x2 = 10, y2 = 9, height = 5\<rparr> demo_quad)).
     fst e = ''b''"
proof -
  have "rect_region \<lparr>x1 = 2, y1 = 9, x2 = 10, y2 = 9, height = 5\<rparr> (pt 3 12)"
    by (simp add: rect_region_def isAxisAligned_def num_same_def axisAlignedTopPoints_def in_rect_def num_simps)
  with quad_area_complete [OF demo_index, of "\<lparr>b_x = 0, b_y = 0, bwidth = 16, bheight = 16\<rparr>"
      "(''b'', \<lparr>nx = 3, ny = 12, nsize = 2\<rparr>)" "pt 3 12" _ fst] demo_aligned
  show ?thesis
    by (simp add: or_default_def fin_pt_def in_bounds_def in_rect_def pointToSquare_def num_simps)
qed

text \<open>
  Over other bounds nodes are lost: with bounds of 5 by 5 the root cuts at 2.5, but its right children
  start at 3, and a node between the two is stored in no leaf.
\<close>

lemma unaligned_bounds_lose_node:
  "let node = \<lparr>nx = 11 / 4, ny = 1, nsize = 1 / 8\<rparr>;
       st = projr (quad_index id [node]
              \<lparr>p_bounds = Some \<lparr>b_x = 0, b_y = 0, bwidth = 5, bheight = 5\<rparr>, p_maxElements = None,
               p_maxLevel = None\<rparr> quad_new)
   in in_rect (pointToSquare node) (pt (11 / 4) 1) \<and> quad_point (11 / 4) 1 st = []"
  by (simp add: quad_index_def quad_point_def quadTree_def splitSquare_def quadInsert.simps [of _ _ "Quad _ _ _ _ _ _ _"]
      quadRetrievePoint.simps [of _ "Quad _ _ _ _ _ _ _"]
      quadIndexes_def quadIndex_def quadSubdivide_def node_at_def pointToSquare_def in_rect_def or_default_def
      num_simps Let_def upt_conv_Cons)

text \<open>C37: all queries are sound over any bounds: whatever a query returns was indexed, and an area query
  returns no id twice.  Over the bounds of C36 (integral, with sides that are multiples of two to
  the power \<open>maxLevel\<close>) point queries are complete: they return every node whose square contains the point.\<close>

theorem quad_point_complete_sound:
  assumes "quad_index node_pos ns params st = Inr st'"
  shows "set (quad_point x y st') \<subseteq> set ns \<and>
    set (fst (quad_area key r st')) \<subseteq> set ns \<and> distinct (map key (fst (quad_area key r st'))) \<and>
    (\<forall>n \<in> set ns. \<forall>b. p_bounds params = Some b \<longrightarrow> aligned (or_default (p_maxLevel params) 4) b \<longrightarrow>
      fin_pt (pt x y) \<longrightarrow> in_bounds (pt x y) b \<longrightarrow>
      in_rect (pointToSquare (node_pos n)) (pt x y) \<longrightarrow> n \<in> set (quad_point x y st'))"
proof -
  obtain t where t: "tree st' = Some t" "set_quad t \<subseteq> set ns" "cache_query st' = None"
    by (rule index_elements [OF assms])
  have res: "fst (quad_area key r st') = fresh_area key r (Some t)"
    by (simp add: quad_area_def fresh_area_def Let_def t)
  note F = found_list [OF retrieve_ok [OF t(2), of key r]]
  have "set (fst (quad_area key r st')) \<subseteq> set ns \<and> distinct (map key (fst (quad_area key r st')))"
    unfolding res fresh_area_def Let_def option.case F(1) using F(2,3) by simp
  moreover have "set (quad_point x y st') \<subseteq> set ns"
    using retrievePoint_sound [of "pt x y" t] t(1,2) by (auto simp: quad_point_def)
  moreover have "n \<in> set (quad_point x y st')"
    if n: "n \<in> set ns" and b: "p_bounds params = Some b" "aligned (or_default (p_maxLevel params) 4) b"
      and p: "fin_pt (pt x y)" "in_bounds (pt x y) b" "in_rect (pointToSquare (node_pos n)) (pt x y)" for n b
  proof -
    obtain u where u: "tree st' = Some u" "tree_ok (or_default (p_maxLevel params) 4) u" "qbounds u = b"
      "covers n (pt x y) (or_default (p_maxLevel params) 4) u"
      by (rule index_tree [OF assms b]) (use p(1,3) n in blast)
    then show ?thesis using retrievePoint_finds [OF _ u(2)] b(2) p by (simp add: quad_point_def)
  qed
  ultimately show ?thesis by blast
qed

theorem quad_point_complete_sound_witness:
  "(''a'', \<lparr>nx = 8, ny = 8, nsize = 1\<rparr>) \<in> set (quad_point 8 8 demo_quad) \<and>
   distinct (map fst (fst (quad_area fst \<lparr>x1 = 0, y1 = 0, x2 = 16, y2 = 0, height = 16\<rparr> demo_quad)))"
  using quad_point_complete_sound [OF demo_index, of 8 8 fst "\<lparr>x1 = 0, y1 = 0, x2 = 16, y2 = 0, height = 16\<rparr>"] demo_aligned
  by (simp add: or_default_def fin_pt_def in_bounds_def in_rect_def pointToSquare_def num_simps)

text \<open>The cache of the last area query is transparent: after indexing, any sequence of area
  queries over finite rectangles gives the answers the tree gives without a cache.\<close>

theorem quad_cache_transparent:
  assumes "quad_index node_pos ns params st = Inr st'" "\<forall>r \<in> set rs. fin_rect r"
  shows "fst (area_all key rs st') = map (\<lambda>r. fresh_area key r (tree st')) rs"
proof -
  have "cache_query st' = None"
    using assms(1) by (auto simp: quad_index_def Let_def split: option.splits)
  then have "cache_ok key st'" by (simp add: cache_ok_def)
  then show ?thesis using assms(2) by (rule area_all_fresh)
qed

theorem quad_cache_transparent_witness:
  "let r = \<lparr>x1 = 0, y1 = 0, x2 = 4, y2 = 0, height = 4\<rparr> in
     fst (area_all fst [r, r] demo_quad) = [fresh_area fst r (tree demo_quad), fresh_area fst r (tree demo_quad)]"
  using quad_cache_transparent [OF demo_index, of "[\<lparr>x1 = 0, y1 = 0, x2 = 4, y2 = 0, height = 4\<rparr>,
      \<lparr>x1 = 0, y1 = 0, x2 = 4, y2 = 0, height = 4\<rparr>]" fst]
  by (simp only: Let_def) (simp add: fin_rect_def num_simps)

end
