(* ===== verification/Sigma_Camera.thy ===== *)
theory Sigma_Camera
  imports Sigma_Quad
begin

text \<open>
  The camera of the renderer (\<open>sigma.classes.camera\<close> in \<open>lib/sigmajs/sigma.js\<close>) and
  \<open>sigma.utils.zoomTo\<close>.  Nodes and edges are objects, into which \<open>applyView\<close> writes coordinates for
  the screen; \<open>read\<close> and \<open>write\<close> are the prefixes of their properties.  The settings are arguments.
  \<open>camera_goTo\<close> (\<open>goTo\<close>) returns the error it throws, if any, whether it dispatches \<open>coordinatesUpdated\<close>, and the
  camera it leaves.
\<close>

subsection \<open>The camera\<close>

record camera =
  cam_x :: jsnum
  cam_y :: jsnum
  cam_ratio :: jsnum
  cam_angle :: jsnum

definition camera_new :: camera where
  "camera_new = \<lparr>cam_x = 0, cam_y = 0, cam_ratio = 1, cam_angle = 0\<rparr>"

definition set_coordinate :: "string \<Rightarrow> jsnum \<Rightarrow> camera \<Rightarrow> camera" where
  "set_coordinate k v cam =
     (if k = ''x'' then cam\<lparr>cam_x := v\<rparr>
      else if k = ''y'' then cam\<lparr>cam_y := v\<rparr>
      else if k = ''ratio'' then cam\<lparr>cam_ratio := v\<rparr>
      else cam\<lparr>cam_angle := v\<rparr>)"

fun is_number :: "jsval \<Rightarrow> bool" where
  "is_number (JNum v) = (v \<noteq> NaN)"
| "is_number _ = False"

primrec set_coordinates :: "string list \<Rightarrow> jsobj \<Rightarrow> camera \<Rightarrow> string option \<times> camera" where
  "set_coordinates [] c cam = (None, cam)"
| "set_coordinates (k # ks) c cam =
     (let v = get_prop c k in
      if v = JUndef then set_coordinates ks c cam
      else if is_number v then set_coordinates ks c (set_coordinate k (to_num v) cam)
      else (Some (''Value for '' @ [CHR 0x22] @ k @ [CHR 0x22] @ '' is not a number.''), cam))"

definition camera_goTo :: "bool \<Rightarrow> jsobj \<Rightarrow> camera \<Rightarrow> string option \<times> bool \<times> camera" where
  "camera_goTo enableCamera coordinates cam =
     (if \<not> enableCamera then (None, False, cam)
      else case set_coordinates [''x'', ''y'', ''ratio'', ''angle''] coordinates cam of
             (Some err, cam1) \<Rightarrow> (Some err, False, cam1)
           | (None, cam1) \<Rightarrow> (None, True, cam1))"

subsection \<open>From the graph to the screen and back\<close>

definition graphPosition :: "jsnum \<Rightarrow> jsnum \<Rightarrow> bool \<Rightarrow> camera \<Rightarrow> point" where
  "graphPosition x y vector cam =
     (let c = js_cos (cam_angle cam); s = js_sin (cam_angle cam);
          X = (if vector then 0 else - (cam_x cam * c + cam_y cam * s) / cam_ratio cam);
          Y = (if vector then 0 else - (cam_y cam * c - cam_x cam * s) / cam_ratio cam)
      in pt ((x * c + y * s) / cam_ratio cam + X) ((y * c - x * s) / cam_ratio cam + Y))"

definition cameraPosition :: "jsnum \<Rightarrow> jsnum \<Rightarrow> bool \<Rightarrow> camera \<Rightarrow> point" where
  "cameraPosition x y vector cam =
     (let c = js_cos (cam_angle cam); s = js_sin (cam_angle cam);
          X = (if vector then 0 else - (cam_x cam * c + cam_y cam * s) / cam_ratio cam);
          Y = (if vector then 0 else - (cam_y cam * c - cam_x cam * s) / cam_ratio cam)
      in pt (((x - X) * c - (y - Y) * s) * cam_ratio cam) (((y - Y) * c + (x - X) * s) * cam_ratio cam))"

definition getMatrix :: "camera \<Rightarrow> jsnum list" where
  "getMatrix cam =
     (let scale = mat_scale (1 / cam_ratio cam) False;
          rotation = mat_rotation (cam_angle cam) False;
          translation = mat_translation (- cam_x cam) (- cam_y cam)
      in mat_multiply translation (mat_multiply rotation scale False) False)"

definition getRectangle :: "jsnum \<Rightarrow> jsnum \<Rightarrow> camera \<Rightarrow> rect" where
  "getRectangle w h cam =
     (let widthVect = cameraPosition w 0 True cam;
          heightVect = cameraPosition 0 h True cam;
          centerVect = cameraPosition (w / 2) (h / 2) True cam;
          marginX = px (cameraPosition (w / 4) 0 True cam);
          marginY = py (cameraPosition 0 (h / 4) True cam)
      in \<lparr>x1 = cam_x cam - px centerVect - marginX,
          y1 = cam_y cam - py centerVect - marginY,
          x2 = cam_x cam - px centerVect + marginX + px widthVect,
          y2 = cam_y cam - py centerVect - marginY + py widthVect,
          height = js_sqrt (px heightVect ^ 2 + (py heightVect + 2 * marginY) ^ 2)\<rparr>)"

subsection \<open>Projecting nodes and edges\<close>

text \<open>\<open>Math.pow\<close>.\<close>

definition is_odd :: "real \<Rightarrow> bool" where
  "is_odd e \<longleftrightarrow> e = of_int \<lfloor>e\<rfloor> \<and> odd \<lfloor>e\<rfloor>"

fun js_pow_inf :: "jsnum \<Rightarrow> jsnum \<Rightarrow> jsnum" where
  "js_pow_inf (Fin r) PInf = (if 1 < \<bar>r\<bar> then PInf else if \<bar>r\<bar> = 1 then NaN else 0)"
| "js_pow_inf (Fin r) NInf = (if 1 < \<bar>r\<bar> then 0 else if \<bar>r\<bar> = 1 then NaN else PInf)"
| "js_pow_inf PInf e = (if e = NaN then NaN else if 0 < e then PInf else 0)"
| "js_pow_inf NInf (Fin e) = (if e < 0 then 0 else if is_odd e then NInf else PInf)"
| "js_pow_inf NInf PInf = PInf"
| "js_pow_inf NInf NInf = 0"
| "js_pow_inf a e = NaN"

definition js_pow :: "jsnum \<Rightarrow> jsnum \<Rightarrow> jsnum" where
  "js_pow a e =
     (if e = 0 then 1
      else case (a, e) of
        (Fin r, Fin v) \<Rightarrow>
          if 0 < r then Fin (r powr v)
          else if r = 0 then (if 0 < v then 0 else PInf)
          else if v = of_int \<lfloor>v\<rfloor> then Fin ((if is_odd v then - 1 else 1) * (- r) powr v)
          else NaN
      | _ \<Rightarrow> js_pow_inf a e)"

text \<open>\<open>o[k] || 0\<close>, where a number or nothing is expected.\<close>

definition prop_or_zero :: "jsobj \<Rightarrow> string \<Rightarrow> jsnum" where
  "prop_or_zero m k = to_num (js_or (get_prop m k) (JNum 0))"

definition view_node :: "string \<Rightarrow> string \<Rightarrow> jsobj \<Rightarrow> jsnum \<Rightarrow> camera \<Rightarrow> jsobj \<Rightarrow> jsobj" where
  "view_node read write options nodesPowRatio cam node =
     (let c = js_cos (cam_angle cam); s = js_sin (cam_angle cam);
          node = oset (write @ ''x'') (JNum
            (((prop_or_zero node (read @ ''x'') - cam_x cam) * c +
              (prop_or_zero node (read @ ''y'') - cam_y cam) * s) / cam_ratio cam +
             prop_or_zero options ''width'' / 2)) node;
          node = oset (write @ ''y'') (JNum
            (((prop_or_zero node (read @ ''y'') - cam_y cam) * c -
              (prop_or_zero node (read @ ''x'') - cam_x cam) * s) / cam_ratio cam +
             prop_or_zero options ''height'' / 2)) node
      in oset (write @ ''size'')
           (JNum (prop_or_zero node (read @ ''size'') / js_pow (cam_ratio cam) nodesPowRatio)) node)"

definition view_edge :: "string \<Rightarrow> string \<Rightarrow> jsnum \<Rightarrow> camera \<Rightarrow> jsobj \<Rightarrow> jsobj" where
  "view_edge read write edgesPowRatio cam edge =
     oset (write @ ''size'')
       (JNum (prop_or_zero edge (read @ ''size'') / js_pow (cam_ratio cam) edgesPowRatio)) edge"

text \<open>\<open>applyView\<close> over arrays without an object twice.\<close>

definition applyView ::
    "string \<Rightarrow> string \<Rightarrow> jsobj \<Rightarrow> jsnum \<Rightarrow> jsnum \<Rightarrow> camera \<Rightarrow>
     jsobj list \<Rightarrow> jsobj list \<Rightarrow> jsobj list \<times> jsobj list" where
  "applyView read write options nodesPowRatio edgesPowRatio cam ns es =
     (map (view_node read write options nodesPowRatio cam) ns,
      map (view_edge read write edgesPowRatio cam) es)"

subsection \<open>Zooming\<close>

text \<open>The coordinates \<open>zoomTo\<close> goes to, if any; without an animation it goes there at once.\<close>

definition zoom_coordinates ::
    "jsnum \<Rightarrow> jsnum \<Rightarrow> jsnum \<Rightarrow> jsnum \<Rightarrow> jsnum \<Rightarrow> camera \<Rightarrow> jsobj option" where
  "zoom_coordinates zoomMin zoomMax x y ratio cam =
     (let newRatio = js_max zoomMin (js_min zoomMax (cam_ratio cam * ratio)) in
      if \<not> num_same newRatio (cam_ratio cam) then
        let ratio = newRatio / cam_ratio cam
        in Some [(''x'', JNum (x * (1 - ratio) + cam_x cam)), (''y'', JNum (y * (1 - ratio) + cam_y cam)),
                 (''ratio'', JNum newRatio)]
      else None)"

definition zoomTo ::
    "bool \<Rightarrow> jsnum \<Rightarrow> jsnum \<Rightarrow> jsnum \<Rightarrow> jsnum \<Rightarrow> jsnum \<Rightarrow> camera \<Rightarrow> string option \<times> bool \<times> camera" where
  "zoomTo enableCamera zoomMin zoomMax x y ratio cam =
     (case zoom_coordinates zoomMin zoomMax x y ratio cam of
        None \<Rightarrow> (None, False, cam)
      | Some coordinates \<Rightarrow> camera_goTo enableCamera coordinates cam)"

subsection \<open>Finite cameras\<close>

text \<open>The camera at \<open>(a, b)\<close> with the ratio \<open>r\<close>, turned by the angle \<open>t\<close>.\<close>

definition fin_camera :: "real \<Rightarrow> real \<Rightarrow> real \<Rightarrow> real \<Rightarrow> camera" where
  "fin_camera a b r t = \<lparr>cam_x = Fin a, cam_y = Fin b, cam_ratio = Fin r, cam_angle = Fin t\<rparr>"

definition fin_xy :: "real \<Rightarrow> real \<Rightarrow> point" where
  "fin_xy x y = pt (Fin x) (Fin y)"

lemma fin_camera_sel [simp]:
  "cam_x (fin_camera a b r t) = Fin a" "cam_y (fin_camera a b r t) = Fin b"
  "cam_ratio (fin_camera a b r t) = Fin r" "cam_angle (fin_camera a b r t) = Fin t"
  by (simp_all add: fin_camera_def)

lemma fin_xy_sel [simp]: "px (fin_xy x y) = Fin x" "py (fin_xy x y) = Fin y"
  by (simp_all add: fin_xy_def)

lemma graphPosition_Fin:
  assumes "r \<noteq> 0"
  shows "graphPosition (Fin x) (Fin y) v (fin_camera a b r t) =
    (let dx = (if v then x else x - a); dy = (if v then y else y - b)
     in fin_xy ((dx * cos t + dy * sin t) / r) ((dy * cos t - dx * sin t) / r))"
  using assms
  by (cases v) (simp_all add: graphPosition_def fin_xy_def Let_def num_simps field_simps)

lemma cameraPosition_Fin:
  assumes "r \<noteq> 0"
  shows "cameraPosition (Fin x) (Fin y) v (fin_camera a b r t) =
    fin_xy ((x * cos t - y * sin t) * r + (if v then 0 else a)) ((y * cos t + x * sin t) * r + (if v then 0 else b))"
proof -
  have c: "cos t * cos t = 1 - sin t * sin t" using sin_cos_squared_add [of t] by (simp add: power2_eq_square)
  show ?thesis
    using assms
    by (cases v) (simp_all add: cameraPosition_def fin_xy_def Let_def num_simps field_simps, simp_all add: c algebra_simps)
qed

lemma positions_inverse:
  assumes "r \<noteq> 0" and cam: "cam = fin_camera a b r t"
  shows "graphPosition (px (cameraPosition (Fin x) (Fin y) v cam)) (py (cameraPosition (Fin x) (Fin y) v cam)) v cam =
           fin_xy x y"
    and "cameraPosition (px (graphPosition (Fin x) (Fin y) v cam)) (py (graphPosition (Fin x) (Fin y) v cam)) v cam =
           fin_xy x y"
proof -
  have c: "cos t * cos t = 1 - sin t * sin t" using sin_cos_squared_add [of t] by (simp add: power2_eq_square)
  show "graphPosition (px (cameraPosition (Fin x) (Fin y) v cam)) (py (cameraPosition (Fin x) (Fin y) v cam)) v cam =
          fin_xy x y"
    using assms(1) unfolding cam by (simp add: graphPosition_Fin cameraPosition_Fin Let_def field_simps) (simp add: c fin_xy_def algebra_simps)
  show "cameraPosition (px (graphPosition (Fin x) (Fin y) v cam)) (py (graphPosition (Fin x) (Fin y) v cam)) v cam =
          fin_xy x y"
    using assms(1) unfolding cam
    by (cases v) (simp_all add: graphPosition_Fin cameraPosition_Fin Let_def fin_xy_def field_simps, simp_all add: c algebra_simps)
qed

lemma getMatrix_Fin:
  assumes "r \<noteq> 0"
  shows "getMatrix (fin_camera a b r t) =
    map Fin [cos t / r, - sin t / r, 0, sin t / r, cos t / r, 0,
             - (a * cos t + b * sin t) / r, (a * sin t - b * cos t) / r, 1]"
  using assms
  by (simp add: getMatrix_def Let_def mat_translation_def mat_rotation_def mat_scale_def mat_multiply_def entry_def
      num_simps field_simps)

lemma view_keys:
  assumes "read \<noteq> write"
  shows "write @ ''x'' \<noteq> write @ ''y''" "write @ ''x'' \<noteq> write @ ''size''" "write @ ''y'' \<noteq> write @ ''size''"
    "write @ ''x'' \<noteq> read @ ''x''" "write @ ''x'' \<noteq> read @ ''y''" 
  using assms by (auto dest: arg_cong [of _ _ last])

lemma view_node_Fin:
  assumes "read \<noteq> write" "r \<noteq> 0"
    and "prop_or_zero node (read @ ''x'') = Fin x" "prop_or_zero node (read @ ''y'') = Fin y"
    and "prop_or_zero options ''width'' = Fin w" "prop_or_zero options ''height'' = Fin h"
    and n: "n = view_node read write options k (fin_camera a b r t) node"
  shows "num_prop n (write @ ''x'') = px (graphPosition (Fin x) (Fin y) False (fin_camera a b r t)) + Fin (w / 2)"
    "num_prop n (write @ ''y'') = py (graphPosition (Fin x) (Fin y) False (fin_camera a b r t)) + Fin (h / 2)"
proof -
  have P: "prop_or_zero (oset (write @ ''x'') v node) (read @ ''x'') = Fin x"
    "prop_or_zero (oset (write @ ''x'') v node) (read @ ''y'') = Fin y" for v
    using assms(3,4) view_keys [OF assms(1)] by (simp_all add: prop_or_zero_def obj_simps)
  show "num_prop n (write @ ''x'') = px (graphPosition (Fin x) (Fin y) False (fin_camera a b r t)) + Fin (w / 2)"
    "num_prop n (write @ ''y'') = py (graphPosition (Fin x) (Fin y) False (fin_camera a b r t)) + Fin (h / 2)"
    using assms(2-6) view_keys [OF assms(1)]
    by (simp_all add: n view_node_def Let_def num_prop_def obj_simps P graphPosition_Fin num_simps)
qed

text \<open>The rectangle of a camera that is not turned: the screen, with a quarter of its width and height
  around it.\<close>

lemma getRectangle_straight:
  assumes "0 < r" "0 \<le> h"
  shows "getRectangle (Fin w) (Fin h) (fin_camera a b r 0) =
    \<lparr>x1 = Fin (a - 3 / 4 * w * r), y1 = Fin (b - 3 / 4 * h * r), x2 = Fin (a + 3 / 4 * w * r),
     y2 = Fin (b - 3 / 4 * h * r), height = Fin (3 / 2 * h * r)\<rparr>"
proof -
  have q: "sqrt ((h * r + 2 * (h / 4 * r))\<^sup>2) = 3 / 2 * h * r"
    using assms by (simp add: real_sqrt_abs)
  show ?thesis
    using assms q unfolding getRectangle_def
    by (simp add: Let_def num_simps cameraPosition_Fin [OF less_imp_neq [THEN not_sym]] js_sqrt_nonneg algebra_simps)
qed

lemma rectangle_region:
  assumes "0 < r" "0 < w" "0 < h" "\<bar>x - a\<bar> \<le> 3 / 4 * w * r" "\<bar>y - b\<bar> \<le> 3 / 4 * h * r"
  shows "rect_region (getRectangle (Fin w) (Fin h) (fin_camera a b r 0)) (fin_xy x y)"
proof -
  have "a - 3 / 4 * w * r < a + 3 / 4 * w * r" "0 \<le> h" using assms(1-3) by simp_all
  then show ?thesis
    using assms(4,5) unfolding getRectangle_straight [OF assms(1) \<open>0 \<le> h\<close>] rect_region_def
    by (simp add: isAxisAligned_def num_same_def axisAlignedTopPoints_def in_rect_def fin_xy_def abs_le_iff
        del: divide_const_simps)
qed

text \<open>A node of the graph as the quadtree reads it.\<close>

definition node_point :: "string \<Rightarrow> jsobj \<Rightarrow> sized_point" where
  "node_point read node =
     \<lparr>nx = num_prop node (read @ ''x''), ny = num_prop node (read @ ''y''), nsize = num_prop node (read @ ''size'')\<rparr>"

lemma num_prop_or_zero: "num_prop m k = Fin x \<Longrightarrow> prop_or_zero m k = Fin x"
  by (cases "get_prop m k") (auto simp: num_prop_def prop_or_zero_def js_or_def zero_Fin)

lemma zoom_Fin:
  assumes "r \<noteq> 0" "zoom_coordinates (Fin lo) (Fin hi) (Fin x) (Fin y) (Fin q) (fin_camera a b r t) = Some c"
  shows "camera_goTo True c (fin_camera a b r t) =
    (None, True, let s = max lo (min hi (r * q)) in fin_camera (x * (1 - s / r) + a) (y * (1 - s / r) + b) s t)"
proof -
  have "c = [(''x'', JNum (Fin (x * (1 - max lo (min hi (r * q)) / r) + a))),
             (''y'', JNum (Fin (y * (1 - max lo (min hi (r * q)) / r) + b))),
             (''ratio'', JNum (Fin (max lo (min hi (r * q)))))]"
    using assms by (auto simp: zoom_coordinates_def Let_def num_simps split: if_splits)
  then show ?thesis
    by (simp add: camera_goTo_def set_coordinate_def fin_camera_def Let_def)
qed

subsection \<open>The properties of the camera\<close>

text \<open>C34: the frames of the camera fit together.  \<open>cameraPosition\<close> and \<open>graphPosition\<close> undo each other,
  for points and for vectors; the matrix for the shaders does what \<open>graphPosition\<close> does; and so does
  \<open>applyView\<close>, from the middle of the screen.\<close>

theorem camera_frames:
  assumes "r \<noteq> 0" "cam = fin_camera a b r t" "read \<noteq> write"
    and "num_prop node (read @ ''x'') = Fin x" "num_prop node (read @ ''y'') = Fin y"
    and "prop_or_zero options ''width'' = Fin w" "prop_or_zero options ''height'' = Fin h"
  shows "let p = (\<lambda>v. graphPosition (Fin x) (Fin y) v cam); q = (\<lambda>v. cameraPosition (Fin x) (Fin y) v cam);
             m = (\<lambda>i. entry (getMatrix cam) i) in
         graphPosition (px (q v)) (py (q v)) v cam = fin_xy x y \<and>
         cameraPosition (px (p v)) (py (p v)) v cam = fin_xy x y \<and>
         px (p False) = Fin x * m 0 + Fin y * m 3 + m 6 \<and>
         py (p False) = Fin x * m 1 + Fin y * m 4 + m 7 \<and>
         (\<forall>n \<in> set (fst (applyView read write options k k' cam [node] es)).
            num_prop n (write @ ''x'') = px (p False) + Fin (w / 2) \<and>
            num_prop n (write @ ''y'') = py (p False) + Fin (h / 2))"
proof -
  have pos: "prop_or_zero node (read @ ''x'') = Fin x" "prop_or_zero node (read @ ''y'') = Fin y"
    using assms(4,5) by (simp_all add: num_prop_or_zero)
  let ?p = "graphPosition (Fin x) (Fin y) False cam" and ?m = "entry (getMatrix cam)"
  have "px ?p = Fin x * ?m 0 + Fin y * ?m 3 + ?m 6" "py ?p = Fin x * ?m 1 + Fin y * ?m 4 + ?m 7"
    using assms(1,2) by (simp_all add: graphPosition_Fin getMatrix_Fin entry_def Let_def field_simps)
  then show ?thesis
    using positions_inverse [OF assms(1,2)] view_node_Fin [OF assms(3,1) pos assms(6,7) refl]
    by (simp add: Let_def applyView_def assms(2))
qed

text \<open>C33: what is on the screen is drawn, with a camera that is not turned and a quadtree over integral
  bounds whose sides are multiples of two to the power \<open>maxLevel\<close> (as in C36: over other bounds the tree
  can lose nodes).  The renderers draw the nodes that the quadtree finds in the rectangle of the
  camera; every indexed node within the bounds, of any size, that \<open>applyView\<close> puts on the screen is among them.\<close>

theorem screen_nodes_found:
  assumes "quad_index (node_point read) ns params st = Inr st'" "p_bounds params = Some bs"
    and "aligned (or_default (p_maxLevel params) 4) bs"
    and "n \<in> set ns" "num_prop n (read @ ''x'') = Fin x" "num_prop n (read @ ''y'') = Fin y"
    and "num_prop n (read @ ''size'') = Fin z" "0 \<le> z" "in_bounds (fin_xy x y) bs"
    and "0 < r" "0 < w" "0 < h" "read \<noteq> write"
    and "prop_or_zero options ''width'' = Fin w" "prop_or_zero options ''height'' = Fin h"
    and "cam = fin_camera a b r 0" "n' = view_node read write options k cam n"
    and "0 \<le> num_prop n' (write @ ''x'')" "num_prop n' (write @ ''x'') \<le> Fin w"
    and "0 \<le> num_prop n' (write @ ''y'')" "num_prop n' (write @ ''y'') \<le> Fin h"
  shows "\<exists>e \<in> set (fst (quad_area key (getRectangle (Fin w) (Fin h) cam) st')). key e = key n"
proof -
  have r: "r \<noteq> 0" using assms(10) by simp
  have pos: "prop_or_zero n (read @ ''x'') = Fin x" "prop_or_zero n (read @ ''y'') = Fin y"
    using assms(5,6) by (simp_all add: num_prop_or_zero)
  have "num_prop n' (write @ ''x'') = Fin ((x - a) / r + w / 2)"
    "num_prop n' (write @ ''y'') = Fin ((y - b) / r + h / 2)"
    using view_node_Fin [OF assms(13) r pos assms(14,15) assms(17) [unfolded assms(16)]] r
    by (simp_all add: graphPosition_Fin Let_def)
  then have "0 \<le> (x - a) / r + w / 2" "(x - a) / r + w / 2 \<le> w"
    "0 \<le> (y - b) / r + h / 2" "(y - b) / r + h / 2 \<le> h"
    using assms(18-21) by (simp_all add: num_simps)
  then have "- (w / 2) \<le> (x - a) / r" "(x - a) / r \<le> w / 2" "- (h / 2) \<le> (y - b) / r" "(y - b) / r \<le> h / 2"
    by linarith+
  then have "\<bar>x - a\<bar> \<le> w * r / 2" "\<bar>y - b\<bar> \<le> h * r / 2"
    using assms(10) unfolding pos_le_divide_eq [OF assms(10)] pos_divide_le_eq [OF assms(10)]
    by linarith+
  moreover have "0 < w * r" "0 < h * r" using assms(10-12) by simp_all
  ultimately have "rect_region (getRectangle (Fin w) (Fin h) cam) (fin_xy x y)"
    unfolding assms(16) by (intro rectangle_region assms(10-12)) simp_all
  moreover have "in_rect (pointToSquare (node_point read n)) (fin_xy x y)"
    using assms(5-8) by (simp add: in_rect_def pointToSquare_def node_point_def num_simps)
  ultimately show ?thesis
    by (intro area_finds_node [OF assms(1-4) _ assms(9)]) (simp_all add: fin_pt_def)
qed

text \<open>C35: zooming keeps the point under the mouse where it is: the point of the graph that lies
  \<open>(u, v)\<close> away from the middle of the screen lies there after zooming, for any angle, also where the
  ratio has been cut off at \<open>zoomMin\<close> or \<open>zoomMax\<close>.\<close>

theorem zoom_keeps_point:
  assumes "r \<noteq> 0" "cam = fin_camera a b r t" "d = cameraPosition (Fin u) (Fin v) True cam"
    and "zoomTo True (Fin lo) (Fin hi) (px d) (py d) (Fin q) cam = (err, moved, cam')" "0 < lo"
  shows "err = None \<and> cam_ratio cam' = Fin (max lo (min hi (r * q))) \<and> cam_angle cam' = cam_angle cam \<and>
         cameraPosition (Fin u) (Fin v) False cam' = cameraPosition (Fin u) (Fin v) False cam"
proof -
  let ?s = "max lo (min hi (r * q))"
  let ?x = "(u * cos t - v * sin t) * r" and ?y = "(v * cos t + u * sin t) * r"
  have d: "d = fin_xy ?x ?y" using assms(1,2,3) by (simp add: cameraPosition_Fin)
  have s: "?s \<noteq> 0" using assms(5) by linarith
  show ?thesis
  proof (cases "zoom_coordinates (Fin lo) (Fin hi) (Fin ?x) (Fin ?y) (Fin q) cam")
    case None
    then show ?thesis
      using assms(2,4) d by (auto simp: zoomTo_def zoom_coordinates_def num_same_def num_simps Let_def split: if_splits)
  next
    case (Some c)
    then have "cam' = fin_camera (?x * (1 - ?s / r) + a) (?y * (1 - ?s / r) + b) ?s t" "err = None"
      using zoom_Fin [OF assms(1) Some [unfolded assms(2)]] assms(2,4) d by (auto simp: zoomTo_def Let_def)
    then show ?thesis
      using assms(1,2) s by (simp add: cameraPosition_Fin fin_xy_def field_simps)
  qed
qed

subsection \<open>A camera to try these on\<close>

definition demo_node :: jsobj where
  "demo_node = [(''id'', JStr ''a''), (''r:x'', JNum 8), (''r:y'', JNum 9), (''r:size'', JNum 1)]"

definition demo_screen :: jsobj where
  "demo_screen = [(''width'', JNum 10), (''height'', JNum 6)]"

definition demo_camera :: camera where
  "demo_camera = fin_camera 7 8 2 0"

definition demo_params :: quad_params where
  "demo_params = \<lparr>p_bounds = Some \<lparr>b_x = 0, b_y = 0, bwidth = 16, bheight = 16\<rparr>, p_maxElements = None,
     p_maxLevel = None\<rparr>"

definition demo_nodes :: "jsobj quad_state" where
  "demo_nodes = projr (quad_index (node_point ''r:'') [demo_node] demo_params quad_new)"

lemma demo_nodes_index:
  "quad_index (node_point ''r:'') [demo_node] demo_params quad_new = Inr demo_nodes"
  by (simp add: demo_nodes_def quad_index_def demo_params_def Let_def)

lemma demo_props:
  "num_prop demo_node (''r:'' @ ''x'') = Fin 8" "num_prop demo_node (''r:'' @ ''y'') = Fin 9"
  "num_prop demo_node (''r:'' @ ''size'') = Fin 1" "prop_or_zero demo_screen ''width'' = Fin 10"
  "prop_or_zero demo_screen ''height'' = Fin 6"
  by (simp_all add: num_prop_def prop_or_zero_def js_or_def demo_node_def demo_screen_def num_simps)

theorem camera_frames_witness:
  "let n = hd (fst (applyView ''r:'' ''w:'' demo_screen 1 1 demo_camera [demo_node] [])) in
     num_prop n (''w:'' @ ''x'') = Fin (11 / 2) \<and> num_prop n (''w:'' @ ''y'') = Fin (7 / 2)"
  using camera_frames [OF _ demo_camera_def _ demo_props(1,2,4,5), of "''w:''" True 1 1 "[]"]
  by (simp add: applyView_def Let_def demo_camera_def graphPosition_Fin)

definition demo_key :: "jsobj \<Rightarrow> string" where
  "demo_key n = (case get_prop n ''id'' of JStr s \<Rightarrow> s | _ \<Rightarrow> ''undefined'')"

theorem screen_nodes_found_witness:
  "\<exists>e \<in> set (fst (quad_area demo_key (getRectangle (Fin 10) (Fin 6) demo_camera) demo_nodes)).
     demo_key e = ''a''"
proof -
  have V: "num_prop (view_node ''r:'' ''w:'' demo_screen 1 demo_camera demo_node) (''w:'' @ ''x'') = Fin (11 / 2)"
    "num_prop (view_node ''r:'' ''w:'' demo_screen 1 demo_camera demo_node) (''w:'' @ ''y'') = Fin (7 / 2)"
    using view_node_Fin [OF _ _ num_prop_or_zero [OF demo_props(1)] num_prop_or_zero [OF demo_props(2)]
        demo_props(4,5) refl, of "''w:''" 2 1 7 8 0]
    by (simp_all add: demo_camera_def graphPosition_Fin Let_def)
  have A: "aligned (or_default (p_maxLevel demo_params) 4) \<lparr>b_x = 0, b_y = 0, bwidth = 16, bheight = 16\<rparr>"
    using demo_aligned by (simp add: demo_params_def or_default_def)
  have "\<exists>e \<in> set (fst (quad_area demo_key (getRectangle (Fin 10) (Fin 6) demo_camera) demo_nodes)).
     demo_key e = demo_key demo_node"
    by (rule screen_nodes_found [of "''r:''" _ _ _ _ _ _ _ _ _ _ _ _ "''w:''" _ _ _ _ _ 1,
          OF demo_nodes_index _ A _ demo_props(1-3) _ _ _ _ _ _ demo_props(4,5) demo_camera_def refl])
      (unfold V, simp_all add: demo_params_def in_bounds_def fin_xy_def num_simps)
  then show ?thesis by (simp add: demo_key_def demo_node_def)
qed

theorem zoom_keeps_point_witness:
  "snd (snd (zoomTo True (Fin 1) (Fin 4) (Fin 6) (Fin 8) (Fin 3) (fin_camera 1 1 2 0))) =
     fin_camera (- 5) (- 7) 4 0 \<and>
   cameraPosition (Fin 3) (Fin 4) False (fin_camera (- 5) (- 7) 4 0) = fin_xy 7 9"
proof -
  let ?c = "fin_camera 1 1 2 0"
  have z: "zoomTo True (Fin 1) (Fin 4) (Fin 6) (Fin 8) (Fin 3) ?c = (None, True, fin_camera (- 5) (- 7) 4 0)"
    using zoom_Fin [of 2 1 4 6 8 3 1 1 0]
    by (simp add: zoomTo_def zoom_coordinates_def num_same_def num_simps Let_def)
  have d: "cameraPosition (Fin 3) (Fin 4) True ?c = fin_xy 6 8" by (simp add: cameraPosition_Fin)
  have "cameraPosition (Fin 3) (Fin 4) False (fin_camera (- 5) (- 7) 4 0) = cameraPosition (Fin 3) (Fin 4) False ?c"
    using zoom_keeps_point [of 2 ?c 1 1 0 "fin_xy 6 8" 3 4 1 4 3 None True "fin_camera (- 5) (- 7) 4 0"] z d by simp
  then show ?thesis using z by (simp add: cameraPosition_Fin)
qed

text \<open>
  A camera that is turned gets another rectangle: the margins are one coordinate of a vector each, so
  its base does not have the direction of the screen.  Here the camera is at the origin, turned by the
  angle of the tangent 3/4, and the screen is 100 wide and 10 high; the upper left corner of the screen,
  the point (-37, -34) of the graph, is not in the rectangle.
\<close>

lemma cos_sin_turned: "cos (arctan (3 / 4)) = 4 / 5" "sin (arctan (3 / 4)) = 3 / 5"
proof -
  have "sqrt (1 + (3 / 4)\<^sup>2) = (5 / 4 :: real)" by (rule real_sqrt_unique) (simp_all add: power2_eq_square)
  then show "cos (arctan (3 / 4)) = 4 / 5" "sin (arctan (3 / 4)) = 3 / 5"
    by (simp_all only: cos_arctan sin_arctan) simp_all
qed

lemma turned_rectangle_misses_corner:
  defines "cam \<equiv> fin_camera 0 0 1 (arctan (3 / 4))"
  shows "graphPosition (Fin (- 37)) (Fin (- 34)) False cam = fin_xy (- 50) (- 5)"
    "\<not> rect_region (getRectangle (Fin 100) (Fin 10) cam) (fin_xy (- 37) (- 34))"
proof -
  show "graphPosition (Fin (- 37)) (Fin (- 34)) False cam = fin_xy (- 50) (- 5)"
    by (simp add: cam_def graphPosition_Fin cos_sin_turned)
  let ?r = "getRectangle (Fin 100) (Fin 10) cam"
  have r: "?r = \<lparr>x1 = Fin (- 57), y1 = Fin (- 36), x2 = Fin 63, y2 = Fin 24, height = Fin (6 * sqrt 5)\<rparr>"
  proof -
    have "sqrt 180 = 6 * sqrt 5" using real_sqrt_mult [of 36 5] by simp
    then show ?thesis
      by (simp add: cam_def getRectangle_def Let_def num_simps cameraPosition_Fin cos_sin_turned js_sqrt_nonneg power2_eq_square)
  qed
  have base: "sqrt ((63 + 57)\<^sup>2 + (24 + 36)\<^sup>2) = 60 * sqrt 5"
    using real_sqrt_mult [of 3600 5] by simp
  have "rectangleCorners ?r =
      [fin_xy (- 57) (- 36), fin_xy 63 24, fin_xy (- 63) (- 24), fin_xy 57 36]"
    using base
    by (simp add: r rectangleCorners_def lowerLeftCoor_def lowerRightCoor_def Let_def num_simps js_sqrt_nonneg fin_xy_def)
  moreover have "\<not> in_hull [fin_xy (- 57) (- 36), fin_xy 63 24, fin_xy (- 63) (- 24), fin_xy 57 36]
      (fin_xy (- 37) (- 34))"
  proof
    assume "in_hull [fin_xy (- 57) (- 36), fin_xy 63 24, fin_xy (- 63) (- 24), fin_xy 57 36]
      (fin_xy (- 37) (- 34))"
    then obtain ax ay ux uy vx vy s t where t: "0 \<le> t" and
      c: "[fin_xy (- 57) (- 36), fin_xy 63 24, fin_xy (- 63) (- 24), fin_xy 57 36] =
          [pt (Fin ax) (Fin ay), pt (Fin (ax + ux)) (Fin (ay + uy)),
           pt (Fin (ax + vx)) (Fin (ay + vy)), pt (Fin (ax + ux + vx)) (Fin (ay + uy + vy))]" and
      p: "fin_xy (- 37) (- 34) = pt (Fin (ax + s * ux + t * vx)) (Fin (ay + s * uy + t * vy))"
      by (rule in_hullE) blast
    have c: "ax = - 57" "ay = - 36" "ax + ux = 63" "ay + uy = 24" "ax + vx = - 63" "ay + vy = - 24"
      using c by (simp_all add: fin_xy_def)
    have "ux = 120" "uy = 60" "vx = - 6" "vy = 12" using c by linarith+
    then show False using p t c(1,2) by (simp add: fin_xy_def)
  qed
  ultimately show "\<not> rect_region ?r (fin_xy (- 37) (- 34))"
    by (simp add: rect_region_def isAxisAligned_def num_same_def r)
qed

end
