(* ===== verification/Slick_State.thy ===== *)
theory Slick_State
  imports JS_Values
begin

text \<open>
  The slider of the web site (\<open>slick.js\<close>): its options, its state and the elements it works on.

  \<^item> \<open>options\<close> is the object of settings; the markers \<open>appendArrows\<close>, \<open>appendDots\<close> and the
    callback \<open>customPaging\<close> are left out.  \<open>setting\<close> is one key with its value, so that
    \<open>extend_options\<close> is \<open>$.extend\<close>.  The constructor makes \<open>options\<close> and \<open>originalSettings\<close>
    the same object: \<open>optionsShared\<close> says whether they still are, and a write to an option
    then changes both.
  \<^item> an \<open>elem\<close> is a page element: its classes, attributes, style, child elements and lazily
    loaded images.  The state holds a store of elements; a jQuery collection is a list of
    references into it.
  \<^item> the arrows and the dots are jQuery collections too (\<open>None\<close> is \<open>null\<close>), kept outside the
    store; \<open>prevInDoc\<close>, \<open>nextInDoc\<close> and \<open>dotsInDoc\<close> say whether they are in the page.
  \<^item> \<open>env\<close> is what the browser answers: sizes after layout (functions of the state), the
    style properties it knows, whether an element matches a selector, and what \<open>$(text)\<close> makes
    or finds (\<open>jq\<close>).
  \<^item> callbacks that run later are \<open>tasks\<close>, running intervals are \<open>timers\<close>, and the events
    triggered on the slider are collected in \<open>trace\<close>.

  Numbers of slides are integers, lengths are reals.  A number that is \<open>null\<close> until it is
  first set is 0, which is how arithmetic reads it.
\<close>

named_theorems dom_simps \<open>reading the elements after a jQuery operation\<close>

subsection \<open>Elements\<close>

datatype cls =
    Slick_slide | Slick_active | Slick_center | Slick_visible | Slick_current | Slick_cloned
  | Slick_arrow | Slick_hidden | Slick_disabled | Slick_loading | Slick_lazyload_error
  | Slick_slider | Slick_initialized | Slick_dotted | Slick_vertical | Draggable | Cls string

datatype att =
    Aria_hidden | Aria_disabled | Aria_selected | Aria_controls | Aria_describedby
  | Tabindex | Data_slick_index | Role | Id_att | Att string

text \<open>An attribute is a text; \<open>ANum i\<close> is the decimal text of \<open>i\<close>.\<close>

datatype aval = AText string | ANum int

datatype css =
    CNum real | CTxt string | CPercent real | CTranslate real real | CTranslate3d real real
  | CTransition string real string

record pic =
  lazySrc :: "string option"
  picSrc :: "string option"
  picLoading :: bool
  picError :: bool

record elem =
  classes :: "cls set"
  attrs :: "att \<Rightarrow> aval option"
  style :: "string \<Rightarrow> css option"
  origStyling :: "string \<Rightarrow> css option"
  kids :: "nat list"
  pics :: "pic list"
  innerTabindex :: "aval option"

definition blank :: elem where
  "blank = \<lparr>classes = {}, attrs = Map.empty, style = Map.empty, origStyling = Map.empty,
            kids = [], pics = [], innerTabindex = None\<rparr>"

definition addClass :: "cls \<Rightarrow> elem \<Rightarrow> elem" where
  "addClass c e = e\<lparr>classes := insert c (classes e)\<rparr>"

definition removeClass :: "cls set \<Rightarrow> elem \<Rightarrow> elem" where
  "removeClass cs e = e\<lparr>classes := classes e - cs\<rparr>"

definition attr :: "att \<Rightarrow> aval \<Rightarrow> elem \<Rightarrow> elem" where
  "attr a v e = e\<lparr>attrs := (attrs e)(a := Some v)\<rparr>"

definition removeAttr :: "att set \<Rightarrow> elem \<Rightarrow> elem" where
  "removeAttr as e = e\<lparr>attrs := (\<lambda>a. if a \<in> as then None else attrs e a)\<rparr>"

definition css :: "string \<Rightarrow> css \<Rightarrow> elem \<Rightarrow> elem" where
  "css p v e = e\<lparr>style := (style e)(p := Some v)\<rparr>"

definition css_clear :: "string \<Rightarrow> elem \<Rightarrow> elem" where
  "css_clear p e = e\<lparr>style := (style e)(p := None)\<rparr>"

lemmas elem_ops = addClass_def removeClass_def attr_def removeAttr_def css_def css_clear_def

lemma classes_ops [dom_simps]:
  "classes (addClass c e) = insert c (classes e)"
  "classes (removeClass cs e) = classes e - cs"
  "classes (attr a v e) = classes e"
  "classes (removeAttr as e) = classes e"
  "classes (css p w e) = classes e"
  "classes (css_clear p e) = classes e"
  by (simp_all add: elem_ops)

lemma attrs_ops [dom_simps]:
  "attrs (addClass c e) = attrs e"
  "attrs (removeClass cs e) = attrs e"
  "attrs (attr a v e) = (attrs e)(a := Some v)"
  "attrs (css p w e) = attrs e"
  "attrs (css_clear p e) = attrs e"
  by (simp_all add: elem_ops)

lemma style_ops [dom_simps]:
  "style (addClass c e) = style e"
  "style (removeClass cs e) = style e"
  "style (attr a v e) = style e"
  "style (removeAttr as e) = style e"
  "style (css p w e) = (style e)(p := Some w)"
  "style (css_clear p e) = (style e)(p := None)"
  by (simp_all add: elem_ops)

lemma kids_ops [dom_simps]:
  "kids (addClass c e) = kids e" "kids (removeClass cs e) = kids e"
  "kids (attr a v e) = kids e" "kids (removeAttr as e) = kids e"
  "kids (css p w e) = kids e" "kids (css_clear p e) = kids e"
  by (simp_all add: elem_ops)

lemma origStyling_ops [dom_simps]:
  "origStyling (addClass c e) = origStyling e" "origStyling (removeClass cs e) = origStyling e"
  "origStyling (attr a v e) = origStyling e" "origStyling (removeAttr as e) = origStyling e"
  "origStyling (css p w e) = origStyling e" "origStyling (css_clear p e) = origStyling e"
  by (simp_all add: elem_ops)

subsection \<open>Options\<close>

record options =
  o_accessibility :: bool
  o_adaptiveHeight :: bool
  o_arrows :: bool
  o_asNavFor :: "string option"
  o_prevArrow :: string
  o_nextArrow :: string
  o_autoplay :: bool
  o_autoplaySpeed :: real
  o_centerMode :: bool
  o_centerPadding :: string
  o_cssEase :: string
  o_dots :: bool
  o_dotsClass :: string
  o_draggable :: bool
  o_easing :: string
  o_edgeFriction :: real
  o_fade :: bool
  o_focusOnSelect :: bool
  o_infinite :: bool
  o_initialSlide :: int
  o_lazyLoad :: string
  o_mobileFirst :: bool
  o_pauseOnHover :: bool
  o_pauseOnFocus :: bool
  o_pauseOnDotsHover :: bool
  o_respondTo :: string
  o_rows :: int
  o_rtl :: bool
  o_slide :: string
  o_slidesPerRow :: int
  o_slidesToShow :: int
  o_slidesToScroll :: int
  o_speed :: real
  o_swipe :: bool
  o_swipeToSlide :: bool
  o_touchMove :: bool
  o_touchThreshold :: real
  o_useCSS :: bool
  o_useTransform :: bool
  o_variableWidth :: bool
  o_vertical :: bool
  o_verticalSwiping :: bool
  o_waitForAnimate :: bool
  o_zIndex :: int

definition defaults :: options where
  "defaults = \<lparr>
     o_accessibility = True,
     o_adaptiveHeight = False,
     o_arrows = True,
     o_asNavFor = None,
     o_prevArrow = ''<button type=\"button\" data-role=\"none\" class=\"slick-prev\" aria-label=\"Previous\" tabindex=\"0\" role=\"button\">Previous</button>'',
     o_nextArrow = ''<button type=\"button\" data-role=\"none\" class=\"slick-next\" aria-label=\"Next\" tabindex=\"0\" role=\"button\">Next</button>'',
     o_autoplay = False,
     o_autoplaySpeed = 3000,
     o_centerMode = False,
     o_centerPadding = ''50px'',
     o_cssEase = ''ease'',
     o_dots = False,
     o_dotsClass = ''slick-dots'',
     o_draggable = True,
     o_easing = ''linear'',
     o_edgeFriction = 35 / 100,
     o_fade = False,
     o_focusOnSelect = False,
     o_infinite = True,
     o_initialSlide = 0,
     o_lazyLoad = ''ondemand'',
     o_mobileFirst = False,
     o_pauseOnHover = True,
     o_pauseOnFocus = True,
     o_pauseOnDotsHover = False,
     o_respondTo = ''window'',
     o_rows = 1,
     o_rtl = False,
     o_slide = '''',
     o_slidesPerRow = 1,
     o_slidesToShow = 1,
     o_slidesToScroll = 1,
     o_speed = 500,
     o_swipe = True,
     o_swipeToSlide = False,
     o_touchMove = True,
     o_touchThreshold = 5,
     o_useCSS = True,
     o_useTransform = True,
     o_variableWidth = False,
     o_vertical = False,
     o_verticalSwiping = False,
     o_waitForAnimate = True,
     o_zIndex = 1000\<rparr>"

datatype setting =
    S_accessibility bool | S_adaptiveHeight bool | S_arrows bool | S_asNavFor "string option"
  | S_prevArrow string | S_nextArrow string | S_autoplay bool | S_autoplaySpeed real
  | S_centerMode bool | S_centerPadding string | S_cssEase string | S_dots bool
  | S_dotsClass string | S_draggable bool | S_easing string | S_edgeFriction real
  | S_fade bool | S_focusOnSelect bool | S_infinite bool | S_initialSlide int
  | S_lazyLoad string | S_mobileFirst bool | S_pauseOnHover bool | S_pauseOnFocus bool
  | S_pauseOnDotsHover bool | S_respondTo string | S_rows int | S_rtl bool | S_slide string
  | S_slidesPerRow int | S_slidesToShow int | S_slidesToScroll int | S_speed real
  | S_swipe bool | S_swipeToSlide bool | S_touchMove bool | S_touchThreshold real
  | S_useCSS bool | S_useTransform bool | S_variableWidth bool | S_vertical bool
  | S_verticalSwiping bool | S_waitForAnimate bool | S_zIndex int

primrec apply_setting :: "setting \<Rightarrow> options \<Rightarrow> options" where
  "apply_setting (S_accessibility v) o' = o'\<lparr>o_accessibility := v\<rparr>"
| "apply_setting (S_adaptiveHeight v) o' = o'\<lparr>o_adaptiveHeight := v\<rparr>"
| "apply_setting (S_arrows v) o' = o'\<lparr>o_arrows := v\<rparr>"
| "apply_setting (S_asNavFor v) o' = o'\<lparr>o_asNavFor := v\<rparr>"
| "apply_setting (S_prevArrow v) o' = o'\<lparr>o_prevArrow := v\<rparr>"
| "apply_setting (S_nextArrow v) o' = o'\<lparr>o_nextArrow := v\<rparr>"
| "apply_setting (S_autoplay v) o' = o'\<lparr>o_autoplay := v\<rparr>"
| "apply_setting (S_autoplaySpeed v) o' = o'\<lparr>o_autoplaySpeed := v\<rparr>"
| "apply_setting (S_centerMode v) o' = o'\<lparr>o_centerMode := v\<rparr>"
| "apply_setting (S_centerPadding v) o' = o'\<lparr>o_centerPadding := v\<rparr>"
| "apply_setting (S_cssEase v) o' = o'\<lparr>o_cssEase := v\<rparr>"
| "apply_setting (S_dots v) o' = o'\<lparr>o_dots := v\<rparr>"
| "apply_setting (S_dotsClass v) o' = o'\<lparr>o_dotsClass := v\<rparr>"
| "apply_setting (S_draggable v) o' = o'\<lparr>o_draggable := v\<rparr>"
| "apply_setting (S_easing v) o' = o'\<lparr>o_easing := v\<rparr>"
| "apply_setting (S_edgeFriction v) o' = o'\<lparr>o_edgeFriction := v\<rparr>"
| "apply_setting (S_fade v) o' = o'\<lparr>o_fade := v\<rparr>"
| "apply_setting (S_focusOnSelect v) o' = o'\<lparr>o_focusOnSelect := v\<rparr>"
| "apply_setting (S_infinite v) o' = o'\<lparr>o_infinite := v\<rparr>"
| "apply_setting (S_initialSlide v) o' = o'\<lparr>o_initialSlide := v\<rparr>"
| "apply_setting (S_lazyLoad v) o' = o'\<lparr>o_lazyLoad := v\<rparr>"
| "apply_setting (S_mobileFirst v) o' = o'\<lparr>o_mobileFirst := v\<rparr>"
| "apply_setting (S_pauseOnHover v) o' = o'\<lparr>o_pauseOnHover := v\<rparr>"
| "apply_setting (S_pauseOnFocus v) o' = o'\<lparr>o_pauseOnFocus := v\<rparr>"
| "apply_setting (S_pauseOnDotsHover v) o' = o'\<lparr>o_pauseOnDotsHover := v\<rparr>"
| "apply_setting (S_respondTo v) o' = o'\<lparr>o_respondTo := v\<rparr>"
| "apply_setting (S_rows v) o' = o'\<lparr>o_rows := v\<rparr>"
| "apply_setting (S_rtl v) o' = o'\<lparr>o_rtl := v\<rparr>"
| "apply_setting (S_slide v) o' = o'\<lparr>o_slide := v\<rparr>"
| "apply_setting (S_slidesPerRow v) o' = o'\<lparr>o_slidesPerRow := v\<rparr>"
| "apply_setting (S_slidesToShow v) o' = o'\<lparr>o_slidesToShow := v\<rparr>"
| "apply_setting (S_slidesToScroll v) o' = o'\<lparr>o_slidesToScroll := v\<rparr>"
| "apply_setting (S_speed v) o' = o'\<lparr>o_speed := v\<rparr>"
| "apply_setting (S_swipe v) o' = o'\<lparr>o_swipe := v\<rparr>"
| "apply_setting (S_swipeToSlide v) o' = o'\<lparr>o_swipeToSlide := v\<rparr>"
| "apply_setting (S_touchMove v) o' = o'\<lparr>o_touchMove := v\<rparr>"
| "apply_setting (S_touchThreshold v) o' = o'\<lparr>o_touchThreshold := v\<rparr>"
| "apply_setting (S_useCSS v) o' = o'\<lparr>o_useCSS := v\<rparr>"
| "apply_setting (S_useTransform v) o' = o'\<lparr>o_useTransform := v\<rparr>"
| "apply_setting (S_variableWidth v) o' = o'\<lparr>o_variableWidth := v\<rparr>"
| "apply_setting (S_vertical v) o' = o'\<lparr>o_vertical := v\<rparr>"
| "apply_setting (S_verticalSwiping v) o' = o'\<lparr>o_verticalSwiping := v\<rparr>"
| "apply_setting (S_waitForAnimate v) o' = o'\<lparr>o_waitForAnimate := v\<rparr>"
| "apply_setting (S_zIndex v) o' = o'\<lparr>o_zIndex := v\<rparr>"

definition extend_options :: "options \<Rightarrow> setting list \<Rightarrow> options" where
  "extend_options o' ss = fold apply_setting ss o'"

lemma extend_options_Nil [simp]: "extend_options o' [] = o'"
  by (simp add: extend_options_def)

lemma extend_options_append: "extend_options o' (ss @ ts) = extend_options (extend_options o' ss) ts"
  by (simp add: extend_options_def)

text \<open>What a breakpoint stands for: settings to use below it, or the removal of the slider.\<close>

datatype bp_settings = Unslick | Settings "setting list"

subsection \<open>The slider\<close>

datatype anim_type = ANull | AFalse | AProp string

record touch =
  fingerCount :: "int option"
  startX :: "real option"
  startY :: "real option"
  curX :: "real option"
  curY :: "real option"
  swipeLength :: "real option"
  minSwipe :: "jsnum option"
  edgeHit :: "bool option"

definition no_touch :: touch where
  "no_touch = \<lparr>fingerCount = None, startX = None, startY = None, curX = None, curY = None,
               swipeLength = None, minSwipe = None, edgeHit = None\<rparr>"

datatype sevent =
    E_init | E_reInit | E_destroy | E_setPosition
  | E_beforeChange int int | E_afterChange int
  | E_edge string | E_swipe string
  | E_breakpoint "real option" | E_unslick "real option"
  | E_lazyLoaded string | E_lazyLoadError string | E_allImagesLoaded
  | F_focus int
  | P_preventDefault
  | N_slideHandler int
  | N_setSlideClasses int

text \<open>
  \<open>N_slideHandler i\<close> and \<open>N_setSlideClasses i\<close> are the calls made on the sliders of
  \<open>asNavFor\<close>; \<open>F_focus i\<close> is the focus given to the content of dot \<open>i\<close>,
  \<open>P_preventDefault\<close> a call that keeps the browser from its default action.

  A task is a callback handed to the browser.  \<open>After_animation i\<close> is the completion of an
  animation that ends in \<open>postSlide(i)\<close>; \<open>After_transition d i\<close> is the same from a timeout,
  which first switches the transition of the track (\<open>None\<close>) or of slide \<open>d\<close> off.
\<close>

datatype task =
    After_animation int
  | After_transition "int option" int
  | Focus_timeout nat
  | Resize_timeout nat
  | Image_load nat nat string
  | Image_fade_out nat nat string
  | Image_fade_in nat nat
  | Progressive_load nat nat nat string
  | Progressive_retry nat

datatype target =
    On_list | On_document | On_window | On_prev | On_next | On_dots | On_slider
  | On_track_children | On_track_undraggable | On_every_li

text \<open>
  jQuery finds the handler to remove by the identity of the function behind a proxy, so a
  handler is that function; what the proxy or the event data pass to it is its argument.
\<close>

datatype handler =
    H_changeSlide string | H_interrupt bool | H_swipe string | H_click | H_visibility | H_key
  | H_select | H_orientationChange | H_resize | H_preventDefault | H_setPosition | H_focus

record binding =
  b_target :: target
  b_event :: string
  b_uid :: "nat option"
  b_handler :: handler
  b_owner :: nat

record slick =
  options :: options
  originalSettings :: options
  optionsShared :: bool
  responsive :: "(real \<times> bp_settings) list option"
  instanceUid :: nat
  animating :: bool
  dragging :: bool
  autoPlayTimer :: "nat option"
  currentDirection :: int
  currentLeft :: jsnum
  currentSlide :: int
  direction :: int
  dotItems :: "elem list option"
  listWidth :: real
  listHeight :: real
  nextArrow :: "elem list option"
  prevArrow :: "elem list option"
  slideCount :: int
  slideWidth :: real
  slides :: "nat list"
  slideOffset :: real
  swipeLeft :: "jsnum option"
  touchObject :: touch
  initialTouch :: touch
  touchShared :: bool
  transformsEnabled :: bool
  unslicked :: bool
  activeBreakpoint :: "real option"
  animType :: anim_type
  breakpoints :: "real list"
  breakpointSettings :: "real \<Rightarrow> bp_settings option"
  cssTransitions :: bool
  focussed :: bool
  interrupted :: bool
  paused :: bool
  positionProp :: string
  respondTo :: "string option"
  shouldClick :: bool
  slidesCache :: "nat list option"
  transformType :: string
  transitionType :: string
  windowWidth :: real
  windowDelay :: "nat option"
  els :: "nat \<Rightarrow> elem"
  nextEl :: nat
  sliderKids :: "nat list"
  track :: "nat list"
  sliderEl :: elem
  listEl :: elem
  trackEl :: elem
  dotsInDoc :: bool
  prevInDoc :: bool
  nextInDoc :: bool
  timers :: "nat list"
  nextTimer :: nat
  tasks :: "task list"
  trace :: "sevent list"
  bindings :: "binding list"
  dotsHidden :: bool

text \<open>What the browser supplies.\<close>

record body_style =
  has_WebkitTransition :: bool
  has_MozTransition :: bool
  has_msTransition :: bool
  has_OTransform :: bool
  has_MozTransform :: bool
  has_webkitTransform :: bool
  has_msTransform :: bool
  has_transform :: bool
  has_perspectiveProperty :: bool
  has_webkitPerspective :: bool
  has_MozPerspective :: bool

record env =
  list_width :: "slick \<Rightarrow> real"
  list_height :: "slick \<Rightarrow> real"
  track_width :: "slick \<Rightarrow> real"
  outer_height :: "slick \<Rightarrow> nat \<Rightarrow> real"
  outer_width :: "slick \<Rightarrow> nat \<Rightarrow> real"
  outer_width_margin :: "slick \<Rightarrow> nat \<Rightarrow> real"
  el_width :: "slick \<Rightarrow> nat \<Rightarrow> real"
  offset_left :: "slick \<Rightarrow> nat \<Rightarrow> real"
  slider_width :: "slick \<Rightarrow> real"
  window_inner_width :: real
  window_width :: real
  document_hidden :: bool
  in_focus :: "nat \<Rightarrow> bool"
  selects :: "string \<Rightarrow> elem list \<Rightarrow> nat \<Rightarrow> bool"
  jq :: "slick \<Rightarrow> string \<Rightarrow> elem list"
  nav_found :: "string \<Rightarrow> bool"
  nav_shows_all :: "string \<Rightarrow> bool"
  body :: body_style

subsection \<open>Collections of elements\<close>

text \<open>
  \<open>on_els\<close> runs an operation on every element of a collection, \<open>eq\<close> and \<open>js_slice\<close>
  are jQuery's: a negative position counts from the end, one out of range is cut off.
\<close>

definition on_els :: "nat list \<Rightarrow> (elem \<Rightarrow> elem) \<Rightarrow> (nat \<Rightarrow> elem) \<Rightarrow> nat \<Rightarrow> elem" where
  "on_els is f h = (\<lambda>i. if i \<in> set is then f (h i) else h i)"

definition eq :: "int \<Rightarrow> 'a list \<Rightarrow> 'a list" where
  "eq i xs =
     (let j = (if i < 0 then int (length xs) + i else i)
      in if 0 \<le> j \<and> j < int (length xs) then [xs ! nat j] else [])"

definition slice_pos :: "nat \<Rightarrow> int \<Rightarrow> nat" where
  "slice_pos n i = nat (if i < 0 then max (int n + i) 0 else min i (int n))"

definition js_slice :: "int \<Rightarrow> int \<Rightarrow> 'a list \<Rightarrow> 'a list" where
  "js_slice a b xs =
     (let p = slice_pos (length xs) a in take (slice_pos (length xs) b - p) (drop p xs))"

text \<open>A fractional bound is cut off towards zero.\<close>

definition js_trunc :: "real \<Rightarrow> int" where
  "js_trunc r = (if r < 0 then \<lceil>r\<rceil> else \<lfloor>r\<rfloor>)"

definition mod_els :: "nat list \<Rightarrow> (elem \<Rightarrow> elem) \<Rightarrow> slick \<Rightarrow> slick" where
  "mod_els is f s = s\<lparr>els := on_els is f (els s)\<rparr>"

lemma on_els_apply: "on_els is f h i = (if i \<in> set is then f (h i) else h i)"
  by (simp add: on_els_def)

lemma on_els_in [dom_simps]: "i \<in> set is \<Longrightarrow> on_els is f h i = f (h i)"
  by (simp add: on_els_def)

lemma on_els_out [dom_simps]: "i \<notin> set is \<Longrightarrow> on_els is f h i = h i"
  by (simp add: on_els_def)

lemma on_els_Nil [simp]: "on_els [] f h = h"
  by (simp add: on_els_def)

lemma mod_els_Nil [simp]: "mod_els [] f s = s"
  by (simp add: mod_els_def)

lemma eq_in_range [simp]: "0 \<le> i \<Longrightarrow> i < int (length xs) \<Longrightarrow> eq i xs = [xs ! nat i]"
  by (simp add: eq_def)

lemma eq_beyond [simp]: "int (length xs) \<le> i \<Longrightarrow> eq i xs = []"
  by (auto simp: eq_def)

lemma set_eq_subset: "set (eq i xs) \<subseteq> set xs"
  by (auto simp: eq_def Let_def)

lemma set_js_slice_subset: "set (js_slice a b xs) \<subseteq> set xs"
  by (auto simp: js_slice_def Let_def dest!: in_set_takeD in_set_dropD)

lemma js_slice_window:
  assumes "0 \<le> a" "a \<le> b" "b \<le> int (length xs)"
  shows "js_slice a b xs = take (nat (b - a)) (drop (nat a) xs)"
proof -
  have "slice_pos (length xs) a = nat a" "slice_pos (length xs) b = nat b"
    using assms by (simp_all add: slice_pos_def)
  then show ?thesis using assms by (simp add: js_slice_def Let_def nat_diff_distrib)
qed

lemma length_js_slice_window:
  "0 \<le> a \<Longrightarrow> a \<le> b \<Longrightarrow> b \<le> int (length xs) \<Longrightarrow> length (js_slice a b xs) = nat (b - a)"
  by (simp add: js_slice_window nat_diff_distrib min_def, linarith)

lemma js_slice_cut:
  assumes "0 \<le> a" "a \<le> int (length xs)" "int (length xs) \<le> b"
  shows "js_slice a b xs = drop (nat a) xs"
proof -
  have "slice_pos (length xs) a = nat a" "slice_pos (length xs) b = length xs"
    using assms by (simp_all add: slice_pos_def)
  then show ?thesis using assms by (simp add: js_slice_def Let_def)
qed

lemma nth_js_slice_window:
  assumes "0 \<le> a" "a \<le> b" "b \<le> int (length xs)" "int k < b - a"
  shows "js_slice a b xs ! k = xs ! (nat a + k)"
  using assms by (subst js_slice_window) (auto simp: nat_diff_distrib)

lemma in_js_slice_iff:
  assumes "distinct xs" "0 \<le> a" "a \<le> b" "b \<le> int (length xs)" "i < length xs"
  shows "xs ! i \<in> set (js_slice a b xs) \<longleftrightarrow> a \<le> int i \<and> int i < b"
proof
  assume "xs ! i \<in> set (js_slice a b xs)"
  then obtain k where k: "k < length (js_slice a b xs)" "js_slice a b xs ! k = xs ! i"
    by (metis in_set_conv_nth)
  have k': "int k < b - a" using k(1) assms by (simp add: length_js_slice_window)
  then have "xs ! (nat a + k) = xs ! i"
    using k(2) assms by (simp add: nth_js_slice_window)
  moreover have "nat a + k < length xs" using k' assms by linarith
  ultimately have "nat a + k = i" using assms by (simp add: nth_eq_iff_index_eq)
  then show "a \<le> int i \<and> int i < b" using k' assms by linarith
next
  assume r: "a \<le> int i \<and> int i < b"
  define k where "k = i - nat a"
  have "int k < b - a" "nat a + k = i" using r assms by (auto simp: k_def)
  then have "js_slice a b xs ! k = xs ! i" using assms by (simp add: nth_js_slice_window)
  moreover have "k < length (js_slice a b xs)"
    using \<open>int k < b - a\<close> assms by (simp add: length_js_slice_window)
  ultimately show "xs ! i \<in> set (js_slice a b xs)" by (metis nth_mem)
qed

subsection \<open>Writing to the state\<close>

text \<open>A write to an option also changes \<open>originalSettings\<close> as long as it is the same object.\<close>

definition write_option :: "(options \<Rightarrow> options) \<Rightarrow> slick \<Rightarrow> slick" where
  "write_option f s =
     (let o' = f (options s)
      in s\<lparr>options := o',
           originalSettings := (if optionsShared s then o' else originalSettings s)\<rparr>)"

definition new_touch :: "slick \<Rightarrow> slick" where
  "new_touch s = s\<lparr>touchObject := no_touch, touchShared := False\<rparr>"

definition write_touch :: "(touch \<Rightarrow> touch) \<Rightarrow> slick \<Rightarrow> slick" where
  "write_touch f s =
     (let t = f (touchObject s)
      in s\<lparr>touchObject := t,
           initialTouch := (if touchShared s then t else initialTouch s)\<rparr>)"

definition trigger :: "sevent \<Rightarrow> slick \<Rightarrow> slick" where
  "trigger ev s = s\<lparr>trace := trace s @ [ev]\<rparr>"

definition later :: "task \<Rightarrow> slick \<Rightarrow> slick" where
  "later t s = s\<lparr>tasks := tasks s @ [t]\<rparr>"

lemma options_write_option [simp]: "options (write_option f s) = f (options s)"
  by (simp add: write_option_def Let_def)

lemma touchObject_write_touch [simp]: "touchObject (write_touch f s) = f (touchObject s)"
  by (simp add: write_touch_def Let_def)

lemma touchObject_new_touch [simp]: "touchObject (new_touch s) = no_touch"
  by (simp add: new_touch_def)

subsection \<open>A new slider\<close>

text \<open>The values of \<open>_.initials\<close>, which \<open>refresh\<close> restores.\<close>

definition initials :: "slick \<Rightarrow> slick" where
  "initials s = s\<lparr>
     animating := False,
     dragging := False,
     autoPlayTimer := None,
     currentDirection := 0,
     currentLeft := Fin 0,
     currentSlide := 0,
     direction := 1,
     dotItems := None,
     listWidth := 0,
     listHeight := 0,
     nextArrow := None,
     prevArrow := None,
     slideCount := 0,
     slideWidth := 0,
     slides := [],
     slideOffset := 0,
     swipeLeft := None,
     touchObject := initialTouch s,
     touchShared := True,
     transformsEnabled := False,
     unslicked := False\<rparr>"

text \<open>
  The constructor up to \<open>registerBreakpoints\<close>: \<open>ks\<close> are the children of the element,
  \<open>h\<close> the store (no reference from \<open>n\<close> on is in use), \<open>u\<close> the counter of instances,
  \<open>settings\<close> and \<open>dataSettings\<close> the two sources of options.
\<close>

definition new_slick ::
  "nat \<Rightarrow> nat list \<Rightarrow> (nat \<Rightarrow> elem) \<Rightarrow> nat \<Rightarrow> elem \<Rightarrow> setting list \<Rightarrow> setting list \<Rightarrow>
   (real \<times> bp_settings) list option \<Rightarrow> binding list \<Rightarrow> slick" where
  "new_slick u ks h n e settings dataSettings resp bs =
     (let o' = extend_options (extend_options defaults settings) dataSettings
      in \<lparr>options = o', originalSettings = o', optionsShared = True,
          responsive = resp, instanceUid = u,
          animating = False, dragging = False, autoPlayTimer = None, currentDirection = 0,
          currentLeft = Fin 0, currentSlide = o_initialSlide o', direction = 1, dotItems = None,
          listWidth = 0, listHeight = 0, nextArrow = None, prevArrow = None,
          slideCount = 0, slideWidth = 0, slides = [], slideOffset = 0, swipeLeft = None,
          touchObject = no_touch, initialTouch = no_touch, touchShared = True,
          transformsEnabled = False, unslicked = False,
          activeBreakpoint = None, animType = ANull, breakpoints = [],
          breakpointSettings = Map.empty, cssTransitions = False, focussed = False,
          interrupted = False, paused = True, positionProp = '''', respondTo = None,
          shouldClick = True, slidesCache = None, transformType = '''', transitionType = '''',
          windowWidth = 0, windowDelay = None,
          els = h, nextEl = n, sliderKids = ks, track = [],
          sliderEl = e, listEl = blank, trackEl = blank,
          dotsInDoc = False, prevInDoc = False, nextInDoc = False,
          timers = [], nextTimer = 0, tasks = [], trace = [], bindings = bs, dotsHidden = False\<rparr>)"

text \<open>\<open>getOption\<close> for the options that are read by name, and the two trivial getters.\<close>

definition getCurrent :: "slick \<Rightarrow> int" where
  "getCurrent s = currentSlide s"

definition getSlick :: "slick \<Rightarrow> slick" where
  "getSlick s = s"

text \<open>The options under which the paging loops make progress and the layout is defined.\<close>

definition opts_ok :: "options \<Rightarrow> bool" where
  "opts_ok o' \<longleftrightarrow> 0 < o_slidesToShow o' \<and> 0 < o_slidesToScroll o'"

subsection \<open>A small slider\<close>

text \<open>
  \<open>sample n ss\<close> is a slider of \<open>n\<close> slides with the settings \<open>ss\<close>, built but without
  clones, arrows and dots; the examples start from it.
\<close>

lemma defaults_simps [simp]:
  "o_accessibility defaults = True" "o_adaptiveHeight defaults = False" "o_arrows defaults = True"
  "o_asNavFor defaults = None" "o_autoplay defaults = False" "o_centerMode defaults = False"
  "o_dots defaults = False" "o_draggable defaults = True" "o_fade defaults = False"
  "o_focusOnSelect defaults = False" "o_infinite defaults = True" "o_initialSlide defaults = 0"
  "o_lazyLoad defaults = ''ondemand''" "o_mobileFirst defaults = False"
  "o_pauseOnHover defaults = True" "o_pauseOnFocus defaults = True"
  "o_pauseOnDotsHover defaults = False" "o_respondTo defaults = ''window''"
  "o_rows defaults = 1" "o_rtl defaults = False" "o_slide defaults = ''''"
  "o_slidesPerRow defaults = 1" "o_slidesToShow defaults = 1" "o_slidesToScroll defaults = 1"
  "o_swipe defaults = True" "o_swipeToSlide defaults = False" "o_touchMove defaults = True"
  "o_touchThreshold defaults = 5" "o_useCSS defaults = True" "o_useTransform defaults = True"
  "o_variableWidth defaults = False" "o_vertical defaults = False"
  "o_verticalSwiping defaults = False" "o_waitForAnimate defaults = True"
  "o_zIndex defaults = 1000" "o_edgeFriction defaults = 35 / 100" "o_speed defaults = 500"
  "o_autoplaySpeed defaults = 3000"
  by (simp_all add: defaults_def)

lemma extend_options_Cons [simp]: "extend_options o' (x # ss) = extend_options (apply_setting x o') ss"
  by (simp add: extend_options_def)

definition sample :: "nat \<Rightarrow> setting list \<Rightarrow> slick" where
  "sample n ss =
     (new_slick 0 [] (\<lambda>_. blank\<lparr>classes := {Slick_slide}\<rparr>) n blank ss [] None [])
       \<lparr>slideCount := int n, slides := [0 ..< n], track := [0 ..< n], slideWidth := 100\<rparr>"

lemma sample_simps [simp]:
  "options (sample n ss) = extend_options defaults ss"
  "slideCount (sample n ss) = int n"
  "currentSlide (sample n ss) = o_initialSlide (extend_options defaults ss)"
  "slides (sample n ss) = [0 ..< n]"
  "track (sample n ss) = [0 ..< n]"
  "slideWidth (sample n ss) = 100"
  "els (sample n ss) = (\<lambda>_. blank\<lparr>classes := {Slick_slide}\<rparr>)"
  "animating (sample n ss) = False"
  "paused (sample n ss) = True"
  "interrupted (sample n ss) = False"
  "focussed (sample n ss) = False"
  "direction (sample n ss) = 1"
  "swipeLeft (sample n ss) = None"
  "dotItems (sample n ss) = None"
  "prevArrow (sample n ss) = None"
  "nextArrow (sample n ss) = None"
  "tasks (sample n ss) = []"
  "trace (sample n ss) = []"
  "unslicked (sample n ss) = False"
  "nextEl (sample n ss) = n"
  "timers (sample n ss) = []"
  "nextTimer (sample n ss) = 0"
  "autoPlayTimer (sample n ss) = None"
  "optionsShared (sample n ss) = True"
  "originalSettings (sample n ss) = extend_options defaults ss"
  "slidesCache (sample n ss) = None"
  "sliderKids (sample n ss) = []"
  "cssTransitions (sample n ss) = False"
  "transformsEnabled (sample n ss) = False"
  "touchObject (sample n ss) = no_touch"
  "dragging (sample n ss) = False"
  "bindings (sample n ss) = []"
  "instanceUid (sample n ss) = 0"
  "trackEl (sample n ss) = blank"
  "positionProp (sample n ss) = []"
  by (simp_all add: sample_def new_slick_def Let_def)

text \<open>A browser for examples: every element is 100 wide and 50 high, and nothing is found.\<close>

definition plain_env :: env where
  "plain_env = \<lparr>
     list_width = (\<lambda>_. 300), list_height = (\<lambda>_. 50), track_width = (\<lambda>_. 1000),
     outer_height = (\<lambda>_ _. 50), outer_width = (\<lambda>_ _. 100), outer_width_margin = (\<lambda>_ _. 100),
     el_width = (\<lambda>_ _. 100), offset_left = (\<lambda>_ i. 100 * real i), slider_width = (\<lambda>_. 300),
     window_inner_width = 800, window_width = 800, document_hidden = False,
     in_focus = (\<lambda>_. False), selects = (\<lambda>_ _ _. True), jq = (\<lambda>_ _. [blank]),
     nav_found = (\<lambda>_. False), nav_shows_all = (\<lambda>_. False),
     body = \<lparr>has_WebkitTransition = True, has_MozTransition = False, has_msTransition = False,
       has_OTransform = False, has_MozTransform = False, has_webkitTransform = True,
       has_msTransform = False, has_transform = True, has_perspectiveProperty = True,
       has_webkitPerspective = True, has_MozPerspective = False\<rparr>\<rparr>"

subsection \<open>Frames\<close>

text \<open>
  \<open>frame s\<close> is the state without its elements and tasks: an operation that leaves it alone
  changes nothing else.
\<close>

definition frame :: "slick \<Rightarrow> slick" where
  "frame s = s\<lparr>els := (\<lambda>_. blank), tasks := []\<rparr>"

lemma frame_update [simp]:
  "frame (s\<lparr>els := h\<rparr>) = frame s" "frame (s\<lparr>tasks := ts\<rparr>) = frame s"
  by (simp_all add: frame_def)

lemma frame_eqD:
  assumes "frame t = frame s"
  shows
    "options t = options s" "originalSettings t = originalSettings s"
    "optionsShared t = optionsShared s" "responsive t = responsive s"
    "instanceUid t = instanceUid s" "animating t = animating s" "dragging t = dragging s"
    "autoPlayTimer t = autoPlayTimer s" "currentDirection t = currentDirection s"
    "currentLeft t = currentLeft s" "currentSlide t = currentSlide s" "direction t = direction s"
    "dotItems t = dotItems s" "listWidth t = listWidth s" "listHeight t = listHeight s"
    "nextArrow t = nextArrow s" "prevArrow t = prevArrow s" "slideCount t = slideCount s"
    "slideWidth t = slideWidth s" "slides t = slides s" "slideOffset t = slideOffset s"
    "swipeLeft t = swipeLeft s" "touchObject t = touchObject s" "initialTouch t = initialTouch s"
    "touchShared t = touchShared s" "transformsEnabled t = transformsEnabled s"
    "unslicked t = unslicked s" "activeBreakpoint t = activeBreakpoint s"
    "animType t = animType s" "breakpoints t = breakpoints s"
    "breakpointSettings t = breakpointSettings s" "cssTransitions t = cssTransitions s"
    "focussed t = focussed s" "interrupted t = interrupted s" "paused t = paused s"
    "positionProp t = positionProp s" "respondTo t = respondTo s" "shouldClick t = shouldClick s"
    "slidesCache t = slidesCache s" "transformType t = transformType s"
    "transitionType t = transitionType s" "windowWidth t = windowWidth s"
    "windowDelay t = windowDelay s" "nextEl t = nextEl s" "sliderKids t = sliderKids s"
    "track t = track s" "sliderEl t = sliderEl s" "listEl t = listEl s" "trackEl t = trackEl s"
    "dotsInDoc t = dotsInDoc s" "prevInDoc t = prevInDoc s" "nextInDoc t = nextInDoc s"
    "timers t = timers s" "nextTimer t = nextTimer s" "trace t = trace s"
    "bindings t = bindings s"
  subgoal using arg_cong [OF assms, of options] by (simp add: frame_def)
  subgoal using arg_cong [OF assms, of originalSettings] by (simp add: frame_def)
  subgoal using arg_cong [OF assms, of optionsShared] by (simp add: frame_def)
  subgoal using arg_cong [OF assms, of responsive] by (simp add: frame_def)
  subgoal using arg_cong [OF assms, of instanceUid] by (simp add: frame_def)
  subgoal using arg_cong [OF assms, of animating] by (simp add: frame_def)
  subgoal using arg_cong [OF assms, of dragging] by (simp add: frame_def)
  subgoal using arg_cong [OF assms, of autoPlayTimer] by (simp add: frame_def)
  subgoal using arg_cong [OF assms, of currentDirection] by (simp add: frame_def)
  subgoal using arg_cong [OF assms, of currentLeft] by (simp add: frame_def)
  subgoal using arg_cong [OF assms, of currentSlide] by (simp add: frame_def)
  subgoal using arg_cong [OF assms, of direction] by (simp add: frame_def)
  subgoal using arg_cong [OF assms, of dotItems] by (simp add: frame_def)
  subgoal using arg_cong [OF assms, of listWidth] by (simp add: frame_def)
  subgoal using arg_cong [OF assms, of listHeight] by (simp add: frame_def)
  subgoal using arg_cong [OF assms, of nextArrow] by (simp add: frame_def)
  subgoal using arg_cong [OF assms, of prevArrow] by (simp add: frame_def)
  subgoal using arg_cong [OF assms, of slideCount] by (simp add: frame_def)
  subgoal using arg_cong [OF assms, of slideWidth] by (simp add: frame_def)
  subgoal using arg_cong [OF assms, of slides] by (simp add: frame_def)
  subgoal using arg_cong [OF assms, of slideOffset] by (simp add: frame_def)
  subgoal using arg_cong [OF assms, of swipeLeft] by (simp add: frame_def)
  subgoal using arg_cong [OF assms, of touchObject] by (simp add: frame_def)
  subgoal using arg_cong [OF assms, of initialTouch] by (simp add: frame_def)
  subgoal using arg_cong [OF assms, of touchShared] by (simp add: frame_def)
  subgoal using arg_cong [OF assms, of transformsEnabled] by (simp add: frame_def)
  subgoal using arg_cong [OF assms, of unslicked] by (simp add: frame_def)
  subgoal using arg_cong [OF assms, of activeBreakpoint] by (simp add: frame_def)
  subgoal using arg_cong [OF assms, of animType] by (simp add: frame_def)
  subgoal using arg_cong [OF assms, of breakpoints] by (simp add: frame_def)
  subgoal using arg_cong [OF assms, of breakpointSettings] by (simp add: frame_def)
  subgoal using arg_cong [OF assms, of cssTransitions] by (simp add: frame_def)
  subgoal using arg_cong [OF assms, of focussed] by (simp add: frame_def)
  subgoal using arg_cong [OF assms, of interrupted] by (simp add: frame_def)
  subgoal using arg_cong [OF assms, of paused] by (simp add: frame_def)
  subgoal using arg_cong [OF assms, of positionProp] by (simp add: frame_def)
  subgoal using arg_cong [OF assms, of respondTo] by (simp add: frame_def)
  subgoal using arg_cong [OF assms, of shouldClick] by (simp add: frame_def)
  subgoal using arg_cong [OF assms, of slidesCache] by (simp add: frame_def)
  subgoal using arg_cong [OF assms, of transformType] by (simp add: frame_def)
  subgoal using arg_cong [OF assms, of transitionType] by (simp add: frame_def)
  subgoal using arg_cong [OF assms, of windowWidth] by (simp add: frame_def)
  subgoal using arg_cong [OF assms, of windowDelay] by (simp add: frame_def)
  subgoal using arg_cong [OF assms, of nextEl] by (simp add: frame_def)
  subgoal using arg_cong [OF assms, of sliderKids] by (simp add: frame_def)
  subgoal using arg_cong [OF assms, of track] by (simp add: frame_def)
  subgoal using arg_cong [OF assms, of sliderEl] by (simp add: frame_def)
  subgoal using arg_cong [OF assms, of listEl] by (simp add: frame_def)
  subgoal using arg_cong [OF assms, of trackEl] by (simp add: frame_def)
  subgoal using arg_cong [OF assms, of dotsInDoc] by (simp add: frame_def)
  subgoal using arg_cong [OF assms, of prevInDoc] by (simp add: frame_def)
  subgoal using arg_cong [OF assms, of nextInDoc] by (simp add: frame_def)
  subgoal using arg_cong [OF assms, of timers] by (simp add: frame_def)
  subgoal using arg_cong [OF assms, of nextTimer] by (simp add: frame_def)
  subgoal using arg_cong [OF assms, of trace] by (simp add: frame_def)
  subgoal using arg_cong [OF assms, of bindings] by (simp add: frame_def)
  done

text \<open>
  \<open>still s\<close> also drops what the layout and the animations write: the styles of list and track, the
  sizes, the position, and the events triggered.
\<close>

definition still :: "slick \<Rightarrow> slick" where
  "still s = (frame s)\<lparr>listEl := blank, trackEl := blank, sliderEl := blank, listWidth := 0,
     listHeight := 0, slideWidth := 0, slideOffset := 0, currentLeft := Fin 0, trace := []\<rparr>"

lemma still_update [simp]:
  "still (s\<lparr>els := h\<rparr>) = still s" "still (s\<lparr>tasks := ts\<rparr>) = still s"
  "still (s\<lparr>listEl := x0\<rparr>) = still s"
  "still (s\<lparr>trackEl := x1\<rparr>) = still s"
  "still (s\<lparr>sliderEl := x2\<rparr>) = still s"
  "still (s\<lparr>listWidth := x3\<rparr>) = still s"
  "still (s\<lparr>listHeight := x4\<rparr>) = still s"
  "still (s\<lparr>slideWidth := x5\<rparr>) = still s"
  "still (s\<lparr>slideOffset := x6\<rparr>) = still s"
  "still (s\<lparr>currentLeft := x7\<rparr>) = still s"
  "still (s\<lparr>trace := x8\<rparr>) = still s"
  by (simp_all add: still_def frame_def)

lemma still_frame: "frame t = frame s \<Longrightarrow> still t = still s"
  by (simp add: still_def)

lemma still_eqD:
  assumes "still t = still s"
  shows
    "options t = options s" "originalSettings t = originalSettings s"
    "optionsShared t = optionsShared s" "responsive t = responsive s"
    "instanceUid t = instanceUid s" "animating t = animating s" "dragging t = dragging s"
    "autoPlayTimer t = autoPlayTimer s" "currentDirection t = currentDirection s"
    "currentSlide t = currentSlide s" "direction t = direction s" "dotItems t = dotItems s"
    "nextArrow t = nextArrow s" "prevArrow t = prevArrow s" "slideCount t = slideCount s"
    "slides t = slides s" "swipeLeft t = swipeLeft s" "touchObject t = touchObject s"
    "initialTouch t = initialTouch s" "touchShared t = touchShared s"
    "transformsEnabled t = transformsEnabled s" "unslicked t = unslicked s"
    "activeBreakpoint t = activeBreakpoint s" "animType t = animType s"
    "breakpoints t = breakpoints s" "breakpointSettings t = breakpointSettings s"
    "cssTransitions t = cssTransitions s" "focussed t = focussed s"
    "interrupted t = interrupted s" "paused t = paused s" "positionProp t = positionProp s"
    "respondTo t = respondTo s" "shouldClick t = shouldClick s" "slidesCache t = slidesCache s"
    "transformType t = transformType s" "transitionType t = transitionType s"
    "windowWidth t = windowWidth s" "windowDelay t = windowDelay s" "nextEl t = nextEl s"
    "sliderKids t = sliderKids s" "track t = track s" "dotsInDoc t = dotsInDoc s"
    "prevInDoc t = prevInDoc s" "nextInDoc t = nextInDoc s" "timers t = timers s"
    "nextTimer t = nextTimer s" "bindings t = bindings s"
  subgoal using arg_cong [OF assms, of options] by (simp add: still_def frame_def)
  subgoal using arg_cong [OF assms, of originalSettings] by (simp add: still_def frame_def)
  subgoal using arg_cong [OF assms, of optionsShared] by (simp add: still_def frame_def)
  subgoal using arg_cong [OF assms, of responsive] by (simp add: still_def frame_def)
  subgoal using arg_cong [OF assms, of instanceUid] by (simp add: still_def frame_def)
  subgoal using arg_cong [OF assms, of animating] by (simp add: still_def frame_def)
  subgoal using arg_cong [OF assms, of dragging] by (simp add: still_def frame_def)
  subgoal using arg_cong [OF assms, of autoPlayTimer] by (simp add: still_def frame_def)
  subgoal using arg_cong [OF assms, of currentDirection] by (simp add: still_def frame_def)
  subgoal using arg_cong [OF assms, of currentSlide] by (simp add: still_def frame_def)
  subgoal using arg_cong [OF assms, of direction] by (simp add: still_def frame_def)
  subgoal using arg_cong [OF assms, of dotItems] by (simp add: still_def frame_def)
  subgoal using arg_cong [OF assms, of nextArrow] by (simp add: still_def frame_def)
  subgoal using arg_cong [OF assms, of prevArrow] by (simp add: still_def frame_def)
  subgoal using arg_cong [OF assms, of slideCount] by (simp add: still_def frame_def)
  subgoal using arg_cong [OF assms, of slides] by (simp add: still_def frame_def)
  subgoal using arg_cong [OF assms, of swipeLeft] by (simp add: still_def frame_def)
  subgoal using arg_cong [OF assms, of touchObject] by (simp add: still_def frame_def)
  subgoal using arg_cong [OF assms, of initialTouch] by (simp add: still_def frame_def)
  subgoal using arg_cong [OF assms, of touchShared] by (simp add: still_def frame_def)
  subgoal using arg_cong [OF assms, of transformsEnabled] by (simp add: still_def frame_def)
  subgoal using arg_cong [OF assms, of unslicked] by (simp add: still_def frame_def)
  subgoal using arg_cong [OF assms, of activeBreakpoint] by (simp add: still_def frame_def)
  subgoal using arg_cong [OF assms, of animType] by (simp add: still_def frame_def)
  subgoal using arg_cong [OF assms, of breakpoints] by (simp add: still_def frame_def)
  subgoal using arg_cong [OF assms, of breakpointSettings] by (simp add: still_def frame_def)
  subgoal using arg_cong [OF assms, of cssTransitions] by (simp add: still_def frame_def)
  subgoal using arg_cong [OF assms, of focussed] by (simp add: still_def frame_def)
  subgoal using arg_cong [OF assms, of interrupted] by (simp add: still_def frame_def)
  subgoal using arg_cong [OF assms, of paused] by (simp add: still_def frame_def)
  subgoal using arg_cong [OF assms, of positionProp] by (simp add: still_def frame_def)
  subgoal using arg_cong [OF assms, of respondTo] by (simp add: still_def frame_def)
  subgoal using arg_cong [OF assms, of shouldClick] by (simp add: still_def frame_def)
  subgoal using arg_cong [OF assms, of slidesCache] by (simp add: still_def frame_def)
  subgoal using arg_cong [OF assms, of transformType] by (simp add: still_def frame_def)
  subgoal using arg_cong [OF assms, of transitionType] by (simp add: still_def frame_def)
  subgoal using arg_cong [OF assms, of windowWidth] by (simp add: still_def frame_def)
  subgoal using arg_cong [OF assms, of windowDelay] by (simp add: still_def frame_def)
  subgoal using arg_cong [OF assms, of nextEl] by (simp add: still_def frame_def)
  subgoal using arg_cong [OF assms, of sliderKids] by (simp add: still_def frame_def)
  subgoal using arg_cong [OF assms, of track] by (simp add: still_def frame_def)
  subgoal using arg_cong [OF assms, of dotsInDoc] by (simp add: still_def frame_def)
  subgoal using arg_cong [OF assms, of prevInDoc] by (simp add: still_def frame_def)
  subgoal using arg_cong [OF assms, of nextInDoc] by (simp add: still_def frame_def)
  subgoal using arg_cong [OF assms, of timers] by (simp add: still_def frame_def)
  subgoal using arg_cong [OF assms, of nextTimer] by (simp add: still_def frame_def)
  subgoal using arg_cong [OF assms, of bindings] by (simp add: still_def frame_def)
  done

end
