(* ===== verification/Slick_Paging.thy ===== *)
theory Slick_Paging
  imports Slick_State "HOL-Library.Monad_Syntax"
begin

text \<open>
  Paging: the slides a slider can come to rest on, the number of dots, and the number of slides
  a swipe passes (\<open>getDotCount\<close>, \<open>getNavigableIndexes\<close>, \<open>checkNavigable\<close>,
  \<open>getSlideCount\<close> of \<open>slick.js\<close>).

  The two loops advance by the smaller of \<open>slidesToScroll\<close> and \<open>slidesToShow\<close>.  They are
  partial functions: \<open>None\<close> means that the loop does not end.
\<close>

subsection \<open>The operations\<close>

definition paging_step :: "options \<Rightarrow> int" where
  "paging_step o' =
     (if o_slidesToScroll o' \<le> o_slidesToShow o' then o_slidesToScroll o' else o_slidesToShow o')"

partial_function (option) dot_loop :: "options \<Rightarrow> int \<Rightarrow> int \<Rightarrow> int \<Rightarrow> int \<Rightarrow> int option" where
  "dot_loop o' count breakPoint counter pagerQty =
     (if breakPoint < count
      then dot_loop o' count (counter + o_slidesToScroll o') (counter + paging_step o') (pagerQty + 1)
      else Some pagerQty)"

definition getDotCount :: "slick \<Rightarrow> int option" where
  "getDotCount s =
     (let o' = options s in
      do {
        pagerQty \<leftarrow>
          (if o_infinite o' then dot_loop o' (slideCount s) 0 0 0
           else if o_centerMode o' then Some (slideCount s)
           else if o_asNavFor o' = None then
             Some (1 + \<lceil>real_of_int (slideCount s - o_slidesToShow o')
                         / real_of_int (o_slidesToScroll o')\<rceil>)
           else dot_loop o' (slideCount s) 0 0 0);
        Some (pagerQty - 1)
      })"

partial_function (option) nav_loop :: "options \<Rightarrow> int \<Rightarrow> int \<Rightarrow> int \<Rightarrow> int list option" where
  "nav_loop o' max' breakPoint counter =
     (if breakPoint < max'
      then do {
        rest \<leftarrow> nav_loop o' max' (counter + o_slidesToScroll o') (counter + paging_step o');
        Some (breakPoint # rest)
      }
      else Some [])"

definition getNavigableIndexes :: "slick \<Rightarrow> int list option" where
  "getNavigableIndexes s =
     (let o' = options s in
      if \<not> o_infinite o' then nav_loop o' (slideCount s) 0 0
      else nav_loop o' (slideCount s * 2) (- o_slidesToScroll o') (- o_slidesToScroll o'))"

fun nav_scan :: "int \<Rightarrow> int \<Rightarrow> int list \<Rightarrow> int" where
  "nav_scan index prevNavigable [] = index"
| "nav_scan index prevNavigable (n # ns) =
     (if index < n then prevNavigable else nav_scan index n ns)"

definition checkNavigable :: "int \<Rightarrow> slick \<Rightarrow> int option" where
  "checkNavigable index s =
     do {
       navigables \<leftarrow> getNavigableIndexes s;
       Some (if navigables \<noteq> [] \<and> index > last navigables then last navigables
             else nav_scan index 0 navigables)
     }"

text \<open>The slides on the track, clones included, and the numeral in \<open>data-slick-index\<close>.\<close>

definition track_slides :: "slick \<Rightarrow> nat list" where
  "track_slides s = filter (\<lambda>i. Slick_slide \<in> classes (els s i)) (track s)"

definition slick_index :: "elem \<Rightarrow> int option" where
  "slick_index e = (case attrs e Data_slick_index of Some (ANum i) \<Rightarrow> Some i | _ \<Rightarrow> None)"

definition swiped_slide :: "env \<Rightarrow> slick \<Rightarrow> real \<Rightarrow> nat option" where
  "swiped_slide \<E> s centerOffset =
     find (\<lambda>i. Fin (offset_left \<E> s i - centerOffset + outer_width \<E> s i / 2)
                > (case swipeLeft s of None \<Rightarrow> Fin 0 | Some l \<Rightarrow> - l))
       (track_slides s)"

definition getSlideCount :: "env \<Rightarrow> slick \<Rightarrow> int" where
  "getSlideCount \<E> s =
     (let o' = options s;
          centerOffset = (if o_centerMode o'
            then slideWidth s * real_of_int (o_slidesToShow o' div 2) else 0)
      in if o_swipeToSlide o' then
           (case Option.bind (swiped_slide \<E> s centerOffset) (\<lambda>i. slick_index (els s i)) of
              None \<Rightarrow> 1
            | Some i \<Rightarrow> if \<bar>i - currentSlide s\<bar> = 0 then 1 else \<bar>i - currentSlide s\<bar>)
         else o_slidesToScroll o')"

subsection \<open>The loops end\<close>

lemma paging_step_pos: "opts_ok o' \<Longrightarrow> 0 < paging_step o'"
  by (simp add: opts_ok_def paging_step_def)

lemma paging_step_le_scroll: "paging_step o' \<le> o_slidesToScroll o'"
  by (simp add: paging_step_def)

lemma paging_step_scroll: "o_slidesToScroll o' \<le> o_slidesToShow o' \<Longrightarrow> paging_step o' = o_slidesToScroll o'"
  by (simp add: paging_step_def)

text \<open>The break points from the second round on: an arithmetic progression.\<close>

definition break_points :: "options \<Rightarrow> int \<Rightarrow> int \<Rightarrow> int set" where
  "break_points o' counter max' =
     {x. x < max' \<and> (\<exists>k \<ge> 0. x = counter + o_slidesToScroll o' + k * paging_step o')}"

lemma break_points_unfold:
  assumes "opts_ok o'" "counter + o_slidesToScroll o' < max'"
  shows "break_points o' counter max' =
           insert (counter + o_slidesToScroll o') (break_points o' (counter + paging_step o') max')"
proof -
  have "(\<exists>k \<ge> 0. x = counter + o_slidesToScroll o' + k * paging_step o') \<longleftrightarrow>
        x = counter + o_slidesToScroll o' \<or>
        (\<exists>k \<ge> 0. x = counter + paging_step o' + o_slidesToScroll o' + k * paging_step o')"
    (is "?l \<longleftrightarrow> ?r") for x
  proof
    assume ?l
    then obtain k where k: "k \<ge> 0" "x = counter + o_slidesToScroll o' + k * paging_step o'" by blast
    show ?r
    proof (cases "k = 0")
      case True
      with k show ?thesis by simp
    next
      case False
      with k have "k - 1 \<ge> 0"
        "x = counter + paging_step o' + o_slidesToScroll o' + (k - 1) * paging_step o'"
        by (simp_all add: algebra_simps)
      then show ?thesis by blast
    qed
  next
    assume ?r
    then show ?l
    proof
      assume "x = counter + o_slidesToScroll o'"
      then have "x = counter + o_slidesToScroll o' + 0 * paging_step o'" by simp
      then show ?l by blast
    next
      assume "\<exists>k \<ge> 0. x = counter + paging_step o' + o_slidesToScroll o' + k * paging_step o'"
      then obtain k where "k \<ge> 0"
        "x = counter + paging_step o' + o_slidesToScroll o' + k * paging_step o'" by blast
      then have "k + 1 \<ge> 0" "x = counter + o_slidesToScroll o' + (k + 1) * paging_step o'"
        by (simp_all add: algebra_simps)
      then show ?l by blast
    qed
  qed
  then show ?thesis using assms(2) by (auto simp: break_points_def)
qed

lemma break_points_empty:
  assumes "opts_ok o'" "max' \<le> counter + o_slidesToScroll o'"
  shows "break_points o' counter max' = {}"
proof -
  have "0 \<le> k * paging_step o'" if "k \<ge> 0" for k
    using that paging_step_pos [OF assms(1)] by simp
  then show ?thesis using assms(2) by (fastforce simp: break_points_def)
qed

lemma break_points_above:
  assumes "opts_ok o'" "x \<in> break_points o' counter max'"
  shows "counter + o_slidesToScroll o' \<le> x"
proof -
  from assms(2) obtain k where "k \<ge> 0" "x = counter + o_slidesToScroll o' + k * paging_step o'"
    by (auto simp: break_points_def)
  moreover from this have "0 \<le> k * paging_step o'"
    using paging_step_pos [OF assms(1)] by simp
  ultimately show ?thesis by simp
qed

lemma nav_loop_tail:
  assumes "opts_ok o'"
  shows "\<exists>ns. nav_loop o' max' (counter + o_slidesToScroll o') (counter + paging_step o') = Some ns \<and>
              set ns = break_points o' counter max' \<and> sorted_wrt (<) ns"
proof (induction "nat (max' - counter)" arbitrary: counter rule: less_induct)
  case less
  show ?case
  proof (cases "counter + o_slidesToScroll o' < max'")
    case False
    then show ?thesis
      using assms by (subst nav_loop.simps) (simp add: break_points_empty)
  next
    case True
    have "0 < paging_step o'" "0 < o_slidesToScroll o'"
      using assms by (simp_all add: paging_step_pos) (simp add: opts_ok_def)
    then have "nat (max' - (counter + paging_step o')) < nat (max' - counter)"
      using True by linarith
    from less [OF this] obtain ns where ns:
      "nav_loop o' max' (counter + paging_step o' + o_slidesToScroll o')
         (counter + paging_step o' + paging_step o') = Some ns"
      "set ns = break_points o' (counter + paging_step o') max'" "sorted_wrt (<) ns" by blast
    have "\<forall>x \<in> set ns. counter + o_slidesToScroll o' < x"
      using break_points_above [OF assms] ns(2) \<open>0 < paging_step o'\<close> by fastforce
    then show ?thesis
      using True ns break_points_unfold [OF assms True]
      by (subst nav_loop.simps) (simp add: algebra_simps)
  qed
qed

text \<open>The indexes \<open>getNavigableIndexes\<close> is meant to return: the first one and its successors.\<close>

definition first_navigable :: "options \<Rightarrow> int" where
  "first_navigable o' = (if o_infinite o' then - o_slidesToScroll o' else 0)"

definition nav_limit :: "slick \<Rightarrow> int" where
  "nav_limit s = (if o_infinite (options s) then slideCount s * 2 else slideCount s)"

definition navigables :: "slick \<Rightarrow> int set" where
  "navigables s =
     (if first_navigable (options s) < nav_limit s
      then insert (first_navigable (options s))
             (break_points (options s) (first_navigable (options s)) (nav_limit s))
      else {})"

lemma getNavigableIndexes_eq:
  "getNavigableIndexes s =
     nav_loop (options s) (nav_limit s) (first_navigable (options s)) (first_navigable (options s))"
  by (simp add: getNavigableIndexes_def first_navigable_def nav_limit_def Let_def)

lemma getNavigableIndexes_Some:
  assumes "opts_ok (options s)"
  shows "\<exists>ns. getNavigableIndexes s = Some ns \<and> set ns = navigables s \<and> sorted_wrt (<) ns"
proof -
  let ?f = "first_navigable (options s)"
  have "0 < o_slidesToScroll (options s)" using assms by (simp add: opts_ok_def)
  obtain ns where ns:
    "nav_loop (options s) (nav_limit s) (?f + o_slidesToScroll (options s)) (?f + paging_step (options s)) = Some ns"
    "set ns = break_points (options s) ?f (nav_limit s)" "sorted_wrt (<) ns"
    using nav_loop_tail [OF assms] by blast
  have "\<forall>x \<in> set ns. ?f < x"
    using break_points_above [OF assms] ns(2) \<open>0 < _\<close> by fastforce
  then show ?thesis
    using ns by (cases "?f < nav_limit s")
      (simp_all add: getNavigableIndexes_eq navigables_def nav_loop.simps [of _ _ "first_navigable _"])
qed

lemma paging_step_pos_iff: "0 < paging_step o' \<longleftrightarrow> opts_ok o'"
  by (auto simp: opts_ok_def paging_step_def)

lemma nav_loop_stuck:
  assumes "paging_step o' \<le> 0" "breakPoint < max'" "counter + o_slidesToScroll o' < max'"
  shows "nav_loop o' max' breakPoint counter = None"
proof (rule ccontr)
  assume "nav_loop o' max' breakPoint counter \<noteq> None"
  then obtain ns where "nav_loop o' max' breakPoint counter = Some ns" by blast
  then have "\<not> (paging_step o' \<le> 0 \<and> breakPoint < max' \<and> counter + o_slidesToScroll o' < max')"
  proof (rule nav_loop.raw_induct [rotated])
    fix f o' max' breakPoint counter ns
    assume ih: "\<And>o' m b c y. f o' m b c = Some y \<Longrightarrow>
                 \<not> (paging_step o' \<le> 0 \<and> b < m \<and> c + o_slidesToScroll o' < m)"
      and run: "(if breakPoint < max'
                 then f o' max' (counter + o_slidesToScroll o') (counter + paging_step o') \<bind>
                      (\<lambda>rest. Some (breakPoint # rest))
                 else Some []) = Some ns"
    show "\<not> (paging_step o' \<le> 0 \<and> breakPoint < max' \<and> counter + o_slidesToScroll o' < max')"
    proof
      assume a: "paging_step o' \<le> 0 \<and> breakPoint < max' \<and> counter + o_slidesToScroll o' < max'"
      then obtain rest where
        "f o' max' (counter + o_slidesToScroll o') (counter + paging_step o') = Some rest"
        using run by (auto simp: bind_eq_Some_conv)
      from ih [OF this] a show False by linarith
    qed
  qed
  with assms show False by simp
qed

lemma dot_loop_stuck:
  assumes "paging_step o' \<le> 0" "breakPoint < count" "counter + o_slidesToScroll o' < count"
  shows "dot_loop o' count breakPoint counter q = None"
proof (rule ccontr)
  assume "dot_loop o' count breakPoint counter q \<noteq> None"
  then obtain r where "dot_loop o' count breakPoint counter q = Some r" by blast
  then have "\<not> (paging_step o' \<le> 0 \<and> breakPoint < count \<and> counter + o_slidesToScroll o' < count)"
  proof (rule dot_loop.raw_induct [rotated])
    fix f o' count breakPoint counter q r
    assume ih: "\<And>o' m b c q y. f o' m b c q = Some y \<Longrightarrow>
                 \<not> (paging_step o' \<le> 0 \<and> b < m \<and> c + o_slidesToScroll o' < m)"
      and run: "(if breakPoint < count
                 then f o' count (counter + o_slidesToScroll o') (counter + paging_step o') (q + 1)
                 else Some q) = Some r"
    show "\<not> (paging_step o' \<le> 0 \<and> breakPoint < count \<and> counter + o_slidesToScroll o' < count)"
    proof
      assume a: "paging_step o' \<le> 0 \<and> breakPoint < count \<and> counter + o_slidesToScroll o' < count"
      then have
        "f o' count (counter + o_slidesToScroll o') (counter + paging_step o') (q + 1) = Some r"
        using run by simp
      from ih [OF this] a show False by linarith
    qed
  qed
  with assms show False by simp
qed

text \<open>How many further rounds the loop over dots makes.\<close>

definition more_dots :: "options \<Rightarrow> int \<Rightarrow> int \<Rightarrow> int" where
  "more_dots o' count counter =
     (if count \<le> counter + o_slidesToScroll o' then 0
      else \<lceil>real_of_int (count - counter - o_slidesToScroll o') / real_of_int (paging_step o')\<rceil>)"

lemma ceil_divide: "\<lceil>real_of_int a / real_of_int b\<rceil> = - ((- a) div b)"
  by (simp add: ceiling_divide_eq_div)

lemma ceil_divide_small: "0 < a \<Longrightarrow> a \<le> b \<Longrightarrow> \<lceil>real_of_int a / real_of_int b\<rceil> = 1"
proof -
  assume "0 < a" "a \<le> b"
  then have "(- a) div b = - 1" by (intro int_div_pos_eq [of _ _ _ "b - a"]) simp_all
  then show ?thesis by (simp only: ceil_divide)
qed

lemma ceil_divide_step:
  "0 < b \<Longrightarrow> \<lceil>real_of_int a / real_of_int b\<rceil> = 1 + \<lceil>real_of_int (a - b) / real_of_int b\<rceil>"
proof -
  assume "0 < b"
  have "- (a - b) = - a + b" by simp
  then have "(- (a - b)) div b = (- a) div b + 1" using \<open>0 < b\<close> by (simp only: div_add_self2)
  then show ?thesis by (simp only: ceil_divide)
qed

lemma more_dots_unfold:
  assumes "opts_ok o'" "counter + o_slidesToScroll o' < count"
  shows "more_dots o' count counter = 1 + more_dots o' count (counter + paging_step o')"
proof -
  define a where "a = count - counter - o_slidesToScroll o'"
  define b where "b = paging_step o'"
  have b: "0 < b" using assms(1) by (simp add: b_def paging_step_pos)
  have a: "0 < a" using assms(2) by (simp add: a_def)
  have l: "more_dots o' count counter = \<lceil>real_of_int a / real_of_int b\<rceil>"
    using assms(2) by (simp add: more_dots_def a_def b_def)
  have "count - (counter + paging_step o') - o_slidesToScroll o' = a - b"
    by (simp add: a_def b_def)
  then have r: "more_dots o' count (counter + paging_step o') =
                  (if a \<le> b then 0 else \<lceil>real_of_int (a - b) / real_of_int b\<rceil>)"
    by (auto simp: more_dots_def a_def b_def algebra_simps)
  show ?thesis
  proof (cases "a \<le> b")
    case True
    then show ?thesis unfolding l r using a by (simp only: ceil_divide_small if_True)
  next
    case False
    then show ?thesis unfolding l r using b by (simp only: ceil_divide_step [of b a] if_False)
  qed
qed

lemma dot_loop_tail:
  assumes "opts_ok o'"
  shows "dot_loop o' count (counter + o_slidesToScroll o') (counter + paging_step o') q =
           Some (q + more_dots o' count counter)"
proof (induction "nat (count - counter)" arbitrary: counter q rule: less_induct)
  case less
  show ?case
  proof (cases "counter + o_slidesToScroll o' < count")
    case False
    then show ?thesis by (subst dot_loop.simps) (simp add: more_dots_def)
  next
    case True
    have "0 < paging_step o'" "0 < o_slidesToScroll o'"
      using assms by (simp_all add: paging_step_pos) (simp add: opts_ok_def)
    then have "nat (count - (counter + paging_step o')) < nat (count - counter)"
      using True by linarith
    from less [OF this, of "q + 1"] True more_dots_unfold [OF assms True]
    show ?thesis by (subst dot_loop.simps) (simp add: algebra_simps)
  qed
qed

lemma dot_loop_Some:
  assumes "opts_ok o'"
  shows "dot_loop o' count 0 0 0 = Some (if count \<le> 0 then 0 else 1 + more_dots o' count 0)"
  using dot_loop_tail [OF assms, of count 0 1] by (subst dot_loop.simps) simp

text \<open>The number of dots is one more than this.\<close>

definition dot_count :: "slick \<Rightarrow> int" where
  "dot_count s =
     (let o' = options s in
      if o_infinite o' \<or> \<not> o_centerMode o' \<and> o_asNavFor o' \<noteq> None then
        (if slideCount s \<le> 0 then - 1 else more_dots o' (slideCount s) 0)
      else if o_centerMode o' then slideCount s - 1
      else \<lceil>real_of_int (slideCount s - o_slidesToShow o') / real_of_int (o_slidesToScroll o')\<rceil>)"

lemma getDotCount_Some: "opts_ok (options s) \<Longrightarrow> getDotCount s = Some (dot_count s)"
  by (simp add: getDotCount_def dot_count_def Let_def dot_loop_Some)

text \<open>C21: the loop over the navigable slides ends exactly when it makes progress: when
  \<open>slidesToShow\<close> and \<open>slidesToScroll\<close> are positive, or when it is left in its first two rounds;
  in every other case the page hangs.\<close>

theorem paging_loop_ends_iff:
  "getNavigableIndexes s \<noteq> None \<longleftrightarrow>
     nav_limit s \<le> first_navigable (options s) \<or>
     nav_limit s \<le> first_navigable (options s) + o_slidesToScroll (options s) \<or>
     0 < o_slidesToShow (options s) \<and> 0 < o_slidesToScroll (options s)"
proof -
  let ?f = "first_navigable (options s)" and ?m = "nav_limit s" and ?o = "options s"
  have first: "getNavigableIndexes s = Some []" if "?m \<le> ?f"
    using that by (simp add: getNavigableIndexes_eq nav_loop.simps [of _ _ ?f])
  have second: "getNavigableIndexes s = Some [?f]"
    if "\<not> ?m \<le> ?f" "?m \<le> ?f + o_slidesToScroll ?o"
    using that by (simp add: getNavigableIndexes_eq nav_loop.simps [of _ _ ?f]
        nav_loop.simps [of _ _ "?f + o_slidesToScroll ?o"])
  have stuck: "getNavigableIndexes s = None"
    if "\<not> ?m \<le> ?f" "\<not> ?m \<le> ?f + o_slidesToScroll ?o" "\<not> opts_ok ?o"
    using that nav_loop_stuck [of ?o ?f ?m ?f] by (simp add: getNavigableIndexes_eq flip: paging_step_pos_iff)
  show ?thesis
    using first second stuck getNavigableIndexes_Some [of s]
    by (fastforce simp: opts_ok_def)
qed

lemma nav_scan_greatest:
  assumes "sorted_wrt (<) (p # ns)" "p \<le> index" "ns \<noteq> []" "index \<le> last ns"
  shows "nav_scan index p ns \<in> set (p # ns) \<and> nav_scan index p ns \<le> index \<and>
         (\<forall>x \<in> set (p # ns). x \<le> index \<longrightarrow> x \<le> nav_scan index p ns)"
  using assms
proof (induction ns arbitrary: p)
  case Nil
  then show ?case by simp
next
  case (Cons n ns)
  show ?case
  proof (cases "index < n")
    case True
    then show ?thesis using Cons.prems by fastforce
  next
    case False
    show ?thesis
    proof (cases "ns = []")
      case True
      then show ?thesis using False Cons.prems by auto
    next
      case ne: False
      have "sorted_wrt (<) (n # ns)" using Cons.prems(1) by simp
      from Cons.IH [OF this _ ne] False Cons.prems(4) ne
      have ih: "nav_scan index n ns \<in> set (n # ns) \<and> nav_scan index n ns \<le> index \<and>
                (\<forall>x \<in> set (n # ns). x \<le> index \<longrightarrow> x \<le> nav_scan index n ns)" by simp
      have "p < n" using Cons.prems(1) by simp
      with ih False show ?thesis by fastforce
    qed
  qed
qed

lemma strict_sorted_le_last: "sorted_wrt (<) (xs :: int list) \<Longrightarrow> x \<in> set xs \<Longrightarrow> x \<le> last xs"
proof (induction xs arbitrary: x)
  case Nil
  then show ?case by simp
next
  case (Cons y ys)
  show ?case
  proof (cases "ys = []")
    case True
    with Cons.prems show ?thesis by simp
  next
    case False
    then have "last ys \<in> set ys" by simp
    then have "y \<le> last ys" using Cons.prems(1) by auto
    moreover have "x = y \<or> x \<in> set ys" "sorted_wrt (<) ys" using Cons.prems by auto
    ultimately show ?thesis using Cons.IH False by auto
  qed
qed

lemma checkNavigable_spec:
  assumes "opts_ok (options s)" "0 < slideCount s"
  shows "\<exists>r. checkNavigable index s = Some r \<and>
             (if index < first_navigable (options s) then r = 0
              else r \<in> navigables s \<and> r \<le> index \<and> (\<forall>x \<in> navigables s. x \<le> index \<longrightarrow> x \<le> r))"
proof -
  let ?f = "first_navigable (options s)"
  obtain ns where ns: "getNavigableIndexes s = Some ns" "set ns = navigables s" "sorted_wrt (<) ns"
    using getNavigableIndexes_Some [OF assms(1)] by blast
  have lt: "?f < nav_limit s"
    using assms by (simp add: first_navigable_def nav_limit_def opts_ok_def)
  then have "ns = ?f # tl ns"
    using ns(1) by (auto simp: getNavigableIndexes_eq nav_loop.simps [of _ _ ?f] bind_eq_Some_conv)
  then obtain ms where ms: "ns = ?f # ms" by blast
  have le: "?f \<le> x" if "x \<in> set ns" for x
    using that ns(3) by (auto simp: ms)
  have last_in: "last ns \<in> set ns" using ms by (metis last_in_set list.distinct(1))
  have le_last: "x \<le> last ns" if "x \<in> set ns" for x
    using ns(3) that by (rule strict_sorted_le_last)
  show ?thesis
  proof (cases "index > last ns")
    case True
    then have "\<not> index < ?f" using le [OF last_in] by simp
    with True show ?thesis
      using ns last_in le_last ms by (simp add: checkNavigable_def)
  next
    case notlast: False
    show ?thesis
    proof (cases "index < ?f")
      case True
      then show ?thesis using ns(1) notlast by (simp add: checkNavigable_def ms)
    next
      case False
      show ?thesis
      proof (cases "ms = []")
        case True
        then have "index = ?f" using notlast False by (simp add: ms)
        then show ?thesis using ns(1) True by (simp add: checkNavigable_def ms flip: ns(2))
      next
        case ne: False
        have "sorted_wrt (<) (?f # ms)" using ns(3) by (simp add: ms)
        from nav_scan_greatest [OF this _ ne] False notlast ne
        have "nav_scan index ?f ms \<in> set ns \<and> nav_scan index ?f ms \<le> index \<and>
              (\<forall>x \<in> set ns. x \<le> index \<longrightarrow> x \<le> nav_scan index ?f ms)" by (simp add: ms)
        then show ?thesis
          using ns(1) notlast False by (simp add: checkNavigable_def ms flip: ns(2))
      qed
    qed
  qed
qed

text \<open>C18: \<open>checkNavigable\<close> returns the greatest navigable slide up to the one asked for, and 0
  for one before the first navigable slide.\<close>

theorem checkNavigable_greatest:
  assumes "0 < o_slidesToShow (options s)" "0 < o_slidesToScroll (options s)" "0 < slideCount s"
  shows "\<exists>r. checkNavigable index s = Some r \<and>
             (if index < first_navigable (options s) then r = 0
              else r \<in> navigables s \<and> r \<le> index \<and> (\<forall>x \<in> navigables s. x \<le> index \<longrightarrow> x \<le> r))"
  using checkNavigable_spec assms by (simp add: opts_ok_def)

theorem checkNavigable_greatest_witness:
  "\<exists>r. checkNavigable 3 (sample 5 [S_slidesToScroll 2, S_slidesToShow 2]) = Some r \<and>
       (if 3 < first_navigable (options (sample 5 [S_slidesToScroll 2, S_slidesToShow 2])) then r = 0
        else r \<in> navigables (sample 5 [S_slidesToScroll 2, S_slidesToShow 2]) \<and> r \<le> 3 \<and>
          (\<forall>x \<in> navigables (sample 5 [S_slidesToScroll 2, S_slidesToShow 2]). x \<le> 3 \<longrightarrow> x \<le> r))"
  by (rule checkNavigable_greatest) simp_all

text \<open>C27: when \<open>slidesToScroll\<close> is at most \<open>slidesToShow\<close>, the dots of a slider cut its slides
  into pages without a gap: the last dot of an infinite slider starts at an existing slide and
  its page reaches the end; the last dot of a finite one shows the last slide, and the dot
  before does not.\<close>

theorem dots_cover_slides:
  assumes "0 < o_slidesToShow (options s)" "0 < o_slidesToScroll (options s)"
    and "o_slidesToScroll (options s) \<le> o_slidesToShow (options s)"
    and "o_slidesToShow (options s) \<le> slideCount s"
    and "\<not> o_centerMode (options s)" "o_asNavFor (options s) = None"
  shows "\<exists>d \<ge> 0. getDotCount s = Some d \<and>
           (if o_infinite (options s)
            then d * o_slidesToScroll (options s) < slideCount s \<and>
                 slideCount s \<le> (d + 1) * o_slidesToScroll (options s)
            else slideCount s \<le> d * o_slidesToScroll (options s) + o_slidesToShow (options s) \<and>
                 (0 < d \<longrightarrow> (d - 1) * o_slidesToScroll (options s) + o_slidesToShow (options s)
                             < slideCount s))"
proof -
  let ?k = "o_slidesToScroll (options s)" and ?c = "slideCount s" and ?w = "o_slidesToShow (options s)"
  have ok: "opts_ok (options s)" using assms by (simp add: opts_ok_def)
  have ceil: "0 \<le> \<lceil>real_of_int a / real_of_int ?k\<rceil> \<and> a \<le> \<lceil>real_of_int a / real_of_int ?k\<rceil> * ?k \<and>
              (0 < a \<longrightarrow> (\<lceil>real_of_int a / real_of_int ?k\<rceil> - 1) * ?k < a)" if "0 \<le> a" for a
  proof -
    let ?q = "(- a) div ?k"
    have "?q * ?k + (- a) mod ?k = - a" by (rule div_mult_mod_eq)
    moreover have "0 \<le> (- a) mod ?k" "(- a) mod ?k < ?k" using assms(2) by simp_all
    moreover have "?q \<le> 0" using that assms(2) by (simp add: div_nonpos_pos_le0)
    ultimately show ?thesis unfolding ceil_divide left_diff_distrib minus_mult_left [symmetric]
      by linarith
  qed
  show ?thesis
  proof (cases "o_infinite (options s)")
    case True
    show ?thesis
    proof (cases "?c \<le> ?k")
      case le: True
      then have "getDotCount s = Some 0"
        using True ok assms by (simp add: getDotCount_Some dot_count_def more_dots_def Let_def)
      then show ?thesis using True le assms by simp
    next
      case False
      then have "getDotCount s = Some \<lceil>real_of_int (?c - ?k) / real_of_int ?k\<rceil>"
        using True ok assms
        by (simp add: getDotCount_Some dot_count_def more_dots_def Let_def paging_step_scroll)
      then show ?thesis using True False ceil [of "?c - ?k"] by (simp add: algebra_simps)
    qed
  next
    case False
    then have "getDotCount s = Some \<lceil>real_of_int (?c - ?w) / real_of_int ?k\<rceil>"
      using ok assms by (simp add: getDotCount_Some dot_count_def Let_def)
    moreover have "0 < ?c - ?w" if "0 < \<lceil>real_of_int (?c - ?w) / real_of_int ?k\<rceil>"
      using that assms(4) by (cases "?c = ?w") auto
    ultimately show ?thesis using False assms(4) ceil [of "?c - ?w"] by (auto simp: algebra_simps)
  qed
qed

theorem dots_cover_slides_witness:
  "\<exists>d \<ge> 0. getDotCount (sample 7 [S_slidesToShow 3, S_slidesToScroll 2]) = Some d \<and>
     (if o_infinite (options (sample 7 [S_slidesToShow 3, S_slidesToScroll 2]))
      then d * o_slidesToScroll (options (sample 7 [S_slidesToShow 3, S_slidesToScroll 2])) < 7 \<and>
           7 \<le> (d + 1) * o_slidesToScroll (options (sample 7 [S_slidesToShow 3, S_slidesToScroll 2]))
      else 7 \<le> d * 2 + (3 :: int) \<and> (0 < d \<longrightarrow> (d - 1) * 2 + (3 :: int) < 7))"
  using dots_cover_slides [of "sample 7 [S_slidesToShow 3, S_slidesToScroll 2]"] by simp

end
