(* ===== verification/Slick_Position.thy ===== *)
theory Slick_Position
  imports Slick_Paging
begin

text \<open>
  Where the track is: \<open>getLeft\<close>, the operations that write the position, the sizes and the
  fading to the style of the elements, and the animations between two positions.

  An animation is modelled by the style it ends with, written when it starts; its completion
  callback is a task.
\<close>

subsection \<open>The position of a slide\<close>

definition first_of :: "(nat \<Rightarrow> real) \<Rightarrow> nat list \<Rightarrow> real" where
  "first_of m is = (case is of [] \<Rightarrow> 0 | i # _ \<Rightarrow> m i)"

text \<open>\<open>slide_offset o' c i w\<close> is \<open>slideOffset\<close> for slides of size \<open>w\<close>; the code computes it
  twice, for the width and (as \<open>verticalOffset\<close>, without the centering) for the height.\<close>

definition infinite_offset :: "options \<Rightarrow> int \<Rightarrow> int \<Rightarrow> real \<Rightarrow> real" where
  "infinite_offset o' count slideIndex w =
     (let offset = (if count > o_slidesToShow o' then (w * real_of_int (o_slidesToShow o')) * - 1 else 0)
      in if js_rem count (o_slidesToScroll o') \<noteq> 0 \<and>
            slideIndex + o_slidesToScroll o' > count \<and> count > o_slidesToShow o'
         then (if slideIndex > count
               then (real_of_int (o_slidesToShow o' - (slideIndex - count)) * w) * - 1
               else (real_of_int (js_rem count (o_slidesToScroll o')) * w) * - 1)
         else offset)"

definition finite_offset :: "options \<Rightarrow> int \<Rightarrow> int \<Rightarrow> real \<Rightarrow> real" where
  "finite_offset o' count slideIndex w =
     (if slideIndex + o_slidesToShow o' > count
      then real_of_int ((slideIndex + o_slidesToShow o') - count) * w else 0)"

definition base_offset :: "options \<Rightarrow> int \<Rightarrow> int \<Rightarrow> real \<Rightarrow> real" where
  "base_offset o' count slideIndex w =
     (if count \<le> o_slidesToShow o' then 0
      else if o_infinite o' then infinite_offset o' count slideIndex w
      else finite_offset o' count slideIndex w)"

definition center_offset :: "options \<Rightarrow> real \<Rightarrow> real \<Rightarrow> real" where
  "center_offset o' w offset =
     (if o_centerMode o' \<and> o_infinite o'
      then offset + (w * real_of_int (o_slidesToShow o' div 2) - w)
      else if o_centerMode o' then 0 + w * real_of_int (o_slidesToShow o' div 2)
      else offset)"

definition target_left :: "env \<Rightarrow> slick \<Rightarrow> nat option \<Rightarrow> real" where
  "target_left \<E> s targetSlide =
     (case targetSlide of
        None \<Rightarrow> 0
      | Some i \<Rightarrow>
          if o_rtl (options s) then (track_width \<E> s - offset_left \<E> s i - el_width \<E> s i) * - 1
          else offset_left \<E> s i * - 1)"

definition the_slide :: "slick \<Rightarrow> int \<Rightarrow> nat option" where
  "the_slide s i = (case eq i (track_slides s) of [] \<Rightarrow> None | j # _ \<Rightarrow> Some j)"

definition variable_left :: "env \<Rightarrow> slick \<Rightarrow> int \<Rightarrow> real" where
  "variable_left \<E> s slideIndex =
     (let o' = options s;
          plain = slideCount s \<le> o_slidesToShow o' \<or> \<not> o_infinite o';
          targetSlide = the_slide s (if plain then slideIndex else slideIndex + o_slidesToShow o');
          targetLeft = target_left \<E> s targetSlide
      in if o_centerMode o' then
           (let centered = the_slide s (if plain then slideIndex
                                        else slideIndex + o_slidesToShow o' + 1)
            in target_left \<E> s centered +
               (list_width \<E> s - (case centered of None \<Rightarrow> 0 | Some i \<Rightarrow> outer_width \<E> s i)) / 2)
         else targetLeft)"

definition getLeft :: "env \<Rightarrow> int \<Rightarrow> slick \<Rightarrow> real \<times> slick" where
  "getLeft \<E> slideIndex s =
     (let o' = options s;
          verticalHeight = first_of (outer_height \<E> s) (slides s);
          verticalOffset = base_offset o' (slideCount s) slideIndex verticalHeight;
          offset = center_offset o' (slideWidth s)
                     (base_offset o' (slideCount s) slideIndex (slideWidth s));
          targetLeft =
            (if \<not> o_vertical o' then (real_of_int slideIndex * slideWidth s) * - 1 + offset
             else (real_of_int slideIndex * verticalHeight) * - 1 + verticalOffset)
      in (if o_variableWidth o' then variable_left \<E> s slideIndex else targetLeft,
          s\<lparr>slideOffset := offset\<rparr>))"

subsection \<open>Writing the position and the sizes\<close>

definition css_track :: "string \<Rightarrow> css \<Rightarrow> slick \<Rightarrow> slick" where
  "css_track p v s = s\<lparr>trackEl := css p v (trackEl s)\<rparr>"

definition css_list :: "string \<Rightarrow> css \<Rightarrow> slick \<Rightarrow> slick" where
  "css_list p v s = s\<lparr>listEl := css p v (listEl s)\<rparr>"

definition ceil' :: "real \<Rightarrow> real" where
  "ceil' r = real_of_int \<lceil>r\<rceil>"

definition anim_prop :: "anim_type \<Rightarrow> string" where
  "anim_prop a = (case a of ANull \<Rightarrow> ''null'' | AFalse \<Rightarrow> ''false'' | AProp p \<Rightarrow> p)"

definition setCSS :: "real \<Rightarrow> slick \<Rightarrow> slick" where
  "setCSS pos s =
     (let position = (if o_rtl (options s) then - pos else pos);
          x = (if positionProp s = ''left'' then ceil' position else 0);
          y = (if positionProp s = ''top'' then ceil' position else 0)
      in if \<not> transformsEnabled s then css_track (positionProp s) (CNum position) s
         else if \<not> cssTransitions s then css_track (anim_prop (animType s)) (CTranslate x y) s
         else css_track (anim_prop (animType s)) (CTranslate3d x y) s)"

definition setDimensions :: "env \<Rightarrow> slick \<Rightarrow> slick" where
  "setDimensions \<E> s =
     (let o' = options s;
          s1 = (if \<not> o_vertical o' then
                  (if o_centerMode o' then css_list ''padding'' (CTxt (''0px '' @ o_centerPadding o')) s
                   else s)
                else
                  let h = css_list ''height'' (CNum (first_of (outer_height \<E> s) (slides s)
                                                     * real_of_int (o_slidesToShow o'))) s
                  in if o_centerMode o'
                     then css_list ''padding'' (CTxt (o_centerPadding o' @ '' 0px'')) h else h);
          s2 = s1\<lparr>listWidth := list_width \<E> s1, listHeight := list_height \<E> s1\<rparr>;
          s3 = (if \<not> o_vertical o' \<and> \<not> o_variableWidth o' then
                  let s' = s2\<lparr>slideWidth := ceil' (listWidth s2 / real_of_int (o_slidesToShow o'))\<rparr>
                  in css_track ''width''
                       (CNum (ceil' (slideWidth s' * real (length (track_slides s'))))) s'
                else if o_variableWidth o' then
                  css_track ''width'' (CNum (5000 * real_of_int (slideCount s2))) s2
                else
                  let s' = s2\<lparr>slideWidth := ceil' (listWidth s2)\<rparr>
                  in css_track ''height''
                       (CNum (ceil' (first_of (outer_height \<E> s') (slides s')
                                     * real (length (track_slides s'))))) s');
          offset = first_of (outer_width_margin \<E> s3) (slides s3) - first_of (el_width \<E> s3) (slides s3)
      in if \<not> o_variableWidth o'
         then mod_els (track_slides s3) (css ''width'' (CNum (slideWidth s3 - offset))) s3
         else s3)"

definition fade_style :: "options \<Rightarrow> real \<Rightarrow> elem \<Rightarrow> elem" where
  "fade_style o' targetLeft e =
     css ''opacity'' (CNum 0)
       (css ''zIndex'' (CNum (real_of_int (o_zIndex o' - 2)))
         (css ''top'' (CNum 0)
           (css (if o_rtl o' then ''right'' else ''left'') (CNum targetLeft)
             (css ''position'' (CTxt ''relative'') e))))"

fun fade_loop :: "options \<Rightarrow> real \<Rightarrow> nat \<Rightarrow> nat list \<Rightarrow> (nat \<Rightarrow> elem) \<Rightarrow> nat \<Rightarrow> elem" where
  "fade_loop o' w index [] h = h"
| "fade_loop o' w index (i # is) h =
     fade_loop o' w (index + 1) is (on_els [i] (fade_style o' ((w * real index) * - 1)) h)"

definition setFade :: "slick \<Rightarrow> slick" where
  "setFade s =
     mod_els (eq (currentSlide s) (slides s))
       (css ''opacity'' (CNum 1) \<circ>
        css ''zIndex'' (CNum (real_of_int (o_zIndex (options s) - 1))))
       (s\<lparr>els := fade_loop (options s) (slideWidth s) 0 (slides s) (els s)\<rparr>)"

definition current_height :: "env \<Rightarrow> slick \<Rightarrow> real" where
  "current_height \<E> s = first_of (outer_height \<E> s) (eq (currentSlide s) (slides s))"

definition adapts_height :: "options \<Rightarrow> bool" where
  "adapts_height o' \<longleftrightarrow> o_slidesToShow o' = 1 \<and> o_adaptiveHeight o' \<and> \<not> o_vertical o'"

definition setHeight :: "env \<Rightarrow> slick \<Rightarrow> slick" where
  "setHeight \<E> s =
     (if adapts_height (options s) then css_list ''height'' (CNum (current_height \<E> s)) s else s)"

definition setPosition :: "env \<Rightarrow> slick \<Rightarrow> slick" where
  "setPosition \<E> s =
     (let s1 = setHeight \<E> (setDimensions \<E> s);
          s2 = (if \<not> o_fade (options s1)
                then (case getLeft \<E> (currentSlide s1) s1 of (l, s') \<Rightarrow> setCSS l s')
                else setFade s1)
      in trigger E_setPosition s2)"

subsection \<open>Animations\<close>

definition animateHeight :: "env \<Rightarrow> slick \<Rightarrow> slick" where
  "animateHeight \<E> s =
     (if adapts_height (options s) then css_list ''height'' (CNum (current_height \<E> s)) s else s)"

definition transition_css :: "slick \<Rightarrow> css" where
  "transition_css s =
     (if \<not> o_fade (options s)
      then CTransition (transformType s) (o_speed (options s)) (o_cssEase (options s))
      else CTransition ''opacity'' (o_speed (options s)) (o_cssEase (options s)))"

definition applyTransition :: "int option \<Rightarrow> slick \<Rightarrow> slick" where
  "applyTransition slide s =
     (if \<not> o_fade (options s) then css_track (transitionType s) (transition_css s) s
      else (case slide of
              None \<Rightarrow> s
            | Some i \<Rightarrow> mod_els (eq i (slides s)) (css (transitionType s) (transition_css s)) s))"

definition disableTransition :: "int option \<Rightarrow> slick \<Rightarrow> slick" where
  "disableTransition slide s =
     (if \<not> o_fade (options s) then s\<lparr>trackEl := css_clear (transitionType s) (trackEl s)\<rparr>
      else (case slide of
              None \<Rightarrow> s
            | Some i \<Rightarrow> mod_els (eq i (slides s)) (css_clear (transitionType s)) s))"

definition animateSlide :: "env \<Rightarrow> real \<Rightarrow> int \<Rightarrow> slick \<Rightarrow> slick" where
  "animateSlide \<E> target postTarget s0 =
     (let s = animateHeight \<E> s0;
          o' = options s;
          targetLeft = (if o_rtl o' \<and> \<not> o_vertical o' then - target else target)
      in if \<not> transformsEnabled s then
           later (After_animation postTarget)
             (css_track (if \<not> o_vertical o' then ''left'' else ''top'') (CNum targetLeft) s)
         else if \<not> cssTransitions s then
           (let s1 = (if o_rtl o' then s\<lparr>currentLeft := - currentLeft s\<rparr> else s)
            in later (After_animation postTarget)
                 (css_track (anim_prop (animType s1))
                   (if \<not> o_vertical o' then CTranslate (ceil' targetLeft) 0
                    else CTranslate 0 (ceil' targetLeft)) s1))
         else
           (let s1 = applyTransition None s
            in later (After_transition None postTarget)
                 (css_track (anim_prop (animType s1))
                   (if \<not> o_vertical o' then CTranslate3d (ceil' targetLeft) 0
                    else CTranslate3d 0 (ceil' targetLeft)) s1)))"

definition fadeSlide :: "int \<Rightarrow> int \<Rightarrow> slick \<Rightarrow> slick" where
  "fadeSlide slideIndex postTarget s =
     (let z = CNum (real_of_int (o_zIndex (options s)))
      in if \<not> cssTransitions s then
           later (After_animation postTarget)
             (mod_els (eq slideIndex (slides s)) (css ''opacity'' (CNum 1) \<circ> css ''zIndex'' z) s)
         else
           (let s1 = applyTransition (Some slideIndex) s
            in later (After_transition (Some slideIndex) postTarget)
                 (mod_els (eq slideIndex (slides s1)) (css ''zIndex'' z \<circ> css ''opacity'' (CNum 1)) s1)))"

definition fadeSlideOut :: "int \<Rightarrow> slick \<Rightarrow> slick" where
  "fadeSlideOut slideIndex s =
     (let s1 = (if \<not> cssTransitions s then s else applyTransition (Some slideIndex) s)
      in mod_els (eq slideIndex (slides s1))
           (css ''zIndex'' (CNum (real_of_int (o_zIndex (options s1) - 2))) \<circ> css ''opacity'' (CNum 0)) s1)"

end
