(* ===== verification/Slick_Classes.thy ===== *)
theory Slick_Classes
  imports Slick_Position
begin

text \<open>
  What the elements show of the state: the classes of the slides (\<open>setSlideClasses\<close>), the dots
  (\<open>updateDots\<close>), the arrows (\<open>updateArrows\<close>), the images that are asked for (\<open>lazyLoad\<close>),
  the clones at both ends of the track (\<open>setupInfinite\<close>) and the removal of all of it
  (\<open>unload\<close>).

  An operation that calls a method on \<open>null\<close>, or runs a loop that does not end, has the
  result \<open>None\<close>.
\<close>

subsection \<open>Lazily loaded images\<close>

definition own_pics :: "(nat \<Rightarrow> elem) \<Rightarrow> nat \<Rightarrow> (nat \<times> nat \<times> string) list" where
  "own_pics h i =
     concat (map (\<lambda>k. case lazySrc (pics (h i) ! k) of None \<Rightarrow> [] | Some u \<Rightarrow> [(i, k, u)])
       [0 ..< length (pics (h i))])"

text \<open>\<open>lazy_pics\<close> is \<open>$('img[data-lazy]', scope)\<close>: a slide, its rows and the slides in them.\<close>

definition lazy_pics :: "(nat \<Rightarrow> elem) \<Rightarrow> nat list \<Rightarrow> (nat \<times> nat \<times> string) list" where
  "lazy_pics h is =
     concat (map (\<lambda>i. own_pics h i @
       concat (map (\<lambda>j. own_pics h j @ concat (map (own_pics h) (kids (h j)))) (kids (h i)))) is)"

definition loadImages :: "nat list \<Rightarrow> slick \<Rightarrow> slick" where
  "loadImages is s =
     fold (\<lambda>(i, k, imageSource). later (Image_load i k imageSource)) (lazy_pics (els s) is) s"

definition clones :: "slick \<Rightarrow> nat list" where
  "clones s = filter (\<lambda>i. Slick_cloned \<in> classes (els s i)) (track s)"

definition lazy_range :: "slick \<Rightarrow> real \<times> real" where
  "lazy_range s =
     (let o' = options s;
          cur = real_of_int (currentSlide s);
          show' = real_of_int (o_slidesToShow o')
      in if o_centerMode o' then
           (if o_infinite o' then
              (let rangeStart = cur + (show' / 2 + 1) in (rangeStart, rangeStart + show' + 2))
            else (max 0 (cur - (show' / 2 + 1)), 2 + (show' / 2 + 1) + cur))
         else
           (let rangeStart = (if o_infinite o' then show' + cur else cur);
                rangeEnd = ceil' (rangeStart + show')
            in if o_fade o'
               then (if rangeStart > 0 then rangeStart - 1 else rangeStart,
                     if rangeEnd \<le> real_of_int (slideCount s) then rangeEnd + 1 else rangeEnd)
               else (rangeStart, rangeEnd)))"

definition lazyLoad :: "slick \<Rightarrow> slick" where
  "lazyLoad s =
     (let show' = o_slidesToShow (options s);
          s1 = (case lazy_range s of (rangeStart, rangeEnd) \<Rightarrow>
                  loadImages (js_slice (js_trunc rangeStart) (js_trunc rangeEnd) (track_slides s)) s)
      in if slideCount s \<le> show' then loadImages (track_slides s1) s1
         else if currentSlide s \<ge> slideCount s - show' then
           loadImages (js_slice 0 show' (clones s1)) s1
         else if currentSlide s = 0 then
           loadImages (js_slice (show' * - 1) (int (length (clones s1))) (clones s1)) s1
         else s1)"

subsection \<open>The classes of the slides\<close>

definition activate :: "nat list \<Rightarrow> slick \<Rightarrow> slick" where
  "activate is = mod_els is (attr Aria_hidden (AText ''false'') \<circ> addClass Slick_active)"

definition class_els :: "cls \<Rightarrow> nat list \<Rightarrow> slick \<Rightarrow> slick" where
  "class_els c is = mod_els is (addClass c)"

definition center_classes :: "int \<Rightarrow> nat list \<Rightarrow> slick \<Rightarrow> slick" where
  "center_classes index allSlides s =
     (let o' = options s;
          centerOffset = o_slidesToShow o' div 2;
          s1 = (if o_infinite o' then
                  (let s' = (if index \<ge> centerOffset \<and> index \<le> (slideCount s - 1) - centerOffset
                             then activate (js_slice (index - centerOffset) (index + centerOffset + 1)
                                              (slides s)) s
                             else
                               let indexOffset = o_slidesToShow o' + index
                               in activate (js_slice (indexOffset - centerOffset + 1)
                                              (indexOffset + centerOffset + 2) allSlides) s)
                   in if index = 0
                      then class_els Slick_center
                             (eq (int (length allSlides) - 1 - o_slidesToShow o') allSlides) s'
                      else if index = slideCount s - 1
                      then class_els Slick_center (eq (o_slidesToShow o') allSlides) s'
                      else s')
                else s)
      in class_els Slick_center (eq index (slides s)) s1)"

definition window_els :: "int \<Rightarrow> nat list \<Rightarrow> slick \<Rightarrow> nat list" where
  "window_els index allSlides s =
     (let o' = options s; n = o_slidesToShow o' in
      if index \<ge> 0 \<and> index \<le> slideCount s - n then js_slice index (index + n) (slides s)
      else if int (length allSlides) \<le> n then allSlides
      else
        let remainder = js_rem (slideCount s) n;
            indexOffset = (if o_infinite o' then n + index else index)
        in if n = o_slidesToScroll o' \<and> slideCount s - index < n
           then js_slice (indexOffset - (n - remainder)) (indexOffset + remainder) allSlides
           else js_slice indexOffset (indexOffset + n) allSlides)"

definition setSlideClasses :: "int \<Rightarrow> slick \<Rightarrow> slick" where
  "setSlideClasses index s =
     (let allSlides = track_slides s;
          s1 = mod_els allSlides
                 (attr Aria_hidden (AText ''true'') \<circ>
                  removeClass {Slick_active, Slick_center, Slick_current}) s;
          s2 = class_els Slick_current (eq index (slides s1)) s1;
          s3 = (if o_centerMode (options s2) then center_classes index allSlides s2
                else activate (window_els index allSlides s2) s2)
      in if o_lazyLoad (options s3) = ''ondemand'' then lazyLoad s3 else s3)"

subsection \<open>Dots and arrows\<close>

definition mod_dots :: "int \<Rightarrow> (elem \<Rightarrow> elem) \<Rightarrow> elem list \<Rightarrow> elem list" where
  "mod_dots i f lis = map (\<lambda>k. if k \<in> set (eq i [0 ..< length lis]) then f (lis ! k) else lis ! k)
     [0 ..< length lis]"

definition updateDots :: "slick \<Rightarrow> slick" where
  "updateDots s =
     (case dotItems s of
        None \<Rightarrow> s
      | Some lis \<Rightarrow>
          let off = map (attr Aria_hidden (AText ''true'') \<circ> removeClass {Slick_active}) lis
          in s\<lparr>dotItems := Some (mod_dots (currentSlide s div o_slidesToScroll (options s))
                 (attr Aria_hidden (AText ''false'') \<circ> addClass Slick_active) off)\<rparr>)"

definition disable_arrow :: "elem \<Rightarrow> elem" where
  "disable_arrow = attr Aria_disabled (AText ''true'') \<circ> addClass Slick_disabled"

definition enable_arrow :: "elem \<Rightarrow> elem" where
  "enable_arrow = attr Aria_disabled (AText ''false'') \<circ> removeClass {Slick_disabled}"

definition updateArrows :: "slick \<Rightarrow> slick option" where
  "updateArrows s =
     (let o' = options s in
      if o_arrows o' \<and> slideCount s > o_slidesToShow o' \<and> \<not> o_infinite o' then
        do {
          prev \<leftarrow> prevArrow s;
          next' \<leftarrow> nextArrow s;
          let prev1 = map enable_arrow prev;
          let next1 = map enable_arrow next';
          Some (if currentSlide s = 0 then
                  s\<lparr>prevArrow := Some (map disable_arrow prev1),
                    nextArrow := Some (map enable_arrow next1)\<rparr>
                else if currentSlide s \<ge> slideCount s - o_slidesToShow o' \<and> \<not> o_centerMode o' then
                  s\<lparr>nextArrow := Some (map disable_arrow next1),
                    prevArrow := Some (map enable_arrow prev1)\<rparr>
                else if currentSlide s \<ge> slideCount s - 1 \<and> o_centerMode o' then
                  s\<lparr>nextArrow := Some (map disable_arrow next1),
                    prevArrow := Some (map enable_arrow prev1)\<rparr>
                else s\<lparr>prevArrow := Some prev1, nextArrow := Some next1\<rparr>)
        }
      else Some s)"

subsection \<open>Clones\<close>

text \<open>
  \<open>clone(true)\<close> copies an element with its descendants: a slide, its rows and the slides in
  them (depth 2).  The copy gets the next unused reference.
\<close>

fun clone_tree :: "nat \<Rightarrow> nat \<Rightarrow> (nat \<Rightarrow> elem) \<times> nat \<Rightarrow> (nat \<Rightarrow> elem) \<times> nat"
  and clone_kids :: "nat \<Rightarrow> nat list \<Rightarrow> (nat \<Rightarrow> elem) \<times> nat \<Rightarrow> nat list \<times> (nat \<Rightarrow> elem) \<times> nat"
where
  "clone_tree 0 i (h, n) = (h(n := h i), n + 1)"
| "clone_tree (Suc d) i (h, n) =
     (case clone_kids d (kids (h i)) (h, n + 1) of
        (ks, h', n') \<Rightarrow> (h'(n := (h i)\<lparr>kids := ks\<rparr>), n'))"
| "clone_kids d [] (h, n) = ([], h, n)"
| "clone_kids d (i # is) (h, n) =
     (case clone_tree d i (h, n) of
        (h', n') \<Rightarrow> (case clone_kids d is (h', n') of (ks, h'', n'') \<Rightarrow> (n # ks, h'', n'')))"

definition clone_slide :: "nat \<Rightarrow> int \<Rightarrow> slick \<Rightarrow> slick" where
  "clone_slide i label s =
     (case clone_tree 2 i (els s, nextEl s) of
        (h, n) \<Rightarrow>
          s\<lparr>els := h(nextEl s := addClass Slick_cloned
                       (attr Data_slick_index (ANum label) (attr Id_att (AText '''') (h (nextEl s))))),
            nextEl := n\<rparr>)"

definition prepend_clone :: "int \<Rightarrow> slick \<Rightarrow> slick" where
  "prepend_clone slideIndex s =
     fold (\<lambda>i s. (clone_slide i (slideIndex - slideCount s) s)\<lparr>track := nextEl s # track s\<rparr>)
       (if 0 \<le> slideIndex then eq slideIndex (slides s) else []) s"

definition append_clone :: "int \<Rightarrow> slick \<Rightarrow> slick" where
  "append_clone slideIndex s =
     fold (\<lambda>i s. (clone_slide i (slideIndex + slideCount s) s)\<lparr>track := track s @ [nextEl s]\<rparr>)
       (if 0 \<le> slideIndex then eq slideIndex (slides s) else []) s"

definition clear_id :: "elem \<Rightarrow> elem" where
  "clear_id e = (if attrs e Id_att = None then e else attr Id_att (AText '''') e)"

definition descendants :: "(nat \<Rightarrow> elem) \<Rightarrow> nat list \<Rightarrow> nat list" where
  "descendants h is =
     concat (map (\<lambda>i. concat (map (\<lambda>j. j # kids (h j)) (kids (h i)))) is)"

definition infiniteCount :: "options \<Rightarrow> int" where
  "infiniteCount o' = (if o_centerMode o' then o_slidesToShow o' + 1 else o_slidesToShow o')"

definition setupInfinite :: "slick \<Rightarrow> slick" where
  "setupInfinite s0 =
     (let s = (if o_fade (options s0) then write_option (o_centerMode_update (\<lambda>_. False)) s0 else s0);
          o' = options s
      in if o_infinite o' \<and> \<not> o_fade o' \<and> slideCount s > o_slidesToShow o' then
           (let k = infiniteCount o';
                s1 = fold (\<lambda>i. prepend_clone (i - 1)) (rev [slideCount s - k + 1 .. slideCount s]) s;
                s2 = fold append_clone [0 .. k - 1] s1
            in mod_els (descendants (els s2) (clones s2)) clear_id s2)
         else s)"

subsection \<open>Taking it all away\<close>

text \<open>\<open>htmlExpr\<close>: white space, \<open><\<close>, at least one character, and a later \<open>>\<close>.\<close>

definition is_html :: "string \<Rightarrow> bool" where
  "is_html t =
     (case dropWhile is_space t of
        [] \<Rightarrow> False
      | c # r \<Rightarrow> c = CHR ''<'' \<and> CHR ''>'' \<in> set (tl r))"

text \<open>\<open>remove()\<close> also takes away the handlers of what it removes.\<close>

definition forget :: "target \<Rightarrow> slick \<Rightarrow> slick" where
  "forget tg s = s\<lparr>bindings := filter (\<lambda>b. b_target b \<noteq> tg) (bindings s)\<rparr>"

definition remove_dots :: "slick \<Rightarrow> slick" where
  "remove_dots s = (if dotItems s = None then s else (forget On_dots s)\<lparr>dotsInDoc := False\<rparr>)"

definition remove_prev :: "slick \<Rightarrow> slick" where
  "remove_prev s =
     (if prevArrow s \<noteq> None \<and> is_html (o_prevArrow (options s))
      then (forget On_prev s)\<lparr>prevInDoc := False\<rparr> else s)"

definition remove_next :: "slick \<Rightarrow> slick" where
  "remove_next s =
     (if nextArrow s \<noteq> None \<and> is_html (o_nextArrow (options s))
      then (forget On_next s)\<lparr>nextInDoc := False\<rparr> else s)"

definition unload :: "slick \<Rightarrow> slick" where
  "unload s =
     (let s1 = remove_next (remove_prev (remove_dots
                 (s\<lparr>track := filter (\<lambda>i. Slick_cloned \<notin> classes (els s i)) (track s)\<rparr>)))
      in mod_els (slides s1)
           (css_clear ''width'' \<circ> attr Aria_hidden (AText ''true'') \<circ>
            removeClass {Slick_slide, Slick_active, Slick_visible, Slick_current}) s1)"

subsection \<open>What the operations leave alone\<close>

lemma loadImages_eq:
  "loadImages is s =
     s\<lparr>tasks := tasks s @ map (\<lambda>(i, k, u). Image_load i k u) (lazy_pics (els s) is)\<rparr>"
proof -
  have "fold (\<lambda>(i, k, u). later (Image_load i k u)) ps t =
          t\<lparr>tasks := tasks t @ map (\<lambda>(i, k, u). Image_load i k u) ps\<rparr>" for ps and t :: slick
    by (induction ps arbitrary: t) (auto simp: later_def)
  then show ?thesis by (simp add: loadImages_def)
qed

lemma frame_loadImages [simp]: "frame (loadImages is s) = frame s"
  by (simp add: loadImages_eq)

lemma els_loadImages [simp]: "els (loadImages is s) = els s"
  by (simp add: loadImages_eq)

lemma frame_lazyLoad [simp]: "frame (lazyLoad s) = frame s"
  by (simp add: lazyLoad_def Let_def split: prod.split)

lemmas lazyLoad_same [simp] = frame_eqD [OF frame_lazyLoad]

lemma els_lazyLoad [simp]: "els (lazyLoad s) = els s"
  by (simp add: lazyLoad_def Let_def split: prod.split)

lemma frame_mod_els [simp]: "frame (mod_els is f s) = frame s"
  by (simp add: mod_els_def)

lemmas mod_els_same [simp] = frame_eqD [OF frame_mod_els]

lemma els_mod_els [dom_simps]: "els (mod_els is f s) = on_els is f (els s)"
  by (simp add: mod_els_def)

lemma frame_activate [simp]: "frame (activate is s) = frame s"
  by (simp add: activate_def)

lemmas activate_same [simp] = frame_eqD [OF frame_activate]

lemma frame_class_els [simp]: "frame (class_els c is s) = frame s"
  by (simp add: class_els_def)

lemmas class_els_same [simp] = frame_eqD [OF frame_class_els]

lemma classes_activate [dom_simps]:
  "classes (els (activate is s) i) =
     (if i \<in> set is then insert Slick_active (classes (els s i)) else classes (els s i))"
  by (simp add: activate_def dom_simps on_els_apply)

lemma classes_class_els [dom_simps]:
  "classes (els (class_els c is s) i) =
     (if i \<in> set is then insert c (classes (els s i)) else classes (els s i))"
  by (simp add: class_els_def dom_simps on_els_apply)

lemma frame_center_classes [simp]: "frame (center_classes i al s) = frame s"
  unfolding center_classes_def Let_def
  by (simp only: if_distrib [of frame] frame_class_els frame_activate if_cancel)

lemmas center_classes_same [simp] = frame_eqD [OF frame_center_classes]

lemma frame_setSlideClasses [simp]: "frame (setSlideClasses i s) = frame s"
  by (simp add: setSlideClasses_def Let_def)

lemmas setSlideClasses_same [simp] = frame_eqD [OF frame_setSlideClasses]

text \<open>The classes that the operation does not manage stay, on every element.\<close>

lemma other_class [simp]:
  "c \<noteq> d \<Longrightarrow> c \<in> classes (els (class_els d is s) j) \<longleftrightarrow> c \<in> classes (els s j)"
  "c \<noteq> Slick_active \<Longrightarrow> c \<in> classes (els (activate is s) j) \<longleftrightarrow> c \<in> classes (els s j)"
  by (simp_all add: classes_class_els classes_activate)

lemma center_classes_other:
  assumes "c \<noteq> Slick_active" "c \<noteq> Slick_center"
  shows "c \<in> classes (els (center_classes i al s) j) \<longleftrightarrow> c \<in> classes (els s j)"
  using assms unfolding center_classes_def Let_def
  by (simp only: if_distrib [of "\<lambda>t. c \<in> classes (els t j)"] other_class if_cancel not_False_eq_True)

lemma setSlideClasses_other:
  "c \<notin> {Slick_active, Slick_center, Slick_current} \<Longrightarrow>
     c \<in> classes (els (setSlideClasses i s) j) \<longleftrightarrow> c \<in> classes (els s j)"
  by (simp add: setSlideClasses_def dom_simps Let_def center_classes_other on_els_apply)

lemma track_slides_setSlideClasses [dom_simps]:
  "track_slides (setSlideClasses i s) = track_slides s"
  by (simp add: track_slides_def setSlideClasses_other cong: filter_cong)

lemma clones_setSlideClasses [dom_simps]: "clones (setSlideClasses i s) = clones s"
  by (simp add: clones_def setSlideClasses_other cong: filter_cong)

text \<open>\<open>slick-current\<close> is on the slide at the index, and only there.\<close>

lemma setSlideClasses_current:
  "Slick_current \<in> classes (els (setSlideClasses index s) i) \<longleftrightarrow>
     i \<in> set (eq index (slides s)) \<or> i \<notin> set (track_slides s) \<and> Slick_current \<in> classes (els s i)"
  by (auto simp: setSlideClasses_def dom_simps Let_def center_classes_other on_els_apply)

lemma setSlideClasses_active:
  "\<not> o_centerMode (options s) \<Longrightarrow>
   Slick_active \<in> classes (els (setSlideClasses index s) i) \<longleftrightarrow>
     i \<in> set (window_els index (track_slides s) s) \<or>
     i \<notin> set (track_slides s) \<and> Slick_active \<in> classes (els s i)"
  by (auto simp: setSlideClasses_def dom_simps Let_def on_els_apply window_els_def)

subsection \<open>The track\<close>

definition clone_count :: "slick \<Rightarrow> nat" where
  "clone_count s =
     (if o_infinite (options s) \<and> \<not> o_fade (options s) \<and> slideCount s > o_slidesToShow (options s)
      then nat (infiniteCount (options s)) else 0)"

text \<open>A well-formed track: the slides, with the same number of clones before and after them.\<close>

definition track_ok :: "slick \<Rightarrow> bool" where
  "track_ok s \<longleftrightarrow>
     slideCount s = int (length (slides s)) \<and>
     length (track s) = length (slides s) + 2 * clone_count s \<and>
     take (length (slides s)) (drop (clone_count s) (track s)) = slides s \<and>
     distinct (track s) \<and>
     (\<forall>i \<in> set (track s). Slick_slide \<in> classes (els s i) \<and> i < nextEl s) \<and>
     (\<forall>i \<in> set (slides s). Slick_cloned \<notin> classes (els s i)) \<and>
     (\<forall>i \<in> set (take (clone_count s) (track s)). Slick_cloned \<in> classes (els s i)) \<and>
     (\<forall>i \<in> set (drop (clone_count s + length (slides s)) (track s)). Slick_cloned \<in> classes (els s i))"

lemma track_okD:
  assumes "track_ok s"
  shows "slideCount s = int (length (slides s))"
    and "length (track s) = length (slides s) + 2 * clone_count s"
    and "take (length (slides s)) (drop (clone_count s) (track s)) = slides s"
    and "distinct (track s)"
    and "track_slides s = track s"
    and "distinct (slides s)"
    and "set (slides s) \<subseteq> set (track s)"
proof -
  show "slideCount s = int (length (slides s))"
    and "length (track s) = length (slides s) + 2 * clone_count s"
    and sl: "take (length (slides s)) (drop (clone_count s) (track s)) = slides s"
    and d: "distinct (track s)"
    using assms by (simp_all add: track_ok_def)
  show "track_slides s = track s"
    using assms by (simp add: track_ok_def track_slides_def filter_id_conv)
  show "distinct (slides s)"
    by (subst sl [symmetric]) (simp add: d)
  show "set (slides s) \<subseteq> set (track s)"
    by (subst sl [symmetric]) (auto dest: in_set_takeD in_set_dropD)
qed

lemma clone_count_cong:
  "options t = options s \<Longrightarrow> slideCount t = slideCount s \<Longrightarrow> clone_count t = clone_count s"
  by (simp add: clone_count_def)

lemma clone_count_setSlideClasses [simp]: "clone_count (setSlideClasses i s) = clone_count s"
  by (rule clone_count_cong) simp_all

lemma setSlideClasses_track_ok: "track_ok s \<Longrightarrow> track_ok (setSlideClasses i s)"
  by (simp add: track_ok_def setSlideClasses_other)

text \<open>A window of the slides is a window of the track, behind the clones.\<close>

lemma slides_window:
  assumes "track_ok s" "0 \<le> a" "a \<le> b" "b \<le> slideCount s"
  shows "js_slice a b (slides s) = take (nat (b - a)) (drop (clone_count s + nat a) (track s))"
proof -
  have b: "b \<le> int (length (slides s))" using assms track_okD(1) [OF assms(1)] by simp
  have "js_slice a b (slides s) = take (nat (b - a)) (drop (nat a) (slides s))"
    using assms b by (simp add: js_slice_window)
  also have "\<dots> = take (nat (b - a)) (drop (nat a)
                     (take (length (slides s)) (drop (clone_count s) (track s))))"
    by (simp only: track_okD(3) [OF assms(1)])
  also have "\<dots> = take (nat (b - a)) (drop (clone_count s + nat a) (track s))"
    using assms b by (simp add: drop_take min_def add.commute)
  finally show ?thesis .
qed

lemma track_window:
  assumes "track_ok s" "0 \<le> a" "a \<le> b" "b \<le> slideCount s + 2 * int (clone_count s)"
  shows "js_slice a b (track s) = take (nat (b - a)) (drop (nat a) (track s))"
  using assms track_okD(1,2) [OF assms(1)] by (simp add: js_slice_window)

text \<open>The slides that are marked as active after \<open>setSlideClasses\<close>.\<close>

definition active_els :: "slick \<Rightarrow> nat set" where
  "active_els s = {i \<in> set (track s). Slick_active \<in> classes (els s i)}"

definition current_els :: "slick \<Rightarrow> nat set" where
  "current_els s = {i \<in> set (track s). Slick_current \<in> classes (els s i)}"

definition center_els :: "int \<Rightarrow> nat list \<Rightarrow> slick \<Rightarrow> nat list" where
  "center_els index allSlides s =
     (let o' = options s; centerOffset = o_slidesToShow o' div 2 in
      if \<not> o_infinite o' then []
      else if index \<ge> centerOffset \<and> index \<le> (slideCount s - 1) - centerOffset
      then js_slice (index - centerOffset) (index + centerOffset + 1) (slides s)
      else let indexOffset = o_slidesToShow o' + index
           in js_slice (indexOffset - centerOffset + 1) (indexOffset + centerOffset + 2) allSlides)"

lemma center_classes_active:
  "Slick_active \<in> classes (els (center_classes index al s) i) \<longleftrightarrow>
     i \<in> set (center_els index al s) \<or> Slick_active \<in> classes (els s i)"
  unfolding center_classes_def center_els_def Let_def
  by (simp only: if_distrib [of "\<lambda>t. Slick_active \<in> classes (els t i)"] if_distrib [of set]
      other_class classes_activate insert_iff cls.distinct not_False_eq_True if_cancel)
    (simp split: if_split)

lemma window_els_cong:
  "options t = options s \<Longrightarrow> slideCount t = slideCount s \<Longrightarrow> slides t = slides s \<Longrightarrow>
     window_els i al t = window_els i al s"
  by (simp only: window_els_def)

lemma center_els_cong:
  "options t = options s \<Longrightarrow> slideCount t = slideCount s \<Longrightarrow> slides t = slides s \<Longrightarrow>
     center_els i al t = center_els i al s"
  by (simp only: center_els_def)

lemma active_els_setSlideClasses:
  assumes "track_ok s"
  shows "active_els (setSlideClasses index s) =
           set (if o_centerMode (options s) then center_els index (track s) s
                else window_els index (track s) s) \<inter> set (track s)"
proof -
  define s2 where "s2 = class_els Slick_current (eq index (slides s))
    (mod_els (track s) (attr Aria_hidden (AText ''true'') \<circ>
       removeClass {Slick_active, Slick_center, Slick_current}) s)"
  define s3 where "s3 = (if o_centerMode (options s) then center_classes index (track s) s2
    else activate (window_els index (track s) s2) s2)"
  have same: "options s2 = options s" "slideCount s2 = slideCount s" "slides s2 = slides s"
    by (simp_all add: s2_def)
  have "setSlideClasses index s = (if o_lazyLoad (options s3) = ''ondemand'' then lazyLoad s3 else s3)"
    by (simp only: setSlideClasses_def Let_def track_okD(5) [OF assms] s2_def s3_def
        mod_els_same class_els_same)
  then have e: "els (setSlideClasses index s) = els s3"
    by (simp only: els_lazyLoad if_distrib [of els] if_cancel)
  have off: "Slick_active \<notin> classes (els s2 i)" if "i \<in> set (track s)" for i
    using that by (simp add: s2_def dom_simps on_els_apply)
  have "Slick_active \<in> classes (els s3 i) \<longleftrightarrow>
          i \<in> set (if o_centerMode (options s) then center_els index (track s) s
                   else window_els index (track s) s)" if "i \<in> set (track s)" for i
    using off [OF that]
    by (simp add: s3_def center_classes_active classes_activate
        window_els_cong [OF same] center_els_cong [OF same])
  then show ?thesis using e by (auto simp: active_els_def)
qed

text \<open>Where the active window starts on the track, and how many slides it has.\<close>

definition window_start :: "slick \<Rightarrow> int \<Rightarrow> int" where
  "window_start s index =
     (let o' = options s; n = o_slidesToShow o' in
      if o_centerMode o' then n + 1 + index - n div 2
      else if index \<le> slideCount s - n then int (clone_count s) + index
      else if n = o_slidesToScroll o' then int (clone_count s) + slideCount s - n
      else n + index)"

definition window_size :: "options \<Rightarrow> int" where
  "window_size o' = (if o_centerMode o' then 2 * (o_slidesToShow o' div 2) + 1 else o_slidesToShow o')"

text \<open>The pages of a slider with more slides than it shows.\<close>

definition page_index :: "slick \<Rightarrow> int \<Rightarrow> bool" where
  "page_index s index \<longleftrightarrow>
     (let o' = options s; n = o_slidesToShow o'; k = o_slidesToScroll o' in
      0 < n \<and> 0 < k \<and> n < slideCount s \<and> 0 \<le> index \<and> index < slideCount s \<and> index mod k = 0)"

text \<open>Where as many slides are marked as there are in the window.\<close>

definition full_window :: "slick \<Rightarrow> int \<Rightarrow> bool" where
  "full_window s index \<longleftrightarrow>
     (let o' = options s; n = o_slidesToShow o' in
      o_infinite o' \<or> \<not> o_centerMode o' \<and> (index \<le> slideCount s - n \<or> n = o_slidesToScroll o'))"

text \<open>
  By how many slides the window lies before the slides that are marked: on the last page of an
  infinite slider whose slides do not fill its pages, \<open>getLeft\<close> stops at the last slide, \<open>setSlideClasses\<close>
  goes on, unless a page is what is shown.
\<close>

definition window_lag :: "slick \<Rightarrow> int \<Rightarrow> int" where
  "window_lag s index =
     (let o' = options s; n = o_slidesToShow o'; k = o_slidesToScroll o' in
      if o_infinite o' \<and> (o_centerMode o' \<or> n \<noteq> k) \<and> slideCount s mod k \<noteq> 0 \<and> index + k > slideCount s
      then n - slideCount s mod k else 0)"

lemma infinite_clones:
  assumes "page_index s index" "\<not> o_fade (options s)" "o_infinite (options s)"
  shows "int (clone_count s) =
    (if o_centerMode (options s) then o_slidesToShow (options s) + 1 else o_slidesToShow (options s))"
  using assms by (auto simp: clone_count_def infiniteCount_def page_index_def Let_def)

lemma finite_clones: "\<not> o_infinite (options s) \<Longrightarrow> clone_count s = 0"
  by (simp add: clone_count_def)

lemma last_page:
  fixes n :: int
  assumes "0 < n" "index mod n = 0" "index < c" "c - n < index"
  shows "index + c mod n = c" and "0 < c mod n"
proof -
  obtain q where q: "index = n * q" using assms(2) by (metis add.right_neutral mult_div_mod_eq)
  have "c - index = c mod n"
  proof -
    have "c = n * q + (c - index)" using q by simp
    moreover have "0 \<le> c - index" "c - index < n" using assms by simp_all
    ultimately show ?thesis by (metis mod_mult_self4 mod_pos_pos_trivial)
  qed
  then show "index + c mod n = c" "0 < c mod n" using assms by simp_all
qed

lemma center_window:
  assumes "track_ok s" "page_index s index" "\<not> o_fade (options s)" "o_centerMode (options s)"
    and inf: "o_infinite (options s)"
  shows "center_els index (track s) s =
           take (nat (window_size (options s))) (drop (nat (window_start s index)) (track s))"
proof -
  let ?n = "o_slidesToShow (options s)" and ?h = "o_slidesToShow (options s) div 2"
  have idx: "0 \<le> index" "index < slideCount s" "0 < ?n" "?n < slideCount s"
    using assms(2) by (auto simp: page_index_def Let_def)
  have k: "int (clone_count s) = ?n + 1"
    using infinite_clones [OF assms(2,3) inf] assms(4) by simp
  have h: "0 \<le> ?h" "?h \<le> ?n" using idx by (simp_all add: div_le_dividend)
  have ws: "window_start s index = ?n + 1 + index - ?h" "window_size (options s) = 2 * ?h + 1"
    using assms(4) by (simp_all add: window_start_def window_size_def Let_def)
  show ?thesis
  proof (cases "index \<ge> ?h \<and> index \<le> (slideCount s - 1) - ?h")
    case True
    then have "center_els index (track s) s = js_slice (index - ?h) (index + ?h + 1) (slides s)"
      using inf by (simp add: center_els_def Let_def)
    also have "\<dots> = take (nat (2 * ?h + 1)) (drop (clone_count s + nat (index - ?h)) (track s))"
      using True h by (subst slides_window [OF assms(1)]) (simp_all add: algebra_simps)
    also have "clone_count s + nat (index - ?h) = nat (?n + 1 + index - ?h)"
      using True k by linarith
    finally show ?thesis by (simp only: ws)
  next
    case False
    then have "center_els index (track s) s =
                 js_slice (?n + index - ?h + 1) (?n + index + ?h + 2) (track s)"
      unfolding center_els_def Let_def using inf by (simp only: if_False not_True_eq_False)
    also have "\<dots> = take (nat (2 * ?h + 1)) (drop (nat (?n + index - ?h + 1)) (track s))"
      using k h idx by (subst track_window [OF assms(1)]) (simp_all add: algebra_simps)
    finally show ?thesis by (simp only: ws) (simp add: algebra_simps)
  qed
qed

lemma plain_window:
  assumes "track_ok s" "page_index s index" "\<not> o_fade (options s)" "\<not> o_centerMode (options s)"
    and full: "full_window s index"
  shows "window_els index (track s) s =
           take (nat (window_size (options s))) (drop (nat (window_start s index)) (track s))"
proof -
  let ?o = "options s" let ?n = "o_slidesToShow ?o" and ?c = "slideCount s" and ?k = "int (clone_count s)"
  have idx: "0 \<le> index" "index < ?c" "0 < ?n" "?n < ?c"
    using assms(2) by (auto simp: page_index_def Let_def)
  have size': "window_size ?o = ?n" using assms(4) by (simp add: window_size_def)
  have kk: "?k = (if o_infinite ?o then ?n else 0)"
    using infinite_clones [OF assms(2,3)] finite_clones [of s] assms(4) by auto
  have len: "\<not> int (length (track s)) \<le> ?n"
    using track_okD(1,2) [OF assms(1)] idx by simp
  show ?thesis
  proof (cases "index \<le> ?c - ?n")
    case True
    then have "window_els index (track s) s = js_slice index (index + ?n) (slides s)"
      using idx by (simp add: window_els_def Let_def)
    also have "\<dots> = take (nat ?n) (drop (clone_count s + nat index) (track s))"
      using True idx by (subst slides_window [OF assms(1)]) simp_all
    also have "clone_count s + nat index = nat (window_start s index)"
      using True idx assms(4) by (simp add: window_start_def Let_def)
    finally show ?thesis by (simp only: size')
  next
    case False
    show ?thesis
    proof (cases "?n = o_slidesToScroll ?o")
      case True
      then have "index mod ?n = 0" using assms(2) by (simp add: page_index_def Let_def)
      from last_page [OF idx(3) this idx(2)] False
      have r: "index + ?c mod ?n = ?c" "0 < ?c mod ?n" by simp_all
      have "js_rem ?c ?n = ?c mod ?n" using idx by simp
      let ?i = "if o_infinite ?o then ?n + index else index"
      have e: "?i - (?n - ?c mod ?n) = ?k + ?c - ?n" "?i + ?c mod ?n = ?k + ?c"
        using r kk by auto
      have p: "?n = o_slidesToScroll ?o \<and> ?c - index < ?n" "\<not> (index \<ge> 0 \<and> index \<le> ?c - ?n)"
        using True False by linarith+
      have "window_els index (track s) s = js_slice (?k + ?c - ?n) (?k + ?c) (track s)"
        unfolding window_els_def Let_def if_not_P [OF p(2)] if_not_P [OF len] if_P [OF p(1)]
        by (simp only: \<open>js_rem ?c ?n = ?c mod ?n\<close> e)
      also have "\<dots> = take (nat ?n) (drop (nat (?k + ?c - ?n)) (track s))"
        using idx by (subst track_window [OF assms(1)]) simp_all
      finally show ?thesis
        using True False assms(4) by (simp add: window_start_def Let_def size')
    next
      case ne: False
      then have inf: "o_infinite ?o" using False assms(4) full by (auto simp: full_window_def Let_def)
      then have "window_els index (track s) s = js_slice (?n + index) (?n + index + ?n) (track s)"
        using False ne len by (simp add: window_els_def Let_def)
      also have "\<dots> = take (nat ?n) (drop (nat (?n + index)) (track s))"
        using idx kk inf by (subst track_window [OF assms(1)]) simp_all
      finally show ?thesis
        using ne False assms(4) by (simp add: window_start_def Let_def size')
    qed
  qed
qed

lemma window_in_track:
  assumes "track_ok s" "page_index s index" "\<not> o_fade (options s)" and full: "full_window s index"
  shows "0 \<le> window_start s index \<and>
         window_start s index + window_size (options s) \<le> int (length (track s))"
proof -
  let ?o = "options s" let ?n = "o_slidesToShow ?o" and ?c = "slideCount s" and ?k = "int (clone_count s)"
  have idx: "0 \<le> index" "index < ?c" "0 < ?n" "?n < ?c"
    using assms(2) by (auto simp: page_index_def Let_def)
  have len: "int (length (track s)) = ?c + 2 * ?k" using track_okD(1,2) [OF assms(1)] by simp
  have h: "0 \<le> ?n div 2" "2 * (?n div 2) \<le> ?n" using idx by simp_all
  have kk: "o_infinite ?o \<Longrightarrow> ?k = (if o_centerMode ?o then ?n + 1 else ?n)"
    using infinite_clones [OF assms(2,3)] by simp
  have "o_centerMode ?o \<Longrightarrow> o_infinite ?o" using full by (auto simp: full_window_def Let_def)
  moreover have "\<not> o_centerMode ?o \<Longrightarrow> \<not> index \<le> ?c - ?n \<Longrightarrow> ?n \<noteq> o_slidesToScroll ?o \<Longrightarrow> o_infinite ?o"
    using full by (auto simp: full_window_def Let_def)
  ultimately show ?thesis
    using idx len h kk by (auto simp: window_start_def window_size_def Let_def)
qed

lemma base_offset_page:
  assumes "page_index s index" "\<not> o_fade (options s)" and full: "full_window s index"
  shows "(real_of_int index * w) * - 1 +
           center_offset (options s) w (base_offset (options s) (slideCount s) index w) =
         - (real_of_int (window_start s index - window_lag s index) * w)"
proof -
  let ?o = "options s"
  let ?n = "o_slidesToShow ?o" and ?k = "o_slidesToScroll ?o" and ?c = "slideCount s"
  have idx: "0 \<le> index" "index < ?c" "0 < ?n" "?n < ?c" "0 < ?k" "index mod ?k = 0"
    using assms(1) by (auto simp: page_index_def Let_def)
  have rem: "js_rem ?c ?k = ?c mod ?k" using idx by simp
  show ?thesis
  proof (cases "o_infinite ?o")
    case inf: True
    define j where "j = (if ?c mod ?k \<noteq> 0 \<and> index + ?k > ?c then ?c mod ?k else ?n)"
    have off: "infinite_offset ?o ?c index w = - (real_of_int j * w)"
      using idx rem by (simp add: infinite_offset_def Let_def j_def)
    show ?thesis
    proof (cases "o_centerMode ?o")
      case True
      then show ?thesis
        using idx inf off
        by (simp add: j_def center_offset_def base_offset_def window_start_def window_lag_def Let_def algebra_simps)
    next
      case plain: False
      have kk: "int (clone_count s) = ?n" using infinite_clones [OF assms(1,2) inf] plain by simp
      have late: "index + ?c mod ?n = ?c" if "?n = ?k" "?c - ?n < index"
        using last_page(1) [OF idx(3) _ idx(2)] that idx(6) by simp
      have e: "window_start s index - window_lag s index = index + j"
      proof (cases "?n = ?k \<and> ?c - ?n < index")
        case True
        then have "0 < ?c mod ?n" using last_page(2) [OF idx(3) _ idx(2)] idx(6) by simp
        then show ?thesis using True late plain inf kk by (auto simp: j_def window_start_def window_lag_def Let_def)
      next
        case False
        then show ?thesis using plain inf kk by (auto simp: j_def window_start_def window_lag_def Let_def)
      qed
      then show ?thesis
        using idx inf plain off unfolding center_offset_def base_offset_def e
        by (simp add: algebra_simps)
    qed
  next
    case fin: False
    then have c: "\<not> o_centerMode ?o" "index \<le> ?c - ?n \<or> ?n = ?k" using full by (auto simp: full_window_def Let_def)
    have lag: "window_lag s index = 0" using fin by (simp add: window_lag_def Let_def)
    show ?thesis
      using idx fin c finite_clones [OF fin]
      by (auto simp: lag center_offset_def base_offset_def finite_offset_def window_start_def Let_def algebra_simps)
  qed
qed

lemma late_finite_window:
  assumes "track_ok s" "page_index s index" "\<not> o_infinite (options s)" "\<not> o_centerMode (options s)"
    and "o_slidesToShow (options s) \<noteq> o_slidesToScroll (options s)"
    and "slideCount s - o_slidesToShow (options s) < index"
  shows "set (window_els index (track s) s) = set (drop (nat index) (slides s))"
proof -
  let ?n = "o_slidesToShow (options s)"
  have idx: "0 \<le> index" "index < slideCount s" "0 < ?n" "?n < slideCount s"
    using assms(2) by (auto simp: page_index_def Let_def)
  have k: "clone_count s = 0" using finite_clones [OF assms(3)] .
  have tr: "track s = slides s" using track_okD(1-3) [OF assms(1)] k by simp
  have len: "slideCount s = int (length (slides s))" using track_okD(1) [OF assms(1)] .
  have "window_els index (track s) s = js_slice index (index + ?n) (slides s)"
    using assms(3,5,6) idx len by (simp add: window_els_def Let_def tr)
  also have "\<dots> = drop (nat index) (slides s)"
    using idx len assms(6) by (simp add: js_slice_def Let_def slice_pos_def)
  finally show ?thesis by simp
qed

text \<open>C4: on every page of a horizontal slider with slides of one width, what is marked as active
  and what \<open>getLeft\<close> moves into view.  On a finite slider with \<open>centerMode\<close> nothing is marked.  On a
  finite slider that scrolls by another number than it shows, a page that begins after the last
  possible position is shown from that position, and only its own slides are marked.  On all other
  pages as many slides of the track, in a row, are marked as there are in view, and these are the
  slides in view, except on the last page of an infinite slider whose slides do not fill its pages:
  there the window begins \<open>window_lag\<close> slides before them (after them, when that is negative).\<close>

theorem active_window_at_position:
  assumes "track_ok s" "page_index s index"
    and "\<not> o_fade (options s)" "\<not> o_vertical (options s)" "\<not> o_variableWidth (options s)"
  shows "let o' = options s; n = o_slidesToShow o'; left = fst (getLeft \<E> index s);
             active = active_els (setSlideClasses index s) in
         if \<not> o_infinite o' \<and> o_centerMode o' then active = {}
         else if \<not> o_infinite o' \<and> n \<noteq> o_slidesToScroll o' \<and> slideCount s - n < index
         then left = - (real_of_int (slideCount s - n) * slideWidth s) \<and>
              active = set (drop (nat index) (slides s))
         else \<exists>p. p + nat (window_size o') \<le> length (track s) \<and>
                  left = - (real_of_int (int p - window_lag s index) * slideWidth s) \<and>
                  active = set (take (nat (window_size o')) (drop p (track s)))"
proof -
  let ?o = "options s" and ?n = "o_slidesToShow (options s)"
  note idx = assms(2) [unfolded page_index_def Let_def]
  note act = active_els_setSlideClasses [OF assms(1), of index]
  have left: "fst (getLeft \<E> index s) =
      (real_of_int index * slideWidth s) * - 1 +
        center_offset ?o (slideWidth s) (base_offset ?o (slideCount s) index (slideWidth s))"
    using assms(4,5) by (simp add: getLeft_def Let_def)
  consider (none) "\<not> o_infinite ?o" "o_centerMode ?o"
    | (late) "\<not> o_infinite ?o" "\<not> o_centerMode ?o" "?n \<noteq> o_slidesToScroll ?o" "slideCount s - ?n < index"
    | (full) "full_window s index" "\<not> (\<not> o_infinite ?o \<and> o_centerMode ?o)"
        "\<not> (\<not> o_infinite ?o \<and> ?n \<noteq> o_slidesToScroll ?o \<and> slideCount s - ?n < index)"
    by (fastforce simp: full_window_def Let_def)
  then show ?thesis
  proof cases
    case none
    then show ?thesis using act by (simp add: center_els_def Let_def)
  next
    case late
    have "set (slides s) \<subseteq> set (track s)" using track_okD(7) [OF assms(1)] .
    then have "active_els (setSlideClasses index s) = set (drop (nat index) (slides s))"
      using act late late_finite_window [OF assms(1,2) late] by (auto dest: in_set_dropD)
    moreover have "fst (getLeft \<E> index s) = - (real_of_int (slideCount s - ?n) * slideWidth s)"
      using idx late unfolding left
      by (simp add: center_offset_def base_offset_def finite_offset_def algebra_simps)
    ultimately show ?thesis using late by (simp add: Let_def)
  next
    case full
    define p where "p = nat (window_start s index)"
    have w: "0 \<le> window_start s index"
      "window_start s index + window_size ?o \<le> int (length (track s))"
      using window_in_track [OF assms(1-3) full(1)] by simp_all
    have "0 \<le> window_size ?o" using idx by (auto simp: window_size_def)
    then have "p + nat (window_size ?o) \<le> length (track s)" using w by (simp add: p_def)
    moreover have "fst (getLeft \<E> index s) = - (real_of_int (int p - window_lag s index) * slideWidth s)"
      using w base_offset_page [OF assms(2,3) full(1)] by (simp add: left p_def)
    moreover have "active_els (setSlideClasses index s) = set (take (nat (window_size ?o)) (drop p (track s)))"
      using act full(2) center_window [OF assms(1-3)] plain_window [OF assms(1-3) _ full(1)]
      by (auto simp: p_def dest: in_set_takeD in_set_dropD)
    ultimately show ?thesis unfolding Let_def if_not_P [OF full(2)] if_not_P [OF full(3)] by blast
  qed
qed

theorem active_window_at_position_witness:
  "fst (getLeft plain_env 4 (sample 6 [S_infinite False, S_slidesToShow 3, S_slidesToScroll 2])) =
     - (3 * slideWidth (sample 6 [S_infinite False, S_slidesToShow 3, S_slidesToScroll 2])) \<and>
   active_els (setSlideClasses 4 (sample 6 [S_infinite False, S_slidesToShow 3, S_slidesToScroll 2])) =
     set (drop 4 (slides (sample 6 [S_infinite False, S_slidesToShow 3, S_slidesToScroll 2])))"
  using active_window_at_position
    [of "sample 6 [S_infinite False, S_slidesToShow 3, S_slidesToScroll 2]" 4 plain_env]
  by (simp add: track_ok_def page_index_def clone_count_def Let_def blank_def)

text \<open>After \<open>setSlideClasses\<close> the slide at the index is the only current one on the track, and
  the track is still well formed.\<close>

theorem one_current_slide:
  assumes "track_ok s" "0 \<le> index" "index < slideCount s"
  shows "current_els (setSlideClasses index s) = {slides s ! nat index} \<and>
         track_ok (setSlideClasses index s)"
proof -
  have "eq index (slides s) = [slides s ! nat index]"
    using assms track_okD(1) [OF assms(1)] by simp
  moreover have "slides s ! nat index \<in> set (track s)"
    using assms track_okD(1,7) [OF assms(1)] by (auto simp: subset_iff)
  ultimately show ?thesis
    using setSlideClasses_track_ok [OF assms(1)] track_okD(5) [OF assms(1)]
    by (auto simp: current_els_def setSlideClasses_current)
qed

theorem one_current_slide_witness:
  "current_els (setSlideClasses 2 (sample 4 [S_infinite False])) = {2} \<and>
   track_ok (setSlideClasses 2 (sample 4 [S_infinite False]))"
  using one_current_slide [of "sample 4 [S_infinite False]" 2]
  by (simp add: track_ok_def clone_count_def blank_def)

subsection \<open>Cloning\<close>

lemma clone_tree_frame:
  "clone_tree d i (h, n) = (h', n') \<Longrightarrow> n < n' \<and> (\<forall>j < n. h' j = h j)"
  "clone_kids d is (h, n) = (ks, h', n') \<Longrightarrow> n \<le> n' \<and> (\<forall>j < n. h' j = h j)"
proof (induction d i "(h, n)" and d "is" "(h, n)" arbitrary: h n h' n' and h n ks h' n'
    rule: clone_tree_clone_kids.induct)
  case (1 i h n)
  then show ?case by auto
next
  case (2 d i h n)
  obtain ks h1 n1 where k: "clone_kids d (kids (h i)) (h, n + 1) = (ks, h1, n1)"
    by (cases "clone_kids d (kids (h i)) (h, n + 1)") auto
  from "2.hyps" [OF k] have "n + 1 \<le> n1 \<and> (\<forall>j < n + 1. h1 j = h j)" .
  with k "2.prems" show ?case by auto
next
  case (3 d h n)
  then show ?case by simp
next
  case (4 d i "is" h n)
  obtain h1 n1 where t: "clone_tree d i (h, n) = (h1, n1)" by (cases "clone_tree d i (h, n)") auto
  obtain ks' h2 n2 where k: "clone_kids d is (h1, n1) = (ks', h2, n2)"
    by (cases "clone_kids d is (h1, n1)") auto
  have "n < n1 \<and> (\<forall>j < n. h1 j = h j)" using "4.hyps"(1) [OF t] .
  moreover have "n1 \<le> n2 \<and> (\<forall>j < n1. h2 j = h1 j)" using "4.hyps"(2) [OF t [symmetric] k] .
  ultimately show ?case using "4.prems" t k by auto
qed

lemma clone_tree_top:
  assumes "clone_tree d i (h, n) = (h', n')"
  shows "\<exists>ks. h' n = (h i)\<lparr>kids := ks\<rparr>"
proof (cases d)
  case 0
  with assms have "h' n = (h i)\<lparr>kids := kids (h i)\<rparr>" by auto
  then show ?thesis by (rule exI)
next
  case (Suc e)
  with assms show ?thesis by (auto split: prod.splits)
qed

lemma clone_kids_fresh:
  "clone_kids d is (h, n) = (ks, h', n') \<Longrightarrow> \<forall>j \<in> set ks. n \<le> j \<and> j < n'"
proof (induction "is" arbitrary: h n ks h' n')
  case Nil
  then show ?case by simp
next
  case (Cons i "is")
  obtain h1 n1 where t: "clone_tree d i (h, n) = (h1, n1)" by (cases "clone_tree d i (h, n)") auto
  obtain ks' h2 n2 where k: "clone_kids d is (h1, n1) = (ks', h2, n2)"
    by (cases "clone_kids d is (h1, n1)") auto
  have "\<forall>j \<in> set ks'. n1 \<le> j \<and> j < n2" by (rule Cons.IH [OF k])
  moreover have "n < n1" using clone_tree_frame(1) [OF t] by simp
  moreover have "n1 \<le> n2" using clone_tree_frame(2) [OF k] by simp
  ultimately show ?case using Cons.prems t k by fastforce
qed

lemma clone_tree_kids:
  assumes "clone_tree (Suc d) i (h, n) = (h', n')"
  shows "\<forall>j \<in> set (kids (h' n)). n < j \<and> j < n'"
proof -
  obtain ks h1 n1 where k: "clone_kids d (kids (h i)) (h, n + 1) = (ks, h1, n1)"
    by (cases "clone_kids d (kids (h i)) (h, n + 1)") auto
  then show ?thesis using assms clone_kids_fresh [OF k] by (auto simp: Suc_le_eq)
qed

lemma clone_kids_kids:
  "clone_kids (Suc d) is (h, n) = (ks, h', n') \<Longrightarrow> \<forall>j \<in> set ks. \<forall>m \<in> set (kids (h' j)). n < m"
proof (induction "is" arbitrary: h n ks h' n')
  case Nil
  then show ?case by simp
next
  case (Cons i "is")
  obtain h1 n1 where t: "clone_tree (Suc d) i (h, n) = (h1, n1)"
    by (cases "clone_tree (Suc d) i (h, n)") auto
  obtain ks' h2 n2 where k: "clone_kids (Suc d) is (h1, n1) = (ks', h2, n2)"
    by (cases "clone_kids (Suc d) is (h1, n1)") auto
  have r: "ks = n # ks'" "h' = h2" using Cons.prems t k by simp_all
  have n1: "n < n1" using clone_tree_frame(1) [OF t] by simp
  then have "h2 n = h1 n" using clone_tree_frame(2) [OF k] by simp
  then have "\<forall>m \<in> set (kids (h2 n)). n < m" using clone_tree_kids [OF t] by simp
  moreover have "\<forall>j \<in> set ks'. \<forall>m \<in> set (kids (h2 j)). n1 < m" by (rule Cons.IH [OF k])
  ultimately show ?case using r n1 by fastforce
qed

lemma clone_tree_grandkids:
  assumes "clone_tree 2 i (h, n) = (h', n')"
  shows "\<forall>j \<in> set (kids (h' n)). n < j \<and> j < n' \<and> (\<forall>m \<in> set (kids (h' j)). n < m)"
proof -
  have s: "clone_tree (Suc (Suc 0)) i (h, n) = (h', n')" using assms by (simp add: numeral_2_eq_2)
  obtain ks h1 n1 where k: "clone_kids (Suc 0) (kids (h i)) (h, n + 1) = (ks, h1, n1)"
    by (cases "clone_kids (Suc 0) (kids (h i)) (h, n + 1)") auto
  then have r: "h' = h1(n := (h i)\<lparr>kids := ks\<rparr>)" using s by simp
  show ?thesis
    using clone_tree_kids [OF s] clone_kids_kids [OF k] r by fastforce
qed

text \<open>\<open>is_clone s0 s i l\<close>: \<open>i\<close> is a new element, labelled \<open>l\<close>, with the classes of the slide
  whose number is \<open>l\<close> modulo the number of slides, and \<open>slick-cloned\<close>.\<close>

definition is_clone :: "slick \<Rightarrow> slick \<Rightarrow> nat \<Rightarrow> int \<Rightarrow> bool" where
  "is_clone s0 s i l \<longleftrightarrow>
     nextEl s0 \<le> i \<and> i < nextEl s \<and> slick_index (els s i) = Some l \<and>
     classes (els s i) =
       insert Slick_cloned (classes (els s0 (slides s0 ! nat (l mod slideCount s0)))) \<and>
     pics (els s i) = pics (els s0 (slides s0 ! nat (l mod slideCount s0))) \<and>
     (\<forall>j \<in> set (kids (els s i)). nextEl s0 \<le> j \<and> j < nextEl s \<and>
        (\<forall>m \<in> set (kids (els s j)). nextEl s0 \<le> m))"

text \<open>What holds while the clones are made: \<open>a\<close> of them before the slides and \<open>b\<close> after.\<close>

definition cloning :: "slick \<Rightarrow> slick \<Rightarrow> int \<Rightarrow> int \<Rightarrow> bool" where
  "cloning s0 s a b \<longleftrightarrow>
     (\<exists>pre post. track s = pre @ slides s0 @ post \<and> distinct (pre @ post) \<and>
        list_all2 (is_clone s0 s) pre [- a .. - 1] \<and>
        list_all2 (is_clone s0 s) post [slideCount s0 .. slideCount s0 + b - 1]) \<and>
     (\<forall>j < nextEl s0. els s j = els s0 j) \<and> nextEl s0 \<le> nextEl s \<and>
     slides s = slides s0 \<and> slideCount s = slideCount s0 \<and> options s = options s0 \<and>
     currentSlide s = currentSlide s0"

lemma is_clone_mono:
  assumes "is_clone s0 s i l" "nextEl s \<le> nextEl t" "\<forall>j < nextEl s. els t j = els s j"
  shows "is_clone s0 t i l"
proof -
  have i: "i < nextEl s" using assms(1) by (simp add: is_clone_def)
  then have e: "els t i = els s i" using assms(3) by simp
  have "els t j = els s j" if "j \<in> set (kids (els s i))" for j
    using that assms(1,3) by (simp add: is_clone_def)
  then show ?thesis using assms(1,2) i e by (fastforce simp: is_clone_def)
qed

lemma clone_slide_facts:
  fixes s i l
  defines "t \<equiv> clone_slide i l s"
  shows "nextEl s < nextEl t" and "\<forall>j < nextEl s. els t j = els s j"
    and "slick_index (els t (nextEl s)) = Some l"
    and "classes (els t (nextEl s)) = insert Slick_cloned (classes (els s i))"
    and "pics (els t (nextEl s)) = pics (els s i)"
    and "slides t = slides s" "slideCount t = slideCount s" "options t = options s"
    "currentSlide t = currentSlide s" "track t = track s"
    and "\<forall>j \<in> set (kids (els t (nextEl s))). nextEl s \<le> j \<and> j < nextEl t \<and>
           (\<forall>m \<in> set (kids (els t j)). nextEl s \<le> m)"
proof -
  obtain h n where c: "clone_tree 2 i (els s, nextEl s) = (h, n)"
    by (cases "clone_tree 2 i (els s, nextEl s)") auto
  note f = clone_tree_frame(1) [OF c] and t = clone_tree_top [OF c]
  show "nextEl s < nextEl t" "\<forall>j < nextEl s. els t j = els s j"
    "slides t = slides s" "slideCount t = slideCount s" "options t = options s"
    "currentSlide t = currentSlide s" "track t = track s"
    using f by (simp_all add: t_def clone_slide_def c)
  show "slick_index (els t (nextEl s)) = Some l"
    "classes (els t (nextEl s)) = insert Slick_cloned (classes (els s i))"
    using t by (auto simp: t_def clone_slide_def c slick_index_def dom_simps)
  show "pics (els t (nextEl s)) = pics (els s i)"
    using t by (auto simp: t_def clone_slide_def c elem_ops)
  have "n \<noteq> nextEl s" using f by simp
  then show "\<forall>j \<in> set (kids (els t (nextEl s))). nextEl s \<le> j \<and> j < nextEl t \<and>
           (\<forall>m \<in> set (kids (els t j)). nextEl s \<le> m)"
    using clone_tree_grandkids [OF c] by (fastforce simp: t_def clone_slide_def c dom_simps)
qed
lemma list_all2_is_clone_mono:
  assumes "list_all2 (is_clone s0 s) xs ls" "nextEl s \<le> nextEl t" "\<forall>j < nextEl s. els t j = els s j"
  shows "list_all2 (is_clone s0 t) xs ls"
  using assms(1) by (rule list_all2_mono) (rule is_clone_mono [OF _ assms(2,3)])

lemma is_clone_below: "list_all2 (is_clone s0 s) xs ls \<Longrightarrow> \<forall>i \<in> set xs. nextEl s0 \<le> i \<and> i < nextEl s"
  by (auto simp: list_all2_conv_all_nth in_set_conv_nth is_clone_def)

lemma new_clone:
  assumes "cloning s0 s a b" "l mod slideCount s0 = si" "0 \<le> si" "si < slideCount s0"
    and "slideCount s0 = int (length (slides s0))" "\<forall>i \<in> set (slides s0). i < nextEl s0"
  defines "t \<equiv> clone_slide (slides s0 ! nat si) l s"
  shows "is_clone s0 t (nextEl s) l"
proof -
  let ?i = "slides s0 ! nat si"
  have "?i < nextEl s0" using assms(3-6) by simp
  then have "els s ?i = els s0 ?i" using assms(1) by (simp add: cloning_def)
  moreover have "nextEl s0 \<le> nextEl s" using assms(1) by (simp add: cloning_def)
  ultimately show ?thesis
    using clone_slide_facts [where s = s and i = ?i and l = l] assms(2)
    by (fastforce simp: is_clone_def t_def)
qed

lemma cloning_prepend:
  assumes "cloning s0 s a b" "0 \<le> a" "a < slideCount s0"
    and "slideCount s0 = int (length (slides s0))" "\<forall>i \<in> set (slides s0). i < nextEl s0"
  shows "cloning s0 (prepend_clone (slideCount s0 - a - 1) s) (a + 1) b"
proof -
  let ?si = "slideCount s0 - a - 1"
  have si: "0 \<le> ?si" "?si < slideCount s0" using assms(2,3) by simp_all
  have c: "slides s = slides s0" "slideCount s = slideCount s0" using assms(1) by (simp_all add: cloning_def)
  define t where "t = clone_slide (slides s0 ! nat ?si) (?si - slideCount s0) s"
  have p: "prepend_clone ?si s = t\<lparr>track := nextEl s # track s\<rparr>"
    using si assms(4) by (simp add: prepend_clone_def c t_def)
  note f = clone_slide_facts [where s = s and i = "slides s0 ! nat ?si" and l = "?si - slideCount s0",
      folded t_def]
  have mod: "(?si - slideCount s0) mod slideCount s0 = ?si"
    using si by (metis minus_mod_self2 mod_pos_pos_trivial)
  have new: "is_clone s0 t (nextEl s) (- a - 1)"
    using new_clone [OF assms(1) mod si assms(4,5)] by (simp add: t_def)
  obtain pre post where pp: "track s = pre @ slides s0 @ post" "distinct (pre @ post)"
    "list_all2 (is_clone s0 s) pre [- a .. - 1]"
    "list_all2 (is_clone s0 s) post [slideCount s0 .. slideCount s0 + b - 1]"
    using assms(1) by (auto simp: cloning_def)
  note keep = less_imp_le [OF f(1)] f(2)
  have "list_all2 (is_clone s0 t) (nextEl s # pre) ((- a - 1) # [- a - 1 + 1 .. - 1])"
    using list_all2_is_clone_mono [OF pp(3) keep] new by simp
  then have "list_all2 (is_clone s0 t) (nextEl s # pre) [- (a + 1) .. - 1]"
    using assms(2) by (simp add: upto_rec1 [of "- a - 1" "- 1"])
  moreover have "list_all2 (is_clone s0 t) post [slideCount s0 .. slideCount s0 + b - 1]"
    by (rule list_all2_is_clone_mono [OF pp(4) keep])
  moreover have "distinct ((nextEl s # pre) @ post)"
    using pp(2) is_clone_below [OF pp(3)] is_clone_below [OF pp(4)] by auto
  moreover have "track (t\<lparr>track := nextEl s # track s\<rparr>) = (nextEl s # pre) @ slides s0 @ post"
    by (simp add: pp(1))
  moreover have "is_clone s0 (t\<lparr>track := nextEl s # track s\<rparr>) = is_clone s0 t"
    by (intro ext) (simp add: is_clone_def)
  ultimately have "\<exists>pre post. track (prepend_clone ?si s) = pre @ slides s0 @ post \<and> distinct (pre @ post) \<and>
        list_all2 (is_clone s0 (prepend_clone ?si s)) pre [- (a + 1) .. - 1] \<and>
        list_all2 (is_clone s0 (prepend_clone ?si s)) post [slideCount s0 .. slideCount s0 + b - 1]"
    unfolding p by (intro exI conjI) simp_all
  moreover have "\<forall>j < nextEl s0. els t j = els s0 j" "nextEl s0 \<le> nextEl t"
    using assms(1) f(1,2) by (auto simp: cloning_def)
  ultimately show ?thesis
    using assms(1) f(6-9) unfolding cloning_def p by simp
qed

lemma cloning_append:
  assumes "cloning s0 s a b" "0 \<le> b" "b < slideCount s0"
    and "slideCount s0 = int (length (slides s0))" "\<forall>i \<in> set (slides s0). i < nextEl s0"
  shows "cloning s0 (append_clone b s) a (b + 1)"
proof -
  have c: "slides s = slides s0" "slideCount s = slideCount s0" using assms(1) by (simp_all add: cloning_def)
  define t where "t = clone_slide (slides s0 ! nat b) (b + slideCount s0) s"
  have p: "append_clone b s = t\<lparr>track := track s @ [nextEl s]\<rparr>"
    using assms(2-4) clone_slide_facts(10) [where s = s] by (simp add: append_clone_def c t_def)
  note f = clone_slide_facts [where s = s and i = "slides s0 ! nat b" and l = "b + slideCount s0",
      folded t_def]
  have mod: "(b + slideCount s0) mod slideCount s0 = b" using assms(2,3) by simp
  have new: "is_clone s0 t (nextEl s) (b + slideCount s0)"
    using new_clone [OF assms(1) mod assms(2-5)] by (simp add: t_def)
  obtain pre post where pp: "track s = pre @ slides s0 @ post" "distinct (pre @ post)"
    "list_all2 (is_clone s0 s) pre [- a .. - 1]"
    "list_all2 (is_clone s0 s) post [slideCount s0 .. slideCount s0 + b - 1]"
    using assms(1) by (auto simp: cloning_def)
  note keep = less_imp_le [OF f(1)] f(2)
  have "list_all2 (is_clone s0 t) (post @ [nextEl s])
          ([slideCount s0 .. b + slideCount s0 - 1] @ [b + slideCount s0])"
    using list_all2_is_clone_mono [OF pp(4) keep] new
    by (intro list_all2_appendI) (simp_all add: add.commute)
  moreover have "[slideCount s0 .. slideCount s0 + (b + 1) - 1] =
                   [slideCount s0 .. b + slideCount s0 - 1] @ [b + slideCount s0]"
    using assms(2) by (subst upto_rec2) (simp_all add: add.commute)
  ultimately have "list_all2 (is_clone s0 t) (post @ [nextEl s]) [slideCount s0 .. slideCount s0 + (b + 1) - 1]"
    by simp
  moreover have "list_all2 (is_clone s0 t) pre [- a .. - 1]"
    by (rule list_all2_is_clone_mono [OF pp(3) keep])
  moreover have "distinct (pre @ post @ [nextEl s])"
    using pp(2) is_clone_below [OF pp(3)] is_clone_below [OF pp(4)] by auto
  moreover have "track (t\<lparr>track := track s @ [nextEl s]\<rparr>) = pre @ slides s0 @ post @ [nextEl s]"
    by (simp add: pp(1))
  moreover have "is_clone s0 (t\<lparr>track := track s @ [nextEl s]\<rparr>) = is_clone s0 t"
    by (intro ext) (simp add: is_clone_def)
  ultimately have "\<exists>pre post. track (append_clone b s) = pre @ slides s0 @ post \<and> distinct (pre @ post) \<and>
        list_all2 (is_clone s0 (append_clone b s)) pre [- a .. - 1] \<and>
        list_all2 (is_clone s0 (append_clone b s)) post [slideCount s0 .. slideCount s0 + (b + 1) - 1]"
    unfolding p by (intro exI [of _ pre] exI [of _ "post @ [nextEl s]"] conjI) simp_all
  moreover have "\<forall>j < nextEl s0. els t j = els s0 j" "nextEl s0 \<le> nextEl t"
    using assms(1) f(1,2) by (auto simp: cloning_def)
  ultimately show ?thesis
    using assms(1) f(6-9) unfolding cloning_def p by simp
qed
lemma cloning_prepend_loop:
  assumes "cloning s0 s 0 b" "int k \<le> slideCount s0"
    and "slideCount s0 = int (length (slides s0))" "\<forall>i \<in> set (slides s0). i < nextEl s0"
  shows "cloning s0 (fold (\<lambda>i. prepend_clone (i - 1)) (rev [slideCount s0 - int k + 1 .. slideCount s0]) s)
           (int k) b"
  using assms(2)
proof (induction k)
  case 0
  then show ?case using assms(1) by simp
next
  case (Suc k)
  let ?f = "fold (\<lambda>i. prepend_clone (i - 1)) (rev [slideCount s0 - int k + 1 .. slideCount s0]) s"
  have "[slideCount s0 - int (Suc k) + 1 .. slideCount s0] =
          (slideCount s0 - int k) # [slideCount s0 - int k + 1 .. slideCount s0]"
    by (subst upto_rec1) simp_all
  then have "fold (\<lambda>i. prepend_clone (i - 1)) (rev [slideCount s0 - int (Suc k) + 1 .. slideCount s0]) s =
               prepend_clone (slideCount s0 - int k - 1) ?f" by simp
  then show ?case
    using cloning_prepend [of s0 ?f "int k" b] Suc assms(3,4) by (simp add: add.commute)
qed

lemma cloning_append_loop:
  assumes "cloning s0 s a 0" "int k \<le> slideCount s0"
    and "slideCount s0 = int (length (slides s0))" "\<forall>i \<in> set (slides s0). i < nextEl s0"
  shows "cloning s0 (fold append_clone [0 .. int k - 1] s) a (int k)"
  using assms(2)
proof (induction k)
  case 0
  then show ?case using assms(1) by simp
next
  case (Suc k)
  let ?f = "fold append_clone [0 .. int k - 1] s"
  have "[0 .. int (Suc k) - 1] = [0 .. int k - 1] @ [int k]"
    by (simp add: upto_rec2 [of 0 "int k"])
  then have "fold append_clone [0 .. int (Suc k) - 1] s = append_clone (int k) ?f" by simp
  then show ?case
    using cloning_append [of s0 ?f a "int k"] Suc assms(3,4) by (simp add: add.commute)
qed

text \<open>A track with its slides and nothing else, as \<open>buildOut\<close> and \<open>reinit\<close> make it.\<close>

definition bare_track :: "slick \<Rightarrow> bool" where
  "bare_track s \<longleftrightarrow>
     track s = slides s \<and> slideCount s = int (length (slides s)) \<and> distinct (slides s) \<and>
     (\<forall>i \<in> set (slides s). i < nextEl s \<and> Slick_slide \<in> classes (els s i) \<and>
        Slick_cloned \<notin> classes (els s i))"

lemma classes_clear_id [simp]: "classes (clear_id e) = classes e"
  by (simp add: clear_id_def dom_simps)

lemma slick_index_clear_id [simp]: "slick_index (clear_id e) = slick_index e"
  by (simp add: clear_id_def dom_simps slick_index_def)

lemma kids_clear_id [simp]: "kids (clear_id e) = kids e"
  by (simp add: clear_id_def dom_simps)

lemma pics_clear_id [simp]: "pics (clear_id e) = pics e"
  by (simp add: clear_id_def elem_ops)

definition no_center_in_fade :: "slick \<Rightarrow> slick" where
  "no_center_in_fade s =
     (if o_fade (options s) then write_option (o_centerMode_update (\<lambda>_. False)) s else s)"

lemma no_center_in_fade_same [simp]:
  "slides (no_center_in_fade s) = slides s" "slideCount (no_center_in_fade s) = slideCount s"
  "track (no_center_in_fade s) = track s" "els (no_center_in_fade s) = els s"
  "nextEl (no_center_in_fade s) = nextEl s" "currentSlide (no_center_in_fade s) = currentSlide s"
  "o_infinite (options (no_center_in_fade s)) = o_infinite (options s)"
  "o_fade (options (no_center_in_fade s)) = o_fade (options s)"
  "o_slidesToShow (options (no_center_in_fade s)) = o_slidesToShow (options s)"
  "o_slidesToScroll (options (no_center_in_fade s)) = o_slidesToScroll (options s)"
  by (simp_all add: no_center_in_fade_def write_option_def Let_def)

lemma bare_track_no_center [simp]: "bare_track (no_center_in_fade s) = bare_track s"
  by (simp add: bare_track_def)

lemma infiniteCount_bounds:
  "0 < o_slidesToShow o' \<Longrightarrow> o_slidesToShow o' < c \<Longrightarrow> 0 < infiniteCount o' \<and> infiniteCount o' \<le> c"
  by (simp add: infiniteCount_def)

lemma setupInfinite_cloning:
  assumes "bare_track s" "0 < o_slidesToShow (options s)"
  shows "cloning (no_center_in_fade s) (setupInfinite s) (int (clone_count (no_center_in_fade s)))
           (int (clone_count (no_center_in_fade s)))"
proof -
  define s0 where "s0 = no_center_in_fade s"
  have bare: "bare_track s0" using assms(1) by (simp add: s0_def)
  then have t: "slideCount s0 = int (length (slides s0))" "\<forall>i \<in> set (slides s0). i < nextEl s0"
    by (simp_all add: bare_track_def)
  have start: "cloning s0 s0 0 0" using bare by (auto simp: cloning_def bare_track_def)
  let ?o = "options s0"
  show ?thesis
  proof (cases "o_infinite ?o \<and> \<not> o_fade ?o \<and> slideCount s0 > o_slidesToShow ?o")
    case False
    then have "setupInfinite s = s0" "clone_count s0 = 0"
      unfolding setupInfinite_def Let_def no_center_in_fade_def [symmetric] s0_def [symmetric]
      by (auto simp: clone_count_def)
    then show ?thesis using start by (simp flip: s0_def)
  next
    case True
    have k: "0 < infiniteCount ?o" "infiniteCount ?o \<le> slideCount s0"
      using infiniteCount_bounds [of ?o "slideCount s0"] True assms(2) by (simp_all add: s0_def)
    then have kk: "infiniteCount ?o = int (clone_count s0)" "int (clone_count s0) \<le> slideCount s0"
      using True by (simp_all add: clone_count_def)
    define s1 where "s1 = fold (\<lambda>i. prepend_clone (i - 1))
      (rev [slideCount s0 - int (clone_count s0) + 1 .. slideCount s0]) s0"
    define s2 where "s2 = fold append_clone [0 .. int (clone_count s0) - 1] s1"
    have "cloning s0 s1 (int (clone_count s0)) 0"
      unfolding s1_def by (rule cloning_prepend_loop [OF start kk(2) t])
    then have c: "cloning s0 s2 (int (clone_count s0)) (int (clone_count s0))"
      unfolding s2_def by (rule cloning_append_loop [OF _ kk(2) t])
    have eq: "setupInfinite s = mod_els (descendants (els s2) (clones s2)) clear_id s2"
      unfolding setupInfinite_def Let_def no_center_in_fade_def [symmetric] s0_def [symmetric]
        if_P [OF True] kk(1) s1_def [symmetric] s2_def [symmetric] ..
    obtain pre post where pp: "track s2 = pre @ slides s0 @ post" "distinct (pre @ post)"
      "list_all2 (is_clone s0 s2) pre [- int (clone_count s0) .. - 1]"
      "list_all2 (is_clone s0 s2) post [slideCount s0 .. slideCount s0 + int (clone_count s0) - 1]"
      and keep: "\<forall>j < nextEl s0. els s2 j = els s0 j"
      using c by (auto simp: cloning_def)
    have new: "\<exists>l. is_clone s0 s2 i l" if "i \<in> set (clones s2)" for i
    proof -
      have "i \<notin> set (slides s0)" using that keep bare by (auto simp: clones_def bare_track_def)
      then have "i \<in> set pre \<or> i \<in> set post" using that pp(1) by (auto simp: clones_def)
      then show ?thesis using pp(3,4) by (auto simp: list_all2_conv_all_nth in_set_conv_nth)
    qed
    then have fresh: "\<forall>j \<in> set (descendants (els s2) (clones s2)). nextEl s0 \<le> j"
      by (fastforce simp: descendants_def is_clone_def)
    let ?t = "mod_els (descendants (els s2) (clones s2)) clear_id s2"
    have same: "kids (els ?t j) = kids (els s2 j)" "classes (els ?t j) = classes (els s2 j)"
      "slick_index (els ?t j) = slick_index (els s2 j)" "pics (els ?t j) = pics (els s2 j)" for j
      by (simp_all add: els_mod_els on_els_apply)
    have "is_clone s0 ?t = is_clone s0 s2"
      by (intro ext) (simp add: is_clone_def same)
    moreover have "\<forall>j < nextEl s0. els ?t j = els s0 j"
      using fresh keep by (auto simp: els_mod_els on_els_apply)
    ultimately show ?thesis
      using c unfolding s0_def [symmetric] eq cloning_def by simp
  qed
qed
lemma cloning_labels:
  assumes "list_all2 (is_clone s0 s) xs ls"
  shows "map (\<lambda>i. slick_index (els s i)) xs = map Some ls"
  using assms by (induction rule: list_all2_induct) (simp_all add: is_clone_def)

text \<open>The parts of the track after \<open>setupInfinite\<close>.\<close>

lemma setupInfinite_parts:
  assumes "bare_track s" "0 < o_slidesToShow (options s)"
  obtains pre post where
    "track (setupInfinite s) = pre @ slides s @ post" "distinct (pre @ post)"
    "length pre = clone_count (setupInfinite s)" "length post = clone_count (setupInfinite s)"
    "list_all2 (is_clone (no_center_in_fade s) (setupInfinite s)) pre
       [- int (clone_count (setupInfinite s)) .. - 1]"
    "list_all2 (is_clone (no_center_in_fade s) (setupInfinite s)) post
       [slideCount s .. slideCount s + int (clone_count (setupInfinite s)) - 1]"
    "\<forall>j < nextEl s. els (setupInfinite s) j = els s j" "nextEl s \<le> nextEl (setupInfinite s)"
    "slides (setupInfinite s) = slides s" "slideCount (setupInfinite s) = slideCount s"
proof -
  have c: "cloning (no_center_in_fade s) (setupInfinite s) (int (clone_count (no_center_in_fade s)))
           (int (clone_count (no_center_in_fade s)))"
    by (rule setupInfinite_cloning [OF assms])
  then have k: "clone_count (setupInfinite s) = clone_count (no_center_in_fade s)"
    by (intro clone_count_cong) (simp_all add: cloning_def)
  from c obtain pre post where pp:
    "track (setupInfinite s) = pre @ slides s @ post" "distinct (pre @ post)"
    "list_all2 (is_clone (no_center_in_fade s) (setupInfinite s)) pre
       [- int (clone_count (setupInfinite s)) .. - 1]"
    "list_all2 (is_clone (no_center_in_fade s) (setupInfinite s)) post
       [slideCount s .. slideCount s + int (clone_count (setupInfinite s)) - 1]"
    unfolding cloning_def k no_center_in_fade_same by blast
  have "length pre = clone_count (setupInfinite s)" "length post = clone_count (setupInfinite s)"
    using list_all2_lengthD [OF pp(3)] list_all2_lengthD [OF pp(4)] by simp_all
  moreover have "\<forall>j < nextEl s. els (setupInfinite s) j = els s j" "nextEl s \<le> nextEl (setupInfinite s)"
    "slides (setupInfinite s) = slides s" "slideCount (setupInfinite s) = slideCount s"
    using c by (simp_all add: cloning_def)
  ultimately show thesis using that pp by blast
qed

lemma is_clone_classes:
  assumes "list_all2 (is_clone s0 s) xs ls" "bare_track s0" "0 < slideCount s0" "i \<in> set xs"
  shows "nextEl s0 \<le> i \<and> i < nextEl s \<and> Slick_slide \<in> classes (els s i) \<and> Slick_cloned \<in> classes (els s i)"
proof -
  obtain l where l: "is_clone s0 s i l"
    using assms(1,4) by (auto simp: list_all2_conv_all_nth in_set_conv_nth)
  have "0 \<le> l mod slideCount s0" "l mod slideCount s0 < slideCount s0" using assms(3) by simp_all
  then have "nat (l mod slideCount s0) < length (slides s0)"
    using assms(2) by (auto simp: bare_track_def)
  then have "slides s0 ! nat (l mod slideCount s0) \<in> set (slides s0)" by simp
  then show ?thesis using l assms(2) by (auto simp: is_clone_def bare_track_def)
qed

lemma setupInfinite_track_ok:
  assumes "bare_track s" "0 < o_slidesToShow (options s)"
  shows "track_ok (setupInfinite s)"
proof (rule setupInfinite_parts [OF assms])
  let ?t = "setupInfinite s" and ?s0 = "no_center_in_fade s"
  fix pre post
  assume p: "track ?t = pre @ slides s @ post" "distinct (pre @ post)"
    "length pre = clone_count ?t" "length post = clone_count ?t"
    "list_all2 (is_clone ?s0 ?t) pre [- int (clone_count ?t) .. - 1]"
    "list_all2 (is_clone ?s0 ?t) post [slideCount s .. slideCount s + int (clone_count ?t) - 1]"
    "\<forall>j < nextEl s. els ?t j = els s j" "nextEl s \<le> nextEl ?t"
    "slides ?t = slides s" "slideCount ?t = slideCount s"
  have b0: "bare_track ?s0" using assms(1) by simp
  have pos: "0 < slideCount ?s0" if "pre \<noteq> [] \<or> post \<noteq> []"
  proof -
    have "clone_count ?t \<noteq> 0" using that p(3,4) by (metis length_0_conv)
    then have "o_slidesToShow (options ?t) < slideCount s"
      using p(10) by (simp add: clone_count_def split: if_splits)
    moreover have "options ?t = options ?s0"
      using setupInfinite_cloning [OF assms] by (simp add: cloning_def)
    ultimately show ?thesis using assms(2) by simp
  qed
  have cl: "nextEl s \<le> i \<and> i < nextEl ?t \<and> Slick_slide \<in> classes (els ?t i) \<and>
            Slick_cloned \<in> classes (els ?t i)" if "i \<in> set pre \<or> i \<in> set post" for i
  proof -
    have "pre \<noteq> [] \<or> post \<noteq> []" using that by (metis list.set(1) empty_iff)
    then have "0 < slideCount ?s0" by (rule pos)
    then show ?thesis
      using that is_clone_classes [OF p(5) b0] is_clone_classes [OF p(6) b0] by auto
  qed
  have sl: "i < nextEl s \<and> Slick_slide \<in> classes (els ?t i) \<and> Slick_cloned \<notin> classes (els ?t i)"
    if "i \<in> set (slides s)" for i
    using that assms(1) p(7) by (simp add: bare_track_def)
  have "distinct (track ?t)"
    using p(1,2) cl sl assms(1) by (fastforce simp: bare_track_def)
  moreover have "\<forall>i \<in> set (track ?t). Slick_slide \<in> classes (els ?t i) \<and> i < nextEl ?t"
    using p(1,8) cl sl by fastforce
  ultimately show ?thesis
    using p sl cl assms(1) by (simp add: track_ok_def bare_track_def)
qed

lemma upto_three:
  assumes "0 \<le> k" "0 \<le> (n :: int)"
  shows "[- k .. n + k - 1] = [- k .. - 1] @ [0 .. n - 1] @ [n .. n + k - 1]"
proof (cases "k = 0")
  case False
  then have "[- k .. n + k - 1] = [- k .. - 1] @ [0 .. n + k - 1]"
    using assms upto_split1 [of "- k" 0 "n + k - 1"] by simp
  also have "[0 .. n + k - 1] = [0 .. n - 1] @ [n .. n + k - 1]"
    using assms False upto_split1 [of 0 n "n + k - 1"] by simp
  finally show ?thesis .
qed simp

lemma setupInfinite_labels:
  assumes "bare_track s" "0 < o_slidesToShow (options s)"
    and "\<forall>j < length (slides s). slick_index (els s (slides s ! j)) = Some (int j)"
  shows "map (\<lambda>i. slick_index (els (setupInfinite s) i)) (track (setupInfinite s)) =
         map Some [- int (clone_count (setupInfinite s)) ..
                   slideCount s + int (clone_count (setupInfinite s)) - 1]"
proof (rule setupInfinite_parts [OF assms(1,2)])
  let ?t = "setupInfinite s" and ?k = "int (clone_count (setupInfinite s))"
  fix pre post
  assume p: "track ?t = pre @ slides s @ post"
    "list_all2 (is_clone (no_center_in_fade s) ?t) pre [- ?k .. - 1]"
    "list_all2 (is_clone (no_center_in_fade s) ?t) post [slideCount s .. slideCount s + ?k - 1]"
    "\<forall>j < nextEl s. els ?t j = els s j"
  have n: "slideCount s = int (length (slides s))" and lt: "\<forall>i \<in> set (slides s). i < nextEl s"
    using assms(1) by (simp_all add: bare_track_def)
  have "map (\<lambda>i. slick_index (els ?t i)) (slides s) = map Some [0 .. slideCount s - 1]"
    using assms(3) n lt p(4) by (intro nth_equalityI) simp_all
  moreover have "[- ?k .. slideCount s + ?k - 1] =
                   [- ?k .. - 1] @ [0 .. slideCount s - 1] @ [slideCount s .. slideCount s + ?k - 1]"
    using n by (intro upto_three) simp_all
  ultimately show ?thesis
    using p(1) cloning_labels [OF p(2)] cloning_labels [OF p(3)]
    by simp
qed

lemma setupInfinite_copies:
  assumes "bare_track s" "0 < o_slidesToShow (options s)"
    and "\<forall>j < length (slides s). slick_index (els s (slides s ! j)) = Some (int j)"
  shows "list_all (\<lambda>i. \<exists>l. slick_index (els (setupInfinite s) i) = Some l \<and>
           pics (els (setupInfinite s) i) = pics (els s (slides s ! nat (l mod slideCount s))))
           (track (setupInfinite s))"
proof (rule setupInfinite_parts [OF assms(1,2)])
  let ?t = "setupInfinite s" and ?k = "int (clone_count (setupInfinite s))"
  let ?copy = "\<lambda>i. \<exists>l. slick_index (els ?t i) = Some l \<and>
                 pics (els ?t i) = pics (els s (slides s ! nat (l mod slideCount s)))"
  fix pre post
  assume p: "track ?t = pre @ slides s @ post"
    "list_all2 (is_clone (no_center_in_fade s) ?t) pre [- ?k .. - 1]"
    "list_all2 (is_clone (no_center_in_fade s) ?t) post [slideCount s .. slideCount s + ?k - 1]"
    "\<forall>j < nextEl s. els ?t j = els s j"
  have c: "list_all ?copy xs" if "list_all2 (is_clone (no_center_in_fade s) ?t) xs ls" for xs ls
    using that by (induction rule: list_all2_induct) (auto simp: is_clone_def)
  have "?copy (slides s ! j)" if "j < length (slides s)" for j
    using that assms(1,3) p(4) by (intro exI [of _ "int j"]) (simp add: bare_track_def)
  then have "list_all ?copy (slides s)" by (simp add: list_all_length)
  then show ?thesis using p(1) c [OF p(2)] c [OF p(3)] by simp
qed

text \<open>C8: an infinite slider gets the same number of clones at both ends, and every element of the
  track carries the number of its place: the labels run without a gap from minus the number of
  clones, and an element shows the images of the slide with that number modulo the number of
  slides.\<close>

theorem infinite_layout:
  assumes "bare_track s" "0 < o_slidesToShow (options s)"
    and "\<forall>j < length (slides s). slick_index (els s (slides s ! j)) = Some (int j)"
  shows "track_ok (setupInfinite s) \<and>
         map (\<lambda>i. slick_index (els (setupInfinite s) i)) (track (setupInfinite s)) =
           map Some [- int (clone_count (setupInfinite s)) ..
                     slideCount s + int (clone_count (setupInfinite s)) - 1] \<and>
         list_all (\<lambda>i. \<exists>l. slick_index (els (setupInfinite s) i) = Some l \<and>
           pics (els (setupInfinite s) i) = pics (els s (slides s ! nat (l mod slideCount s))))
           (track (setupInfinite s))"
  using setupInfinite_track_ok [OF assms(1,2)] setupInfinite_labels [OF assms]
    setupInfinite_copies [OF assms] by blast

definition numbered :: "slick \<Rightarrow> slick" where
  "numbered s = s\<lparr>els := (\<lambda>i. attr Data_slick_index (ANum (int i)) (els s i))\<rparr>"

lemma bare_sample: "bare_track (sample n ss)" "bare_track (numbered (sample n ss))"
  by (simp_all add: bare_track_def numbered_def blank_def dom_simps)

theorem infinite_layout_witness:
  "track_ok (setupInfinite (numbered (sample 4 [S_slidesToShow 2]))) \<and>
   map (\<lambda>i. slick_index (els (setupInfinite (numbered (sample 4 [S_slidesToShow 2]))) i))
       (track (setupInfinite (numbered (sample 4 [S_slidesToShow 2])))) =
     map Some [- int (clone_count (setupInfinite (numbered (sample 4 [S_slidesToShow 2])))) ..
               slideCount (numbered (sample 4 [S_slidesToShow 2])) +
               int (clone_count (setupInfinite (numbered (sample 4 [S_slidesToShow 2])))) - 1] \<and>
   list_all (\<lambda>i. \<exists>l. slick_index (els (setupInfinite (numbered (sample 4 [S_slidesToShow 2]))) i) = Some l \<and>
     pics (els (setupInfinite (numbered (sample 4 [S_slidesToShow 2]))) i) =
       pics (els (numbered (sample 4 [S_slidesToShow 2])) (slides (numbered (sample 4 [S_slidesToShow 2])) !
         nat (l mod slideCount (numbered (sample 4 [S_slidesToShow 2]))))))
     (track (setupInfinite (numbered (sample 4 [S_slidesToShow 2]))))"
  by (rule infinite_layout [OF bare_sample(2)])
    (simp_all add: numbered_def slick_index_def dom_simps)

lemma remove_same [simp]:
  "track (remove_dots s) = track s" "slides (remove_dots s) = slides s"
  "track (remove_prev s) = track s" "slides (remove_prev s) = slides s"
  "track (remove_next s) = track s" "slides (remove_next s) = slides s"
  by (simp_all add: remove_dots_def remove_prev_def remove_next_def forget_def)

lemma track_ok_bare:
  assumes "track_ok s"
  shows "filter (\<lambda>i. Slick_cloned \<notin> classes (els s i)) (track s) = slides s"
proof -
  let ?k = "clone_count s" and ?n = "length (slides s)"
  have "track s = take ?k (track s) @ slides s @ drop (?k + ?n) (track s)"
    using track_okD(3) [OF assms] by (metis append_take_drop_id drop_drop add.commute)
  moreover have "filter (\<lambda>i. Slick_cloned \<notin> classes (els s i)) (take ?k (track s)) = []"
    "filter (\<lambda>i. Slick_cloned \<notin> classes (els s i)) (drop (?k + ?n) (track s)) = []"
    "filter (\<lambda>i. Slick_cloned \<notin> classes (els s i)) (slides s) = slides s"
    using assms by (simp_all add: track_ok_def filter_empty_conv filter_id_conv)
  ultimately show ?thesis by (metis append_Nil append_Nil2 filter_append)
qed

text \<open>\<open>unload\<close> takes the clones off the track again, in whatever state it is, and leaves the
  slides in their order.\<close>

theorem unload_setupInfinite:
  assumes "bare_track s" "0 < o_slidesToShow (options s)"
  shows "track (unload (setSlideClasses index (setupInfinite s))) = track s \<and>
         slides (unload (setSlideClasses index (setupInfinite s))) = slides s"
proof -
  let ?t = "setSlideClasses index (setupInfinite s)"
  have ok: "track_ok ?t" using setupInfinite_track_ok [OF assms] by (rule setSlideClasses_track_ok)
  have sl: "slides ?t = slides s"
    using setupInfinite_cloning [OF assms] by (simp add: cloning_def)
  have "filter (\<lambda>i. Slick_cloned \<notin> classes (els ?t i)) (track ?t) = slides s"
    using track_ok_bare [OF ok] sl by simp
  then show ?thesis
    using assms(1) sl by (simp add: unload_def Let_def bare_track_def)
qed

theorem unload_setupInfinite_witness:
  "track (unload (setSlideClasses 1 (setupInfinite (sample 4 [S_slidesToShow 2])))) =
     track (sample 4 [S_slidesToShow 2]) \<and>
   slides (unload (setSlideClasses 1 (setupInfinite (sample 4 [S_slidesToShow 2])))) =
     slides (sample 4 [S_slidesToShow 2])"
  by (rule unload_setupInfinite [OF bare_sample(1)]) simp

subsection \<open>Dots and arrows\<close>

lemma nth_mod_dots:
  "k < length lis \<Longrightarrow> mod_dots i f lis ! k = (if k \<in> set (eq i [0 ..< length lis]) then f (lis ! k) else lis ! k)"
  by (simp add: mod_dots_def)

lemma length_mod_dots [simp]: "length (mod_dots i f lis) = length lis"
  by (simp add: mod_dots_def)

text \<open>\<open>updateDots\<close> marks one dot, the one of the page the current slide is on, and hides
  all others from assistive technology.\<close>

theorem one_active_dot:
  assumes "dotItems s = Some lis" "0 < o_slidesToScroll (options s)" "0 \<le> currentSlide s"
    and "currentSlide s div o_slidesToScroll (options s) < int (length lis)"
  shows "\<exists>lis'. dotItems (updateDots s) = Some lis' \<and> length lis' = length lis \<and>
           (\<forall>k < length lis.
              (Slick_active \<in> classes (lis' ! k) \<longleftrightarrow>
                 int k = currentSlide s div o_slidesToScroll (options s)) \<and>
              attrs (lis' ! k) Aria_hidden =
                Some (AText (if int k = currentSlide s div o_slidesToScroll (options s)
                             then ''false'' else ''true'')))"
proof -
  let ?p = "currentSlide s div o_slidesToScroll (options s)"
  have p: "0 \<le> ?p" using assms(2,3) by (simp add: pos_imp_zdiv_nonneg_iff)
  have sel: "k \<in> set (eq ?p [0 ..< length lis]) \<longleftrightarrow> int k = ?p" if "k < length lis" for k
    using p assms(4) by auto
  show ?thesis
    using assms(1) sel
    by (simp add: updateDots_def Let_def nth_mod_dots dom_simps)
qed

theorem one_active_dot_witness:
  "\<exists>lis'. dotItems (updateDots ((sample 6 [S_slidesToScroll 2])
             \<lparr>dotItems := Some [blank, blank, blank], currentSlide := 4\<rparr>)) = Some lis' \<and>
     length lis' = length [blank, blank, blank] \<and>
     (\<forall>k < length [blank, blank, blank].
        (Slick_active \<in> classes (lis' ! k) \<longleftrightarrow> int k = 4 div 2) \<and>
        attrs (lis' ! k) Aria_hidden = Some (AText (if int k = 4 div 2 then ''false'' else ''true'')))"
  using one_active_dot [of "(sample 6 [S_slidesToScroll 2])
    \<lparr>dotItems := Some [blank, blank, blank], currentSlide := 4\<rparr>" "[blank, blank, blank]"]
  by simp

lemma arrow_classes [simp]:
  "Slick_disabled \<in> classes (disable_arrow e)" "Slick_disabled \<notin> classes (enable_arrow e)"
  by (simp_all add: enable_arrow_def disable_arrow_def dom_simps)

lemma arrows_disabled:
  "list_all (\<lambda>e. Slick_disabled \<in> classes e \<longleftrightarrow> c)
     (map (if c then disable_arrow \<circ> enable_arrow else if d then enable_arrow \<circ> enable_arrow else enable_arrow) p)"
  "list_all (\<lambda>e. Slick_disabled \<in> classes e \<longleftrightarrow> \<not> c \<and> d)
     (map (if c then enable_arrow \<circ> enable_arrow else if d then disable_arrow \<circ> enable_arrow else enable_arrow) p)"
  by (cases c; cases d; simp add: list_all_iff)+

text \<open>C24: \<open>updateArrows\<close> calls a method on \<open>null\<close> exactly when a finite slider with more
  slides than it shows has the option \<open>arrows\<close> but no arrows were built (the option was
  switched on later); otherwise the arrows of a finite slider are disabled at the two ends.\<close>

theorem arrows_at_the_ends:
  "(updateArrows s = None \<longleftrightarrow>
     o_arrows (options s) \<and> slideCount s > o_slidesToShow (options s) \<and>
     \<not> o_infinite (options s) \<and> (prevArrow s = None \<or> nextArrow s = None)) \<and>
   (case updateArrows s of None \<Rightarrow> True | Some t \<Rightarrow>
       (if o_arrows (options s) \<and> slideCount s > o_slidesToShow (options s) \<and>
           \<not> o_infinite (options s)
        then \<exists>p n. prevArrow t = Some p \<and> nextArrow t = Some n \<and>
               length p = length (the (prevArrow s)) \<and> length n = length (the (nextArrow s)) \<and>
               list_all (\<lambda>e. Slick_disabled \<in> classes e \<longleftrightarrow> currentSlide s = 0) p \<and>
               list_all (\<lambda>e. Slick_disabled \<in> classes e \<longleftrightarrow> currentSlide s \<noteq> 0 \<and>
                 (if o_centerMode (options s) then currentSlide s \<ge> slideCount s - 1
                  else currentSlide s \<ge> slideCount s - o_slidesToShow (options s))) n
        else t = s))"
proof (cases "o_arrows (options s) \<and> slideCount s > o_slidesToShow (options s) \<and> \<not> o_infinite (options s)")
  case False
  then have "updateArrows s = Some s" unfolding updateArrows_def Let_def by (simp only: if_False)
  then show ?thesis using False by auto
next
  case True
  show ?thesis
  proof (cases "prevArrow s = None \<or> nextArrow s = None")
    case none: True
    then have "updateArrows s = None"
      using True by (cases "prevArrow s"; cases "nextArrow s") (simp_all add: updateArrows_def)
    then show ?thesis using True none by simp
  next
    case False
    then obtain p n where pn: "prevArrow s = Some p" "nextArrow s = Some n" by auto
    let ?e = "(if o_centerMode (options s) then currentSlide s \<ge> slideCount s - 1
                 else currentSlide s \<ge> slideCount s - o_slidesToShow (options s))"
    have "\<exists>t. updateArrows s = Some t \<and>
            prevArrow t = Some (map (if currentSlide s = 0 then disable_arrow \<circ> enable_arrow
              else if ?e then enable_arrow \<circ> enable_arrow else enable_arrow) p) \<and>
            nextArrow t = Some (map (if currentSlide s = 0 then enable_arrow \<circ> enable_arrow
              else if ?e then disable_arrow \<circ> enable_arrow else enable_arrow) n)"
      using pn unfolding updateArrows_def Let_def if_P [OF True]
      by (cases "currentSlide s = 0"; cases "o_centerMode (options s)") simp_all
    then obtain t where t: "updateArrows s = Some t"
      "prevArrow t = Some (map (if currentSlide s = 0 then disable_arrow \<circ> enable_arrow
              else if ?e then enable_arrow \<circ> enable_arrow else enable_arrow) p)"
      "nextArrow t = Some (map (if currentSlide s = 0 then enable_arrow \<circ> enable_arrow
              else if ?e then disable_arrow \<circ> enable_arrow else enable_arrow) n)" by blast
    have "\<exists>p n. prevArrow t = Some p \<and> nextArrow t = Some n \<and>
            length p = length (the (prevArrow s)) \<and> length n = length (the (nextArrow s)) \<and>
            list_all (\<lambda>e. Slick_disabled \<in> classes e \<longleftrightarrow> currentSlide s = 0) p \<and>
            list_all (\<lambda>e. Slick_disabled \<in> classes e \<longleftrightarrow> currentSlide s \<noteq> 0 \<and> ?e) n"
      using t(2,3) arrows_disabled pn by fastforce
    then show ?thesis using False unfolding t(1) option.case if_P [OF True] by simp
  qed
qed

end
