(* ===== verification/Slick_Move.thy ===== *)
theory Slick_Move
  imports Slick_Classes
begin

text \<open>
  Moving from slide to slide: \<open>slideHandler\<close> and the operations that call it (arrows, dots, keys,
  clicks, autoplay), \<open>postSlide\<close>, and autoplay with its pauses.

  A slider with \<open>asNavFor\<close> calls operations of other sliders; the calls are recorded in
  \<open>trace\<close>.  \<open>nav_found \<E> t\<close> says whether the selector \<open>t\<close> finds a slider other than this
  one, and \<open>nav_shows_all \<E> t\<close> whether that has no more slides than it shows; when none is found, the code uses a property of \<open>undefined\<close>, which is the result \<open>None\<close>.
\<close>

subsection \<open>Accessibility attributes\<close>

definition inner_tabindex :: "int \<Rightarrow> elem \<Rightarrow> elem" where
  "inner_tabindex i e = e\<lparr>innerTabindex := Some (ANum i)\<rparr>"

definition activateADA :: "slick \<Rightarrow> slick" where
  "activateADA s =
     mod_els (filter (\<lambda>i. Slick_active \<in> classes (els s i)) (track s))
       (inner_tabindex 0 \<circ> attr Aria_hidden (AText ''false'')) s"

fun option_roles :: "nat \<Rightarrow> nat \<Rightarrow> nat list \<Rightarrow> (nat \<Rightarrow> elem) \<Rightarrow> nat \<Rightarrow> elem" where
  "option_roles u k [] h = h"
| "option_roles u k (i # is) h =
     option_roles u (k + 1) is
       (on_els [i] (attr Aria_describedby (AText (''slick-slide'' @ nat_str u @ nat_str k)) \<circ>
                    attr Role (AText ''option'')) h)"

definition dot_roles :: "nat \<Rightarrow> elem list \<Rightarrow> elem list" where
  "dot_roles u lis =
     map (\<lambda>k. (attr Aria_selected (AText (if k = 0 then ''true'' else ''false'')) \<circ>
               attr Id_att (AText (''slick-slide'' @ nat_str u @ nat_str k)) \<circ>
               attr Aria_controls (AText (''navigation'' @ nat_str u @ nat_str k)) \<circ>
               attr Role (AText ''presentation'')) (lis ! k)) [0 ..< length lis]"

definition initADA :: "slick \<Rightarrow> slick" where
  "initADA s =
     (let s1 = mod_els (slides s @ clones s)
                 (inner_tabindex (- 1) \<circ> attr Tabindex (ANum (- 1)) \<circ>
                  attr Aria_hidden (AText ''true'')) s;
          s2 = s1\<lparr>trackEl := attr Role (AText ''listbox'') (trackEl s1)\<rparr>;
          s3 = s2\<lparr>els := option_roles (instanceUid s2) 0
                          (filter (\<lambda>i. i \<notin> set (clones s2)) (slides s2)) (els s2)\<rparr>;
          s4 = s3\<lparr>dotItems := map_option (dot_roles (instanceUid s3)) (dotItems s3)\<rparr>
      in activateADA s4)"

subsection \<open>Autoplay\<close>

definition clear_interval :: "nat option \<Rightarrow> slick \<Rightarrow> slick" where
  "clear_interval t s = (case t of None \<Rightarrow> s | Some i \<Rightarrow> s\<lparr>timers := removeAll i (timers s)\<rparr>)"

definition autoPlayClear :: "slick \<Rightarrow> slick" where
  "autoPlayClear s = clear_interval (autoPlayTimer s) s"

definition autoPlay :: "slick \<Rightarrow> slick" where
  "autoPlay s0 =
     (let s = autoPlayClear s0 in
      if slideCount s > o_slidesToShow (options s)
      then s\<lparr>autoPlayTimer := Some (nextTimer s), timers := timers s @ [nextTimer s],
             nextTimer := nextTimer s + 1\<rparr>
      else s)"

definition pause :: "slick \<Rightarrow> slick" where
  "pause s = (autoPlayClear s)\<lparr>paused := True\<rparr>"

definition play :: "slick \<Rightarrow> slick" where
  "play s =
     (write_option (o_autoplay_update (\<lambda>_. True)) (autoPlay s))
       \<lparr>paused := False, focussed := False, interrupted := False\<rparr>"

definition interrupt :: "bool \<Rightarrow> slick \<Rightarrow> slick" where
  "interrupt toggle s = (if \<not> toggle then autoPlay s else s)\<lparr>interrupted := toggle\<rparr>"

definition visibility :: "env \<Rightarrow> slick \<Rightarrow> slick" where
  "visibility \<E> s =
     (if o_autoplay (options s) then s\<lparr>interrupted := document_hidden \<E>\<rparr> else s)"

text \<open>The focus handler of the slider, and what it does when the event loop is free.\<close>

definition on_focus :: "nat \<Rightarrow> slick \<Rightarrow> slick" where
  "on_focus e s = later (Focus_timeout e) s"

definition focus_timeout :: "env \<Rightarrow> nat \<Rightarrow> slick \<Rightarrow> slick" where
  "focus_timeout \<E> e s =
     (if o_pauseOnFocus (options s) then autoPlay (s\<lparr>focussed := in_focus \<E> e\<rparr>) else s)"

subsection \<open>Changing the slide\<close>

definition postSlide :: "env \<Rightarrow> int \<Rightarrow> slick \<Rightarrow> slick" where
  "postSlide \<E> index s =
     (if \<not> unslicked s then
        (let s1 = setPosition \<E> ((trigger (E_afterChange index) s)\<lparr>animating := False\<rparr>);
             s2 = s1\<lparr>swipeLeft := None\<rparr>;
             s3 = (if o_autoplay (options s2) then autoPlay s2 else s2)
         in if o_accessibility (options s3) then initADA s3 else s3)
      else s)"

definition has_nav :: "slick \<Rightarrow> bool" where
  "has_nav s = (case o_asNavFor (options s) of None \<Rightarrow> False | Some t \<Rightarrow> t \<noteq> [])"

definition asNavFor :: "int \<Rightarrow> slick \<Rightarrow> slick" where
  "asNavFor index s = (if has_nav s then trigger (N_slideHandler index) s else s)"

definition nav_classes :: "env \<Rightarrow> slick \<Rightarrow> slick option" where
  "nav_classes \<E> s =
     (if has_nav s then
        (if nav_found \<E> (the (o_asNavFor (options s)))
         then Some (if nav_shows_all \<E> (the (o_asNavFor (options s)))
                    then trigger (N_setSlideClasses (currentSlide s)) s else s)
         else None)
      else Some s)"

text \<open>Where a move that would leave a finite slider ends up: it does not start.\<close>

definition out_of_range :: "int \<Rightarrow> slick \<Rightarrow> bool option" where
  "out_of_range index s =
     (let o' = options s in
      if \<not> o_infinite o' \<and> \<not> o_centerMode o' then
        (if index < 0 then Some True
         else do { d \<leftarrow> getDotCount s; Some (index > d * o_slidesToScroll o') })
      else Some (\<not> o_infinite o' \<and> o_centerMode o' \<and>
                 (index < 0 \<or> index > slideCount s - o_slidesToScroll o')))"

definition anim_slide :: "int \<Rightarrow> slick \<Rightarrow> int" where
  "anim_slide targetSlide s =
     (let count = slideCount s; rest = js_rem count (o_slidesToScroll (options s)) in
      if targetSlide < 0 then (if rest \<noteq> 0 then count - rest else count + targetSlide)
      else if targetSlide \<ge> count then (if rest \<noteq> 0 then 0 else targetSlide - count)
      else targetSlide)"

text \<open>The part of \<open>slideHandler\<close> that moves, from \<open>clearInterval\<close> on.\<close>

definition move_to :: "env \<Rightarrow> int \<Rightarrow> real \<Rightarrow> bool \<Rightarrow> slick \<Rightarrow> slick option" where
  "move_to \<E> targetSlide targetLeft dontAnimate s =
     (let s1 = (if o_autoplay (options s) then clear_interval (autoPlayTimer s) s else s);
          animSlide = anim_slide targetSlide s1;
          s2 = trigger (E_beforeChange (currentSlide s1) animSlide) (s1\<lparr>animating := True\<rparr>);
          oldSlide = currentSlide s2;
          s3 = setSlideClasses animSlide (s2\<lparr>currentSlide := animSlide\<rparr>)
      in do {
        s4 \<leftarrow> nav_classes \<E> s3;
        s5 \<leftarrow> updateArrows (updateDots s4);
        Some (if o_fade (options s5) then
                animateHeight \<E>
                  (if \<not> dontAnimate then fadeSlide animSlide animSlide (fadeSlideOut oldSlide s5)
                   else postSlide \<E> animSlide s5)
              else if \<not> dontAnimate then animateSlide \<E> targetLeft animSlide s5
              else postSlide \<E> animSlide s5)
      })"

definition slideHandler :: "env \<Rightarrow> int \<Rightarrow> bool \<Rightarrow> bool \<Rightarrow> slick \<Rightarrow> slick option" where
  "slideHandler \<E> index sync dontAnimate s =
     (let o' = options s in
      if animating s \<and> o_waitForAnimate o' then Some s
      else if o_fade o' \<and> currentSlide s = index then Some s
      else if slideCount s \<le> o_slidesToShow o' then Some s
      else
        let s1 = (if \<not> sync then asNavFor index s else s);
            (targetLeft, s2) = getLeft \<E> index s1;
            (slideLeft, s3) = getLeft \<E> (currentSlide s2) s2;
            s4 = s3\<lparr>currentLeft := (case swipeLeft s3 of None \<Rightarrow> Fin slideLeft | Some l \<Rightarrow> l)\<rparr>
        in do {
          out \<leftarrow> out_of_range index s4;
          if out then
            Some (if o_fade o' then s4
                  else if \<not> dontAnimate then animateSlide \<E> slideLeft (currentSlide s4) s4
                  else postSlide \<E> (currentSlide s4) s4)
          else move_to \<E> index targetLeft dontAnimate s4
        })"

subsection \<open>The operations that change the slide\<close>

text \<open>
  The message of \<open>changeSlide\<close>: \<open>Index i l\<close> carries \<open>event.data.index\<close> (\<open>None\<close> when it is
  missing or not a number) and the position of the list item clicked on (\<open>-1\<close> when none).
\<close>

datatype message = Previous | Next | Index "int option" int | Other_message

definition changeSlide :: "env \<Rightarrow> message \<Rightarrow> bool \<Rightarrow> slick \<Rightarrow> slick option" where
  "changeSlide \<E> m dontAnimate s =
     (let o' = options s;
          unevenOffset = js_rem (slideCount s) (o_slidesToScroll o') \<noteq> 0;
          indexOffset = (if unevenOffset then 0
                         else js_rem (slideCount s - currentSlide s) (o_slidesToScroll o'))
      in case m of
           Previous \<Rightarrow>
             let slideOffset = (if indexOffset = 0 then o_slidesToScroll o'
                                else o_slidesToShow o' - indexOffset)
             in if slideCount s > o_slidesToShow o'
                then slideHandler \<E> (currentSlide s - slideOffset) False dontAnimate s else Some s
         | Next \<Rightarrow>
             let slideOffset = (if indexOffset = 0 then o_slidesToScroll o' else indexOffset)
             in if slideCount s > o_slidesToShow o'
                then slideHandler \<E> (currentSlide s + slideOffset) False dontAnimate s else Some s
         | Index i li \<Rightarrow>
             let index = (case i of None \<Rightarrow> li * o_slidesToScroll o' | Some j \<Rightarrow> j)
             in do {
               navigable \<leftarrow> checkNavigable index s;
               t \<leftarrow> slideHandler \<E> navigable False dontAnimate s;
               Some (if 0 \<le> li then trigger (F_focus li) t else t)
             }
         | Other_message \<Rightarrow> Some s)"

definition next_slide :: "env \<Rightarrow> slick \<Rightarrow> slick option" where
  "next_slide \<E> s = changeSlide \<E> Next False s"

definition prev_slide :: "env \<Rightarrow> slick \<Rightarrow> slick option" where
  "prev_slide \<E> s = changeSlide \<E> Previous False s"

definition goTo :: "env \<Rightarrow> int option \<Rightarrow> bool \<Rightarrow> slick \<Rightarrow> slick option" where
  "goTo \<E> slide dontAnimate s = changeSlide \<E> (Index slide (- 1)) dontAnimate s"

fun occurs_in :: "string \<Rightarrow> string \<Rightarrow> bool" where
  "occurs_in p [] = (p = [])"
| "occurs_in p (c # t) = (take (length p) (c # t) = p \<or> occurs_in p t)"

definition keyHandler :: "env \<Rightarrow> string \<Rightarrow> nat \<Rightarrow> slick \<Rightarrow> slick option" where
  "keyHandler \<E> tagName keyCode s =
     (if \<not> (occurs_in ''TEXTAREA'' tagName \<or> occurs_in ''INPUT'' tagName \<or> occurs_in ''SELECT'' tagName)
      then
        (if keyCode = 37 \<and> o_accessibility (options s)
         then changeSlide \<E> (if o_rtl (options s) then Next else Previous) False s
         else if keyCode = 39 \<and> o_accessibility (options s)
         then changeSlide \<E> (if o_rtl (options s) then Previous else Next) False s
         else Some s)
      else Some s)"

definition selectHandler :: "env \<Rightarrow> nat option \<Rightarrow> slick \<Rightarrow> slick option" where
  "selectHandler \<E> target s =
     (let index = (case Option.bind target (\<lambda>i. slick_index (els s i)) of None \<Rightarrow> 0 | Some i \<Rightarrow> i)
      in if slideCount s \<le> o_slidesToShow (options s)
         then Some (asNavFor index (setSlideClasses index s))
         else slideHandler \<E> index False False s)"

definition autoPlayIterator :: "env \<Rightarrow> slick \<Rightarrow> slick option" where
  "autoPlayIterator \<E> s =
     (let o' = options s;
          slideTo = currentSlide s + o_slidesToScroll o'
      in if \<not> paused s \<and> \<not> interrupted s \<and> \<not> focussed s then
           (if \<not> o_infinite o' then
              (if direction s = 1 \<and> currentSlide s + 1 = slideCount s - 1 then
                 slideHandler \<E> slideTo False False (s\<lparr>direction := 0\<rparr>)
               else if direction s = 0 then
                 slideHandler \<E> (currentSlide s - o_slidesToScroll o') False False
                   (if currentSlide s - 1 = 0 then s\<lparr>direction := 1\<rparr> else s)
               else slideHandler \<E> slideTo False False s)
            else slideHandler \<E> slideTo False False s)
         else Some s)"

end
