(* ===== verification/Slick_Touch.thy ===== *)
theory Slick_Touch
  imports Slick_Move
begin

text \<open>
  Swiping: \<open>swipeHandler\<close> and the three handlers it calls.  A coordinate or length that is
  \<open>undefined\<close> or not a number is \<open>None\<close>; \<open>swipeLeft\<close> may become NaN, and the browser
  ignores a position that is not a number.
\<close>

subsection \<open>Events\<close>

text \<open>
  \<open>touches\<close> is \<open>None\<close> when the event has no \<open>originalEvent\<close> (it was triggered by a script),
  \<open>Some None\<close> when that has no \<open>touches\<close> (a mouse), and the touching points otherwise.
\<close>

record swipe_event =
  ev_type :: string
  touches :: "(real \<times> real) list option option"
  clientX :: real
  clientY :: real

datatype action = Start | Move | End'

subsection \<open>Direction\<close>

definition onum :: "real option \<Rightarrow> jsnum" where
  "onum a = (case a of None \<Rightarrow> NaN | Some r \<Rightarrow> Fin r)"

definition swipeAngle :: "touch \<Rightarrow> jsnum" where
  "swipeAngle t =
     (let xDist = onum (startX t) - onum (curX t);
          yDist = onum (startY t) - onum (curY t);
          r = js_atan2 yDist xDist;
          angle = js_round (r * Fin 180 / Fin pi)
      in if angle < Fin 0 then Fin 360 - js_abs angle else angle)"

definition direction_of :: "options \<Rightarrow> jsnum \<Rightarrow> string" where
  "direction_of o' angle =
     (if angle \<le> Fin 45 \<and> Fin 0 \<le> angle then (if \<not> o_rtl o' then ''left'' else ''right'')
      else if angle \<le> Fin 360 \<and> Fin 315 \<le> angle then (if \<not> o_rtl o' then ''left'' else ''right'')
      else if Fin 135 \<le> angle \<and> angle \<le> Fin 225 then (if \<not> o_rtl o' then ''right'' else ''left'')
      else if o_verticalSwiping o' then
        (if Fin 35 \<le> angle \<and> angle \<le> Fin 135 then ''down'' else ''up'')
      else ''vertical'')"

definition swipeDirection :: "slick \<Rightarrow> string" where
  "swipeDirection s = direction_of (options s) (swipeAngle (touchObject s))"

subsection \<open>The handlers\<close>

definition swipeStart :: "swipe_event \<Rightarrow> slick \<Rightarrow> slick" where
  "swipeStart ev s0 =
     (let s = s0\<lparr>interrupted := True\<rparr> in
      if fingerCount (touchObject s) \<noteq> Some 1 \<or> slideCount s \<le> o_slidesToShow (options s)
      then new_touch s
      else
        let point = (case touches ev of
                       Some (Some (p # _)) \<Rightarrow> p
                     | _ \<Rightarrow> (clientX ev, clientY ev))
        in (write_touch (\<lambda>t. t\<lparr>startX := Some (fst point), curX := Some (fst point),
                               startY := Some (snd point), curY := Some (snd point)\<rparr>) s)
             \<lparr>dragging := True\<rparr>)"

definition js_round_real :: "real \<Rightarrow> real" where
  "js_round_real r = of_int \<lfloor>r + 1 / 2\<rfloor>"

definition dist_of :: "real option \<Rightarrow> real option \<Rightarrow> real option" where
  "dist_of a b =
     (case a of None \<Rightarrow> None | Some x \<Rightarrow>
        (case b of None \<Rightarrow> None | Some y \<Rightarrow> Some (js_round_real (sqrt ((x - y) ^ 2)))))"

definition gt :: "real option \<Rightarrow> real option \<Rightarrow> bool" where
  "gt a b = (case a of None \<Rightarrow> False | Some x \<Rightarrow> (case b of None \<Rightarrow> False | Some y \<Rightarrow> x > y))"

definition swipe_lengths :: "env \<Rightarrow> (real \<times> real) \<Rightarrow> slick \<Rightarrow> slick" where
  "swipe_lengths \<E> point s =
     write_touch (\<lambda>t.
       let t1 = t\<lparr>curX := Some (fst point), curY := Some (snd point)\<rparr>
       in t1\<lparr>swipeLength := (if o_verticalSwiping (options s) then dist_of (curY t1) (startY t1)
                              else dist_of (curX t1) (startX t1))\<rparr>) s"

definition at_edge :: "string \<Rightarrow> slick \<Rightarrow> bool option" where
  "at_edge dir s =
     (if o_infinite (options s) then Some False
      else if currentSlide s = 0 \<and> dir = ''right'' then Some True
      else do { d \<leftarrow> getDotCount s; Some (currentSlide s \<ge> d \<and> dir = ''left'') })"

definition swipe_offset :: "env \<Rightarrow> slick \<Rightarrow> real" where
  "swipe_offset \<E> s =
     (let t = touchObject s; o' = options s in
      if o_verticalSwiping o' then (if gt (curY t) (startY t) then 1 else - 1)
      else (if \<not> o_rtl o' then 1 else - 1) * (if gt (curX t) (startX t) then 1 else - 1))"

definition swipe_to :: "env \<Rightarrow> real \<Rightarrow> jsnum \<Rightarrow> slick \<Rightarrow> slick" where
  "swipe_to \<E> curLeft swipeLength' s =
     (let o' = options s; positionOffset = Fin (swipe_offset \<E> s);
          left = (if \<not> o_vertical o' \<or> o_verticalSwiping o'
                  then Fin curLeft + swipeLength' * positionOffset
                  else Fin curLeft +
                       swipeLength' * (Fin (list_height \<E> s) / Fin (listWidth s)) * positionOffset);
          s1 = s\<lparr>swipeLeft := Some left\<rparr>
      in if o_fade o' \<or> \<not> o_touchMove o' then s1
         else if animating s1 then s1\<lparr>swipeLeft := None\<rparr>
         else (case left of Fin r \<Rightarrow> setCSS r s1 | _ \<Rightarrow> s1))"

definition swipeMove :: "env \<Rightarrow> swipe_event \<Rightarrow> slick \<Rightarrow> slick option" where
  "swipeMove \<E> ev s0 =
     (if \<not> dragging s0 \<or> (case touches ev of Some (Some ts) \<Rightarrow> length ts \<noteq> 1 | _ \<Rightarrow> False)
      then Some s0
      else
        case getLeft \<E> (currentSlide s0) s0 of (curLeft, s) \<Rightarrow>
          do {
            point \<leftarrow> (case touches ev of
                        None \<Rightarrow> None
                      | Some None \<Rightarrow> Some (clientX ev, clientY ev)
                      | Some (Some ts) \<Rightarrow> Some (hd ts));
            let s1 = swipe_lengths \<E> point s;
            let dir = swipeDirection s1;
            if dir = ''vertical'' then Some s1
            else do {
              let s2 = (if touches ev \<noteq> None \<and> gt (swipeLength (touchObject s1)) (Some 4)
                        then trigger P_preventDefault s1 else s1);
              edge \<leftarrow> at_edge dir s2;
              let s3 = write_touch (\<lambda>t. t\<lparr>edgeHit := Some edge\<rparr>) s2;
              let len = onum (swipeLength (touchObject s3));
              Some (swipe_to \<E> curLeft
                      (if edge then len * Fin (o_edgeFriction (options s3)) else len) s3)
            }
          })"

definition swipe_target :: "env \<Rightarrow> bool \<Rightarrow> slick \<Rightarrow> int option" where
  "swipe_target \<E> forward s =
     (let index = (if forward then currentSlide s + getSlideCount \<E> s
                   else currentSlide s - getSlideCount \<E> s)
      in if o_swipeToSlide (options s) then checkNavigable index s else Some index)"

definition long_swipe :: "touch \<Rightarrow> bool" where
  "long_swipe t =
     (case swipeLength t of None \<Rightarrow> False | Some l \<Rightarrow>
        (case minSwipe t of None \<Rightarrow> False | Some m \<Rightarrow> m \<le> Fin l))"

definition swipeEnd :: "env \<Rightarrow> slick \<Rightarrow> slick option" where
  "swipeEnd \<E> s0 =
     (let s = s0\<lparr>dragging := False, interrupted := False,
                  shouldClick := \<not> gt (swipeLength (touchObject s0)) (Some 10)\<rparr>
      in if curX (touchObject s) = None then Some s
         else
           let s1 = (if edgeHit (touchObject s) = Some True
                     then trigger (E_edge (swipeDirection s)) s else s)
           in if long_swipe (touchObject s1) then
                (let dir = swipeDirection s1;
                     forward = (dir = ''left'' \<or> dir = ''down'')
                 in if dir = ''vertical'' then Some s1
                    else do {
                      target \<leftarrow> swipe_target \<E> forward s1;
                      t \<leftarrow> slideHandler \<E> target False False
                            (s1\<lparr>currentDirection := (if forward then 0 else 1)\<rparr>);
                      Some (trigger (E_swipe dir) (new_touch t))
                    })
              else if startX (touchObject s1) \<noteq> curX (touchObject s1) then
                do { t \<leftarrow> slideHandler \<E> (currentSlide s1) False False s1; Some (new_touch t) }
              else Some s1)"

definition swipeHandler :: "env \<Rightarrow> action \<Rightarrow> swipe_event \<Rightarrow> slick \<Rightarrow> slick option" where
  "swipeHandler \<E> a ev s =
     (if \<not> o_swipe (options s) then Some s
      else if \<not> o_draggable (options s) \<and> occurs_in ''mouse'' (ev_type ev) then Some s
      else
        let s1 = write_touch (\<lambda>t. t\<lparr>
                   fingerCount := Some (case touches ev of Some (Some ts) \<Rightarrow> int (length ts) | _ \<Rightarrow> 1),
                   minSwipe := Some (Fin (if o_verticalSwiping (options s) then listHeight s
                                           else listWidth s) / Fin (o_touchThreshold (options s)))\<rparr>) s
        in (case a of
              Start \<Rightarrow> Some (swipeStart ev s1)
            | Move \<Rightarrow> swipeMove \<E> ev s1
            | End' \<Rightarrow> swipeEnd \<E> s1))"

text \<open>\<open>clickHandler\<close> stops a click that ends a swipe; the result says whether it is stopped.\<close>

definition clickHandler :: "slick \<Rightarrow> bool \<times> slick" where
  "clickHandler s = (if \<not> shouldClick s then (True, trigger P_preventDefault s) else (False, s))"

definition preventDefault :: "slick \<Rightarrow> slick" where
  "preventDefault s = trigger P_preventDefault s"

end
