(* ===== verification/Slick_Lazy.thy ===== *)
theory Slick_Lazy
  imports Slick_Touch
begin

text \<open>
  Loading images: the callbacks of \<open>lazyLoad\<close> and of \<open>progressiveLazyLoad\<close>, and the proof that
  progressive loading comes to an end whatever the server does.

  A picture is given by its element and its number there.  The browser answers every request for
  a picture by \<open>onload\<close> or by \<open>onerror\<close>; this answer is the argument \<open>ok\<close> of \<open>image_callback\<close>,
  and of no meaning for the other callbacks.
\<close>

subsection \<open>Callbacks\<close>

definition mod_pic :: "nat \<Rightarrow> nat \<Rightarrow> (pic \<Rightarrow> pic) \<Rightarrow> slick \<Rightarrow> slick" where
  "mod_pic i k f s = mod_els [i] (\<lambda>e. e\<lparr>pics := (pics e)[k := f (pics e ! k)]\<rparr>) s"

definition pic_loaded :: "pic \<Rightarrow> pic" where
  "pic_loaded p = p\<lparr>lazySrc := None, picLoading := False\<rparr>"

definition pic_failed :: "pic \<Rightarrow> pic" where
  "pic_failed p = p\<lparr>lazySrc := None, picLoading := False, picError := True\<rparr>"

definition progressiveLazyLoad :: "nat \<Rightarrow> slick \<Rightarrow> slick" where
  "progressiveLazyLoad tryCount s =
     (case lazy_pics (els s) (track s @ sliderKids s) of
        (i, k, imageSource) # _ \<Rightarrow> later (Progressive_load i k tryCount imageSource) s
      | [] \<Rightarrow> trigger E_allImagesLoaded s)"

definition progressive_load :: "env \<Rightarrow> nat \<Rightarrow> nat \<Rightarrow> string \<Rightarrow> slick \<Rightarrow> slick" where
  "progressive_load \<E> i k imageSource s =
     (let s1 = mod_pic i k (\<lambda>p. pic_loaded (p\<lparr>picSrc := Some imageSource\<rparr>)) s;
          s2 = (if o_adaptiveHeight (options s1) then setPosition \<E> s1 else s1)
      in progressiveLazyLoad 1 (trigger (E_lazyLoaded imageSource) s2))"

definition progressive_error :: "nat \<Rightarrow> nat \<Rightarrow> nat \<Rightarrow> string \<Rightarrow> slick \<Rightarrow> slick" where
  "progressive_error i k tryCount imageSource s =
     (if tryCount < 3 then later (Progressive_retry (tryCount + 1)) s
      else progressiveLazyLoad 1 (trigger (E_lazyLoadError imageSource) (mod_pic i k pic_failed s)))"

fun image_callback :: "env \<Rightarrow> bool \<Rightarrow> task \<Rightarrow> slick \<Rightarrow> slick" where
  "image_callback \<E> ok (Image_load i k u) s =
     (if ok then later (Image_fade_out i k u) s
      else trigger (E_lazyLoadError u) (mod_pic i k pic_failed s))"
| "image_callback \<E> ok (Image_fade_out i k u) s =
     trigger (E_lazyLoaded u) (later (Image_fade_in i k) (mod_pic i k (\<lambda>p. p\<lparr>picSrc := Some u\<rparr>) s))"
| "image_callback \<E> ok (Image_fade_in i k) s = mod_pic i k pic_loaded s"
| "image_callback \<E> ok (Progressive_load i k n u) s =
     (if ok then progressive_load \<E> i k u s else progressive_error i k n u s)"
| "image_callback \<E> ok (Progressive_retry n) s = progressiveLazyLoad n s"
| "image_callback \<E> ok t s = s"

fun image_task :: "task \<Rightarrow> bool" where
  "image_task (Image_load i k u) \<longleftrightarrow> True"
| "image_task (Image_fade_out i k u) \<longleftrightarrow> True"
| "image_task (Image_fade_in i k) \<longleftrightarrow> True"
| "image_task (Progressive_load i k n u) \<longleftrightarrow> True"
| "image_task (Progressive_retry n) \<longleftrightarrow> True"
| "image_task t \<longleftrightarrow> False"

fun progressive :: "task \<Rightarrow> bool" where
  "progressive (Progressive_load i k n u) \<longleftrightarrow> True"
| "progressive (Progressive_retry n) \<longleftrightarrow> True"
| "progressive t \<longleftrightarrow> False"

text \<open>One step of the progressive loader: its pending callback runs.\<close>

definition progress :: "env \<Rightarrow> bool \<Rightarrow> slick \<Rightarrow> slick" where
  "progress \<E> ok s =
     (case dropWhile (\<lambda>t. \<not> progressive t) (tasks s) of
        [] \<Rightarrow> s
      | t # ts \<Rightarrow> image_callback \<E> ok t
                   (s\<lparr>tasks := takeWhile (\<lambda>t. \<not> progressive t) (tasks s) @ ts\<rparr>))"

definition progress_run :: "env \<Rightarrow> bool list \<Rightarrow> slick \<Rightarrow> slick" where
  "progress_run \<E> oks s = fold (progress \<E>) oks s"

subsection \<open>The pictures that are left\<close>

text \<open>What the search for pictures looks at.\<close>

definition content :: "slick \<Rightarrow> (nat \<Rightarrow> pic list) \<times> (nat \<Rightarrow> nat list) \<times> nat list" where
  "content s = (\<lambda>i. pics (els s i), \<lambda>i. kids (els s i), track s @ sliderKids s)"

definition left_pics :: "slick \<Rightarrow> (nat \<times> nat \<times> string) list" where
  "left_pics s = lazy_pics (els s) (track s @ sliderKids s)"

lemma left_pics_content:
  assumes "content t = content s"
  shows "left_pics t = left_pics s"
proof -
  have "own_pics (els t) = own_pics (els s)" "\<And>i. kids (els t i) = kids (els s i)"
    "track t @ sliderKids t = track s @ sliderKids s"
    using assms by (simp_all add: content_def own_pics_def fun_eq_iff)
  then show ?thesis by (simp add: left_pics_def lazy_pics_def)
qed

lemma pics_ops [simp]:
  "pics (css p v e) = pics e" "pics (css_clear p e) = pics e"
  by (simp_all add: css_def css_clear_def)

lemma content_update [simp]:
  "content (s\<lparr>tasks := ts\<rparr>) = content s" "content (trigger ev s) = content s" "content (later t s) = content s"
  "content (s\<lparr>listEl := e\<rparr>) = content s" "content (s\<lparr>trackEl := e\<rparr>) = content s"
  "content (s\<lparr>listWidth := r\<rparr>) = content s" "content (s\<lparr>listHeight := r\<rparr>) = content s"
  "content (s\<lparr>slideWidth := r\<rparr>) = content s" "content (s\<lparr>slideOffset := r\<rparr>) = content s"
  "content (css_track p v s) = content s" "content (css_list p v s) = content s"
  by (simp_all add: content_def trigger_def later_def css_track_def css_list_def)

lemma content_mod_els:
  assumes "\<And>e. pics (f e) = pics e \<and> kids (f e) = kids e"
  shows "content (mod_els is f s) = content s"
  using assms by (simp add: content_def mod_els_def on_els_apply fun_eq_iff)

lemma pics_fade_loop:
  "pics (fade_loop o' w n is h i) = pics (h i) \<and> kids (fade_loop o' w n is h i) = kids (h i)"
  by (induction "is" arbitrary: n h) (simp_all add: on_els_apply fade_style_def dom_simps)

lemma content_setFade: "content (setFade s) = content s"
proof -
  have "content (setFade s) = content (s\<lparr>els := fade_loop (options s) (slideWidth s) 0 (slides s) (els s)\<rparr>)"
    unfolding setFade_def by (rule content_mod_els) (simp add: dom_simps)
  then show ?thesis by (simp add: content_def pics_fade_loop)
qed

lemma content_setDimensions: "content (setDimensions \<E> s) = content s"
proof -
  have "content (mod_els is (css p v) t) = content t" for "is" p v t
    by (rule content_mod_els) (simp add: dom_simps)
  then show ?thesis
    unfolding setDimensions_def Let_def by (simp only: content_update if_distrib [of content] if_cancel)
qed

lemma content_position:
  "content (setHeight \<E> s) = content s" "content (setCSS r s) = content s"
  "content (snd (getLeft \<E> i s)) = content s"
  by (simp_all add: setHeight_def setCSS_def getLeft_def Let_def)

lemma content_setPosition: "content (setPosition \<E> s) = content s"
  unfolding setPosition_def Let_def split_beta
  by (simp only: content_update content_position content_setFade content_setDimensions
      if_distrib [of content] if_cancel)

lemma own_pics_done:
  assumes "lazySrc (f (pics (h i) ! k)) = None"
  shows "own_pics (on_els [i] (\<lambda>e. e\<lparr>pics := (pics e)[k := f (pics e ! k)]\<rparr>) h) j =
         filter (\<lambda>(j', k', u). \<not> (j' = i \<and> k' = k)) (own_pics h j)"
proof -
  let ?h = "on_els [i] (\<lambda>e. e\<lparr>pics := (pics e)[k := f (pics e ! k)]\<rparr>) h"
  have "(case lazySrc (pics (?h j) ! m) of None \<Rightarrow> [] | Some u \<Rightarrow> [(j, m, u)]) =
        filter (\<lambda>(j', k', u). \<not> (j' = i \<and> k' = k))
          (case lazySrc (pics (h j) ! m) of None \<Rightarrow> [] | Some u \<Rightarrow> [(j, m, u)])"
    if "m < length (pics (h j))" for m
    using that assms
    by (cases "j = i"; cases "m = k") (auto simp: on_els_apply split: option.split)
  moreover have "length (pics (?h j)) = length (pics (h j))" by (simp add: on_els_apply)
  ultimately show ?thesis
    unfolding own_pics_def filter_concat map_map
    by (intro arg_cong [of _ _ concat] map_cong) simp_all
qed

lemma left_pics_done:
  assumes "lazySrc (f (pics (els s i) ! k)) = None"
  shows "left_pics (mod_pic i k f s) = filter (\<lambda>(j, m, u). \<not> (j = i \<and> m = k)) (left_pics s)"
proof -
  let ?h = "on_els [i] (\<lambda>e. e\<lparr>pics := (pics e)[k := f (pics e ! k)]\<rparr>) (els s)"
  have k: "kids (?h j) = kids (els s j)" for j by (simp add: on_els_apply)
  have o: "own_pics ?h = (\<lambda>j. filter (\<lambda>(j', k', u). \<not> (j' = i \<and> k' = k)) (own_pics (els s) j))"
    by (rule ext) (rule own_pics_done [where f = f and h = "els s", OF assms])
  have "left_pics (mod_pic i k f s) = lazy_pics ?h (track s @ sliderKids s)"
    by (simp add: left_pics_def mod_pic_def mod_els_def)
  then show ?thesis
    by (simp only: left_pics_def lazy_pics_def o k filter_concat filter_append map_map comp_def)
qed

lemma left_pics_shorter:
  assumes "left_pics s = (i, k, u) # ps" "lazySrc (f (pics (els s i) ! k)) = None"
  shows "length (left_pics (mod_pic i k f s)) \<le> length ps"
  unfolding left_pics_done [where f = f and s = s and i = i and k = k, OF assms(2)] assms(1) by (simp add: length_filter_le)

lemma tasks_setDimensions: "tasks (setDimensions \<E> s) = tasks s"
proof -
  have t: "tasks (css_list p v t) = tasks t" "tasks (css_track p v t) = tasks t"
    "tasks (mod_els is f t) = tasks t" "tasks (t\<lparr>listWidth := r, listHeight := r'\<rparr>) = tasks t"
    "tasks (t\<lparr>slideWidth := r\<rparr>) = tasks t" for p v "is" f t r r'
    by (simp_all add: css_list_def css_track_def mod_els_def)
  show ?thesis unfolding setDimensions_def Let_def by (simp only: t if_distrib [of tasks] if_cancel)
qed

lemma tasks_position:
  "tasks (setHeight \<E> s) = tasks s" "tasks (setCSS r s) = tasks s" "tasks (snd (getLeft \<E> i s)) = tasks s"
  "tasks (setFade s) = tasks s" "tasks (trigger e s) = tasks s"
  by (simp_all add: setHeight_def setCSS_def getLeft_def setFade_def mod_els_def css_list_def
      css_track_def trigger_def Let_def)

lemma tasks_setPosition: "tasks (setPosition \<E> s) = tasks s"
  unfolding setPosition_def Let_def split_beta
  by (simp only: tasks_position tasks_setDimensions if_distrib [of tasks] if_cancel)

subsection \<open>Progressive loading ends\<close>

lemma progressiveLazyLoad_left:
  "progressiveLazyLoad n s =
     (case left_pics s of
        (i, k, u) # _ \<Rightarrow> later (Progressive_load i k n u) s
      | [] \<Rightarrow> trigger E_allImagesLoaded s)"
  by (simp add: progressiveLazyLoad_def left_pics_def)

lemma progress_pending:
  assumes "\<forall>t \<in> set ks. \<not> progressive t" "tasks s = ks @ [t]" "progressive t"
  shows "progress \<E> ok s = image_callback \<E> ok t (s\<lparr>tasks := ks\<rparr>)"
proof -
  have "dropWhile (\<lambda>t. \<not> progressive t) (ks @ [t]) = [t]" "takeWhile (\<lambda>t. \<not> progressive t) (ks @ [t]) = ks"
    using assms(1,3) by (simp_all add: dropWhile_append takeWhile_append)
  then show ?thesis by (simp add: progress_def assms(2))
qed

lemma progress_run_idle:
  assumes "\<forall>t \<in> set (tasks s). \<not> progressive t"
  shows "progress_run \<E> oks s = s"
proof -
  have d: "dropWhile (\<lambda>t. \<not> progressive t) (tasks s) = []" using assms by simp
  have "progress \<E> ok s = s" for ok unfolding progress_def d by simp
  then show ?thesis unfolding progress_run_def by (induction oks) simp_all
qed

text \<open>
  Every picture takes at most three requests and two pauses; \<open>n\<close> pictures that are left take
  \<open>5 * n\<close> callbacks, and two less for every try that has already been made.
\<close>

definition steps_left :: "nat \<Rightarrow> nat \<Rightarrow> nat" where
  "steps_left n tryCount = (if n = 0 then 0 else 5 * n + 2 - 2 * tryCount)"

definition all_loaded :: "task list \<Rightarrow> slick \<Rightarrow> bool" where
  "all_loaded ks s \<longleftrightarrow> left_pics s = [] \<and> tasks s = ks \<and> E_allImagesLoaded \<in> set (trace s)"

lemma progressive_load_result:
  assumes "tasks s = ks" "left_pics s = (i, k, u) # ps"
  obtains t where "progressive_load \<E> i k u s = progressiveLazyLoad 1 t" "tasks t = ks"
    "length (left_pics t) \<le> length ps"
proof -
  let ?f = "\<lambda>p. pic_loaded (p\<lparr>picSrc := Some u\<rparr>)"
  define s1 where "s1 = mod_pic i k ?f s"
  define t where "t = trigger (E_lazyLoaded u) (if o_adaptiveHeight (options s1) then setPosition \<E> s1 else s1)"
  have "content t = content s1" "tasks t = tasks s1"
    by (simp_all add: t_def content_setPosition tasks_setPosition tasks_position)
  moreover have "tasks s1 = ks" using assms(1) by (simp add: s1_def mod_pic_def mod_els_def)
  moreover have "length (left_pics s1) \<le> length ps"
    unfolding s1_def by (rule left_pics_shorter [OF assms(2)]) (simp add: pic_loaded_def)
  ultimately show thesis
    using that [of t] left_pics_content [of t s1] by (simp add: progressive_load_def Let_def s1_def t_def)
qed

lemma progressive_error_result:
  assumes "tasks s = ks" "left_pics s = (i, k, u) # ps"
  obtains t where "progressive_error i k 3 u s = progressiveLazyLoad 1 t" "tasks t = ks"
    "length (left_pics t) \<le> length ps"
proof -
  define t where "t = trigger (E_lazyLoadError u) (mod_pic i k pic_failed s)"
  have "content t = content (mod_pic i k pic_failed s)" by (simp add: t_def)
  moreover have "length (left_pics (mod_pic i k pic_failed s)) \<le> length ps"
    by (rule left_pics_shorter [OF assms(2)]) (simp add: pic_failed_def)
  moreover have "tasks t = ks" using assms(1) by (simp add: t_def trigger_def mod_pic_def mod_els_def)
  ultimately show thesis
    using that [of t] left_pics_content [of t] by (simp add: progressive_error_def t_def)
qed

lemma progressive_run_ends:
  assumes "\<forall>t \<in> set ks. \<not> progressive t" "tasks s = ks" "1 \<le> n" "n \<le> 3"
    and "steps_left (length (left_pics s)) n \<le> length oks"
  shows "all_loaded ks (progress_run \<E> oks (progressiveLazyLoad n s))"
  using assms(2-5)
proof (induction oks arbitrary: s n rule: length_induct)
  case (1 oks)
  note IH = 1(1) and ts = 1(2) and n = 1(3,4) and en = 1(5)
  have next_pic: "all_loaded ks (progress_run \<E> bs (progressiveLazyLoad 1 t))"
    if "tasks t = ks" "length (left_pics t) \<le> m" "5 * m \<le> length bs" "length bs < length oks" for t m bs
    using IH that by (simp add: steps_left_def)
  show ?case
  proof (cases "left_pics s")
    case Nil
    then have "progressiveLazyLoad n s = trigger E_allImagesLoaded s" by (simp add: progressiveLazyLoad_left)
    moreover have "progress_run \<E> oks (trigger E_allImagesLoaded s) = trigger E_allImagesLoaded s"
      using assms(1) ts by (intro progress_run_idle) (simp add: trigger_def)
    ultimately show ?thesis
      using Nil ts left_pics_content [of "trigger E_allImagesLoaded s" s]
      by (simp add: all_loaded_def) (simp add: trigger_def)
  next
    case (Cons p ps)
    obtain i k u where p: "p = (i, k, u)" by (cases p)
    have lp: "left_pics s = (i, k, u) # ps" using Cons p by simp
    have pl: "progressiveLazyLoad n s = later (Progressive_load i k n u) s"
      by (simp add: progressiveLazyLoad_left lp)
    have len: "5 * length ps + 7 - 2 * n \<le> length oks" using en by (simp add: lp steps_left_def)
    then obtain b bs where oks: "oks = b # bs" using n by (cases oks) simp_all
    have same: "s\<lparr>tasks := ks\<rparr> = s" using ts by simp
    have st: "progress \<E> b (progressiveLazyLoad n s) = image_callback \<E> b (Progressive_load i k n u) s"
      using progress_pending [OF assms(1), of "progressiveLazyLoad n s" "Progressive_load i k n u" \<E> b]
      unfolding pl by (simp add: later_def ts same)
    have run: "progress_run \<E> oks (progressiveLazyLoad n s) =
      progress_run \<E> bs (image_callback \<E> b (Progressive_load i k n u) s)"
      unfolding oks progress_run_def fold_simps st by (rule refl)
    have bs: "5 * length ps \<le> length bs" "length bs < length oks" using len n by (simp_all add: oks)
    consider "b" | "\<not> b" "n = 3" | "\<not> b" "n < 3" using n by linarith
    then show ?thesis
    proof cases
      case 1
      then show ?thesis
        using progressive_load_result [OF ts lp, of \<E>] next_pic bs by (metis run image_callback.simps(4))
    next
      case 2
      then show ?thesis
        using progressive_error_result [OF ts lp] next_pic bs by (metis run image_callback.simps(4))
    next
      case 3
      then have r: "image_callback \<E> b (Progressive_load i k n u) s = later (Progressive_retry (n + 1)) s"
        by (simp add: progressive_error_def)
      obtain b' bs' where bs': "bs = b' # bs'" using len 3(2) oks by (cases bs) simp_all
      have "progress \<E> b' (later (Progressive_retry (n + 1)) s) = progressiveLazyLoad (n + 1) s"
        using progress_pending [OF assms(1), of "later (Progressive_retry (n + 1)) s" "Progressive_retry (n + 1)" \<E> b']
        by (simp add: later_def ts same)
      then have "progress_run \<E> bs (later (Progressive_retry (n + 1)) s) =
        progress_run \<E> bs' (progressiveLazyLoad (n + 1) s)"
        by (simp only: bs' progress_run_def fold_simps)
      moreover have "all_loaded ks (progress_run \<E> bs' (progressiveLazyLoad (n + 1) s))"
        using IH ts 3(2) len by (simp add: oks bs' lp steps_left_def)
      ultimately show ?thesis by (simp only: run r)
    qed
  qed
qed

text \<open>C16: progressive loading ends: whatever the server answers, after at most five callbacks for each
  lazy picture no picture is left, every one having been shown or marked as failed after three
  tries, and \<open>allImagesLoaded\<close> has been triggered; no request is left over.\<close>

theorem progressive_loading_ends:
  assumes "\<forall>t \<in> set (tasks s). \<not> progressive t" "5 * length (left_pics s) \<le> length oks"
  shows "left_pics (progress_run \<E> oks (progressiveLazyLoad 1 s)) = [] \<and>
         tasks (progress_run \<E> oks (progressiveLazyLoad 1 s)) = tasks s \<and>
         E_allImagesLoaded \<in> set (trace (progress_run \<E> oks (progressiveLazyLoad 1 s)))"
proof -
  have "all_loaded (tasks s) (progress_run \<E> oks (progressiveLazyLoad 1 s))"
    using assms by (intro progressive_run_ends) (simp_all add: steps_left_def)
  then show ?thesis by (simp add: all_loaded_def)
qed

definition lazy_slider :: slick where
  "lazy_slider = (sample 2 [S_lazyLoad ''progressive''])
     \<lparr>els := (\<lambda>i. blank\<lparr>pics := [\<lparr>lazySrc = Some ''a.png'', picSrc = None, picLoading = True, picError = False\<rparr>]\<rparr>)\<rparr>"

theorem progressive_loading_ends_witness:
  "left_pics (progress_run plain_env [False, True, True, True, True, True, True, False, False, False]
     (progressiveLazyLoad 1 lazy_slider)) = [] \<and>
   tasks (progress_run plain_env [False, True, True, True, True, True, True, False, False, False]
     (progressiveLazyLoad 1 lazy_slider)) = tasks lazy_slider \<and>
   E_allImagesLoaded \<in> set (trace (progress_run plain_env
     [False, True, True, True, True, True, True, False, False, False] (progressiveLazyLoad 1 lazy_slider)))"
  by (rule progressive_loading_ends)
    (simp_all add: lazy_slider_def left_pics_def lazy_pics_def own_pics_def blank_def numeral_2_eq_2
      sample_def new_slick_def Let_def)

end
