(* ===== verification/Slick_Machine.thy ===== *)
theory Slick_Machine
  imports Slick_Lazy
begin

text \<open>
  The slider as a state machine: a step relation over its handlers, timers and pending callbacks,
  the invariant \<open>slider_ok\<close> that every step keeps, and that no step fails.
\<close>

named_theorems view_simps \<open>operations that keep what the invariant looks at\<close>

subsection \<open>What the invariant looks at\<close>

definition view where
  "view s =
     (((options s)\<lparr>o_autoplay := True, o_zIndex := 0\<rparr>, currentSlide s, slideCount s, slides s),
      (track s, nextEl s, prevArrow s, nextArrow s), unslicked s,
      map_option (map classes) (dotItems s),
      (\<lambda>i. classes (els s i)), (\<lambda>i. slick_index (els s i)))"

definition arrangement where
  "arrangement s = ((options s)\<lparr>o_autoplay := True, o_zIndex := 0\<rparr>, slideCount s, slides s, track s)"

lemma arrangement_view: "view t = view s \<Longrightarrow> arrangement t = arrangement s"
  by (simp add: view_def arrangement_def)

lemma view_update [view_simps]:
  "view (s\<lparr>animating := b\<rparr>) = view s" "view (s\<lparr>dragging := b\<rparr>) = view s"
  "view (s\<lparr>autoPlayTimer := u\<rparr>) = view s" "view (s\<lparr>currentDirection := i\<rparr>) = view s"
  "view (s\<lparr>currentLeft := n\<rparr>) = view s" "view (s\<lparr>direction := i\<rparr>) = view s"
  "view (s\<lparr>listWidth := r\<rparr>) = view s" "view (s\<lparr>listHeight := r\<rparr>) = view s"
  "view (s\<lparr>slideWidth := r\<rparr>) = view s" "view (s\<lparr>slideOffset := r\<rparr>) = view s"
  "view (s\<lparr>swipeLeft := l\<rparr>) = view s" "view (s\<lparr>touchObject := t\<rparr>) = view s"
  "view (s\<lparr>initialTouch := t\<rparr>) = view s" "view (s\<lparr>touchShared := b\<rparr>) = view s"
  "view (s\<lparr>focussed := b\<rparr>) = view s" "view (s\<lparr>interrupted := b\<rparr>) = view s"
  "view (s\<lparr>paused := b\<rparr>) = view s" "view (s\<lparr>shouldClick := b\<rparr>) = view s"
  "view (s\<lparr>listEl := e\<rparr>) = view s" "view (s\<lparr>trackEl := e\<rparr>) = view s"
  "view (s\<lparr>sliderEl := e\<rparr>) = view s" "view (s\<lparr>timers := ts\<rparr>) = view s"
  "view (s\<lparr>nextTimer := n'\<rparr>) = view s" "view (s\<lparr>tasks := ks\<rparr>) = view s"
  "view (s\<lparr>trace := es\<rparr>) = view s" "view (s\<lparr>windowWidth := r\<rparr>) = view s"
  "view (s\<lparr>windowDelay := u\<rparr>) = view s" "view (s\<lparr>transformType := x\<rparr>) = view s"
  "view (s\<lparr>optionsShared := b\<rparr>) = view s" "view (s\<lparr>originalSettings := o'\<rparr>) = view s"
  by (simp_all add: view_def)

lemmas view_if [view_simps] = if_distrib [of view]

definition tame :: "(elem \<Rightarrow> elem) \<Rightarrow> bool" where
  "tame f \<longleftrightarrow> (\<forall>e. classes (f e) = classes e \<and> slick_index (f e) = slick_index e)"

lemma tame_ops [simp]:
  "tame (css p v)" "tame (css_clear p)" "tame (inner_tabindex n)" "tame id"
  "a \<noteq> Data_slick_index \<Longrightarrow> tame (attr a w)"
  "tame (fade_style o' r)"
  by (simp_all add: tame_def dom_simps slick_index_def inner_tabindex_def fade_style_def)

lemma tame_comp [simp]: "tame f \<Longrightarrow> tame g \<Longrightarrow> tame (f \<circ> g)"
  by (simp add: tame_def)

lemma tame_on_els:
  "tame f \<Longrightarrow> classes (on_els is f h i) = classes (h i) \<and> slick_index (on_els is f h i) = slick_index (h i)"
  by (simp add: tame_def on_els_apply)

lemma view_els:
  assumes "\<And>i. classes (h i) = classes (els s i) \<and> slick_index (h i) = slick_index (els s i)"
  shows "view (s\<lparr>els := h\<rparr>) = view s"
  using assms by (simp add: view_def)

lemma view_mod_els [view_simps]: "tame f \<Longrightarrow> view (mod_els is f s) = view s"
  unfolding mod_els_def by (intro view_els tame_on_els)

lemma view_trigger [view_simps]: "view (trigger e s) = view s"
  by (simp add: trigger_def view_simps)

lemma view_later [view_simps]: "view (later t s) = view s"
  by (simp add: later_def view_simps)

lemma view_css [view_simps]: "view (css_track p v s) = view s" "view (css_list p v s) = view s"
  by (simp_all add: css_track_def css_list_def view_simps)

lemma view_touch [view_simps]: "view (write_touch f s) = view s" "view (new_touch s) = view s"
  by (simp_all add: write_touch_def new_touch_def Let_def view_simps)

lemma view_setCSS [view_simps]: "view (setCSS r s) = view s"
  by (simp add: setCSS_def Let_def view_simps)

lemma view_getLeft [view_simps]: "view (snd (getLeft \<E> i s)) = view s"
  by (simp add: getLeft_def Let_def view_simps)

lemma view_setDimensions [view_simps]: "view (setDimensions \<E> s) = view s"
  by (simp add: setDimensions_def Let_def view_simps)

lemma fade_loop_tame:
  "classes (fade_loop o' w k is h i) = classes (h i) \<and> slick_index (fade_loop o' w k is h i) = slick_index (h i)"
proof (induction "is" arbitrary: k h)
  case Nil
  then show ?case by simp
next
  case (Cons j "is")
  then show ?case using tame_on_els [of "fade_style o' r" "[j]" h i for r] by simp
qed

lemma view_setFade [view_simps]: "view (setFade s) = view s"
  unfolding setFade_def by (simp add: view_mod_els view_els fade_loop_tame)

lemma view_setHeight [view_simps]: "view (setHeight \<E> s) = view s"
  by (simp add: setHeight_def view_simps)

lemma view_setPosition [view_simps]: "view (setPosition \<E> s) = view s"
  by (simp add: setPosition_def Let_def view_simps split_beta)

lemma view_animateHeight [view_simps]: "view (animateHeight \<E> s) = view s"
  by (simp add: animateHeight_def view_simps)

lemma view_transition [view_simps]:
  "view (applyTransition d s) = view s" "view (disableTransition d s) = view s"
  by (simp_all add: applyTransition_def disableTransition_def view_simps split: option.split)

lemma view_animateSlide [view_simps]: "view (animateSlide \<E> r i s) = view s"
  by (simp add: animateSlide_def Let_def view_simps)

lemma view_fadeSlide [view_simps]: "view (fadeSlide i j s) = view s" "view (fadeSlideOut i s) = view s"
  by (simp_all add: fadeSlide_def fadeSlideOut_def Let_def view_simps)

lemma view_autoPlay [view_simps]:
  "view (clear_interval u s) = view s" "view (autoPlayClear s) = view s" "view (autoPlay s) = view s"
  by (simp_all add: clear_interval_def autoPlayClear_def autoPlay_def Let_def view_simps split: option.split)

lemma option_roles_tame:
  "classes (option_roles u k is h i) = classes (h i) \<and> slick_index (option_roles u k is h i) = slick_index (h i)"
proof (induction "is" arbitrary: k h)
  case Nil
  then show ?case by simp
next
  case (Cons j "is")
  then show ?case
    using tame_on_els [of "attr Aria_describedby a \<circ> attr Role b" "[j]" h i for a b] by simp
qed

lemma map_classes_dot_roles [simp]: "map classes (dot_roles u lis) = map classes lis"
  by (rule nth_equalityI) (simp_all add: dot_roles_def dom_simps)

lemma view_dot_roles [view_simps]:
  "view (s\<lparr>dotItems := map_option (dot_roles u) (dotItems s)\<rparr>) = view s"
  by (cases "dotItems s") (simp_all add: view_def)

lemma view_initADA [view_simps]: "view (initADA s) = view s"
proof -
  define s1 where "s1 = mod_els (slides s @ clones s)
    (inner_tabindex (- 1) \<circ> attr Tabindex (ANum (- 1)) \<circ> attr Aria_hidden (AText ''true'')) s"
  define s2 where "s2 = s1\<lparr>trackEl := attr Role (AText ''listbox'') (trackEl s1)\<rparr>"
  define s3 where "s3 = s2\<lparr>els := option_roles (instanceUid s2) 0
    (filter (\<lambda>i. i \<notin> set (clones s2)) (slides s2)) (els s2)\<rparr>"
  define s4 where "s4 = s3\<lparr>dotItems := map_option (dot_roles (instanceUid s3)) (dotItems s3)\<rparr>"
  have "view s1 = view s" by (simp add: s1_def view_mod_els)
  moreover have "view s2 = view s1" unfolding s2_def by (rule view_update)
  moreover have "view s3 = view s2" unfolding s3_def by (rule view_els) (rule option_roles_tame)
  moreover have "view s4 = view s3" unfolding s4_def by (rule view_dot_roles)
  moreover have "view (activateADA s4) = view s4" by (simp add: activateADA_def view_mod_els)
  moreover have "initADA s = activateADA s4"
    by (simp only: initADA_def Let_def s4_def s3_def s2_def s1_def)
  ultimately show ?thesis by simp
qed

lemma view_asNavFor [view_simps]: "view (asNavFor i s) = view s"
  by (simp add: asNavFor_def view_simps)

lemma view_postSlide [view_simps]: "view (postSlide \<E> i s) = view s"
  by (simp add: postSlide_def Let_def view_simps)

subsection \<open>Pending callbacks\<close>

text \<open>\<open>completion t\<close> is the slide the animation behind \<open>t\<close> ends on.\<close>

fun completion :: "task \<Rightarrow> int option" where
  "completion (After_animation i) = Some i"
| "completion (After_transition d i) = Some i"
| "completion t = None"

definition completions :: "slick \<Rightarrow> int list" where
  "completions s = List.map_filter completion (tasks s)"

lemma completions_update [view_simps]:
  "completions (s\<lparr>animating := b\<rparr>) = completions s" "completions (s\<lparr>dragging := b\<rparr>) = completions s"
  "completions (s\<lparr>autoPlayTimer := u\<rparr>) = completions s" "completions (s\<lparr>currentDirection := i\<rparr>) = completions s"
  "completions (s\<lparr>currentLeft := n\<rparr>) = completions s" "completions (s\<lparr>direction := i\<rparr>) = completions s"
  "completions (s\<lparr>listWidth := r\<rparr>) = completions s" "completions (s\<lparr>listHeight := r\<rparr>) = completions s"
  "completions (s\<lparr>slideWidth := r\<rparr>) = completions s" "completions (s\<lparr>slideOffset := r\<rparr>) = completions s"
  "completions (s\<lparr>swipeLeft := l\<rparr>) = completions s" "completions (s\<lparr>touchObject := t\<rparr>) = completions s"
  "completions (s\<lparr>initialTouch := t\<rparr>) = completions s" "completions (s\<lparr>touchShared := b\<rparr>) = completions s"
  "completions (s\<lparr>focussed := b\<rparr>) = completions s" "completions (s\<lparr>interrupted := b\<rparr>) = completions s"
  "completions (s\<lparr>paused := b\<rparr>) = completions s" "completions (s\<lparr>shouldClick := b\<rparr>) = completions s"
  "completions (s\<lparr>listEl := e\<rparr>) = completions s" "completions (s\<lparr>trackEl := e\<rparr>) = completions s"
  "completions (s\<lparr>els := h\<rparr>) = completions s" "completions (s\<lparr>timers := ts\<rparr>) = completions s"
  "completions (s\<lparr>nextTimer := n'\<rparr>) = completions s" "completions (s\<lparr>trace := es\<rparr>) = completions s"
  "completions (s\<lparr>currentSlide := i\<rparr>) = completions s" "completions (s\<lparr>dotItems := ds\<rparr>) = completions s"
  "completions (s\<lparr>prevArrow := p\<rparr>) = completions s" "completions (s\<lparr>nextArrow := p\<rparr>) = completions s"
  "completions (s\<lparr>options := o'\<rparr>) = completions s" "completions (s\<lparr>originalSettings := o'\<rparr>) = completions s"
  by (simp_all add: completions_def)

lemmas completions_if [view_simps] = if_distrib [of completions]

lemma completions_later [view_simps]:
  "completions (later t s) = completions s @ (case completion t of None \<Rightarrow> [] | Some i \<Rightarrow> [i])"
  by (simp add: completions_def later_def map_filter_def split: option.split)

lemma completions_ops [view_simps]:
  "completions (trigger e s) = completions s" "completions (mod_els is f s) = completions s"
  "completions (css_track p v s) = completions s" "completions (css_list p v s) = completions s"
  "completions (write_touch g s) = completions s" "completions (new_touch s) = completions s"
  "completions (setCSS r s) = completions s" "completions (snd (getLeft \<E> i s)) = completions s"
  "completions (write_option k s) = completions s"
  by (simp_all add: trigger_def mod_els_def css_track_def css_list_def write_touch_def new_touch_def
      setCSS_def getLeft_def write_option_def Let_def view_simps)

lemma completions_layout [view_simps]:
  "completions (setDimensions \<E> s) = completions s" "completions (setFade s) = completions s"
  "completions (setHeight \<E> s) = completions s" "completions (animateHeight \<E> s) = completions s"
  by (simp_all add: setDimensions_def setFade_def setHeight_def animateHeight_def Let_def view_simps)

lemma completions_setPosition [view_simps]: "completions (setPosition \<E> s) = completions s"
  by (simp add: setPosition_def Let_def view_simps split_beta)

lemma completions_transition [view_simps]:
  "completions (applyTransition d s) = completions s" "completions (disableTransition d s) = completions s"
  by (simp_all add: applyTransition_def disableTransition_def view_simps split: option.split)

lemma completions_animations [view_simps]:
  "completions (animateSlide \<E> r i s) = completions s @ [i]"
  "completions (fadeSlide j i s) = completions s @ [i]"
  "completions (fadeSlideOut j s) = completions s"
  by (simp_all add: animateSlide_def fadeSlide_def fadeSlideOut_def Let_def view_simps)

lemma completions_autoPlay [view_simps]:
  "completions (clear_interval u s) = completions s" "completions (autoPlayClear s) = completions s"
  "completions (autoPlay s) = completions s"
  by (simp_all add: clear_interval_def autoPlayClear_def autoPlay_def Let_def view_simps split: option.split)

lemma completions_postSlide [view_simps]:
  "completions (initADA s) = completions s" "completions (postSlide \<E> i s) = completions s"
  "completions (asNavFor i s) = completions s"
  by (simp_all add: initADA_def activateADA_def postSlide_def asNavFor_def Let_def view_simps)

lemma completions_loadImages [view_simps]: "completions (loadImages is s) = completions s"
proof -
  have "List.map_filter completion (map (\<lambda>(i, k, u). Image_load i k u) ps) = []" for ps
    by (induction ps) (auto simp: map_filter_simps)
  then show ?thesis by (simp add: loadImages_eq completions_def map_filter_def)
qed

lemma completions_setSlideClasses [view_simps]:
  "completions (lazyLoad s) = completions s" "completions (setSlideClasses i s) = completions s"
proof -
  show l: "completions (lazyLoad s) = completions s" for s
    by (simp add: lazyLoad_def Let_def view_simps split: prod.split)
  have c: "completions (center_classes j al t) = completions t" for j al t
    unfolding center_classes_def Let_def class_els_def activate_def
    by (simp only: completions_if completions_ops if_cancel)
  show "completions (setSlideClasses i s) = completions s"
    unfolding setSlideClasses_def Let_def class_els_def activate_def
    by (simp only: completions_if completions_ops if_cancel l c)
qed

text \<open>While the slider is animating, a callback that ends the animation is pending.\<close>

definition tasks_ok :: "slick \<Rightarrow> bool" where
  "tasks_ok s \<longleftrightarrow>
     list_all (\<lambda>i. 0 \<le> i \<and> i < slideCount s) (completions s) \<and>
     (animating s \<longrightarrow> completions s \<noteq> [])"

subsection \<open>The invariant\<close>

definition arrows_built :: "slick \<Rightarrow> bool" where
  "arrows_built s \<longleftrightarrow> o_arrows (options s) \<longrightarrow> prevArrow s \<noteq> None \<and> nextArrow s \<noteq> None"

definition nav_ok :: "env \<Rightarrow> slick \<Rightarrow> bool" where
  "nav_ok \<E> s \<longleftrightarrow> has_nav s \<longrightarrow> nav_found \<E> (the (o_asNavFor (options s)))"

definition labels_ok :: "slick \<Rightarrow> bool" where
  "labels_ok s \<longleftrightarrow>
     (\<forall>i \<in> set (track s). slick_index (els s i) = None \<or>
        - int (clone_count s) \<le> the (slick_index (els s i)) \<and>
        the (slick_index (els s i)) < slideCount s + int (clone_count s))"

definition base_ok :: "env \<Rightarrow> slick \<Rightarrow> bool" where
  "base_ok \<E> s \<longleftrightarrow>
     opts_ok (options s) \<and> track_ok s \<and> labels_ok s \<and> \<not> unslicked s \<and>
     0 \<le> currentSlide s \<and> currentSlide s < slideCount s \<and> arrows_built s \<and> nav_ok \<E> s"

definition current_ok :: "slick \<Rightarrow> bool" where
  "current_ok s \<longleftrightarrow>
     (o_slidesToShow (options s) < slideCount s \<longrightarrow> current_els s = {slides s ! nat (currentSlide s)})"

definition dots_ok :: "slick \<Rightarrow> bool" where
  "dots_ok s \<longleftrightarrow>
     (case dotItems s of
        None \<Rightarrow> True
      | Some lis \<Rightarrow> \<forall>k < length lis. Slick_active \<in> classes (lis ! k) \<longleftrightarrow>
          int k = currentSlide s div o_slidesToScroll (options s))"

definition slider_ok :: "env \<Rightarrow> slick \<Rightarrow> bool" where
  "slider_ok \<E> s \<longleftrightarrow> base_ok \<E> s \<and> current_ok s \<and> dots_ok s"

lemma view_eqD:
  assumes "view t = view s"
  shows "opts_ok (options t) = opts_ok (options s)"
    "o_slidesToShow (options t) = o_slidesToShow (options s)"
    "o_slidesToScroll (options t) = o_slidesToScroll (options s)"
    "o_infinite (options t) = o_infinite (options s)" "o_fade (options t) = o_fade (options s)"
    "o_centerMode (options t) = o_centerMode (options s)" "o_arrows (options t) = o_arrows (options s)"
    "o_asNavFor (options t) = o_asNavFor (options s)"
    "currentSlide t = currentSlide s" "slideCount t = slideCount s" "slides t = slides s"
    "track t = track s" "nextEl t = nextEl s" "prevArrow t = prevArrow s" "nextArrow t = nextArrow s"
    "unslicked t = unslicked s" "map_option (map classes) (dotItems t) = map_option (map classes) (dotItems s)"
    "classes (els t i) = classes (els s i)" "slick_index (els t i) = slick_index (els s i)"
    "has_nav t = has_nav s"
proof -
  have o': "(options t)\<lparr>o_autoplay := True, o_zIndex := 0\<rparr> = (options s)\<lparr>o_autoplay := True, o_zIndex := 0\<rparr>"
    using assms by (simp add: view_def)
  show w: "o_slidesToShow (options t) = o_slidesToShow (options s)"
    "o_slidesToScroll (options t) = o_slidesToScroll (options s)"
    "o_infinite (options t) = o_infinite (options s)" "o_fade (options t) = o_fade (options s)"
    "o_centerMode (options t) = o_centerMode (options s)" "o_arrows (options t) = o_arrows (options s)"
    "o_asNavFor (options t) = o_asNavFor (options s)"
    by (rule arg_cong [OF o', of o_slidesToShow, simplified]
        arg_cong [OF o', of o_slidesToScroll, simplified] arg_cong [OF o', of o_infinite, simplified]
        arg_cong [OF o', of o_fade, simplified] arg_cong [OF o', of o_centerMode, simplified]
        arg_cong [OF o', of o_arrows, simplified] arg_cong [OF o', of o_asNavFor, simplified])+
  show "opts_ok (options t) = opts_ok (options s)" by (simp add: opts_ok_def w)
  show "has_nav t = has_nav s" by (simp add: has_nav_def w)
  show "currentSlide t = currentSlide s" "slideCount t = slideCount s" "slides t = slides s"
    "track t = track s" "nextEl t = nextEl s" "prevArrow t = prevArrow s" "nextArrow t = nextArrow s"
    "unslicked t = unslicked s" "map_option (map classes) (dotItems t) = map_option (map classes) (dotItems s)"
    using assms by (simp_all add: view_def)
  show "classes (els t i) = classes (els s i)" "slick_index (els t i) = slick_index (els s i)"
    using assms by (simp_all add: view_def fun_eq_iff)
qed

lemma clone_count_view: "view t = view s \<Longrightarrow> clone_count t = clone_count s"
  by (simp add: clone_count_def infiniteCount_def view_eqD(2-6,10) [of t s])

lemma track_ok_view: "view t = view s \<Longrightarrow> track_ok t = track_ok s"
  by (simp add: track_ok_def clone_count_view [of t s] view_eqD(10-13,18) [of t s])

lemma base_ok_view: "view t = view s \<Longrightarrow> base_ok \<E> t = base_ok \<E> s"
  by (simp add: base_ok_def labels_ok_def arrows_built_def nav_ok_def track_ok_view [of t s]
      clone_count_view [of t s] view_eqD(1,7-10,12,14-16,19,20) [of t s])

lemma current_ok_view: "view t = view s \<Longrightarrow> current_ok t = current_ok s"
  by (simp add: current_ok_def current_els_def view_eqD(2,9-12,18) [of t s])

lemma dots_ok_classes:
  "dots_ok s \<longleftrightarrow>
     (case map_option (map classes) (dotItems s) of
        None \<Rightarrow> True
      | Some cs \<Rightarrow> \<forall>k < length cs. Slick_active \<in> cs ! k \<longleftrightarrow>
          int k = currentSlide s div o_slidesToScroll (options s))"
  by (cases "dotItems s") (simp_all add: dots_ok_def)

lemma dots_ok_view: "view t = view s \<Longrightarrow> dots_ok t = dots_ok s"
  by (simp only: dots_ok_classes view_eqD(3,9,17) [of t s])

lemma slider_ok_view: "view t = view s \<Longrightarrow> slider_ok \<E> t = slider_ok \<E> s"
  by (simp add: slider_ok_def base_ok_view [of t s] current_ok_view [of t s] dots_ok_view [of t s])

lemma slider_ok_keep: "slider_ok \<E> s \<Longrightarrow> view t = view s \<Longrightarrow> slider_ok \<E> t"
  by (simp add: slider_ok_view [of t s])

lemma tasks_ok_keep:
  "tasks_ok s \<Longrightarrow> view t = view s \<Longrightarrow> completions t = completions s \<Longrightarrow> animating t = animating s \<Longrightarrow>
     tasks_ok t"
  by (simp add: tasks_ok_def view_eqD(10) [of t s])

lemma slider_okD:
  assumes "slider_ok \<E> s"
  shows "opts_ok (options s)" "0 < o_slidesToShow (options s)" "0 < o_slidesToScroll (options s)"
    "track_ok s" "labels_ok s" "\<not> unslicked s" "0 \<le> currentSlide s" "currentSlide s < slideCount s"
    "arrows_built s" "nav_ok \<E> s" "0 < slideCount s"
  using assms by (simp_all add: slider_ok_def base_ok_def opts_ok_def)

subsection \<open>One move\<close>

text \<open>The slides that may be asked for.\<close>

definition index_ok :: "slick \<Rightarrow> int \<Rightarrow> bool" where
  "index_ok s index \<longleftrightarrow>
     (slideCount s mod o_slidesToScroll (options s) = 0 \<longrightarrow>
        - slideCount s \<le> index \<and> index < 2 * slideCount s)"

lemma anim_slide_range:
  assumes "0 < slideCount s" "0 < o_slidesToScroll (options s)" "index_ok s index"
  shows "0 \<le> anim_slide index s \<and> anim_slide index s < slideCount s"
proof -
  let ?c = "slideCount s" and ?k = "o_slidesToScroll (options s)"
  obtain r where r: "?c mod ?k = r" "0 \<le> r" "r \<le> ?c" "js_rem ?c ?k = r"
    using assms by (simp add: zmod_le_nonneg_dividend)
  show ?thesis
    using assms r by (auto simp: anim_slide_def Let_def index_ok_def)
qed

lemma even_scroll_le:
  assumes "0 < slideCount s" "0 < o_slidesToScroll (options s)"
    and "slideCount s mod o_slidesToScroll (options s) = 0"
  shows "o_slidesToScroll (options s) \<le> slideCount s"
  using assms by (metis mod_pos_pos_trivial less_le_not_le linorder_not_less)

lemma tasks_ok_move:
  assumes "tasks_ok s" "slideCount t = slideCount s" "0 \<le> i" "i < slideCount s"
    and "completions t = completions s @ [i]"
  shows "tasks_ok t"
  using assms by (simp add: tasks_ok_def)

lemma setSlideClasses_current_ok:
  assumes "track_ok s" "0 \<le> currentSlide s" "currentSlide s < slideCount s"
  shows "current_ok (setSlideClasses (currentSlide s) s)"
proof -
  have "eq (currentSlide s) (slides s) = [slides s ! nat (currentSlide s)]"
    using assms track_okD(1) [OF assms(1)] by simp
  moreover have "slides s ! nat (currentSlide s) \<in> set (track s)"
    using assms track_okD(1,7) [OF assms(1)] by (auto simp: subset_iff)
  ultimately have "current_els (setSlideClasses (currentSlide s) s) = {slides s ! nat (currentSlide s)}"
    using track_okD(5) [OF assms(1)] by (auto simp: current_els_def setSlideClasses_current)
  then show ?thesis by (simp add: current_ok_def)
qed

lemma slick_index_setSlideClasses [simp]:
  "slick_index (els (setSlideClasses i s) j) = slick_index (els s j)"
proof -
  have cl: "slick_index (els (class_els c is t) j) = slick_index (els t j)"
    "slick_index (els (activate is t) j) = slick_index (els t j)" for c "is" t
    by (simp_all add: class_els_def activate_def els_mod_els on_els_apply slick_index_def dom_simps)
  have ce: "slick_index (els (center_classes k al t) j) = slick_index (els t j)" for k al t
    unfolding center_classes_def Let_def
    by (simp only: if_distrib [of "\<lambda>t. slick_index (els t j)"] cl if_cancel)
  have off: "slick_index (els (mod_els is (attr Aria_hidden w \<circ> removeClass cs) t) j) = slick_index (els t j)"
    for "is" w cs t
    by (simp add: els_mod_els on_els_apply slick_index_def dom_simps)
  show ?thesis
    unfolding setSlideClasses_def Let_def
    by (simp only: if_distrib [of "\<lambda>t. slick_index (els t j)"] els_lazyLoad cl ce off if_cancel)
qed

lemma has_nav_cong: "options t = options s \<Longrightarrow> has_nav t = has_nav s"
  by (simp add: has_nav_def)

lemma setSlideClasses_base_ok: "base_ok \<E> s \<Longrightarrow> base_ok \<E> (setSlideClasses i s)"
  by (simp add: base_ok_def setSlideClasses_track_ok labels_ok_def arrows_built_def nav_ok_def has_nav_def)

lemma updateDots_same:
  "view ((updateDots s)\<lparr>dotItems := d\<rparr>) = view (s\<lparr>dotItems := d\<rparr>)"
  "completions (updateDots s) = completions s" "animating (updateDots s) = animating s"
  "options (updateDots s) = options s" "currentSlide (updateDots s) = currentSlide s"
  by (simp_all add: updateDots_def completions_update view_def split: option.split)

lemma updateDots_dots_ok:
  assumes "0 < o_slidesToScroll (options s)" "0 \<le> currentSlide s"
  shows "dots_ok (updateDots s)"
proof (cases "dotItems s")
  case None
  then show ?thesis by (simp add: updateDots_def dots_ok_def)
next
  case (Some lis)
  let ?p = "currentSlide s div o_slidesToScroll (options s)"
  have p: "0 \<le> ?p" using assms by (simp add: pos_imp_zdiv_nonneg_iff)
  have "k \<in> set (eq ?p [0 ..< length lis]) \<longleftrightarrow> int k = ?p" if "k < length lis" for k
    using p that by (cases "?p < int (length lis)") auto
  then show ?thesis
    using Some by (simp add: updateDots_def dots_ok_def Let_def nth_mod_dots dom_simps)
qed

text \<open>Arrows and dots are not part of the track.\<close>

lemma view_without:
  assumes "view (t\<lparr>dotItems := d, prevArrow := p, nextArrow := n\<rparr>) =
           view (s\<lparr>dotItems := d, prevArrow := p, nextArrow := n\<rparr>)"
    and "arrows_built t"
  shows "base_ok \<E> s \<Longrightarrow> base_ok \<E> t" and "current_ok s \<Longrightarrow> current_ok t"
proof -
  let ?f = "\<lambda>u. u\<lparr>dotItems := d, prevArrow := p, nextArrow := n\<rparr> :: slick"
  have cc: "clone_count (?f u) = clone_count u" for u by (rule clone_count_cong) simp_all
  have to: "track_ok (?f u) = track_ok u" for u by (simp add: track_ok_def cc)
  show "current_ok s \<Longrightarrow> current_ok t"
    using current_ok_view [OF assms(1)] by (simp add: current_ok_def current_els_def)
  show "base_ok \<E> s \<Longrightarrow> base_ok \<E> t"
    using assms(2) track_ok_view [OF assms(1)] clone_count_view [OF assms(1)]
      view_eqD(1,7-10,12,16,19,20) [OF assms(1)]
    by (simp add: base_ok_def labels_ok_def nav_ok_def to cc has_nav_def)
qed

text \<open>Whether autoplay is held up.\<close>

definition flags :: "slick \<Rightarrow> bool \<times> bool \<times> bool \<times> int" where
  "flags s = (paused s, interrupted s, focussed s, direction s)"

named_theorems flags_simps \<open>operations that do not hold up autoplay\<close>

lemmas flags_if [flags_simps] = if_distrib [of flags]

lemma flags_update [flags_simps]:
  "flags (s\<lparr>animating := b\<rparr>) = flags s" "flags (s\<lparr>swipeLeft := l\<rparr>) = flags s"
  "flags (s\<lparr>currentLeft := n\<rparr>) = flags s" "flags (s\<lparr>currentSlide := i\<rparr>) = flags s"
  "flags (s\<lparr>slideOffset := r\<rparr>) = flags s" "flags (s\<lparr>els := h\<rparr>) = flags s"
  "flags (s\<lparr>trackEl := e\<rparr>) = flags s" "flags (s\<lparr>listEl := e\<rparr>) = flags s"
  "flags (s\<lparr>tasks := ts\<rparr>) = flags s" "flags (s\<lparr>trace := es\<rparr>) = flags s"
  "flags (s\<lparr>timers := us\<rparr>) = flags s" "flags (s\<lparr>nextTimer := n'\<rparr>) = flags s"
  "flags (s\<lparr>autoPlayTimer := u\<rparr>) = flags s" "flags (s\<lparr>dotItems := ds\<rparr>) = flags s"
  "flags (s\<lparr>prevArrow := p\<rparr>) = flags s" "flags (s\<lparr>nextArrow := p\<rparr>) = flags s"
  "flags (s\<lparr>listWidth := r\<rparr>) = flags s" "flags (s\<lparr>listHeight := r\<rparr>) = flags s"
  "flags (s\<lparr>slideWidth := r\<rparr>) = flags s"
  by (simp_all add: flags_def)

lemma flags_ops [flags_simps]:
  "flags (trigger e s) = flags s" "flags (mod_els is f s) = flags s"
  "flags (css_track p v s) = flags s" "flags (css_list p v s) = flags s"
  "flags (setCSS r s) = flags s" "flags (snd (getLeft \<E> i s)) = flags s"
  "flags (later t s) = flags s" "flags (clear_interval u s) = flags s"
  "flags (setSlideClasses i s) = flags s" "flags (updateDots s) = flags s"
  by (simp_all add: trigger_def mod_els_def css_track_def css_list_def setCSS_def getLeft_def later_def
      clear_interval_def updateDots_def flags_def Let_def split: option.split)

lemma flags_layout [flags_simps]:
  "flags (setDimensions \<E> s) = flags s" "flags (setFade s) = flags s"
  "flags (setHeight \<E> s) = flags s" "flags (animateHeight \<E> s) = flags s"
  by (simp_all add: setDimensions_def setFade_def setHeight_def animateHeight_def Let_def flags_simps)

lemma flags_setPosition [flags_simps]: "flags (setPosition \<E> s) = flags s"
  by (simp add: setPosition_def Let_def flags_simps split_beta)

lemma flags_moves [flags_simps]:
  "flags (applyTransition d s) = flags s" "flags (disableTransition d s) = flags s"
  "flags (animateSlide \<E> r i s) = flags s" "flags (fadeSlide i j s) = flags s"
  "flags (fadeSlideOut i s) = flags s" "flags (autoPlayClear s) = flags s"
  "flags (autoPlay s) = flags s" "flags (initADA s) = flags s" "flags (asNavFor i s) = flags s"
  by (simp_all add: applyTransition_def disableTransition_def animateSlide_def fadeSlide_def
      fadeSlideOut_def autoPlayClear_def autoPlay_def initADA_def activateADA_def asNavFor_def Let_def
      flags_simps split: option.split)

lemma flags_postSlide [flags_simps]: "flags (postSlide \<E> i s) = flags s"
  by (simp add: postSlide_def Let_def flags_simps)

named_theorems animating_simps \<open>operations that do not start or end an animation\<close>

lemmas animating_if [animating_simps] = if_distrib [of animating]

lemma animating_ops [animating_simps]:
  "animating (trigger e s) = animating s" "animating (mod_els is f s) = animating s"
  "animating (css_track p v s) = animating s" "animating (css_list p v s) = animating s"
  "animating (setCSS r s) = animating s" "animating (snd (getLeft \<E> i s)) = animating s"
  "animating (later t s) = animating s" "animating (clear_interval u s) = animating s"
  by (simp_all add: trigger_def mod_els_def css_track_def css_list_def setCSS_def getLeft_def later_def
      clear_interval_def Let_def split: option.split)

lemma animating_layout [animating_simps]:
  "animating (setDimensions \<E> s) = animating s" "animating (setFade s) = animating s"
  "animating (setHeight \<E> s) = animating s" "animating (animateHeight \<E> s) = animating s"
  by (simp_all add: setDimensions_def setFade_def setHeight_def animateHeight_def Let_def animating_simps)

lemma animating_setPosition [animating_simps]: "animating (setPosition \<E> s) = animating s"
  by (simp add: setPosition_def Let_def animating_simps split_beta)

lemma animating_moves [animating_simps]:
  "animating (applyTransition d s) = animating s" "animating (disableTransition d s) = animating s"
  "animating (animateSlide \<E> r i s) = animating s" "animating (fadeSlide i j s) = animating s"
  "animating (fadeSlideOut i s) = animating s"
  "animating (autoPlayClear s) = animating s" "animating (autoPlay s) = animating s"
  "animating (initADA s) = animating s" "animating (asNavFor i s) = animating s"
  by (simp_all add: applyTransition_def disableTransition_def animateSlide_def fadeSlide_def
      fadeSlideOut_def autoPlayClear_def
      autoPlay_def initADA_def activateADA_def asNavFor_def Let_def animating_simps split: option.split)

lemma base_ok_moved:
  assumes "base_ok \<E> s" "0 \<le> i" "i < slideCount s"
  shows "base_ok \<E> (s\<lparr>currentSlide := i\<rparr>)"
proof -
  have c: "clone_count (s\<lparr>currentSlide := i\<rparr>) = clone_count s" by (rule clone_count_cong) simp_all
  have "track_ok (s\<lparr>currentSlide := i\<rparr>) = track_ok s" "labels_ok (s\<lparr>currentSlide := i\<rparr>) = labels_ok s"
    by (simp_all add: track_ok_def labels_ok_def c)
  then show ?thesis
    using assms by (simp add: base_ok_def arrows_built_def nav_ok_def has_nav_def)
qed

lemma updateArrows_Some:
  assumes "arrows_built s"
  shows "\<exists>t. updateArrows s = Some t \<and>
           view (t\<lparr>dotItems := d, prevArrow := p, nextArrow := n\<rparr>) =
             view (s\<lparr>dotItems := d, prevArrow := p, nextArrow := n\<rparr>) \<and>
           arrows_built t \<and> dotItems t = dotItems s \<and> options t = options s \<and>
           currentSlide t = currentSlide s \<and> completions t = completions s \<and> animating t = animating s \<and>
           slideCount t = slideCount s \<and> arrangement t = arrangement s \<and> flags t = flags s"
proof (cases "o_arrows (options s) \<and> slideCount s > o_slidesToShow (options s) \<and> \<not> o_infinite (options s)")
  case False
  then have "updateArrows s = Some s" unfolding updateArrows_def Let_def by (simp only: if_False)
  then show ?thesis using assms by simp
next
  case True
  then obtain a b where ab: "prevArrow s = Some a" "nextArrow s = Some b"
    using assms by (auto simp: arrows_built_def)
  let ?ok = "\<lambda>t. view (t\<lparr>dotItems := d, prevArrow := p, nextArrow := n\<rparr>) =
             view (s\<lparr>dotItems := d, prevArrow := p, nextArrow := n\<rparr>) \<and>
           arrows_built t \<and> dotItems t = dotItems s \<and> options t = options s \<and>
           currentSlide t = currentSlide s \<and> completions t = completions s \<and> animating t = animating s \<and>
           slideCount t = slideCount s \<and> arrangement t = arrangement s \<and> flags t = flags s"
  have k: "?ok (s\<lparr>prevArrow := Some x, nextArrow := Some y\<rparr>)"
    "?ok (s\<lparr>nextArrow := Some y, prevArrow := Some x\<rparr>)" for x y
    by (simp_all add: view_def arrangement_def arrows_built_def completions_update
        flags_update)
  show ?thesis
    unfolding updateArrows_def Let_def if_P [OF True] ab Option.bind.simps
    by (simp only: option.inject ex_simps simp_thms k split: if_split)
qed

lemma slider_ok_move:
  assumes "base_ok \<E> s" "track_ok s"
  shows "\<exists>t. updateArrows (updateDots s) = Some t \<and> base_ok \<E> t \<and> (current_ok s \<longrightarrow> current_ok t) \<and>
           dots_ok t \<and> completions t = completions s \<and> animating t = animating s \<and>
           options t = options s \<and> slideCount t = slideCount s \<and> currentSlide t = currentSlide s \<and>
           arrangement t = arrangement s \<and> flags t = flags s"
proof -
  have b: "arrows_built (updateDots s)"
    using assms(1) by (simp add: base_ok_def arrows_built_def updateDots_def split: option.split)
  obtain t where t: "updateArrows (updateDots s) = Some t"
    "view (t\<lparr>dotItems := None, prevArrow := None, nextArrow := None\<rparr>) =
       view ((updateDots s)\<lparr>dotItems := None, prevArrow := None, nextArrow := None\<rparr>)"
    "arrows_built t" "dotItems t = dotItems (updateDots s)" "options t = options (updateDots s)"
    "currentSlide t = currentSlide (updateDots s)" "completions t = completions (updateDots s)"
    "animating t = animating (updateDots s)" "slideCount t = slideCount (updateDots s)"
    "arrangement t = arrangement (updateDots s)" "flags t = flags s"
    using updateArrows_Some [OF b, of None None None] by (auto simp: flags_simps)
  have "view ((updateDots s)\<lparr>dotItems := None, prevArrow := None, nextArrow := None\<rparr>) =
          view (s\<lparr>dotItems := None, prevArrow := None, nextArrow := None\<rparr>)"
    by (simp add: updateDots_def view_def split: option.split)
  with t(2) have v: "view (t\<lparr>dotItems := None, prevArrow := None, nextArrow := None\<rparr>) =
          view (s\<lparr>dotItems := None, prevArrow := None, nextArrow := None\<rparr>)" by simp
  have "dots_ok (updateDots s)"
    using assms(1) by (intro updateDots_dots_ok) (simp_all add: base_ok_def opts_ok_def)
  then have "dots_ok t" unfolding dots_ok_def t(4-6) .
  moreover have "slideCount (updateDots s) = slideCount s" "arrangement (updateDots s) = arrangement s"
    by (simp_all add: updateDots_def arrangement_def split: option.split)
  ultimately show ?thesis
    using t view_without [OF v t(3)] assms(1) by (auto simp: updateDots_same)
qed

lemma postSlide_ok:
  assumes "slider_ok \<E> s" "list_all (\<lambda>i. 0 \<le> i \<and> i < slideCount s) (completions s)"
  shows "slider_ok \<E> (postSlide \<E> i s) \<and> tasks_ok (postSlide \<E> i s) \<and> \<not> animating (postSlide \<E> i s)"
proof -
  have a: "\<not> animating (postSlide \<E> i s)"
    using slider_okD(6) [OF assms(1)] by (simp add: postSlide_def Let_def animating_simps)
  have v: "view (postSlide \<E> i s) = view s" by (rule view_postSlide)
  then show ?thesis
    using slider_ok_keep [OF assms(1) v] a assms(2) view_eqD(10) [OF v]
    by (simp add: tasks_ok_def completions_postSlide)
qed

lemma move_to_ok:
  assumes "slider_ok \<E> s" "tasks_ok s" "index_ok s index"
  shows "\<exists>t. move_to \<E> index r d s = Some t \<and> slider_ok \<E> t \<and> tasks_ok t \<and>
           currentSlide t = anim_slide index s \<and> arrangement t = arrangement s \<and> flags t = flags s \<and>
           (if d then \<not> animating t else animating t)"
proof -
  define s1 where "s1 = (if o_autoplay (options s) then clear_interval (autoPlayTimer s) s else s)"
  define a where "a = anim_slide index s1"
  define s2 where "s2 = trigger (E_beforeChange (currentSlide s1) a) (s1\<lparr>animating := True\<rparr>)"
  define s2' where "s2' = s2\<lparr>currentSlide := a\<rparr>"
  define s3 where "s3 = setSlideClasses a s2'"
  have v1: "view s1 = view s" by (simp add: s1_def view_simps)
  have v2: "view s2 = view s" by (simp add: s2_def v1 view_simps)
  have a: "0 \<le> a" "a < slideCount s"
  proof -
    have "index_ok s1 index" using assms(3) by (simp add: index_ok_def view_eqD [OF v1])
    then show "0 \<le> a" "a < slideCount s"
      using anim_slide_range [of s1 index] slider_okD(3,11) [OF assms(1)]
      by (simp_all add: a_def view_eqD [OF v1])
  qed
  have ok2: "slider_ok \<E> s2" by (rule slider_ok_keep [OF assms(1) v2])
  then have b2: "base_ok \<E> s2'"
    using a view_eqD(10) [OF v2] by (simp add: slider_ok_def s2'_def base_ok_moved)
  then have b3: "base_ok \<E> s3" unfolding s3_def by (rule setSlideClasses_base_ok)
  have "current_ok s3"
    using setSlideClasses_current_ok [of s2'] b2 by (simp add: s3_def s2'_def base_ok_def)
  moreover obtain s4 where s4: "nav_classes \<E> s3 = Some s4" "view s4 = view s3"
    "completions s4 = completions s3" "animating s4 = animating s3" "flags s4 = flags s3"
    using b3 by (cases "has_nav s3")
      (auto simp: nav_classes_def base_ok_def nav_ok_def view_simps flags_simps trigger_def)
  moreover have "base_ok \<E> s4" using b3 base_ok_view [OF s4(2)] by simp
  ultimately obtain s5 where s5: "updateArrows (updateDots s4) = Some s5" "base_ok \<E> s5" "current_ok s5"
    "dots_ok s5" "completions s5 = completions s4" "animating s5 = animating s4"
    "slideCount s5 = slideCount s4" "currentSlide s5 = currentSlide s4" "arrangement s5 = arrangement s4"
    "flags s5 = flags s4"
    using slider_ok_move [of \<E> s4] current_ok_view [OF s4(2)] by (auto simp: base_ok_def)
  have ok5: "slider_ok \<E> s5" using s5 by (simp add: slider_ok_def)
  have c5: "completions s5 = completions s"
    by (simp add: s5 s4 s3_def s2'_def s2_def s1_def view_simps)
  have n5: "slideCount s5 = slideCount s"
    using s5(7) view_eqD(10) [OF s4(2)] view_eqD(10) [OF v2] by (simp add: s3_def s2'_def)
  define u where "u = (if o_fade (options s5) then
                animateHeight \<E>
                  (if \<not> d then fadeSlide a a (fadeSlideOut (currentSlide s2) s5)
                   else postSlide \<E> a s5)
              else if \<not> d then animateSlide \<E> r a s5
              else postSlide \<E> a s5)"
  have vu: "view u = view s5" by (simp add: u_def view_simps)
  have "tasks_ok u"
  proof (cases d)
    case True
    have "tasks_ok (postSlide \<E> a s5)"
      using postSlide_ok [OF ok5] c5 n5 assms(2) by (simp add: tasks_ok_def)
    then show ?thesis
      using True tasks_ok_keep [of "postSlide \<E> a s5" "animateHeight \<E> (postSlide \<E> a s5)"]
      by (simp add: u_def view_simps animating_simps)
  next
    case False
    have "completions u = completions s @ [a]" using False c5 by (simp add: u_def view_simps)
    then show ?thesis
      using a assms(2) n5 view_eqD(10) [OF vu] by (simp add: tasks_ok_def)
  qed
  moreover have "slider_ok \<E> u" by (rule slider_ok_keep [OF ok5 vu])
  moreover have "move_to \<E> index r d s = Some u"
    unfolding move_to_def Let_def s1_def [symmetric] a_def [symmetric] s2_def [symmetric]
      s2'_def [symmetric] s3_def [symmetric] s4(1) s5(1) Option.bind.simps u_def ..
  moreover have "currentSlide u = anim_slide index s"
  proof -
    have "currentSlide s5 = a" using s5(8) view_eqD(9) [OF s4(2)] by (simp add: s3_def s2'_def)
    moreover have "a = anim_slide index s"
      by (simp add: a_def anim_slide_def view_eqD(3,10) [OF v1])
    ultimately show ?thesis using view_eqD(9) [OF vu] by simp
  qed
  moreover have "arrangement u = arrangement s"
  proof -
    have "arrangement s3 = arrangement s2" by (simp add: s3_def s2'_def arrangement_def)
    then show ?thesis using arrangement_view [OF vu] s5(9) arrangement_view [OF s4(2)] arrangement_view [OF v2] by simp
  qed
  moreover have "flags u = flags s"
    by (simp add: u_def s5(10) s4(5) s3_def s2'_def s2_def s1_def flags_simps)
  moreover have "if d then \<not> animating u else animating u"
  proof (cases d)
    case True
    have "\<not> animating (postSlide \<E> a s5)"
      using postSlide_ok [OF ok5] c5 n5 assms(2) by (simp add: tasks_ok_def)
    then show ?thesis using True by (simp add: u_def animating_simps)
  next
    case False
    have "animating s5" using s5(6) s4(4) by (simp add: s3_def s2'_def s2_def animating_simps)
    then show ?thesis using False by (simp add: u_def animating_simps)
  qed
  ultimately show ?thesis by blast
qed

subsection \<open>Every handler succeeds and keeps the invariant\<close>

text \<open>\<open>fine \<E> r\<close>: a result that is a state, and a state in which the invariant holds.\<close>

definition good :: "env \<Rightarrow> slick \<Rightarrow> bool" where
  "good \<E> s \<longleftrightarrow> slider_ok \<E> s \<and> tasks_ok s"

definition fine :: "env \<Rightarrow> slick option \<Rightarrow> bool" where
  "fine \<E> r \<longleftrightarrow> (\<exists>t. r = Some t \<and> good \<E> t)"

lemma fine_Some [simp]: "fine \<E> (Some t) \<longleftrightarrow> good \<E> t"
  by (simp add: fine_def)

lemma fine_bind:
  "fine \<E> r \<Longrightarrow> (\<And>t. good \<E> t \<Longrightarrow> good \<E> (g t)) \<Longrightarrow> fine \<E> (r \<bind> (\<lambda>t. Some (g t)))"
  by (auto simp: fine_def)

lemma good_keep:
  "good \<E> s \<Longrightarrow> view t = view s \<Longrightarrow> completions t = completions s \<Longrightarrow> animating t = animating s \<Longrightarrow>
     good \<E> t"
  unfolding good_def using slider_ok_keep tasks_ok_keep by blast

lemma out_of_range_Some: "opts_ok (options s) \<Longrightarrow> \<exists>b. out_of_range index s = Some b"
  by (cases "index < 0") (auto simp: out_of_range_def Let_def getDotCount_Some)

lemma options_getLeft [simp]: "options (snd (getLeft \<E> i s)) = options s"
  by (simp add: getLeft_def Let_def)

text \<open>The state from which \<open>slideHandler\<close> moves.\<close>

lemma slideHandler_moves:
  assumes "\<not> (animating s \<and> o_waitForAnimate (options s))"
    and "\<not> (o_fade (options s) \<and> currentSlide s = index)"
    and "\<not> slideCount s \<le> o_slidesToShow (options s)"
  shows "\<exists>s4 l l'. view s4 = view s \<and> completions s4 = completions s \<and> animating s4 = animating s \<and>
           options s4 = options s \<and> flags s4 = flags s \<and> responsive s4 = responsive s \<and>
           timers s4 = timers s \<and> autoPlayTimer s4 = autoPlayTimer s \<and>
           slideHandler \<E> index sync d s =
             do {
               out \<leftarrow> out_of_range index s4;
               if out then
                 Some (if o_fade (options s) then s4
                       else if \<not> d then animateSlide \<E> l' (currentSlide s4) s4
                       else postSlide \<E> (currentSlide s4) s4)
               else move_to \<E> index l d s4
             }"
proof -
  define s1 where "s1 = (if \<not> sync then asNavFor index s else s)"
  define s2 where "s2 = snd (getLeft \<E> index s1)"
  define s3 where "s3 = snd (getLeft \<E> (currentSlide s2) s2)"
  define s4 where "s4 = s3\<lparr>currentLeft :=
    (case swipeLeft s3 of None \<Rightarrow> Fin (fst (getLeft \<E> (currentSlide s2) s2)) | Some l \<Rightarrow> l)\<rparr>"
  have g: "getLeft \<E> index s1 = (fst (getLeft \<E> index s1), s2)"
    "getLeft \<E> (currentSlide s2) s2 = (fst (getLeft \<E> (currentSlide s2) s2), s3)"
    by (simp_all add: s2_def s3_def)
  have "options s1 = options s" by (simp add: s1_def asNavFor_def trigger_def)
  then have "options s4 = options s" by (simp add: s4_def s3_def s2_def)
  moreover have "responsive s4 = responsive s" "timers s4 = timers s" "autoPlayTimer s4 = autoPlayTimer s"
    by (simp_all add: s4_def s3_def s2_def s1_def getLeft_def Let_def asNavFor_def trigger_def)
  moreover have "view s4 = view s" "completions s4 = completions s" "animating s4 = animating s"
    "flags s4 = flags s"
    by (simp_all add: s4_def s3_def s2_def s1_def view_simps animating_simps flags_simps)
  moreover have "slideHandler \<E> index sync d s =
      do {
        out \<leftarrow> out_of_range index s4;
        if out then
          Some (if o_fade (options s) then s4
                else if \<not> d then animateSlide \<E> (fst (getLeft \<E> (currentSlide s2) s2)) (currentSlide s4) s4
                else postSlide \<E> (currentSlide s4) s4)
        else move_to \<E> index (fst (getLeft \<E> index s1)) d s4
      }"
    unfolding slideHandler_def Let_def if_not_P [OF assms(1)] if_not_P [OF assms(2)]
      if_not_P [OF assms(3)] s1_def [symmetric]
    by (subst g(1), simp only: prod.case, subst g(2), simp only: prod.case s4_def)
  ultimately show ?thesis by blast
qed

lemma slideHandler_fine:
  assumes "good \<E> s" "index_ok s index"
  shows "fine \<E> (slideHandler \<E> index sync d s)"
proof (cases "animating s \<and> o_waitForAnimate (options s) \<or> o_fade (options s) \<and> currentSlide s = index \<or>
              slideCount s \<le> o_slidesToShow (options s)")
  case True
  then have "slideHandler \<E> index sync d s = Some s"
    unfolding slideHandler_def Let_def by (elim disjE) (simp_all only: if_True if_cancel simp_thms)
  then show ?thesis using assms(1) by simp
next
  case False
  then obtain s4 l l' where s4: "view s4 = view s" "completions s4 = completions s"
    "animating s4 = animating s" "options s4 = options s"
    and eq: "slideHandler \<E> index sync d s =
             do {
               out \<leftarrow> out_of_range index s4;
               if out then
                 Some (if o_fade (options s) then s4
                       else if \<not> d then animateSlide \<E> l' (currentSlide s4) s4
                       else postSlide \<E> (currentSlide s4) s4)
               else move_to \<E> index l d s4
             }"
    using slideHandler_moves [of s index \<E> sync d] by blast
  have g4: "good \<E> s4" using good_keep [OF assms(1) s4(1-3)] .
  then have ok4: "slider_ok \<E> s4" and t4: "tasks_ok s4" by (simp_all add: good_def)
  obtain out where out: "out_of_range index s4 = Some out"
    using out_of_range_Some slider_okD(1) [OF ok4] by blast
  have cur: "0 \<le> currentSlide s4" "currentSlide s4 < slideCount s4" using slider_okD(7,8) [OF ok4] .
  have "good \<E> (postSlide \<E> (currentSlide s4) s4)"
    using postSlide_ok [OF ok4] t4 by (simp add: good_def tasks_ok_def)
  moreover have "good \<E> (animateSlide \<E> l' (currentSlide s4) s4)"
  proof -
    have v: "view (animateSlide \<E> l' (currentSlide s4) s4) = view s4" by (rule view_animateSlide)
    have "tasks_ok (animateSlide \<E> l' (currentSlide s4) s4)"
      using cur t4 view_eqD(10) [OF v]
      by (intro tasks_ok_move [OF t4]) (simp_all add: view_simps)
    then show ?thesis using slider_ok_keep [OF ok4 v] by (simp add: good_def)
  qed
  moreover have "fine \<E> (move_to \<E> index l d s4)"
  proof -
    have "index_ok s4 index" using assms(2) by (simp add: index_ok_def view_eqD [OF s4(1)])
    then show ?thesis using move_to_ok [OF ok4 t4] by (fastforce simp: fine_def good_def)
  qed
  ultimately show ?thesis
    using g4 unfolding eq out Option.bind.simps by (simp split: if_split)
qed

lemma checkNavigable_index_ok:
  assumes "slider_ok \<E> s"
  shows "\<exists>r. checkNavigable index s = Some r \<and> index_ok s r"
proof -
  note ok = slider_okD [OF assms]
  obtain r where r: "checkNavigable index s = Some r"
    "if index < first_navigable (options s) then r = 0
     else r \<in> navigables s \<and> r \<le> index \<and> (\<forall>x \<in> navigables s. x \<le> index \<longrightarrow> x \<le> r)"
    using checkNavigable_spec [OF ok(1,11)] by blast
  have "first_navigable (options s) \<le> x \<and> x < 2 * slideCount s" if "x \<in> navigables s" for x
  proof -
    have x: "x = first_navigable (options s) \<or>
          x \<in> break_points (options s) (first_navigable (options s)) (nav_limit s)"
      "first_navigable (options s) < nav_limit s"
      using that by (auto simp: navigables_def split: if_splits)
    have "x < nav_limit s" using x by (auto simp: break_points_def)
    moreover have "nav_limit s \<le> 2 * slideCount s" using ok(11) by (simp add: nav_limit_def)
    moreover have "first_navigable (options s) \<le> x"
      using x(1) break_points_above [OF ok(1)] ok(3) by fastforce
    ultimately show ?thesis by linarith
  qed
  then have "r = 0 \<or> first_navigable (options s) \<le> r \<and> r < 2 * slideCount s"
    using r(2) by (auto split: if_splits)
  moreover have "- slideCount s \<le> first_navigable (options s)"
    if "slideCount s mod o_slidesToScroll (options s) = 0"
    using even_scroll_le [OF ok(11,3) that] ok(11) by (simp add: first_navigable_def)
  ultimately have "index_ok s r" using ok(11) by (auto simp: index_ok_def)
  then show ?thesis using r(1) by blast
qed

lemma changeSlide_fine:
  assumes "good \<E> s"
  shows "fine \<E> (changeSlide \<E> m d s)"
proof -
  have sok: "slider_ok \<E> s" using assms by (simp add: good_def)
  note ok = slider_okD [OF sok]
  let ?c = "slideCount s" and ?k = "o_slidesToScroll (options s)" and ?n = "o_slidesToShow (options s)"
  define io where "io = (if js_rem ?c ?k \<noteq> 0 then 0 else js_rem (?c - currentSlide s) ?k)"
  have io: "0 \<le> io" "io < ?k"
    using ok by (simp_all add: io_def)
  have le: "?k \<le> ?c" if "?c mod ?k = 0" using even_scroll_le [OF ok(11,3) that] .
  show ?thesis
  proof (cases m)
    case Previous
    have "index_ok s (currentSlide s - (if io = 0 then ?k else ?n - io))" if "?c > ?n"
      using that io le ok by (auto simp: index_ok_def)
    then show ?thesis
      using assms slideHandler_fine [OF assms]
      unfolding changeSlide_def Let_def Previous message.case io_def [symmetric]
      by (simp split: if_split)
  next
    case Next
    have "index_ok s (currentSlide s + (if io = 0 then ?k else io))"
      using io le ok by (auto simp: index_ok_def)
    then show ?thesis
      using assms slideHandler_fine [OF assms]
      unfolding changeSlide_def Let_def Next message.case io_def [symmetric]
      by (simp split: if_split)
  next
    case (Index i li)
    define index where "index = (case i of None \<Rightarrow> li * ?k | Some j \<Rightarrow> j)"
    obtain r where r: "checkNavigable index s = Some r" "index_ok s r"
      using checkNavigable_index_ok [OF sok] by blast
    obtain t where t: "slideHandler \<E> r False d s = Some t" "good \<E> t"
      using slideHandler_fine [OF assms r(2), of False d] by (auto simp: fine_def)
    have "good \<E> (if 0 \<le> li then trigger (F_focus li) t else t)"
      using t(2) good_keep [OF t(2), of "trigger (F_focus li) t"]
      by (simp add: view_simps animating_simps)
    then show ?thesis
      unfolding changeSlide_def Let_def Index message.case index_def [symmetric]
      by (simp add: r t)
  next
    case Other_message
    then show ?thesis using assms by (simp add: changeSlide_def Let_def)
  qed
qed

lemma page_index_ok:
  assumes "slider_ok \<E> s"
  shows "index_ok s (currentSlide s + o_slidesToScroll (options s))"
    "index_ok s (currentSlide s - o_slidesToScroll (options s))" "index_ok s (currentSlide s)"
  using slider_okD [OF assms] even_scroll_le [of s] by (auto simp: index_ok_def)

lemma keyHandler_fine: "good \<E> s \<Longrightarrow> fine \<E> (keyHandler \<E> tagName keyCode s)"
  by (simp add: keyHandler_def changeSlide_fine)

lemma good_asNavFor: "good \<E> s \<Longrightarrow> good \<E> (asNavFor i s)"
  by (rule good_keep) (simp_all add: view_simps animating_simps)

lemma good_setSlideClasses:
  assumes "good \<E> s" "slideCount s \<le> o_slidesToShow (options s)"
  shows "good \<E> (setSlideClasses i s)"
proof -
  have "completions (setSlideClasses i s) = completions s" by (rule completions_setSlideClasses)
  moreover have "dots_ok (setSlideClasses i s) = dots_ok s"
    unfolding dots_ok_def setSlideClasses_same ..
  ultimately show ?thesis
    using assms setSlideClasses_base_ok [of \<E> s i]
    by (simp add: good_def slider_ok_def tasks_ok_def current_ok_def)
qed

lemma selectHandler_fine:
  assumes "good \<E> s" "\<forall>i. target = Some i \<longrightarrow> i \<in> set (track s)"
  shows "fine \<E> (selectHandler \<E> target s)"
proof -
  have sok: "slider_ok \<E> s" using assms by (simp add: good_def)
  note ok = slider_okD [OF sok]
  define index where
    "index = (case Option.bind target (\<lambda>i. slick_index (els s i)) of None \<Rightarrow> 0 | Some i \<Rightarrow> i)"
  have "index_ok s index"
  proof -
    have "index = 0 \<or> - int (clone_count s) \<le> index \<and> index < slideCount s + int (clone_count s)"
    proof (cases target)
      case None
      then show ?thesis by (simp add: index_def)
    next
      case (Some i)
      then show ?thesis
        using assms(2) ok(5) by (cases "slick_index (els s i)") (fastforce simp: index_def labels_ok_def)+
    qed
    moreover have "int (clone_count s) \<le> slideCount s"
      using infiniteCount_bounds [OF ok(2)] ok(11) by (auto simp: clone_count_def)
    ultimately show ?thesis using ok(11) by (auto simp: index_ok_def)
  qed
  then show ?thesis
    using assms(1) slideHandler_fine good_asNavFor good_setSlideClasses
    unfolding selectHandler_def Let_def index_def [symmetric] by simp
qed

lemma good_update [simp]:
  "good \<E> s \<Longrightarrow> good \<E> (s\<lparr>direction := i\<rparr>)" "good \<E> s \<Longrightarrow> good \<E> (s\<lparr>currentDirection := i\<rparr>)"
  "good \<E> s \<Longrightarrow> good \<E> (s\<lparr>dragging := b\<rparr>)" "good \<E> s \<Longrightarrow> good \<E> (s\<lparr>interrupted := b\<rparr>)"
  "good \<E> s \<Longrightarrow> good \<E> (s\<lparr>shouldClick := b\<rparr>)" "good \<E> s \<Longrightarrow> good \<E> (s\<lparr>swipeLeft := l\<rparr>)"
  "good \<E> s \<Longrightarrow> good \<E> (s\<lparr>paused := b\<rparr>)" "good \<E> s \<Longrightarrow> good \<E> (s\<lparr>focussed := b\<rparr>)"
  "good \<E> s \<Longrightarrow> good \<E> (s\<lparr>slideOffset := r\<rparr>)"
  by (auto elim!: good_keep simp: view_simps)

lemma good_ops [simp]:
  "good \<E> s \<Longrightarrow> good \<E> (trigger e s)" "good \<E> s \<Longrightarrow> good \<E> (write_touch f s)"
  "good \<E> s \<Longrightarrow> good \<E> (new_touch s)" "good \<E> s \<Longrightarrow> good \<E> (setCSS r s)"
  "good \<E> s \<Longrightarrow> good \<E> (snd (getLeft \<E>' i s))" "good \<E> s \<Longrightarrow> good \<E> (autoPlay s)"
  "good \<E> s \<Longrightarrow> good \<E> (autoPlayClear s)" "good \<E> s \<Longrightarrow> good \<E> (setPosition \<E>' s)"
  by (auto elim!: good_keep simp: view_simps animating_simps write_touch_def new_touch_def Let_def)

lemma slider_ok_update:
  "slider_ok \<E> (s\<lparr>direction := i\<rparr>) = slider_ok \<E> s"
  by (rule slider_ok_view) (simp add: view_simps)

lemma autoPlayIterator_fine:
  assumes "good \<E> s"
  shows "fine \<E> (autoPlayIterator \<E> s)"
proof -
  have sok: "slider_ok \<E> s" using assms by (simp add: good_def)
  note i = page_index_ok [OF sok]
  have io: "index_ok (s\<lparr>direction := d\<rparr>) j = index_ok s j" for d j by (simp add: index_ok_def)
  have f: "fine \<E> (slideHandler \<E> (currentSlide s + o_slidesToScroll (options s)) False False s)"
    "fine \<E> (slideHandler \<E> (currentSlide s - o_slidesToScroll (options s)) False False s)"
    "\<And>d. fine \<E> (slideHandler \<E> (currentSlide s + o_slidesToScroll (options s)) False False (s\<lparr>direction := d\<rparr>))"
    "\<And>d. fine \<E> (slideHandler \<E> (currentSlide s - o_slidesToScroll (options s)) False False (s\<lparr>direction := d\<rparr>))"
    using assms i by (simp_all add: slideHandler_fine io)
  show ?thesis
    unfolding autoPlayIterator_def Let_def
    by (simp only: if_distrib [of "fine \<E>"] if_distrib [of "slideHandler \<E> i False False" for i]
        f fine_Some assms if_cancel)
qed

lemma swipeStart_good: "good \<E> s \<Longrightarrow> good \<E> (swipeStart ev s)"
  by (simp add: swipeStart_def Let_def)

lemma swipe_to_good: "good \<E> s \<Longrightarrow> good \<E> (swipe_to \<E>' r n s)"
  by (auto simp: swipe_to_def Let_def split: jsnum.split)

lemma at_edge_Some: "opts_ok (options s) \<Longrightarrow> \<exists>b. at_edge dir s = Some b"
  by (auto simp: at_edge_def getDotCount_Some)

text \<open>A move with a mouse or a finger; one triggered by a script without \<open>originalEvent\<close> fails.\<close>

lemma swipeMove_fine:
  assumes "good \<E> s" "touches ev \<noteq> None"
  shows "fine \<E> (swipeMove \<E> ev s)"
proof (cases "\<not> dragging s \<or> (case touches ev of Some (Some ts) \<Rightarrow> length ts \<noteq> 1 | _ \<Rightarrow> False)")
  case True
  then have "swipeMove \<E> ev s = Some s" unfolding swipeMove_def by (simp only: if_True)
  then show ?thesis using assms by simp
next
  case False
  define s' where "s' = snd (getLeft \<E> (currentSlide s) s)"
  have g: "getLeft \<E> (currentSlide s) s = (fst (getLeft \<E> (currentSlide s) s), s')" by (simp add: s'_def)
  obtain y where y: "touches ev = Some y" using assms(2) by blast
  have "\<exists>point. (case touches ev of None \<Rightarrow> None | Some None \<Rightarrow> Some (clientX ev, clientY ev)
      | Some (Some ts) \<Rightarrow> Some (hd ts)) = Some point"
    by (cases y) (simp_all add: y)
  then obtain point where p: "(case touches ev of None \<Rightarrow> None | Some None \<Rightarrow> Some (clientX ev, clientY ev)
      | Some (Some ts) \<Rightarrow> Some (hd ts)) = Some point" by (elim exE)
  define s1 where "s1 = swipe_lengths \<E> point s'"
  have g1: "good \<E> s1" using assms(1) by (simp add: s1_def swipe_lengths_def s'_def)
  define s2 where "s2 = (if touches ev \<noteq> None \<and> gt (swipeLength (touchObject s1)) (Some 4)
                         then trigger P_preventDefault s1 else s1)"
  have g2: "good \<E> s2" using g1 by (simp add: s2_def)
  then have "opts_ok (options s2)" using slider_okD(1) [of \<E> s2] by (simp add: good_def)
  then obtain e where e: "at_edge (swipeDirection s1) s2 = Some e" using at_edge_Some by blast
  have "swipeMove \<E> ev s =
          (if swipeDirection s1 = ''vertical'' then Some s1
           else let s3 = write_touch (\<lambda>t. t\<lparr>edgeHit := Some e\<rparr>) s2;
                    len = onum (swipeLength (touchObject s3))
                in Some (swipe_to \<E> (fst (getLeft \<E> (currentSlide s) s))
                      (if e then len * Fin (o_edgeFriction (options s3)) else len) s3))"
    unfolding swipeMove_def if_not_P [OF False]
    by (subst g, simp only: prod.case p Option.bind.simps Let_def s1_def [symmetric] s2_def [symmetric] e)
  then show ?thesis using g1 g2 by (simp add: Let_def swipe_to_good)
qed

lemma getSlideCount_plain: "\<not> o_swipeToSlide (options s) \<Longrightarrow> getSlideCount \<E> s = o_slidesToScroll (options s)"
  by (simp add: getSlideCount_def Let_def)

lemma swipe_target_ok:
  assumes "slider_ok \<E> s"
  shows "\<exists>i. swipe_target \<E>' f s = Some i \<and> index_ok s i"
proof (cases "o_swipeToSlide (options s)")
  case True
  then show ?thesis using checkNavigable_index_ok [OF assms] by (simp add: swipe_target_def Let_def)
next
  case False
  then show ?thesis
    using page_index_ok [OF assms] by (simp add: swipe_target_def Let_def getSlideCount_plain)
qed

lemma swipeEnd_fine:
  assumes "good \<E> s"
  shows "fine \<E> (swipeEnd \<E> s)"
proof -
  define s' where "s' = s\<lparr>dragging := False, interrupted := False,
    shouldClick := \<not> gt (swipeLength (touchObject s)) (Some 10)\<rparr>"
  define s1 where "s1 = (if edgeHit (touchObject s') = Some True
                         then trigger (E_edge (swipeDirection s')) s' else s')"
  have g': "good \<E> s'" using assms by (simp add: s'_def)
  have g1: "good \<E> s1" using g' by (simp add: s1_def)
  then have ok1: "slider_ok \<E> s1" by (simp add: good_def)
  obtain i where i: "swipe_target \<E> (swipeDirection s1 = ''left'' \<or> swipeDirection s1 = ''down'') s1 = Some i"
    "index_ok s1 i"
    using swipe_target_ok [OF ok1] by blast
  have "index_ok (s1\<lparr>currentDirection := d\<rparr>) i" for d using i(2) by (simp add: index_ok_def)
  then have f: "fine \<E> (slideHandler \<E> i False False (s1\<lparr>currentDirection := d\<rparr>))" for d
    using g1 by (intro slideHandler_fine) simp_all
  have c: "fine \<E> (slideHandler \<E> (currentSlide s1) False False s1)"
    using g1 page_index_ok(3) [OF ok1] by (rule slideHandler_fine)
  show ?thesis
    unfolding swipeEnd_def Let_def s'_def [symmetric] s1_def [symmetric] i(1) Option.bind.simps
    using g' g1 f c by (auto intro!: fine_bind)
qed

lemma good_write_touch: "good \<E> s \<Longrightarrow> good \<E> (write_touch f s)"
  by simp

text \<open>The events that make \<open>swipeHandler\<close> fail: moves of a pending swipe that a script triggers.\<close>

definition scripted_move :: "action \<Rightarrow> swipe_event \<Rightarrow> slick \<Rightarrow> bool" where
  "scripted_move a ev s \<longleftrightarrow>
     a = Move \<and> touches ev = None \<and> dragging s \<and> o_swipe (options s) \<and>
     (o_draggable (options s) \<or> \<not> occurs_in ''mouse'' (ev_type ev))"

lemma swipeMove_scripted:
  assumes "touches ev = None"
  shows "swipeMove \<E> ev s = (if dragging s then None else Some s)"
  using assms by (simp add: swipeMove_def split: prod.split)

lemma dragging_write_touch: "dragging (write_touch f s) = dragging s"
  by (simp add: write_touch_def Let_def)

lemma swipeHandler_fine:
  assumes "good \<E> s" "\<not> scripted_move a ev s"
  shows "fine \<E> (swipeHandler \<E> a ev s)"
proof (cases "touches ev = None \<and> a = Move")
  case True
  then show ?thesis
    using assms
    by (auto simp: swipeHandler_def scripted_move_def Let_def swipeMove_scripted dragging_write_touch)
next
  case False
  then show ?thesis
    using assms(1) swipeStart_good swipeMove_fine swipeEnd_fine
    unfolding swipeHandler_def Let_def by (auto split: action.split)
qed

lemma swipeHandler_scripted: "scripted_move a ev s \<Longrightarrow> swipeHandler \<E> a ev s = None"
  by (auto simp: swipeHandler_def scripted_move_def Let_def swipeMove_scripted dragging_write_touch)

subsection \<open>The step relation\<close>

text \<open>
  What happens when a pending callback runs; the callbacks of images are in \<open>Slick_Lazy\<close>, the
  timeout of \<open>resize\<close> is in \<open>Slick_Life\<close>; its step is one of \<open>Slick_Session\<close>.
\<close>

fun complete :: "env \<Rightarrow> task \<Rightarrow> slick \<Rightarrow> slick" where
  "complete \<E> (After_animation i) s = postSlide \<E> i s"
| "complete \<E> (After_transition d i) s = postSlide \<E> i (disableTransition d s)"
| "complete \<E> (Focus_timeout e) s = focus_timeout \<E> e s"
| "complete \<E> t s = s"

inductive slider_step :: "(string \<Rightarrow> bool) \<Rightarrow> slick \<Rightarrow> slick \<Rightarrow> bool" for nav where
  step_change: "nav_found \<E> = nav \<Longrightarrow> changeSlide \<E> m d s = Some t \<Longrightarrow> slider_step nav s t"
| step_key: "nav_found \<E> = nav \<Longrightarrow> keyHandler \<E> tag code s = Some t \<Longrightarrow> slider_step nav s t"
| step_select: "nav_found \<E> = nav \<Longrightarrow> (\<forall>i. target = Some i \<longrightarrow> i \<in> set (track s)) \<Longrightarrow>
    selectHandler \<E> target s = Some t \<Longrightarrow> slider_step nav s t"
| step_swipe: "nav_found \<E> = nav \<Longrightarrow> swipeHandler \<E> a ev s = Some t \<Longrightarrow>
    slider_step nav s t"
| step_tick: "nav_found \<E> = nav \<Longrightarrow> timers s \<noteq> [] \<Longrightarrow> autoPlayIterator \<E> s = Some t \<Longrightarrow>
    slider_step nav s t"
| step_complete: "tasks s = ks @ k # ls \<Longrightarrow> \<not> image_task k \<Longrightarrow> (\<forall>i. k \<noteq> Resize_timeout i) \<Longrightarrow>
    slider_step nav s (complete \<E> k (s\<lparr>tasks := ks @ ls\<rparr>))"
| step_image: "tasks s = ks @ k # ls \<Longrightarrow> image_task k \<Longrightarrow>
    slider_step nav s (image_callback \<E> ok k (s\<lparr>tasks := ks @ ls\<rparr>))"
| step_focus: "slider_step nav s (on_focus e s)"
| step_pause: "slider_step nav s (pause s)"
| step_play: "slider_step nav s (play s)"
| step_interrupt: "slider_step nav s (interrupt b s)"
| step_visibility: "slider_step nav s (visibility \<E> s)"
| step_position: "slider_step nav s (setPosition \<E> s)"

lemma good_nav: "nav_found \<E> = nav_found \<E>' \<Longrightarrow> good \<E> s \<longleftrightarrow> good \<E>' s"
  by (simp add: good_def slider_ok_def base_ok_def nav_ok_def)

lemma fineD: "fine \<E> r \<Longrightarrow> r = Some t \<Longrightarrow> good \<E> t"
  by (simp add: fine_def)

lemma fine_not_None: "fine \<E> r \<Longrightarrow> r \<noteq> None"
  by (auto simp: fine_def)

lemma view_play: "view (play s) = view s"
  by (simp add: play_def view_simps) (simp add: view_def write_option_def Let_def autoPlay_def
      autoPlayClear_def clear_interval_def split: option.split)

lemma good_controls:
  assumes "good \<E> s"
  shows "good \<E> (pause s)" "good \<E> (play s)" "good \<E> (interrupt b s)" "good \<E> (visibility \<E>' s)"
    "good \<E> (focus_timeout \<E>' e s)" "good \<E> (on_focus e s)"
proof -
  show "good \<E> (pause s)" "good \<E> (interrupt b s)" "good \<E> (visibility \<E>' s)"
    "good \<E> (focus_timeout \<E>' e s)"
    using assms by (simp_all add: pause_def interrupt_def visibility_def focus_timeout_def)
  show "good \<E> (on_focus e s)"
    using assms by (rule good_keep) (simp_all add: on_focus_def view_simps animating_simps)
  show "good \<E> (play s)"
  proof (rule good_keep [OF assms view_play])
    show "completions (play s) = completions s" by (simp add: play_def view_simps)
    have "animating (write_option f u) = animating u" for f u by (simp add: write_option_def Let_def)
    then show "animating (play s) = animating s" by (simp add: play_def animating_simps)
  qed
qed

lemma list_all_completions_remove:
  assumes "tasks s = ks @ k # ls" "list_all p (completions s)"
  shows "list_all p (completions (s\<lparr>tasks := ks @ ls\<rparr>))"
  using assms by (cases "completion k") (simp_all add: completions_def map_filter_def)

lemma good_drop:
  assumes "good \<E> s" "tasks s = ks @ k # ls" "completion k = None"
  shows "good \<E> (s\<lparr>tasks := ks @ ls\<rparr>)"
proof (rule good_keep [OF assms(1)])
  show "completions (s\<lparr>tasks := ks @ ls\<rparr>) = completions s"
    using assms(2,3) by (simp add: completions_def map_filter_def)
qed (simp_all add: view_simps)

lemma image_steps:
  "view (mod_pic i k f s) = view s" "completions (mod_pic i k f s) = completions s"
  "animating (mod_pic i k f s) = animating s"
  by (simp_all add: mod_pic_def view_mod_els tame_def slick_index_def completions_ops animating_ops)

lemma progressive_steps:
  "view (progressiveLazyLoad n s) = view s" "completions (progressiveLazyLoad n s) = completions s"
  "animating (progressiveLazyLoad n s) = animating s"
  by (simp_all add: progressiveLazyLoad_def view_simps animating_simps split: list.split prod.split)

lemma image_callback_good:
  assumes "good \<E> s" "tasks s = ks @ k # ls" "image_task k"
  shows "good \<E> (image_callback \<E>' ok k (s\<lparr>tasks := ks @ ls\<rparr>))"
proof -
  let ?u = "s\<lparr>tasks := ks @ ls\<rparr>"
  have u: "good \<E> ?u" using assms good_drop by (cases k) simp_all
  show ?thesis
  proof (rule good_keep [OF u])
    show "view (image_callback \<E>' ok k ?u) = view ?u" "completions (image_callback \<E>' ok k ?u) = completions ?u"
      "animating (image_callback \<E>' ok k ?u) = animating ?u"
      by (cases k; simp add: progressive_load_def progressive_error_def Let_def progressive_steps
          image_steps view_simps animating_simps)+
  qed
qed

lemma complete_good:
  assumes "good \<E> s" "tasks s = ks @ k # ls"
  shows "good \<E> (complete \<E>' k (s\<lparr>tasks := ks @ ls\<rparr>))"
proof -
  let ?u = "s\<lparr>tasks := ks @ ls\<rparr>"
  have sok: "slider_ok \<E> s" and tok: "tasks_ok s" using assms(1) by (simp_all add: good_def)
  have u: "slider_ok \<E> ?u" by (rule slider_ok_keep [OF sok]) (simp add: view_simps)
  have c: "list_all (\<lambda>i. 0 \<le> i \<and> i < slideCount ?u) (completions ?u)"
    using list_all_completions_remove [OF assms(2)] tok by (simp add: tasks_ok_def)
  have post: "good \<E> (postSlide \<E>' i w)"
    if "slider_ok \<E> w" "list_all (\<lambda>i. 0 \<le> i \<and> i < slideCount w) (completions w)" for w i
  proof -
    have v: "view (postSlide \<E>' i w) = view w" by (rule view_postSlide)
    have "\<not> animating (postSlide \<E>' i w)"
      using slider_okD(6) [OF that(1)] by (simp add: postSlide_def Let_def animating_simps)
    then show ?thesis
      using slider_ok_keep [OF that(1) v] that(2) view_eqD(10) [OF v]
      by (simp add: good_def tasks_ok_def completions_postSlide)
  qed
  note other = good_drop [OF assms]
  show ?thesis
  proof (cases k)
    case (After_animation i)
    then show ?thesis using post [OF u c] by simp
  next
    case (After_transition d i)
    have v: "view (disableTransition d ?u) = view ?u" by (simp add: view_simps)
    have "good \<E> (postSlide \<E>' i (disableTransition d ?u))"
      using slider_ok_keep [OF u v] c view_eqD(10) [OF v]
      by (intro post) (simp_all add: completions_transition)
    then show ?thesis by (simp add: After_transition)
  next
    case (Focus_timeout e)
    then show ?thesis using other good_controls(5) by simp
  qed (use other in simp_all)
qed

lemma slider_step_good:
  assumes "slider_step (nav_found \<E>) s t" "good \<E> s"
  shows "good \<E> t"
  using assms
proof (induction rule: slider_step.induct)
  case (step_change \<E>' m d s t)
  then show ?case using changeSlide_fine fineD good_nav by metis
next
  case (step_key \<E>' tag code s t)
  then show ?case using keyHandler_fine fineD good_nav by metis
next
  case (step_select \<E>' target s t)
  then show ?case using selectHandler_fine fineD good_nav by metis
next
  case (step_swipe \<E>' a ev s t)
  then have "\<not> scripted_move a ev s" using swipeHandler_scripted by fastforce
  then show ?case using step_swipe swipeHandler_fine fineD good_nav by metis
next
  case (step_tick \<E>' s t)
  then show ?case using autoPlayIterator_fine fineD good_nav by metis
next
  case (step_complete s ks k ls \<E>')
  then show ?case by (intro complete_good)
next
  case (step_image s ks k ls \<E>' ok)
  then show ?case by (intro image_callback_good)
qed (simp_all add: good_controls)

text \<open>C1: whatever the visitor, the timers and the browser do, in any order, the slider stays
  consistent: the current slide exists, it alone is marked as current, the dots show its page,
  the track is well formed, and while \<open>animating\<close> is set a callback that clears it is
  pending.\<close>

theorem slider_invariant:
  assumes "(slider_step (nav_found \<E>))\<^sup>*\<^sup>* s t" "slider_ok \<E> s" "tasks_ok s"
  shows "slider_ok \<E> t \<and> tasks_ok t"
proof -
  have "good \<E> t"
    using assms(1) by (induction rule: rtranclp_induct) (use assms(2,3) slider_step_good in \<open>auto simp: good_def\<close>)
  then show ?thesis by (simp add: good_def)
qed

text \<open>A small finite slider in which the invariant holds.\<close>

definition start_state :: slick where
  "start_state = setSlideClasses 0 (sample 4 [S_infinite False, S_arrows False])"

lemma start_state_good: "slider_ok \<E> start_state \<and> tasks_ok start_state"
proof -
  let ?s = "sample 4 [S_infinite False, S_arrows False]"
  have b: "base_ok \<E> ?s"
    by (simp add: base_ok_def opts_ok_def track_ok_def labels_ok_def arrows_built_def nav_ok_def
        has_nav_def clone_count_def slick_index_def blank_def)
  have "base_ok \<E> start_state" unfolding start_state_def by (rule setSlideClasses_base_ok [OF b])
  moreover have "current_ok start_state"
    using setSlideClasses_current_ok [of ?s] b by (simp add: start_state_def base_ok_def)
  moreover have "dots_ok start_state" by (simp add: dots_ok_def start_state_def)
  moreover have "completions start_state = []"
    by (simp add: start_state_def completions_setSlideClasses) (simp add: completions_def)
  ultimately show ?thesis
    by (simp add: slider_ok_def tasks_ok_def start_state_def)
qed

theorem slider_invariant_witness:
  "slider_ok plain_env (pause start_state) \<and> tasks_ok (pause start_state)"
proof (rule slider_invariant)
  show "(slider_step (nav_found plain_env))\<^sup>*\<^sup>* start_state (pause start_state)"
    by (rule r_into_rtranclp) (rule step_pause)
qed (simp_all add: start_state_good)

text \<open>C11: in a consistent state no handler fails or hangs: clicks on arrows, dots and slides, keys
  and the autoplay timer all produce a state, and so do swipes, with one exception: during a swipe, a
  move event without \<open>originalEvent\<close>, which only a script can trigger, fails.\<close>

theorem handlers_succeed:
  assumes "slider_ok \<E> s" "tasks_ok s"
  shows "changeSlide \<E> m d s \<noteq> None \<and> keyHandler \<E> tag code s \<noteq> None \<and>
         autoPlayIterator \<E> s \<noteq> None \<and>
         (swipeHandler \<E> a ev s = None \<longleftrightarrow>
            a = Move \<and> touches ev = None \<and> dragging s \<and> o_swipe (options s) \<and>
            (o_draggable (options s) \<or> \<not> occurs_in ''mouse'' (ev_type ev))) \<and>
         (if i \<in> set (track s) then selectHandler \<E> (Some i) s \<noteq> None else True)"
proof -
  have g: "good \<E> s" using assms by (simp add: good_def)
  have "swipeHandler \<E> a ev s = None \<longleftrightarrow> scripted_move a ev s"
    using fine_not_None [OF swipeHandler_fine [OF g]] swipeHandler_scripted by blast
  then show ?thesis
    using fine_not_None [OF changeSlide_fine [OF g]] fine_not_None [OF keyHandler_fine [OF g]]
      fine_not_None [OF autoPlayIterator_fine [OF g]] fine_not_None [OF selectHandler_fine [OF g, of "Some i"]]
    by (simp add: scripted_move_def)
qed

theorem handlers_succeed_witness:
  "changeSlide plain_env Next False start_state \<noteq> None \<and> keyHandler plain_env ''DIV'' 39 start_state \<noteq> None \<and>
   autoPlayIterator plain_env start_state \<noteq> None \<and>
   swipeHandler plain_env Start \<lparr>ev_type = ''mousedown'', touches = Some None, clientX = 3, clientY = 4\<rparr>
     start_state \<noteq> None"
  using handlers_succeed [of plain_env start_state Next False "''DIV''" 39 Start
      "\<lparr>ev_type = ''mousedown'', touches = Some None, clientX = 3, clientY = 4\<rparr>"] start_state_good by simp

subsection \<open>A slider that has just been built\<close>

text \<open>Making the clones changes nothing but the elements and the track.\<close>

definition unframed :: "slick \<Rightarrow> slick" where
  "unframed s = s\<lparr>els := (\<lambda>_. blank), nextEl := 0, track := []\<rparr>"

lemma unframed_update [simp]:
  "unframed (s\<lparr>nextEl := n\<rparr>) = unframed s" "unframed (s\<lparr>track := is\<rparr>) = unframed s"
  "unframed (s\<lparr>els := h\<rparr>) = unframed s" "unframed (mod_els is f s) = unframed s"
  by (simp_all add: unframed_def mod_els_def)

lemma unframed_clone_slide [simp]: "unframed (clone_slide i l s) = unframed s"
  by (simp add: clone_slide_def split: prod.split)

lemma unframed_prepend [simp]: "unframed (prepend_clone i s) = unframed s"
  by (cases "eq i (slides s)") (auto simp: prepend_clone_def eq_def Let_def)

lemma unframed_append [simp]: "unframed (append_clone i s) = unframed s"
  by (cases "eq i (slides s)") (auto simp: append_clone_def eq_def Let_def)

lemma unframed_fold: "(\<And>x t. unframed (f x t) = unframed t) \<Longrightarrow> unframed (fold f xs s) = unframed s"
  by (induction xs arbitrary: s) simp_all

lemma unframed_setupInfinite: "unframed (setupInfinite s) = unframed (no_center_in_fade s)"
  unfolding setupInfinite_def Let_def no_center_in_fade_def [symmetric]
  by (simp add: unframed_fold)

lemma unframed_eqD:
  assumes "unframed t = unframed s"
  shows "options t = options s" "animating t = animating s" "currentSlide t = currentSlide s"
    "slideCount t = slideCount s" "slides t = slides s" "dotItems t = dotItems s"
    "prevArrow t = prevArrow s" "nextArrow t = nextArrow s" "unslicked t = unslicked s"
    "flags t = flags s" "tasks t = tasks s"
proof -
  have "frame (unframed t) = frame (unframed s)" using assms by simp
  note e = frame_eqD [OF this, unfolded unframed_def, simplified]
  show "options t = options s" "animating t = animating s" "currentSlide t = currentSlide s"
    "slideCount t = slideCount s" "slides t = slides s" "dotItems t = dotItems s"
    "prevArrow t = prevArrow s" "nextArrow t = nextArrow s" "unslicked t = unslicked s"
    "flags t = flags s"
    by (simp_all only: e flags_def)
  show "tasks t = tasks s" using arg_cong [OF assms, of tasks] by (simp add: unframed_def)
qed

lemma no_center_same:
  "dotItems (no_center_in_fade s) = dotItems s" "prevArrow (no_center_in_fade s) = prevArrow s"
  "nextArrow (no_center_in_fade s) = nextArrow s" "unslicked (no_center_in_fade s) = unslicked s"
  "animating (no_center_in_fade s) = animating s" "tasks (no_center_in_fade s) = tasks s"
  "flags (no_center_in_fade s) = flags s"
  "o_arrows (options (no_center_in_fade s)) = o_arrows (options s)"
  "o_asNavFor (options (no_center_in_fade s)) = o_asNavFor (options s)"
  by (simp_all add: no_center_in_fade_def write_option_def Let_def flags_def)

text \<open>The labels of a bare track are the positions of the slides.\<close>

definition labelled :: "slick \<Rightarrow> bool" where
  "labelled s \<longleftrightarrow> (\<forall>j < length (slides s). slick_index (els s (slides s ! j)) = Some (int j))"

lemma setupInfinite_labels_ok:
  assumes "bare_track s" "0 < o_slidesToShow (options s)" "labelled s"
  shows "labels_ok (setupInfinite s)"
proof -
  let ?t = "setupInfinite s"
  note e = unframed_eqD [OF unframed_setupInfinite [of s]]
  note l = setupInfinite_labels [OF assms(1,2) assms(3) [unfolded labelled_def]]
  have "slick_index (els ?t i) \<in> Some ` {- int (clone_count ?t) ..< slideCount s + int (clone_count ?t)}"
    if "i \<in> set (track ?t)" for i
  proof -
    have "set (map (\<lambda>i. slick_index (els ?t i)) (track ?t)) =
            Some ` {- int (clone_count ?t) .. slideCount s + int (clone_count ?t) - 1}"
      using l by (simp only: set_map set_upto)
    moreover have "slick_index (els ?t i) \<in> set (map (\<lambda>i. slick_index (els ?t i)) (track ?t))"
      unfolding set_map using that by (rule imageI)
    ultimately have "slick_index (els ?t i) \<in>
      Some ` {- int (clone_count ?t) .. slideCount s + int (clone_count ?t) - 1}" by simp
    then show ?thesis by auto
  qed
  then show ?thesis by (force simp: labels_ok_def e)
qed

lemma unframed_responsive: "responsive (setupInfinite s) = responsive s"
proof -
  have "frame (unframed (setupInfinite s)) = frame (unframed (no_center_in_fade s))"
    by (simp add: unframed_setupInfinite)
  note e = frame_eqD(4) [OF this, unfolded unframed_def, simplified]
  then show ?thesis by (simp add: no_center_in_fade_def write_option_def Let_def)
qed

lemma setupInfinite_base_ok:
  assumes "bare_track s" "labelled s" "opts_ok (options s)" "\<not> unslicked s"
    and "0 \<le> currentSlide s" "currentSlide s < slideCount s" "arrows_built s" "nav_ok \<E> s"
  shows "base_ok \<E> (setupInfinite s)"
proof -
  have w: "0 < o_slidesToShow (options s)" using assms(3) by (simp add: opts_ok_def)
  show ?thesis
    using assms(3-8) setupInfinite_track_ok [OF assms(1) w] setupInfinite_labels_ok [OF assms(1) w assms(2)]
    by (simp add: base_ok_def unframed_eqD [OF unframed_setupInfinite] no_center_same opts_ok_def
        arrows_built_def nav_ok_def has_nav_def)
qed

lemma setupInfinite_slider_ok:
  assumes "bare_track s" "labelled s" "opts_ok (options s)" "\<not> unslicked s"
    and "0 \<le> currentSlide s" "currentSlide s < slideCount s" "arrows_built s" "nav_ok \<E> s"
    and "dots_ok s"
  shows "slider_ok \<E> (setSlideClasses (currentSlide s) (setupInfinite s))"
proof -
  let ?t = "setupInfinite s"
  note b = setupInfinite_base_ok [OF assms(1-8)]
  note e = unframed_eqD [OF unframed_setupInfinite [of s]]
  have "current_ok (setSlideClasses (currentSlide s) ?t)"
    using setSlideClasses_current_ok [of ?t] b by (simp add: base_ok_def e)
  moreover have "dots_ok (setSlideClasses (currentSlide s) ?t)"
    using assms(9) by (simp add: dots_ok_def e no_center_same split: option.splits)
  ultimately show ?thesis using setSlideClasses_base_ok [OF b] by (simp add: slider_ok_def)
qed

text \<open>An infinite slider that plays.\<close>

definition tour_state :: slick where
  "tour_state =
     (setSlideClasses 0 (setupInfinite (numbered (sample 4 [S_arrows False]))))\<lparr>paused := False\<rparr>"

lemma tour_state_good: "slider_ok \<E> tour_state \<and> tasks_ok tour_state \<and> \<not> animating tour_state"
proof -
  let ?s = "numbered (sample 4 [S_arrows False])"
  let ?t = "setSlideClasses 0 (setupInfinite ?s)"
  note e = unframed_eqD [OF unframed_setupInfinite [of ?s]]
  have c: "currentSlide ?s = 0" by (simp add: numbered_def)
  have l: "labelled ?s" by (simp add: labelled_def numbered_def slick_index_def dom_simps)
  have "slider_ok \<E> ?t"
    using setupInfinite_slider_ok [OF bare_sample(2) l, of \<E>] c
    by (simp add: numbered_def opts_ok_def arrows_built_def nav_ok_def has_nav_def dots_ok_def)
  then have ok: "slider_ok \<E> tour_state"
    by (rule slider_ok_keep) (simp add: tour_state_def view_simps)
  have "tasks (setupInfinite ?s) = []" by (simp add: e no_center_same) (simp add: numbered_def)
  then have "completions tour_state = []"
    unfolding tour_state_def by (simp add: completions_update completions_setSlideClasses) (simp add: completions_def)
  moreover have "\<not> animating tour_state"
    by (simp add: tour_state_def e no_center_same) (simp add: numbered_def)
  ultimately show ?thesis using ok by (simp add: tasks_ok_def)
qed

end
