(* ===== verification/Slick_Build.thy ===== *)
theory Slick_Build
  imports Slick_Machine
begin

text \<open>
  Building a slider: \<open>buildRows\<close>, \<open>buildOut\<close>, \<open>buildArrows\<close>, \<open>buildDots\<close>, \<open>setProps\<close>,
  \<open>loadSlider\<close>, and the event handlers that are bound and removed again.

  \<open>\<E>\<close> answers \<open>$(text)\<close> (\<open>jq\<close>, the elements as they are in that state) and tests selectors (\<open>selects\<close>).  \<open>sliderKids\<close> are the
  children of the slider; once the track is there, those that are not slides.  The list and the
  track are new elements, which \<open>buildOut\<close> makes without their class names.
\<close>

subsection \<open>Rows\<close>

text \<open>
  With several rows a slide is a \<open>div\<close> with one \<open>div\<close> per row and the original children in
  them.  \<open>row_targets\<close> are the positions of the originals that row \<open>b\<close> of slide \<open>a\<close> gets.
\<close>

definition row_targets :: "options \<Rightarrow> nat \<Rightarrow> nat \<Rightarrow> nat \<Rightarrow> nat list" where
  "row_targets o' n a b =
     (let perRow = nat (o_slidesPerRow o'); slidesPerSection = perRow * nat (o_rows o')
      in filter (\<lambda>t. t < n) (map (\<lambda>c. a * slidesPerSection + (b * perRow + c)) [0 ..< perRow]))"

definition make_row ::
  "options \<Rightarrow> nat list \<Rightarrow> nat \<Rightarrow> nat \<Rightarrow> nat list \<times> (nat \<Rightarrow> elem) \<times> nat \<Rightarrow> nat list \<times> (nat \<Rightarrow> elem) \<times> nat"
where
  "make_row o' originals a b acc =
     (case acc of (rows, h, n) \<Rightarrow>
        (rows @ [n],
         h(n := blank\<lparr>kids := map (\<lambda>t. originals ! t) (row_targets o' (length originals) a b)\<rparr>),
         n + 1))"

definition make_slide ::
  "options \<Rightarrow> nat list \<Rightarrow> nat \<Rightarrow> nat list \<times> (nat \<Rightarrow> elem) \<times> nat \<Rightarrow> nat list \<times> (nat \<Rightarrow> elem) \<times> nat"
where
  "make_slide o' originals a acc =
     (case acc of (newSlides, h, n) \<Rightarrow>
        case fold (make_row o' originals a) [0 ..< nat (o_rows o')] ([], h, n + 1) of
          (rows, h', n') \<Rightarrow> (newSlides @ [n], h'(n := blank\<lparr>kids := rows\<rparr>), n'))"

definition numOfSlides :: "options \<Rightarrow> nat \<Rightarrow> nat" where
  "numOfSlides o' n = nat \<lceil>real n / real_of_int (o_slidesPerRow o' * o_rows o')\<rceil>"

definition grandkids :: "(nat \<Rightarrow> elem) \<Rightarrow> nat list \<Rightarrow> nat list" where
  "grandkids h is = concat (map (\<lambda>i. concat (map (\<lambda>j. kids (h j)) (kids (h i)))) is)"

text \<open>With \<open>slidesPerRow\<close> 0 the number of slides is infinite, and the loop does not end.\<close>

definition buildRows :: "slick \<Rightarrow> slick option" where
  "buildRows s =
     (let o' = options s; originalSlides = sliderKids s in
      if o_rows o' > 1 then
        (if o_slidesPerRow o' = 0 \<and> originalSlides \<noteq> [] then None
         else
           case fold (make_slide o' originalSlides) [0 ..< numOfSlides o' (length originalSlides)]
                  ([], els s, nextEl s) of
             (newSlides, h, n) \<Rightarrow>
               Some (mod_els (grandkids h newSlides)
                       (css ''display'' (CTxt ''inline-block'') \<circ>
                        css ''width'' (CPercent (100 / real_of_int (o_slidesPerRow o'))))
                       (s\<lparr>els := h, nextEl := n, sliderKids := newSlides\<rparr>)))
      else Some s)"

definition cleanUpRows :: "slick \<Rightarrow> slick" where
  "cleanUpRows s =
     (if o_rows (options s) > 1 then
        (let originalSlides = grandkids (els s) (slides s)
         in (mod_els originalSlides (\<lambda>e. e\<lparr>style := Map.empty\<rparr>) s)\<lparr>sliderKids := originalSlides\<rparr>)
      else s)"

subsection \<open>Arrows and dots\<close>

definition hide :: "elem \<Rightarrow> elem" where
  "hide = css ''display'' (CTxt ''none'')"

definition unhide :: "elem \<Rightarrow> elem" where
  "unhide = css_clear ''display''"

definition hidden_arrow :: "elem \<Rightarrow> elem" where
  "hidden_arrow =
     attr Tabindex (ANum (- 1)) \<circ> attr Aria_disabled (AText ''true'') \<circ> addClass Slick_hidden"

definition shown_arrow :: "elem \<Rightarrow> elem" where
  "shown_arrow = removeAttr {Aria_hidden, Tabindex} \<circ> removeClass {Slick_hidden}"

text \<open>A new collection of arrows: with a text of HTML its elements are new and have no handlers.\<close>

definition new_arrow :: "env \<Rightarrow> string \<Rightarrow> target \<Rightarrow> slick \<Rightarrow> slick" where
  "new_arrow \<E> text tg s = (if is_html text then forget tg s else s)"

definition buildArrows :: "env \<Rightarrow> slick \<Rightarrow> slick" where
  "buildArrows \<E> s =
     (let o' = options s in
      if o_arrows o' then
        (let prev = map (addClass Slick_arrow) (jq \<E> s (o_prevArrow o'));
             next' = map (addClass Slick_arrow) (jq \<E> s (o_nextArrow o'));
             s1 = new_arrow \<E> (o_nextArrow o') On_next (new_arrow \<E> (o_prevArrow o') On_prev s)
         in if slideCount s > o_slidesToShow o' then
              s1\<lparr>prevArrow := Some (map (if o_infinite o' then shown_arrow
                                       else disable_arrow \<circ> shown_arrow) prev),
                 nextArrow := Some (map shown_arrow next'),
                 prevInDoc := (if is_html (o_prevArrow o') then True else prevInDoc s),
                 nextInDoc := (if is_html (o_nextArrow o') then True else nextInDoc s)\<rparr>
            else s1\<lparr>prevArrow := Some (map hidden_arrow prev),
                    nextArrow := Some (map hidden_arrow next')\<rparr>)
      else s)"

definition buildDots :: "slick \<Rightarrow> slick option" where
  "buildDots s =
     (if o_dots (options s) \<and> slideCount s > o_slidesToShow (options s) then
        do {
          d \<leftarrow> getDotCount s;
          let lis = replicate (nat (d + 1)) blank;
          Some ((forget On_dots s)\<lparr>
            sliderEl := addClass Slick_dotted (sliderEl s),
            dotItems := Some (mod_dots 0 (attr Aria_hidden (AText ''false'') \<circ> addClass Slick_active) lis),
            dotsInDoc := True, dotsHidden := False\<rparr>)
        }
      else Some s)"

subsection \<open>Laying out\<close>

text \<open>
  \<open>children(selector)\<close>: an empty selector selects all.  \<open>buildOut\<close> appends
  \<open>:not(.slick-cloned)\<close> to the selector, which is read here as a further condition.
  A selector may ask for the place in the collection (\<open>:even\<close>): \<open>selects \<E> f es k\<close> is the answer for
  element \<open>k\<close> of the collection \<open>es\<close>.
\<close>

definition jq_filter :: "env \<Rightarrow> string \<Rightarrow> (nat \<Rightarrow> elem) \<Rightarrow> nat list \<Rightarrow> nat list" where
  "jq_filter \<E> f h xs = map ((!) xs) (filter (selects \<E> f (map h xs)) [0 ..< length xs])"

lemma jq_filter_subset: "set (jq_filter \<E> f h xs) \<subseteq> set xs"
  by (auto simp: jq_filter_def)

lemma jq_filter_distinct: "distinct xs \<Longrightarrow> distinct (jq_filter \<E> f h xs)"
  by (auto simp: jq_filter_def distinct_map inj_on_def nth_eq_iff_index_eq)

definition slide_children :: "env \<Rightarrow> slick \<Rightarrow> nat list \<Rightarrow> nat list" where
  "slide_children \<E> s xs =
     (if o_slide (options s) = [] then xs else jq_filter \<E> (o_slide (options s)) (els s) xs)"

lemma slide_children_all [simp]: "o_slide (options s) = [] \<Longrightarrow> slide_children \<E> s xs = xs"
  by (simp add: slide_children_def)

lemma slide_children_subset: "set (slide_children \<E> s xs) \<subseteq> set xs"
  using jq_filter_subset by (auto simp: slide_children_def)

lemma slide_children_distinct: "distinct xs \<Longrightarrow> distinct (slide_children \<E> s xs)"
  by (simp add: slide_children_def jq_filter_distinct)

fun set_index :: "nat \<Rightarrow> nat list \<Rightarrow> (nat \<Rightarrow> elem) \<Rightarrow> nat \<Rightarrow> elem" where
  "set_index k [] h = h"
| "set_index k (i # is) h =
     set_index (k + 1) is (on_els [i] (attr Data_slick_index (ANum (int k))) h)"

definition save_style :: "elem \<Rightarrow> elem" where
  "save_style e = e\<lparr>origStyling := style e\<rparr>"

definition mark_loading :: "elem \<Rightarrow> elem" where
  "mark_loading e =
     e\<lparr>pics := map (\<lambda>p. if lazySrc p \<noteq> None \<and> picSrc p = None then p\<lparr>picLoading := True\<rparr> else p)
                (pics e)\<rparr>"

text \<open>The elements inside the slider: its slides first, then the children that are no slides.\<close>

definition inside :: "slick \<Rightarrow> nat list" where
  "inside s = (track s @ sliderKids s) @ descendants (els s) (track s @ sliderKids s)"

definition wrap_slides :: "env \<Rightarrow> slick \<Rightarrow> slick" where
  "wrap_slides \<E> s =
     (let found = filter (\<lambda>i. Slick_cloned \<notin> classes (els s i)) (slide_children \<E> s (sliderKids s));
          s1 = (mod_els found (addClass Slick_slide) s)\<lparr>slides := found, slideCount := int (length found)\<rparr>;
          s2 = s1\<lparr>els := on_els found save_style (set_index 0 found (els s1))\<rparr>
      in s2\<lparr>sliderEl := addClass Slick_slider (sliderEl s2),
            sliderKids := filter (\<lambda>i. i \<notin> set found) (sliderKids s2), track := found,
            trackEl := css ''opacity'' (CNum 0) blank, listEl := blank\<rparr>)"

definition buildOut :: "env \<Rightarrow> slick \<Rightarrow> slick option" where
  "buildOut \<E> s =
     (let s1 = wrap_slides \<E> s;
          s2 = (if o_centerMode (options s1) \<or> o_swipeToSlide (options s1)
                then write_option (o_slidesToScroll_update (\<lambda>_. 1)) s1 else s1);
          s3 = mod_els (inside s2) mark_loading s2;
          s4 = buildArrows \<E> (setupInfinite s3)
      in do {
        s5 \<leftarrow> buildDots s4;
        let s6 = updateDots s5;
        let s7 = setSlideClasses (currentSlide s6) s6;
        Some (if o_draggable (options s7) then s7\<lparr>listEl := addClass Draggable (listEl s7)\<rparr> else s7)
      })"

subsection \<open>Properties of the browser\<close>

definition anim_of :: "bool \<Rightarrow> string \<Rightarrow> anim_type" where
  "anim_of perspective p = (if perspective then AProp p else AFalse)"

definition prefixed :: "bool \<Rightarrow> bool \<Rightarrow> string \<Rightarrow> string \<Rightarrow> string \<Rightarrow> slick \<Rightarrow> slick" where
  "prefixed has perspective anim transform transition s =
     (if has then s\<lparr>animType := anim_of perspective anim, transformType := transform,
                    transitionType := transition\<rparr>
      else s)"

definition set_positionProp :: "slick \<Rightarrow> slick" where
  "set_positionProp s =
     (if o_vertical (options s)
      then s\<lparr>positionProp := ''top'', sliderEl := addClass Slick_vertical (sliderEl s)\<rparr>
      else s\<lparr>positionProp := ''left'', sliderEl := removeClass {Slick_vertical} (sliderEl s)\<rparr>)"

definition allow_transitions :: "body_style \<Rightarrow> slick \<Rightarrow> slick" where
  "allow_transitions b s =
     (if (has_WebkitTransition b \<or> has_MozTransition b \<or> has_msTransition b) \<and> o_useCSS (options s)
      then s\<lparr>cssTransitions := True\<rparr> else s)"

definition raise_zIndex :: "slick \<Rightarrow> slick" where
  "raise_zIndex s =
     (if o_fade (options s) \<and> o_zIndex (options s) < 3 then write_option (o_zIndex_update (\<lambda>_. 3)) s
      else s)"

definition choose_transform :: "body_style \<Rightarrow> slick \<Rightarrow> slick" where
  "choose_transform b s =
     (let s1 = prefixed (has_OTransform b) (has_perspectiveProperty b \<or> has_webkitPerspective b)
                 ''OTransform'' ''-o-transform'' ''OTransition'' s;
          s2 = prefixed (has_MozTransform b) (has_perspectiveProperty b \<or> has_MozPerspective b)
                 ''MozTransform'' ''-moz-transform'' ''MozTransition'' s1;
          s3 = prefixed (has_webkitTransform b) (has_perspectiveProperty b \<or> has_webkitPerspective b)
                 ''webkitTransform'' ''-webkit-transform'' ''webkitTransition'' s2;
          s4 = prefixed (has_msTransform b) True ''msTransform'' ''-ms-transform'' ''msTransition'' s3
      in prefixed (has_transform b \<and> animType s4 \<noteq> AFalse) True
           ''transform'' ''transform'' ''transition'' s4)"

definition setProps :: "env \<Rightarrow> slick \<Rightarrow> slick" where
  "setProps \<E> s =
     (let s1 = choose_transform (body \<E>)
                 (raise_zIndex (allow_transitions (body \<E>) (set_positionProp s)))
      in s1\<lparr>transformsEnabled := (o_useTransform (options s1) \<and>
                                 animType s1 \<noteq> ANull \<and> animType s1 \<noteq> AFalse)\<rparr>)"

subsection \<open>Loading\<close>

definition many :: "slick \<Rightarrow> bool" where
  "many s \<longleftrightarrow> slideCount s > o_slidesToShow (options s)"

text \<open>\<open>on_arrows f\<close> calls a method on both arrows, \<open>on_dots b\<close> shows or hides the dots.\<close>

definition on_arrows :: "(elem \<Rightarrow> elem) \<Rightarrow> slick \<Rightarrow> slick option" where
  "on_arrows f s =
     (if o_arrows (options s) \<and> many s then
        do { p \<leftarrow> prevArrow s; n \<leftarrow> nextArrow s;
             Some (s\<lparr>prevArrow := Some (map f p), nextArrow := Some (map f n)\<rparr>) }
      else Some s)"

definition on_dots :: "bool \<Rightarrow> slick \<Rightarrow> slick option" where
  "on_dots hid s =
     (if o_dots (options s) \<and> many s then
        (if dotItems s = None then None else Some (s\<lparr>dotsHidden := hid\<rparr>))
      else Some s)"

definition startLoad :: "slick \<Rightarrow> slick option" where
  "startLoad s =
     do { s1 \<leftarrow> on_arrows hide s; s2 \<leftarrow> on_dots True s1;
          Some (s2\<lparr>sliderEl := addClass Slick_loading (sliderEl s2)\<rparr>) }"

definition initUI :: "slick \<Rightarrow> slick option" where
  "initUI s = do { s1 \<leftarrow> on_arrows unhide s; on_dots False s1 }"

definition loadSlider :: "env \<Rightarrow> slick \<Rightarrow> slick option" where
  "loadSlider \<E> s =
     (let s1 = css_track ''opacity'' (CNum 1) (setPosition \<E> s);
          s2 = s1\<lparr>sliderEl := removeClass {Slick_loading} (sliderEl s1)\<rparr>
      in do {
        s3 \<leftarrow> initUI s2;
        Some (if o_lazyLoad (options s3) = ''progressive'' then progressiveLazyLoad 1 s3 else s3)
      })"

end
