(* ===== verification/Slick_Rows.thy ===== *)
theory Slick_Rows
  imports Slick_Build
begin

text \<open>
  \<open>buildRows\<close> distributes the children over slides of several rows, and \<open>cleanUpRows\<close> takes them
  out again in their old order.
\<close>

subsection \<open>Cutting an interval into blocks\<close>

lemma concat_blocks:
  "concat (map (\<lambda>b. map (\<lambda>c. base + (b * p + c)) [0 ..< p]) [0 ..< m]) = map ((+) base) [0 ..< m * p]"
  for base p m :: nat
proof (induction m)
  case (Suc m)
  have "[0 ..< Suc m * p] = [0 ..< m * p] @ map (\<lambda>c. m * p + c) [0 ..< p]"
    using upt_add_eq_append [of 0 "m * p" p] by (simp add: map_add_upt [symmetric] add.commute)
  then show ?case using Suc by simp
qed simp

lemma filter_upt_below: "n \<le> m \<Longrightarrow> filter (\<lambda>t. t < n) [0 ..< m] = [0 ..< n]"
proof (induction m)
  case (Suc m)
  then show ?case by (cases "n = Suc m") (auto simp: filter_id_conv)
qed simp

text \<open>The targets of all rows, in order, are all positions.\<close>

definition all_targets :: "options \<Rightarrow> nat \<Rightarrow> nat \<Rightarrow> nat list" where
  "all_targets o' n k =
     concat (map (\<lambda>a. concat (map (row_targets o' n a) [0 ..< nat (o_rows o')])) [0 ..< k])"

lemma all_targets_upt:
  assumes "n \<le> k * (nat (o_slidesPerRow o') * nat (o_rows o'))"
  shows "all_targets o' n k = [0 ..< n]"
proof -
  define p where "p = nat (o_slidesPerRow o')"
  define m where "m = nat (o_rows o')"
  let ?P = "filter (\<lambda>t. t < n)"
  have row: "concat (map (row_targets o' n a) [0 ..< m]) = ?P (map (\<lambda>c. 0 + (a * (m * p) + c)) [0 ..< m * p])" for a
  proof -
    have "row_targets o' n a = (\<lambda>b. ?P (map (\<lambda>c. a * (p * m) + (b * p + c)) [0 ..< p]))"
      by (simp add: row_targets_def Let_def p_def m_def fun_eq_iff)
    then have "concat (map (row_targets o' n a) [0 ..< m]) =
          ?P (concat (map (\<lambda>b. map (\<lambda>c. a * (p * m) + (b * p + c)) [0 ..< p]) [0 ..< m]))"
      by (simp add: filter_concat comp_def)
    then show ?thesis by (simp only: concat_blocks) (simp add: mult.commute comp_def)
  qed
  have "all_targets o' n k = ?P (concat (map (\<lambda>a. map (\<lambda>c. 0 + (a * (m * p) + c)) [0 ..< m * p]) [0 ..< k]))"
    by (simp only: all_targets_def m_def [symmetric] row filter_concat map_map comp_def)
  also have "\<dots> = ?P [0 ..< k * (m * p)]" by (simp only: concat_blocks) (simp add: map_idI)
  also have "\<dots> = [0 ..< n]"
    using assms by (intro filter_upt_below) (simp add: p_def m_def mult.commute)
  finally show ?thesis .
qed

lemma numOfSlides_enough:
  assumes "0 < o_slidesPerRow o'" "0 < o_rows o'"
  shows "n \<le> numOfSlides o' n * (nat (o_slidesPerRow o') * nat (o_rows o'))"
proof -
  let ?q = "nat (o_slidesPerRow o') * nat (o_rows o')"
  have q: "real_of_int (o_slidesPerRow o' * o_rows o') = real ?q" "0 < ?q" using assms by simp_all
  have "real n / real ?q \<le> real_of_int \<lceil>real n / real ?q\<rceil>" by simp
  also have "\<dots> = real (numOfSlides o' n)" using q by (simp add: numOfSlides_def)
  finally have "real n \<le> real (numOfSlides o' n) * real ?q" using q(2) by (simp add: pos_divide_le_eq)
  then show ?thesis by (simp only: of_nat_mult [symmetric] of_nat_le_iff)
qed

subsection \<open>Building\<close>

lemma make_row_fold:
  "fold (make_row o' os a) [0 ..< m] (rs, h, n) =
     (rs @ [n ..< n + m],
      (\<lambda>i. if n \<le> i \<and> i < n + m
           then blank\<lparr>kids := map ((!) os) (row_targets o' (length os) a (i - n))\<rparr> else h i), n + m)"
proof (induction m)
  case (Suc m)
  have "[0 ..< Suc m] = [0 ..< m] @ [m]" by simp
  then show ?case using Suc by (auto simp: make_row_def fun_eq_iff)
qed (auto simp: fun_eq_iff)

text \<open>After \<open>k\<close> slides: every slide has its rows, and the children of the rows are the targets.\<close>

definition rows_ok ::
  "options \<Rightarrow> nat list \<Rightarrow> nat \<Rightarrow> (nat list \<times> (nat \<Rightarrow> elem) \<times> nat) \<Rightarrow> bool" where
  "rows_ok o' os k acc \<longleftrightarrow>
     (case acc of (sl, h, n) \<Rightarrow>
        length sl = k \<and>
        (\<forall>i \<in> set sl. i < n \<and> length (kids (h i)) = nat (o_rows o') \<and>
           (\<forall>j \<in> set (kids (h i)). j < n \<and> length (kids (h j)) \<le> nat (o_slidesPerRow o'))) \<and>
        grandkids h sl = map ((!) os) (all_targets o' (length os) k))"

lemma length_row_targets: "length (row_targets o' n a b) \<le> nat (o_slidesPerRow o')"
  unfolding row_targets_def Let_def by (rule order_trans [OF length_filter_le]) simp

lemma make_slide_rows_ok:
  assumes "rows_ok o' os k (sl, h, n)"
  shows "rows_ok o' os (Suc k) (make_slide o' os k (sl, h, n))"
proof -
  let ?m = "nat (o_rows o')"
  define h' where "h' = (\<lambda>i. if n + 1 \<le> i \<and> i < n + 1 + ?m
    then blank\<lparr>kids := map ((!) os) (row_targets o' (length os) k (i - (n + 1)))\<rparr> else h i)"
  define h2 where "h2 = h'(n := blank\<lparr>kids := [n + 1 ..< n + 1 + ?m]\<rparr>)"
  have ms: "make_slide o' os k (sl, h, n) = (sl @ [n], h2, n + 1 + ?m)"
    unfolding make_slide_def h2_def h'_def prod.case make_row_fold by (simp only: append_Nil)
  have same: "h2 i = h i" if "i < n" for i using that by (simp add: h2_def h'_def)
  note old = assms [unfolded rows_ok_def, simplified]
  have "grandkids h2 sl = grandkids h sl"
    using old same unfolding grandkids_def by (intro arg_cong [of _ _ concat] map_cong refl) fastforce+
  moreover have "grandkids h2 [n] = concat (map (\<lambda>b. map ((!) os) (row_targets o' (length os) k b)) [0 ..< ?m])"
  proof -
    have "kids (h2 n) = [n + 1 ..< n + 1 + ?m]" by (simp only: h2_def fun_upd_same) (simp del: upt_Suc)
    also have "\<dots> = map (\<lambda>b. b + (n + 1)) [0 ..< ?m]" by (simp only: map_add_upt) (simp add: add.commute)
    finally have "grandkids h2 [n] = concat (map (\<lambda>b. kids (h2 (b + (n + 1)))) [0 ..< ?m])"
      by (simp add: grandkids_def comp_def)
    moreover have "kids (h2 (b + (n + 1))) = map ((!) os) (row_targets o' (length os) k b)" if "b < ?m" for b
      using that by (simp add: h2_def h'_def)
    then have "map (\<lambda>b. kids (h2 (b + (n + 1)))) [0 ..< ?m] =
               map (\<lambda>b. map ((!) os) (row_targets o' (length os) k b)) [0 ..< ?m]"
      by (intro map_cong refl) simp
    ultimately show ?thesis by (simp only:)
  qed
  ultimately have "grandkids h2 (sl @ [n]) = map ((!) os) (all_targets o' (length os) (Suc k))"
    using old by (simp add: grandkids_def all_targets_def map_concat comp_def)
  moreover have "length (kids (h2 n)) = ?m \<and>
      (\<forall>j \<in> set (kids (h2 n)). j < n + 1 + ?m \<and> length (kids (h2 j)) \<le> nat (o_slidesPerRow o'))"
    by (auto simp: h2_def h'_def length_row_targets)
  moreover have "\<forall>i \<in> set sl. i < n + 1 + ?m \<and> length (kids (h2 i)) = ?m \<and>
      (\<forall>j \<in> set (kids (h2 i)). j < n + 1 + ?m \<and> length (kids (h2 j)) \<le> nat (o_slidesPerRow o'))"
    using old same by (fastforce intro: less_trans [of _ n])
  ultimately show ?thesis using old by (simp add: ms rows_ok_def)
qed

lemma make_slides_rows_ok: "rows_ok o' os k (fold (make_slide o' os) [0 ..< k] ([], h, n))"
proof (induction k)
  case 0
  then show ?case by (simp add: rows_ok_def grandkids_def all_targets_def)
next
  case (Suc k)
  then show ?case
    using make_slide_rows_ok by (cases "fold (make_slide o' os) [0 ..< k] ([], h, n)") simp
qed

text \<open>C14: a slider with several rows groups its children into slides of \<open>rows\<close> rows with at most
  \<open>slidesPerRow\<close> children each, and \<open>cleanUpRows\<close> gives all the children back in their order.\<close>

theorem rows_roundtrip:
  assumes "1 < o_rows (options s)" "0 < o_slidesPerRow (options s)"
  shows "\<exists>t. buildRows s = Some t \<and>
           length (sliderKids t) = numOfSlides (options s) (length (sliderKids s)) \<and>
           (\<forall>i \<in> set (sliderKids t). length (kids (els t i)) = nat (o_rows (options s)) \<and>
              (\<forall>j \<in> set (kids (els t i)). length (kids (els t j)) \<le> nat (o_slidesPerRow (options s)))) \<and>
           sliderKids (cleanUpRows (t\<lparr>slides := sliderKids t\<rparr>)) = sliderKids s"
proof -
  let ?o = "options s" and ?os = "sliderKids s"
  let ?k = "numOfSlides ?o (length ?os)"
  obtain sl h n where f: "fold (make_slide ?o ?os) [0 ..< ?k] ([], els s, nextEl s) = (sl, h, n)"
    by (rule prod_cases3)
  define t where "t = mod_els (grandkids h sl)
    (css ''display'' (CTxt ''inline-block'') \<circ>
     css ''width'' (CPercent (100 / real_of_int (o_slidesPerRow ?o))))
    (s\<lparr>els := h, nextEl := n, sliderKids := sl\<rparr>)"
  have "all_targets ?o (length ?os) ?k = [0 ..< length ?os]"
    using assms by (intro all_targets_upt numOfSlides_enough) simp_all
  then have r: "length sl = ?k" "grandkids h sl = ?os"
    "\<forall>i \<in> set sl. length (kids (h i)) = nat (o_rows ?o) \<and>
       (\<forall>j \<in> set (kids (h i)). length (kids (h j)) \<le> nat (o_slidesPerRow ?o))"
    using make_slides_rows_ok [of ?o ?os ?k "els s" "nextEl s", unfolded f]
    by (simp_all add: rows_ok_def map_nth)
  have t: "buildRows s = Some t" "sliderKids t = sl" "options t = ?o"
    using assms f by (simp_all add: buildRows_def Let_def t_def mod_els_def)
  have k: "kids (els t i) = kids (h i)" for i by (simp add: t_def mod_els_def on_els_apply dom_simps)
  then have "grandkids (els t) sl = ?os" using r(2) by (simp add: grandkids_def)
  then have "sliderKids (cleanUpRows (t\<lparr>slides := sliderKids t\<rparr>)) = ?os"
    using assms(1) t by (simp add: cleanUpRows_def Let_def)
  then show ?thesis using t r(1,3) k by simp
qed

text \<open>Five children in slides of two rows of two.\<close>

definition row_slider :: slick where
  "row_slider = (sample 5 [S_rows 2, S_slidesPerRow 2])\<lparr>sliderKids := [0 ..< 5]\<rparr>"

theorem rows_roundtrip_witness:
  "\<exists>t. buildRows row_slider = Some t \<and>
       length (sliderKids t) = numOfSlides (options row_slider) (length (sliderKids row_slider)) \<and>
       (\<forall>i \<in> set (sliderKids t). length (kids (els t i)) = nat (o_rows (options row_slider)) \<and>
          (\<forall>j \<in> set (kids (els t i)). length (kids (els t j)) \<le> nat (o_slidesPerRow (options row_slider)))) \<and>
       sliderKids (cleanUpRows (t\<lparr>slides := sliderKids t\<rparr>)) = sliderKids row_slider"
  by (rule rows_roundtrip) (simp_all add: row_slider_def)

end
