(* ===== verification/Slick_Events.thy ===== *)
theory Slick_Events
  imports Slick_Build
begin

text \<open>
  Event handlers: \<open>initializeEvents\<close> binds them, \<open>cleanUpEvents\<close> removes them.

  \<open>bindings\<close> lists the handlers on the elements of this slider, and those of all sliders of the
  page on the document and the window.  jQuery's \<open>off\<close> removes a handler by event, namespace
  and function; a function made by \<open>$.proxy\<close> counts as the function behind it, whatever slider
  or arguments it was made for.
\<close>

subsection \<open>The interface of jQuery\<close>

text \<open>
  What the slider relies on: \<open>on\<close> appends a handler, \<open>off\<close> removes those that match a key.
\<close>

locale event_registry =
  fixes listed :: "'s \<Rightarrow> 'b list"
    and on :: "'b \<Rightarrow> 's \<Rightarrow> 's"
    and off :: "'k \<Rightarrow> 's \<Rightarrow> 's"
    and matches :: "'k \<Rightarrow> 'b \<Rightarrow> bool"
  assumes listed_on: "listed (on b s) = listed s @ [b]"
    and listed_off: "listed (off k s) = filter (\<lambda>b. \<not> matches k b) (listed s)"
begin

lemma listed_on_all: "listed (fold on bs s) = listed s @ bs"
  by (induction bs arbitrary: s) (simp_all add: listed_on)

lemma listed_off_all:
  "listed (fold off ks s) = filter (\<lambda>b. \<forall>k \<in> set ks. \<not> matches k b) (listed s)"
  by (induction ks arbitrary: s) (simp_all add: listed_off conj_commute)

text \<open>Removing all that was bound leaves what was there, less what the keys match by accident.\<close>

lemma off_after_on:
  assumes "\<forall>b \<in> set bs. \<exists>k \<in> set ks. matches k b" "listed t = listed s @ bs"
  shows "listed (fold off ks t) = filter (\<lambda>b. \<forall>k \<in> set ks. \<not> matches k b) (listed s)"
proof -
  have "filter (\<lambda>b. \<forall>k \<in> set ks. \<not> matches k b) bs = []"
    using assms(1) by (auto simp: filter_empty_conv)
  then show ?thesis by (simp add: listed_off_all assms(2))
qed

lemma off_untouched:
  assumes "\<forall>b \<in> set (listed s). \<forall>k \<in> set ks. \<not> matches k b"
  shows "listed (fold off ks s) = listed s"
  using assms by (simp add: listed_off_all filter_id_conv)

end

subsection \<open>Handlers\<close>

text \<open>The function behind a handler.\<close>

fun same_function :: "handler \<Rightarrow> handler \<Rightarrow> bool" where
  "same_function (H_changeSlide m) h = (case h of H_changeSlide _ \<Rightarrow> True | _ \<Rightarrow> False)"
| "same_function (H_interrupt b) h = (case h of H_interrupt _ \<Rightarrow> True | _ \<Rightarrow> False)"
| "same_function (H_swipe a) h = (case h of H_swipe _ \<Rightarrow> True | _ \<Rightarrow> False)"
| "same_function g h = (g = h)"

text \<open>
  The argument of \<open>off\<close>: the target, the event, the namespace \<open>slick-<uid>\<close> if the call names it,
  and the function if the call gives one.
\<close>

datatype key = Key target string "nat option" "handler option"

fun matches :: "key \<Rightarrow> binding \<Rightarrow> bool" where
  "matches (Key tg ev u g) b \<longleftrightarrow>
     b_target b = tg \<and> b_event b = ev \<and> (u = None \<or> b_uid b = u) \<and>
     (case g of None \<Rightarrow> True | Some h \<Rightarrow> same_function h (b_handler b))"

definition on_event :: "binding \<Rightarrow> slick \<Rightarrow> slick" where
  "on_event b s = s\<lparr>bindings := bindings s @ [b]\<rparr>"

definition off_event :: "key \<Rightarrow> slick \<Rightarrow> slick" where
  "off_event k s = s\<lparr>bindings := filter (\<lambda>b. \<not> matches k b) (bindings s)\<rparr>"

interpretation reg: event_registry bindings on_event off_event matches
  by unfold_locales (simp_all add: on_event_def off_event_def)

text \<open>A handler in the namespace \<open>slick\<close>, and one that also names the instance.\<close>

definition bound :: "slick \<Rightarrow> target \<Rightarrow> string \<Rightarrow> handler \<Rightarrow> binding" where
  "bound s tg ev h =
     \<lparr>b_target = tg, b_event = ev, b_uid = None, b_handler = h, b_owner = instanceUid s\<rparr>"

definition bound_uid :: "slick \<Rightarrow> target \<Rightarrow> string \<Rightarrow> handler \<Rightarrow> binding" where
  "bound_uid s tg ev h =
     \<lparr>b_target = tg, b_event = ev, b_uid = Some (instanceUid s), b_handler = h,
      b_owner = instanceUid s\<rparr>"

subsection \<open>Binding\<close>

definition initArrowEvents :: "slick \<Rightarrow> slick option" where
  "initArrowEvents s =
     (if o_arrows (options s) \<and> many s then
        (if prevArrow s = None \<or> nextArrow s = None then None
         else Some
           (on_event (bound s On_next ''click'' (H_changeSlide ''next''))
             (off_event (Key On_next ''click'' None None)
               (on_event (bound s On_prev ''click'' (H_changeSlide ''previous''))
                 (off_event (Key On_prev ''click'' None None) s)))))
      else Some s)"

text \<open>\<open>$('li', null)\<close> are the list items of the whole page.\<close>

definition dot_target :: "slick \<Rightarrow> target" where
  "dot_target s = (if dotItems s = None then On_every_li else On_dots)"

definition dot_bindings :: "slick \<Rightarrow> binding list" where
  "dot_bindings s =
     (let o' = options s in
      (if o_dots o' \<and> many s then [bound s (dot_target s) ''click'' (H_changeSlide ''index'')] else []) @
      (if o_dots o' \<and> o_pauseOnDotsHover o'
       then [bound s (dot_target s) ''mouseenter'' (H_interrupt True),
             bound s (dot_target s) ''mouseleave'' (H_interrupt False)] else []))"

definition initDotEvents :: "slick \<Rightarrow> slick" where
  "initDotEvents s = fold on_event (dot_bindings s) s"

definition slide_bindings :: "slick \<Rightarrow> binding list" where
  "slide_bindings s =
     (if o_pauseOnHover (options s)
      then [bound s On_list ''mouseenter'' (H_interrupt True),
            bound s On_list ''mouseleave'' (H_interrupt False)] else [])"

definition initSlideEvents :: "slick \<Rightarrow> slick" where
  "initSlideEvents s = fold on_event (slide_bindings s) s"

definition select_bindings :: "slick \<Rightarrow> binding list" where
  "select_bindings s =
     (if o_focusOnSelect (options s) then [bound s On_track_children ''click'' H_select] else [])"

definition other_bindings :: "slick \<Rightarrow> binding list" where
  "other_bindings s =
     (let o' = options s in
      [bound s On_list ''touchstart'' (H_swipe ''start''), bound s On_list ''mousedown'' (H_swipe ''start''),
       bound s On_list ''touchmove'' (H_swipe ''move''), bound s On_list ''mousemove'' (H_swipe ''move''),
       bound s On_list ''touchend'' (H_swipe ''end''), bound s On_list ''mouseup'' (H_swipe ''end''),
       bound s On_list ''touchcancel'' (H_swipe ''end''), bound s On_list ''mouseleave'' (H_swipe ''end''),
       bound s On_list ''click'' H_click,
       bound s On_document ''visibilitychange'' H_visibility] @
      (if o_accessibility o' then [bound s On_list ''keydown'' H_key] else []) @
      select_bindings s @
      [bound_uid s On_window ''orientationchange'' H_orientationChange,
       bound_uid s On_window ''resize'' H_resize,
       bound s On_track_undraggable ''dragstart'' H_preventDefault,
       bound_uid s On_window ''load'' H_setPosition,
       bound_uid s On_document ''ready'' H_setPosition])"

definition initializeEvents :: "slick \<Rightarrow> slick option" where
  "initializeEvents s =
     do {
       s1 \<leftarrow> initArrowEvents s;
       let s2 = initSlideEvents (initDotEvents s1);
       Some (fold on_event (other_bindings s2) s2)
     }"

definition focusHandler :: "slick \<Rightarrow> slick" where
  "focusHandler s =
     fold on_event [bound s On_slider ''focus'' H_focus, bound s On_slider ''blur'' H_focus]
       (fold off_event [Key On_slider ''focus'' None None, Key On_slider ''blur'' None None] s)"

subsection \<open>Removing\<close>

definition slide_keys :: "key list" where
  "slide_keys = [Key On_list ''mouseenter'' None (Some (H_interrupt True)),
                 Key On_list ''mouseleave'' None (Some (H_interrupt False))]"

definition cleanUpSlideEvents :: "slick \<Rightarrow> slick" where
  "cleanUpSlideEvents s = fold off_event slide_keys s"

definition cleanup_keys :: "slick \<Rightarrow> key list" where
  "cleanup_keys s =
     (let o' = options s; u = Some (instanceUid s) in
      (if o_dots o' \<and> dotItems s \<noteq> None
       then [Key On_dots ''click'' None (Some (H_changeSlide '''')),
             Key On_dots ''mouseenter'' None (Some (H_interrupt True)),
             Key On_dots ''mouseleave'' None (Some (H_interrupt False))] else []) @
      [Key On_slider ''focus'' None None, Key On_slider ''blur'' None None] @
      (if o_arrows o' \<and> many s
       then [Key On_prev ''click'' None (Some (H_changeSlide '''')),
             Key On_next ''click'' None (Some (H_changeSlide ''''))] else []) @
      map (\<lambda>ev. Key On_list ev None (Some (H_swipe '''')))
        [''touchstart'', ''mousedown'', ''touchmove'', ''mousemove'', ''touchend'', ''mouseup'',
         ''touchcancel'', ''mouseleave''] @
      [Key On_list ''click'' None (Some H_click),
       Key On_document ''visibilitychange'' None (Some H_visibility)] @
      slide_keys @
      (if o_accessibility o' then [Key On_list ''keydown'' None (Some H_key)] else []) @
      (if o_focusOnSelect o' then [Key On_track_children ''click'' None (Some H_select)] else []) @
      [Key On_window ''orientationchange'' u (Some H_orientationChange),
       Key On_window ''resize'' u (Some H_resize),
       Key On_track_undraggable ''dragstart'' None (Some H_preventDefault),
       Key On_window ''load'' u (Some H_setPosition),
       Key On_document ''ready'' u (Some H_setPosition)])"

definition cleanUpEvents :: "slick \<Rightarrow> slick" where
  "cleanUpEvents s = fold off_event (cleanup_keys s) s"

subsection \<open>Nothing is left behind\<close>

lemma fold_on_event: "fold on_event bs s = s\<lparr>bindings := bindings s @ bs\<rparr>"
  by (induction bs arbitrary: s) (simp_all add: on_event_def)

lemma fold_off_event:
  "fold off_event ks s = s\<lparr>bindings := filter (\<lambda>b. \<forall>k \<in> set ks. \<not> matches k b) (bindings s)\<rparr>"
  by (induction ks arbitrary: s) (simp_all add: off_event_def conj_commute)

lemmas event_eqs = fold_on_event fold_off_event on_event_def off_event_def

text \<open>The bindings of a slider with handlers, in the order they are made.\<close>

definition arrow_bindings :: "slick \<Rightarrow> binding list" where
  "arrow_bindings s =
     (if o_arrows (options s) \<and> many s
      then [bound s On_prev ''click'' (H_changeSlide ''previous''),
            bound s On_next ''click'' (H_changeSlide ''next'')] else [])"

definition focus_bindings :: "slick \<Rightarrow> binding list" where
  "focus_bindings s = [bound s On_slider ''focus'' H_focus, bound s On_slider ''blur'' H_focus]"

definition own_bindings :: "slick \<Rightarrow> binding list" where
  "own_bindings s =
     arrow_bindings s @ dot_bindings s @ slide_bindings s @ other_bindings s @ focus_bindings s"

lemma bound_same [simp]:
  "bound (s\<lparr>bindings := bs\<rparr>) = bound s" "bound_uid (s\<lparr>bindings := bs\<rparr>) = bound_uid s"
  "many (s\<lparr>bindings := bs\<rparr>) = many s" "dot_target (s\<lparr>bindings := bs\<rparr>) = dot_target s"
  by (auto simp: fun_eq_iff bound_def bound_uid_def many_def dot_target_def)

lemma bindings_same [simp]:
  "select_bindings (s\<lparr>bindings := bs\<rparr>) = select_bindings s"
  "dot_bindings (s\<lparr>bindings := bs\<rparr>) = dot_bindings s"
  "slide_bindings (s\<lparr>bindings := bs\<rparr>) = slide_bindings s"
  "cleanup_keys (s\<lparr>bindings := bs\<rparr>) = cleanup_keys s"
  by (simp_all add: dot_bindings_def slide_bindings_def select_bindings_def cleanup_keys_def Let_def)

lemma other_bindings_same [simp]: "other_bindings (s\<lparr>bindings := bs\<rparr>) = other_bindings s"
  by (simp add: other_bindings_def Let_def)

lemma bound_sel [simp]:
  "b_target (bound s tg ev h) = tg" "b_event (bound s tg ev h) = ev" "b_handler (bound s tg ev h) = h"
  "b_uid (bound s tg ev h) = None"
  "b_target (bound_uid s tg ev h) = tg" "b_event (bound_uid s tg ev h) = ev"
  "b_handler (bound_uid s tg ev h) = h" "b_uid (bound_uid s tg ev h) = Some (instanceUid s)"
  by (simp_all add: bound_def bound_uid_def)

text \<open>A binding on the window or the document that another slider has made.\<close>

definition foreign :: "slick \<Rightarrow> binding \<Rightarrow> bool" where
  "foreign s b \<longleftrightarrow> b_target b \<in> {On_window, On_document} \<and> b_uid b \<noteq> Some (instanceUid s)"

lemma bindings_initialized:
  assumes "initializeEvents s = Some t" "\<forall>b \<in> set (bindings s). foreign s b"
  shows "focusHandler t = s\<lparr>bindings := bindings s @ own_bindings s\<rparr>"
proof -
  have f: "filter (\<lambda>b. \<not> matches (Key tg ev None None) b) (bindings s) = bindings s"
    if "tg \<notin> {On_window, On_document}" for tg ev
    using assms(2) that by (auto simp: filter_id_conv foreign_def)
  have none: "filter (\<lambda>b. \<not> matches (Key On_next ''click'' None None) b)
                [bound s On_prev ''click'' (H_changeSlide ''previous'')] =
              [bound s On_prev ''click'' (H_changeSlide ''previous'')]" by simp
  obtain s1 where s1: "initArrowEvents s = Some s1"
    "t = s1\<lparr>bindings := bindings s1 @ dot_bindings s1 @ slide_bindings s1 @ other_bindings s1\<rparr>"
    using assms(1)
    by (cases "initArrowEvents s")
      (simp_all add: initializeEvents_def Let_def initSlideEvents_def initDotEvents_def event_eqs)
  have "s1 = s\<lparr>bindings := bindings s @ arrow_bindings s\<rparr>"
    using s1(1) f none by (auto simp: initArrowEvents_def arrow_bindings_def event_eqs split: if_splits)
  then have t: "t = s\<lparr>bindings := bindings s @ arrow_bindings s @ dot_bindings s @ slide_bindings s @ other_bindings s\<rparr>"
    using s1(2) by simp
  have fo: "filter (\<lambda>b. b_target b \<noteq> On_slider) (bindings t) = bindings t"
    using assms(2)
    by (auto simp: t filter_id_conv foreign_def arrow_bindings_def dot_bindings_def dot_target_def
        slide_bindings_def other_bindings_def select_bindings_def Let_def split: if_splits)
  have off: "filter (\<lambda>b. \<forall>k \<in> set [Key On_slider ''focus'' None None, Key On_slider ''blur'' None None].
               \<not> matches k b) (bindings t) = bindings t"
    using fo by (auto simp: filter_id_conv)
  have "focusHandler t = t\<lparr>bindings := bindings t @ focus_bindings s\<rparr>"
    unfolding focusHandler_def fold_on_event fold_off_event off by (simp add: t focus_bindings_def)
  then show ?thesis by (simp add: t own_bindings_def)
qed

text \<open>Quantifiers over lists with optional parts.\<close>

lemma quant_if:
  "(\<exists>k \<in> set (if c then xs else []). P k) \<longleftrightarrow> c \<and> (\<exists>k \<in> set xs. P k)"
  "(\<forall>k \<in> set (if c then xs else []). P k) \<longleftrightarrow> (c \<longrightarrow> (\<forall>k \<in> set xs. P k))"
  by (cases c; simp)+

lemmas quant_parts = set_append ball_Un bex_Un quant_if list.set ball_simps bex_simps

definition matched :: "slick \<Rightarrow> binding list \<Rightarrow> bool" where
  "matched s bs \<longleftrightarrow> (\<forall>b \<in> set bs. \<exists>k \<in> set (cleanup_keys s). matches k b)"

lemma matchedI:
  assumes "list_all2 matches ks bs" "set ks \<subseteq> set (cleanup_keys s)"
  shows "matched s bs"
proof -
  have "\<exists>k \<in> set ks. matches k b" if "b \<in> set bs" for b
    using assms(1) that by (metis in_set_conv_nth list_all2_conv_all_nth nth_mem)
  then show ?thesis using assms(2) by (auto simp: matched_def)
qed

lemma matched_append [simp]: "matched s (xs @ ys) \<longleftrightarrow> matched s xs \<and> matched s ys"
  by (auto simp: matched_def)

lemma matched_Nil [simp]: "matched s []"
  by (simp add: matched_def)

lemma swipe_matched:
  "matched s [bound s On_list ''touchstart'' (H_swipe a1), bound s On_list ''mousedown'' (H_swipe a2),
     bound s On_list ''touchmove'' (H_swipe a3), bound s On_list ''mousemove'' (H_swipe a4),
     bound s On_list ''touchend'' (H_swipe a5), bound s On_list ''mouseup'' (H_swipe a6),
     bound s On_list ''touchcancel'' (H_swipe a7), bound s On_list ''mouseleave'' (H_swipe a8)]"
  by (rule matchedI [where ks = "map (\<lambda>ev. Key On_list ev None (Some (H_swipe '''')))
        [''touchstart'', ''mousedown'', ''touchmove'', ''mousemove'', ''touchend'', ''mouseup'',
         ''touchcancel'', ''mouseleave'']"])
    (auto simp: cleanup_keys_def Let_def)

lemma click_matched:
  "matched s [bound s On_list ''click'' H_click, bound s On_document ''visibilitychange'' H_visibility]"
  by (rule matchedI [where ks = "[Key On_list ''click'' None (Some H_click),
         Key On_document ''visibilitychange'' None (Some H_visibility)]"])
    (simp_all add: cleanup_keys_def Let_def)

lemma page_matched:
  "matched s [bound_uid s On_window ''orientationchange'' H_orientationChange,
              bound_uid s On_window ''resize'' H_resize,
              bound s On_track_undraggable ''dragstart'' H_preventDefault,
              bound_uid s On_window ''load'' H_setPosition,
              bound_uid s On_document ''ready'' H_setPosition]"
  by (rule matchedI [where ks = "[Key On_window ''orientationchange'' (Some (instanceUid s)) (Some H_orientationChange),
         Key On_window ''resize'' (Some (instanceUid s)) (Some H_resize),
         Key On_track_undraggable ''dragstart'' None (Some H_preventDefault),
         Key On_window ''load'' (Some (instanceUid s)) (Some H_setPosition),
         Key On_document ''ready'' (Some (instanceUid s)) (Some H_setPosition)]"])
    (simp_all add: cleanup_keys_def Let_def)

lemma focus_matched: "matched s (focus_bindings s)"
  by (rule matchedI [where ks = "[Key On_slider ''focus'' None None, Key On_slider ''blur'' None None]"])
    (simp_all add: focus_bindings_def cleanup_keys_def Let_def)

text \<open>A binding that depends on an option, and the key that depends on the same option.\<close>

lemma matched_if:
  assumes "set (if c then ks else []) \<subseteq> set (cleanup_keys s)" "c \<Longrightarrow> list_all2 matches ks bs"
  shows "matched s (if c then bs else [])"
  using assms by (cases c) (auto intro: matchedI)

lemma optional_keys:
  "set slide_keys \<subseteq> set (cleanup_keys s)"
  "set (if o_accessibility (options s) then [Key On_list ''keydown'' None (Some H_key)] else [])
     \<subseteq> set (cleanup_keys s)"
  "set (if o_focusOnSelect (options s) then [Key On_track_children ''click'' None (Some H_select)] else [])
     \<subseteq> set (cleanup_keys s)"
  "set (if o_arrows (options s) \<and> many s
        then [Key On_prev ''click'' None (Some (H_changeSlide '''')),
              Key On_next ''click'' None (Some (H_changeSlide ''''))] else []) \<subseteq> set (cleanup_keys s)"
  "set (if o_dots (options s) \<and> dotItems s \<noteq> None
        then [Key On_dots ''click'' None (Some (H_changeSlide '''')),
              Key On_dots ''mouseenter'' None (Some (H_interrupt True)),
              Key On_dots ''mouseleave'' None (Some (H_interrupt False))] else []) \<subseteq> set (cleanup_keys s)"
  unfolding cleanup_keys_def Let_def set_append by blast+

lemma optional_matched:
  "matched s (slide_bindings s)" "matched s (select_bindings s)" "matched s (arrow_bindings s)"
  "matched s (if o_accessibility (options s) then [bound s On_list ''keydown'' H_key] else [])"
  unfolding slide_bindings_def select_bindings_def arrow_bindings_def
  subgoal by (rule matched_if [where ks = slide_keys])
      (use optional_keys(1) in \<open>auto simp: slide_keys_def\<close>)
  subgoal by (rule matched_if [OF optional_keys(3)]) simp
  subgoal by (rule matched_if [OF optional_keys(4)]) simp
  subgoal by (rule matched_if [OF optional_keys(2)]) simp
  done

lemma dots_matched:
  assumes "dotItems s \<noteq> None \<or> \<not> o_dots (options s)"
  shows "matched s (dot_bindings s)"
proof (cases "o_dots (options s)")
  case True
  then have d: "dotItems s \<noteq> None" using assms by simp
  have k: "{Key On_dots ''click'' None (Some (H_changeSlide '''')),
         Key On_dots ''mouseenter'' None (Some (H_interrupt True)),
         Key On_dots ''mouseleave'' None (Some (H_interrupt False))} \<subseteq> set (cleanup_keys s)"
    using optional_keys(5) [of s] True d by simp
  have "matched s (if c then [bound s On_dots ''click'' (H_changeSlide ''index'')] else [])" for c
    by (rule matched_if [where ks = "[Key On_dots ''click'' None (Some (H_changeSlide ''''))]"])
      (use k in auto)
  moreover have "matched s (if c then [bound s On_dots ''mouseenter'' (H_interrupt True),
                    bound s On_dots ''mouseleave'' (H_interrupt False)] else [])" for c
    by (rule matched_if [where ks = "[Key On_dots ''mouseenter'' None (Some (H_interrupt True)),
         Key On_dots ''mouseleave'' None (Some (H_interrupt False))]"])
      (use k in auto)
  ultimately show ?thesis using d by (simp only: dot_bindings_def Let_def dot_target_def if_False matched_append)
next
  case False
  then show ?thesis by (simp add: dot_bindings_def Let_def)
qed

lemma own_bindings_matched:
  assumes "dotItems s \<noteq> None \<or> \<not> o_dots (options s)"
  shows "matched s (own_bindings s)"
proof -
  note swipe = swipe_matched [of s "''start''" "''start''" "''move''" "''move''" "''end''" "''end''" "''end''" "''end''"]
  have "matched s (other_bindings s)"
    unfolding other_bindings_def Let_def
    using matched_append [THEN iffD2, OF conjI, OF swipe click_matched, unfolded append.simps]
    by (intro matched_append [THEN iffD2] conjI page_matched optional_matched)
  then show ?thesis
    using dots_matched [OF assms] optional_matched focus_matched
    by (simp only: own_bindings_def matched_append)
qed

definition is_visibility :: "binding \<Rightarrow> bool" where
  "is_visibility b \<longleftrightarrow>
     b_target b = On_document \<and> b_event b = ''visibilitychange'' \<and> b_handler b = H_visibility"

lemma foreign_kept:
  assumes "foreign s b"
  shows "(\<forall>k \<in> set (cleanup_keys s). \<not> matches k b) \<longleftrightarrow> \<not> is_visibility b"
proof -
  have t: "b_target b = On_window \<or> b_target b = On_document" "b_uid b \<noteq> Some (instanceUid s)"
    using assms by (auto simp: foreign_def)
  have v: "b_handler b = H_visibility \<longleftrightarrow> same_function H_visibility (b_handler b)" by auto
  show ?thesis
    unfolding cleanup_keys_def slide_keys_def Let_def is_visibility_def v quant_parts list.map matches.simps
    using t by (elim disjE) (simp_all split del: if_split)
qed

text \<open>C19: the slider takes every handler away again that it has bound, on its own elements and on the
  page, provided there are dots when dots are asked for.  Of the handlers of other sliders it
  removes exactly those for \<open>visibilitychange\<close>, which is bound without a namespace.\<close>

theorem events_cleaned_up:
  assumes "initializeEvents s = Some t" "\<forall>b \<in> set (bindings s). foreign s b"
    and "dotItems s \<noteq> None \<or> \<not> o_dots (options s)"
  shows "bindings (cleanUpEvents (focusHandler t)) = filter (\<lambda>b. \<not> is_visibility b) (bindings s)"
proof -
  have e: "focusHandler t = s\<lparr>bindings := bindings s @ own_bindings s\<rparr>"
    using bindings_initialized [OF assms(1,2)] .
  have "bindings (cleanUpEvents (focusHandler t)) =
          filter (\<lambda>b. \<forall>k \<in> set (cleanup_keys s). \<not> matches k b) (bindings s)"
    using reg.off_after_on [OF own_bindings_matched [OF assms(3), unfolded matched_def], of "focusHandler t" s]
    by (simp add: cleanUpEvents_def e)
  also have "\<dots> = filter (\<lambda>b. \<not> is_visibility b) (bindings s)"
    using foreign_kept assms(2) by (intro filter_cong) simp_all
  finally show ?thesis .
qed

theorem events_cleaned_up_witness:
  "bindings (cleanUpEvents (focusHandler (the (initializeEvents
     ((sample 4 [S_arrows False])\<lparr>bindings :=
        [\<lparr>b_target = On_window, b_event = ''resize'', b_uid = Some 7, b_handler = H_resize, b_owner = 7\<rparr>]\<rparr>))))) =
   [\<lparr>b_target = On_window, b_event = ''resize'', b_uid = Some 7, b_handler = H_resize, b_owner = 7\<rparr>]"
proof -
  let ?b = "\<lparr>b_target = On_window, b_event = ''resize'', b_uid = Some 7, b_handler = H_resize, b_owner = 7\<rparr>"
  let ?s = "(sample 4 [S_arrows False])\<lparr>bindings := [?b]\<rparr>"
  have "bindings (cleanUpEvents (focusHandler (the (initializeEvents ?s)))) =
          filter (\<lambda>b. \<not> is_visibility b) (bindings ?s)"
  proof (rule events_cleaned_up)
    show "initializeEvents ?s = Some (the (initializeEvents ?s))"
      by (simp add: initializeEvents_def initArrowEvents_def Let_def)
  qed (simp_all add: foreign_def)
  then show ?thesis by (simp add: is_visibility_def)
qed

text \<open>
  Without dots \<open>$('li', _.$dots)\<close> is every list item of the page: a slider with few slides that is
  asked to pause on hovering its dots binds its handlers there, and never removes them.
\<close>

lemma stray_handlers:
  assumes "initializeEvents s = Some t" "\<forall>b \<in> set (bindings s). foreign s b"
    and "o_dots (options s)" "o_pauseOnDotsHover (options s)" "dotItems s = None"
  shows "\<exists>b \<in> set (bindings (cleanUpEvents (focusHandler t))). b_target b = On_every_li"
proof -
  let ?b = "bound s On_every_li ''mouseenter'' (H_interrupt True)"
  have e: "focusHandler t = s\<lparr>bindings := bindings s @ own_bindings s\<rparr>"
    using bindings_initialized [OF assms(1,2)] .
  have "?b \<in> set (own_bindings s)"
    using assms(3-5) by (simp add: own_bindings_def dot_bindings_def dot_target_def Let_def)
  moreover have "\<forall>k \<in> set (cleanup_keys s). \<not> matches k ?b"
    unfolding cleanup_keys_def slide_keys_def Let_def quant_parts list.map matches.simps
    by (simp split del: if_split)
  ultimately have "?b \<in> set (bindings (cleanUpEvents (focusHandler t)))"
    by (simp add: cleanUpEvents_def e reg.listed_off_all)
  then show ?thesis by (rule bexI [rotated]) simp
qed

end
