(* ===== verification/Slick_Life.thy ===== *)
theory Slick_Life
  imports Slick_Events
begin

text \<open>
  The life of a slider: \<open>init\<close>, \<open>destroy\<close>, \<open>refresh\<close> and \<open>reinit\<close>, the responsive settings, and
  the operations that change the set of slides.

  \<open>init\<close>, \<open>checkResponsive\<close> and \<open>refresh\<close> call each other: a breakpoint found while a slider is
  built refreshes it, which builds it again.  The fuel \<open>n\<close> counts the nested calls of \<open>init\<close>; the
  result \<open>None\<close> is a call that throws, or that needs more.
\<close>

subsection \<open>Destroying\<close>

definition bare_arrow :: "elem \<Rightarrow> elem" where
  "bare_arrow =
     css_clear ''display'' \<circ> removeAttr {Aria_hidden, Aria_disabled, Tabindex} \<circ>
     removeClass {Slick_disabled, Slick_arrow, Slick_hidden}"

definition restore_slide :: "elem \<Rightarrow> elem" where
  "restore_slide e =
     (removeAttr {Data_slick_index} (removeAttr {Aria_hidden}
       (removeClass {Slick_slide, Slick_active, Slick_center, Slick_visible, Slick_current} e)))
       \<lparr>style := origStyling e\<rparr>"

text \<open>\<open>$prevArrow\<close> is only touched when it is a collection that is not empty.\<close>

definition release_prev :: "slick \<Rightarrow> slick" where
  "release_prev s =
     (case prevArrow s of
        Some (e # es) \<Rightarrow> remove_prev (s\<lparr>prevArrow := Some (map bare_arrow (e # es))\<rparr>)
      | _ \<Rightarrow> s)"

definition release_next :: "slick \<Rightarrow> slick" where
  "release_next s =
     (case nextArrow s of
        Some (e # es) \<Rightarrow> remove_next (s\<lparr>nextArrow := Some (map bare_arrow (e # es))\<rparr>)
      | _ \<Rightarrow> s)"

text \<open>Children of the track that are no slides go away with the track.\<close>

definition unwrap_slides :: "slick \<Rightarrow> slick" where
  "unwrap_slides s =
     (let s1 = mod_els (slides s) restore_slide s
      in s1\<lparr>track := [], sliderKids := sliderKids s1 @ slides s1\<rparr>)"

definition destroy :: "bool \<Rightarrow> slick \<Rightarrow> slick" where
  "destroy refresh s =
     (let s1 = cleanUpEvents (new_touch (autoPlayClear s));
          s2 = s1\<lparr>track := filter (\<lambda>i. Slick_cloned \<notin> classes (els s1 i)) (track s1)\<rparr>;
          s3 = cleanUpRows (unwrap_slides (release_next (release_prev (remove_dots s2))));
          s4 = s3\<lparr>sliderEl := removeClass {Slick_slider, Slick_initialized, Slick_dotted} (sliderEl s3),
                  unslicked := True\<rparr>
      in if refresh then s4 else trigger E_destroy s4)"

definition unslick :: "real option \<Rightarrow> slick \<Rightarrow> slick" where
  "unslick fromBreakpoint s = destroy False (trigger (E_unslick fromBreakpoint) s)"

subsection \<open>Breakpoints\<close>

definition register_breakpoint :: "real \<times> bp_settings \<Rightarrow> slick \<Rightarrow> slick" where
  "register_breakpoint r s =
     s\<lparr>breakpoints := filter (\<lambda>b. \<not> (b \<noteq> 0 \<and> b = fst r)) (breakpoints s) @ [fst r],
       breakpointSettings := (breakpointSettings s)(fst r := Some (snd r))\<rparr>"

definition registerBreakpoints :: "slick \<Rightarrow> slick" where
  "registerBreakpoints s =
     (case responsive s of
        Some (r # rs) \<Rightarrow>
          (let s1 = s\<lparr>respondTo := Some (if o_respondTo (options s) = [] then ''window''
                                       else o_respondTo (options s))\<rparr>;
               s2 = fold register_breakpoint (r # rs) s1
           in s2\<lparr>breakpoints := (if o_mobileFirst (options s2) then sort (breakpoints s2)
                                 else rev (sort (breakpoints s2)))\<rparr>)
      | _ \<Rightarrow> s)"

definition respond_width :: "env \<Rightarrow> slick \<Rightarrow> real option" where
  "respond_width \<E> s =
     (let sliderWidth = slider_width \<E> s;
          windowWidth' = (if window_inner_width \<E> \<noteq> 0 then window_inner_width \<E> else window_width \<E>)
      in if respondTo s = Some ''window'' then Some windowWidth'
         else if respondTo s = Some ''slider'' then Some sliderWidth
         else if respondTo s = Some ''min'' then Some (min windowWidth' sliderWidth)
         else None)"

definition target_breakpoint :: "env \<Rightarrow> slick \<Rightarrow> real option" where
  "target_breakpoint \<E> s =
     fold (\<lambda>b t. if (case respond_width \<E> s of None \<Rightarrow> False
                     | Some w \<Rightarrow> if o_mobileFirst (originalSettings s) then w > b else w < b)
                 then Some b else t) (breakpoints s) None"

text \<open>
  \<open>checkResponsive\<close> and \<open>refresh\<close> with \<open>init\<close> as an argument.  The options of a breakpoint are a
  new object; without a breakpoint they are \<open>originalSettings\<close> itself.
\<close>

definition refresh_with :: "env \<Rightarrow> (slick \<Rightarrow> slick option) \<Rightarrow> bool \<Rightarrow> slick \<Rightarrow> slick option" where
  "refresh_with \<E> init' initializing s =
     (let lastVisibleIndex = slideCount s - o_slidesToShow (options s);
          s1 = (if \<not> o_infinite (options s) \<and> currentSlide s > lastVisibleIndex
                then s\<lparr>currentSlide := lastVisibleIndex\<rparr> else s);
          s2 = (if slideCount s1 \<le> o_slidesToShow (options s1) then s1\<lparr>currentSlide := 0\<rparr> else s1);
          cur = currentSlide s2;
          s3 = (initials (destroy True s2))\<lparr>currentSlide := cur\<rparr>
      in do {
        s4 \<leftarrow> init' s3;
        if \<not> initializing then changeSlide \<E> (Index (Some cur) (- 1)) False s4 else Some s4
      })"

definition breakpoint_options :: "real \<Rightarrow> slick \<Rightarrow> options" where
  "breakpoint_options b s =
     (case breakpointSettings s b of
        Some (Settings ss) \<Rightarrow> extend_options (originalSettings s) ss
      | _ \<Rightarrow> originalSettings s)"

definition apply_breakpoint ::
  "env \<Rightarrow> (slick \<Rightarrow> slick option) \<Rightarrow> bool \<Rightarrow> real \<Rightarrow> slick \<Rightarrow> slick option" where
  "apply_breakpoint \<E> init' initial b s0 =
     (let s = s0\<lparr>activeBreakpoint := Some b\<rparr> in
      if breakpointSettings s b = Some Unslick then Some (unslick (Some b) s)
      else
        let s1 = s\<lparr>options := breakpoint_options b s, optionsShared := False\<rparr>;
            s2 = (if initial then s1\<lparr>currentSlide := o_initialSlide (options s1)\<rparr> else s1)
        in refresh_with \<E> init' initial s2)"

definition checkResponsive_with ::
  "env \<Rightarrow> (slick \<Rightarrow> slick option) \<Rightarrow> bool \<Rightarrow> bool \<Rightarrow> slick \<Rightarrow> slick option" where
  "checkResponsive_with \<E> init' initial forceUpdate s =
     (if responsive s = None \<or> responsive s = Some [] then Some s
      else
        do {
          r \<leftarrow> (case target_breakpoint \<E> s of
                 Some b \<Rightarrow>
                   (if activeBreakpoint s = None \<or> activeBreakpoint s \<noteq> Some b \<or> forceUpdate
                    then do { t \<leftarrow> apply_breakpoint \<E> init' initial b s; Some (True, t) }
                    else Some (False, s))
               | None \<Rightarrow>
                   (if activeBreakpoint s \<noteq> None then
                      (let s1 = s\<lparr>activeBreakpoint := None, options := originalSettings s,
                                  optionsShared := True\<rparr>;
                           s2 = (if initial then s1\<lparr>currentSlide := o_initialSlide (options s1)\<rparr> else s1)
                       in do { t \<leftarrow> refresh_with \<E> init' initial s2; Some (True, t) })
                    else Some (False, s)));
          Some (if \<not> initial \<and> fst r then trigger (E_breakpoint (target_breakpoint \<E> s)) (snd r)
                else snd r)
        })"

subsection \<open>Initialization\<close>

primrec init :: "nat \<Rightarrow> env \<Rightarrow> bool \<Rightarrow> slick \<Rightarrow> slick option" where
  "init 0 \<E> creation s = None"
| "init (Suc n) \<E> creation s =
     do {
       s1 \<leftarrow> (if Slick_initialized \<in> classes (sliderEl s) then Some s
              else do {
                a \<leftarrow> buildRows (s\<lparr>sliderEl := addClass Slick_initialized (sliderEl s)\<rparr>);
                b \<leftarrow> buildOut \<E> a;
                c \<leftarrow> startLoad (setProps \<E> b);
                d \<leftarrow> loadSlider \<E> c;
                e \<leftarrow> initializeEvents d;
                f \<leftarrow> updateArrows e;
                g \<leftarrow> checkResponsive_with \<E> (init n \<E> False) True False (updateDots f);
                Some (focusHandler g)
              });
       let s2 = (if creation then trigger E_init s1 else s1);
       let s3 = (if o_accessibility (options s2) then initADA s2 else s2);
       Some (if o_autoplay (options s3) then autoPlay (s3\<lparr>paused := False\<rparr>) else s3)
     }"

definition checkResponsive :: "nat \<Rightarrow> env \<Rightarrow> bool \<Rightarrow> bool \<Rightarrow> slick \<Rightarrow> slick option" where
  "checkResponsive n \<E> = checkResponsive_with \<E> (init n \<E> False)"

definition refresh :: "nat \<Rightarrow> env \<Rightarrow> bool \<Rightarrow> slick \<Rightarrow> slick option" where
  "refresh n \<E> = refresh_with \<E> (init n \<E> False)"

text \<open>The whole constructor.\<close>

definition construct :: "nat \<Rightarrow> env \<Rightarrow> slick \<Rightarrow> slick option" where
  "construct n \<E> s = init n \<E> True (registerBreakpoints s)"

definition orientationChange :: "nat \<Rightarrow> env \<Rightarrow> slick \<Rightarrow> slick option" where
  "orientationChange n \<E> s =
     do { t \<leftarrow> checkResponsive n \<E> False False s; Some (setPosition \<E> t) }"

text \<open>\<open>clearTimeout\<close> drops the pending task.\<close>

definition resize :: "env \<Rightarrow> slick \<Rightarrow> slick" where
  "resize \<E> s =
     (if window_width \<E> \<noteq> windowWidth s then
        (let s1 = (case windowDelay s of
                     None \<Rightarrow> s
                   | Some k \<Rightarrow> s\<lparr>tasks := filter (\<lambda>t. t \<noteq> Resize_timeout k) (tasks s)\<rparr>)
         in later (Resize_timeout (nextTimer s1))
              (s1\<lparr>windowDelay := Some (nextTimer s1), nextTimer := nextTimer s1 + 1\<rparr>))
      else s)"

definition resize_timeout :: "nat \<Rightarrow> env \<Rightarrow> slick \<Rightarrow> slick option" where
  "resize_timeout n \<E> s =
     do {
       t \<leftarrow> checkResponsive n \<E> False False (s\<lparr>windowWidth := window_width \<E>\<rparr>);
       Some (if \<not> unslicked t then setPosition \<E> t else t)
     }"

subsection \<open>Changing a slider that is built\<close>

definition reinit :: "nat \<Rightarrow> env \<Rightarrow> slick \<Rightarrow> slick option" where
  "reinit n \<E> s =
     (let found = slide_children \<E> s (track s);
          s1 = (mod_els found (addClass Slick_slide) s)\<lparr>slides := found, slideCount := int (length found)\<rparr>;
          s2 = (if currentSlide s1 \<ge> slideCount s1 \<and> currentSlide s1 \<noteq> 0
                then s1\<lparr>currentSlide := currentSlide s1 - o_slidesToScroll (options s1)\<rparr> else s1);
          s3 = (if slideCount s2 \<le> o_slidesToShow (options s2) then s2\<lparr>currentSlide := 0\<rparr> else s2);
          s4 = buildArrows \<E> (setupInfinite (setProps \<E> (registerBreakpoints s3)))
      in do {
        a \<leftarrow> updateArrows s4;
        b \<leftarrow> initArrowEvents a;
        c \<leftarrow> buildDots b;
        let d = initSlideEvents (cleanUpSlideEvents (initDotEvents (updateDots c)));
        e \<leftarrow> checkResponsive n \<E> False True d;
        let f = fold on_event (select_bindings e) e;
        let g = focusHandler (setPosition \<E> (setSlideClasses (currentSlide f) f));
        let h = autoPlay (g\<lparr>paused := \<not> o_autoplay (options g)\<rparr>);
        Some (trigger E_reInit h)
      })"

text \<open>The three forms of \<open>setOption\<close>; the responsive settings are one array that both option objects
  refer to.\<close>

datatype option_change =
    Single setting
  | Multiple "setting list"
  | Responsive "(real \<times> bp_settings) list"

fun put_responsive ::
  "(real \<times> bp_settings) list option \<Rightarrow> (real \<times> bp_settings) list \<Rightarrow> (real \<times> bp_settings) list option" where
  "put_responsive rs [] = rs"
| "put_responsive None (v # vs) = put_responsive (Some [v]) vs"
| "put_responsive (Some rs) (v # vs) =
     put_responsive (Some (filter (\<lambda>r. fst r \<noteq> fst v) rs @ [v])) vs"

definition setOption :: "nat \<Rightarrow> env \<Rightarrow> option_change \<Rightarrow> bool \<Rightarrow> slick \<Rightarrow> slick option" where
  "setOption n \<E> ch refresh' s =
     (let s1 = (case ch of
                  Single x \<Rightarrow> write_option (apply_setting x) s
                | Multiple xs \<Rightarrow> write_option (\<lambda>o'. extend_options o' xs) s
                | Responsive vs \<Rightarrow> s\<lparr>responsive := put_responsive (responsive s) vs\<rparr>)
      in if refresh' then reinit n \<E> (unload s1) else Some s1)"

definition getOption :: "(options \<Rightarrow> 'a) \<Rightarrow> slick \<Rightarrow> 'a" where
  "getOption option s = option (options s)"

text \<open>
  \<open>track_children\<close> are the children the selector finds; \<open>put_slides\<close> detaches and appends the
  slides, so that other children of the track come first.
\<close>

definition put_slides :: "env \<Rightarrow> slick \<Rightarrow> slick" where
  "put_slides \<E> s =
     (let found = slide_children \<E> s (track s)
      in s\<lparr>slides := found, track := filter (\<lambda>i. i \<notin> set found) (track s) @ found,
           slidesCache := Some found\<rparr>)"

definition insert_at :: "nat \<Rightarrow> 'a list \<Rightarrow> 'a list \<Rightarrow> 'a list" where
  "insert_at k new xs = take k xs @ new @ drop k xs"

definition position_of :: "nat \<Rightarrow> nat list \<Rightarrow> nat" where
  "position_of i xs = length (takeWhile (\<lambda>j. j \<noteq> i) xs)"

text \<open>\<open>new\<close> are the elements of \<open>$(markup)\<close>; a missing index is \<open>None\<close>.\<close>

definition insert_markup :: "nat list \<Rightarrow> int option \<Rightarrow> bool \<Rightarrow> slick \<Rightarrow> nat list" where
  "insert_markup new index addBefore s =
     (case index of
        Some i \<Rightarrow>
          if i = 0 \<and> slides s = [] then track s @ new
          else
            let k = position_of (slides s ! nat i) (track s)
            in if addBefore then insert_at k new (track s) else insert_at (k + 1) new (track s)
      | None \<Rightarrow> if addBefore then new @ track s else track s @ new)"

definition addSlide ::
  "nat \<Rightarrow> env \<Rightarrow> elem list \<Rightarrow> int option \<Rightarrow> bool \<Rightarrow> slick \<Rightarrow> slick option" where
  "addSlide n \<E> markup index addBefore s =
     (if (case index of None \<Rightarrow> False | Some i \<Rightarrow> i < 0 \<or> i \<ge> slideCount s) then Some s
      else
        let s1 = unload s;
            new = [nextEl s1 ..< nextEl s1 + length markup];
            s2 = s1\<lparr>els := (\<lambda>i. if i \<in> set new then markup ! (i - nextEl s1) else els s1 i),
                    nextEl := nextEl s1 + length markup,
                    track := insert_markup new index addBefore s1\<rparr>;
            s3 = put_slides \<E> s2
        in reinit n \<E> (s3\<lparr>els := set_index 0 (slides s3) (els s3)\<rparr>))"

text \<open>The first argument of \<open>removeSlide\<close>: a number, or a boolean for one of the ends.\<close>

datatype place = At int | Side bool

definition place_index :: "place \<Rightarrow> bool \<Rightarrow> slick \<Rightarrow> int" where
  "place_index p removeBefore s =
     (case p of
        Side b \<Rightarrow> if b then 0 else slideCount s - 1
      | At i \<Rightarrow> if removeBefore then i - 1 else i)"

definition removeSlide :: "nat \<Rightarrow> env \<Rightarrow> place \<Rightarrow> bool \<Rightarrow> bool \<Rightarrow> slick \<Rightarrow> slick option" where
  "removeSlide n \<E> p removeBefore everything s =
     (let index = place_index p removeBefore s in
      if slideCount s < 1 \<or> index < 0 \<or> index > slideCount s - 1 then Some s
      else
        let s1 = unload s;
            gone = eq index (slide_children \<E> s1 (track s1));
            s2 = s1\<lparr>track := (if everything then [] else filter (\<lambda>i. i \<notin> set gone) (track s1))\<rparr>
        in reinit n \<E> (put_slides \<E> s2))"

definition filterSlides :: "nat \<Rightarrow> env \<Rightarrow> string option \<Rightarrow> slick \<Rightarrow> slick option" where
  "filterSlides n \<E> flt s =
     (case flt of
        None \<Rightarrow> Some s
      | Some f \<Rightarrow>
          (let s1 = unload (s\<lparr>slidesCache := Some (slides s)\<rparr>);
               s2 = s1\<lparr>track := filter (\<lambda>i. i \<notin> set (slide_children \<E> s1 (track s1))) (track s1) @
                                jq_filter \<E> f (els s1) (slides s)\<rparr>
           in reinit n \<E> s2))"

definition unfilterSlides :: "nat \<Rightarrow> env \<Rightarrow> slick \<Rightarrow> slick option" where
  "unfilterSlides n \<E> s =
     (case slidesCache s of
        None \<Rightarrow> Some s
      | Some cache \<Rightarrow>
          (let s1 = unload s;
               s2 = s1\<lparr>track := filter (\<lambda>i. i \<notin> set (slide_children \<E> s1 (track s1)) \<and> i \<notin> set cache) (track s1) @ cache\<rparr>
           in reinit n \<E> s2))"

end
