(* ===== verification/Slick_Progress.thy ===== *)
theory Slick_Progress
  imports Slick_Machine
begin

text \<open>
  Where a move ends: the slide after \<open>slideHandler\<close>, that arrows and autoplay reach every page of
  an infinite slider, that a finite one never leaves its range, and that its autoplay can stop at
  the end.
\<close>

subsection \<open>The slide after a move\<close>

definition blocked :: "slick \<Rightarrow> bool" where
  "blocked s \<longleftrightarrow> animating s \<and> o_waitForAnimate (options s)"

lemma out_of_range_cong:
  "options t = options s \<Longrightarrow> slideCount t = slideCount s \<Longrightarrow> out_of_range i t = out_of_range i s"
  by (simp only: out_of_range_def getDotCount_def)

lemma anim_slide_view: "view t = view s \<Longrightarrow> anim_slide i t = anim_slide i s"
  by (simp add: anim_slide_def view_eqD(3,10) [of t s])

lemma slideHandler_result:
  assumes "good \<E> s" "index_ok s index" "\<not> blocked s"
    and "\<not> (o_fade (options s) \<and> currentSlide s = index)" "o_slidesToShow (options s) < slideCount s"
    and out: "out_of_range index s = Some out"
  shows "\<exists>t. slideHandler \<E> index sync d s = Some t \<and> good \<E> t \<and> arrangement t = arrangement s \<and>
           flags t = flags s \<and> currentSlide t = (if out then currentSlide s else anim_slide index s)"
proof -
  obtain s4 l l' where s4: "view s4 = view s" "completions s4 = completions s"
    "animating s4 = animating s" "options s4 = options s" "flags s4 = flags s"
    and eq: "slideHandler \<E> index sync d s =
             do {
               out \<leftarrow> out_of_range index s4;
               if out then
                 Some (if o_fade (options s) then s4
                       else if \<not> d then animateSlide \<E> l' (currentSlide s4) s4
                       else postSlide \<E> (currentSlide s4) s4)
               else move_to \<E> index l d s4
             }"
    using slideHandler_moves [of s index \<E> sync d] assms(3-5) by (auto simp: blocked_def)
  have g4: "good \<E> s4" using good_keep [OF assms(1) s4(1-3)] .
  then have ok4: "slider_ok \<E> s4" and t4: "tasks_ok s4" by (simp_all add: good_def)
  have out4: "out_of_range index s4 = Some out"
    using out_of_range_cong [OF s4(4) view_eqD(10) [OF s4(1)]] out by simp
  obtain t where t: "slideHandler \<E> index sync d s = Some t" "good \<E> t"
    using slideHandler_fine [OF assms(1,2), of sync d] by (auto simp: fine_def)
  show ?thesis
  proof (cases out)
    case True
    have "slideHandler \<E> index sync d s =
            Some (if o_fade (options s) then s4
                  else if \<not> d then animateSlide \<E> l' (currentSlide s4) s4
                  else postSlide \<E> (currentSlide s4) s4)"
      unfolding eq out4 Option.bind.simps using True by (simp only: if_True)
    then have te: "t = (if o_fade (options s) then s4
                  else if \<not> d then animateSlide \<E> l' (currentSlide s4) s4
                  else postSlide \<E> (currentSlide s4) s4)" using t(1) by simp
    have "view t = view s4" by (simp add: te view_simps)
    moreover have "flags t = flags s4" by (simp add: te flags_simps)
    ultimately show ?thesis
      using t True s4(1,5) arrangement_view [of t s] view_eqD(9) [of t s] by simp
  next
    case False
    have "index_ok s4 index" using assms(2) by (simp add: index_ok_def view_eqD [OF s4(1)])
    then obtain u where u: "move_to \<E> index l d s4 = Some u" "currentSlide u = anim_slide index s4"
      "arrangement u = arrangement s4" "flags u = flags s4"
      using move_to_ok [OF ok4 t4] by blast
    have "slideHandler \<E> index sync d s = Some u"
      unfolding eq out4 Option.bind.simps using False u(1) by (simp only: if_False)
    then show ?thesis
      using t u False s4(5) arrangement_view [OF s4(1)] anim_slide_view [OF s4(1)] by simp
  qed
qed

lemma arrangement_eqD:
  assumes "arrangement t = arrangement s"
  shows "o_slidesToShow (options t) = o_slidesToShow (options s)"
    "o_slidesToScroll (options t) = o_slidesToScroll (options s)"
    "o_infinite (options t) = o_infinite (options s)" "o_centerMode (options t) = o_centerMode (options s)"
    "o_asNavFor (options t) = o_asNavFor (options s)"
    "o_fade (options t) = o_fade (options s)" "slideCount t = slideCount s" "slides t = slides s"
    "o_waitForAnimate (options t) = o_waitForAnimate (options s)"
proof -
  have o': "(options t)\<lparr>o_autoplay := True, o_zIndex := 0\<rparr> = (options s)\<lparr>o_autoplay := True, o_zIndex := 0\<rparr>"
    using assms by (simp add: arrangement_def)
  show "o_slidesToShow (options t) = o_slidesToShow (options s)"
    "o_slidesToScroll (options t) = o_slidesToScroll (options s)"
    "o_infinite (options t) = o_infinite (options s)" "o_centerMode (options t) = o_centerMode (options s)"
    "o_asNavFor (options t) = o_asNavFor (options s)" "o_fade (options t) = o_fade (options s)"
    "o_waitForAnimate (options t) = o_waitForAnimate (options s)"
    by (rule arg_cong [OF o', of o_slidesToShow, simplified]
        arg_cong [OF o', of o_slidesToScroll, simplified] arg_cong [OF o', of o_infinite, simplified]
        arg_cong [OF o', of o_centerMode, simplified] arg_cong [OF o', of o_asNavFor, simplified]
        arg_cong [OF o', of o_fade, simplified] arg_cong [OF o', of o_waitForAnimate, simplified])+
  show "slideCount t = slideCount s" "slides t = slides s" using assms by (simp_all add: arrangement_def)
qed

subsection \<open>Finite sliders\<close>

text \<open>The last page of a finite slider starts at most here.\<close>

definition last_index :: "slick \<Rightarrow> int" where
  "last_index s = dot_count s * o_slidesToScroll (options s)"

lemma out_of_range_finite:
  assumes "opts_ok (options s)" "\<not> o_infinite (options s)" "\<not> o_centerMode (options s)"
  shows "out_of_range index s = Some (index < 0 \<or> last_index s < index)"
  using assms by (simp add: out_of_range_def Let_def getDotCount_Some last_index_def)

lemma last_index_less:
  assumes "opts_ok (options s)" "\<not> o_infinite (options s)" "\<not> o_centerMode (options s)"
    and "o_asNavFor (options s) = None" "o_slidesToScroll (options s) \<le> o_slidesToShow (options s)"
    and "o_slidesToShow (options s) < slideCount s"
  shows "last_index s < slideCount s"
proof -
  let ?k = "o_slidesToScroll (options s)"
  let ?a = "slideCount s - o_slidesToShow (options s)"
  have k: "0 < ?k" using assms(1) by (simp add: opts_ok_def)
  have d: "dot_count s = - ((- ?a) div ?k)"
    using assms(2-4) unfolding dot_count_def Let_def by (simp add: ceil_divide del: of_int_diff)
  have "(- ?a) div ?k * ?k + (- ?a) mod ?k = - ?a" by (rule div_mult_mod_eq)
  moreover have "0 \<le> (- ?a) mod ?k" "(- ?a) mod ?k < ?k" using k by simp_all
  moreover have "last_index s = - ((- ?a) div ?k * ?k)" by (simp only: last_index_def d minus_mult_left)
  ultimately show ?thesis using assms(5) by linarith
qed

text \<open>C15: a finite slider that scrolls by at most what it shows goes exactly where it is asked to,
  up to its last page, and stays where it is when asked to leave its range: it never wraps
  around.\<close>

theorem finite_slider_stays_in_range:
  assumes "slider_ok \<E> s" "tasks_ok s" "\<not> blocked s" "\<not> o_fade (options s)"
    and "\<not> o_infinite (options s)" "\<not> o_centerMode (options s)" "o_asNavFor (options s) = None"
    and "o_slidesToScroll (options s) \<le> o_slidesToShow (options s)"
    and "o_slidesToShow (options s) < slideCount s"
    and "- slideCount s \<le> index" "index < 2 * slideCount s"
  shows "\<exists>t. slideHandler \<E> index sync d s = Some t \<and>
           currentSlide t = (if 0 \<le> index \<and> index \<le> last_index s then index else currentSlide s) \<and>
           last_index s < slideCount s"
proof -
  have g: "good \<E> s" using assms(1,2) by (simp add: good_def)
  note ok = slider_okD [OF assms(1)]
  have io: "index_ok s index" using assms(10,11) by (simp add: index_ok_def)
  have last: "last_index s < slideCount s" using last_index_less assms ok by blast
  have "anim_slide index s = index" if "0 \<le> index" "index \<le> last_index s"
    using that last by (simp add: anim_slide_def Let_def)
  then show ?thesis
    using slideHandler_result [OF g io assms(3) _ assms(9) out_of_range_finite [OF ok(1) assms(5,6)],
        of sync d] assms(4) last by (auto simp: not_less)
qed

theorem finite_slider_stays_in_range_witness:
  "\<exists>t. slideHandler plain_env 2 False False start_state = Some t \<and>
     currentSlide t = (if 0 \<le> (2 :: int) \<and> 2 \<le> last_index start_state then 2
                       else currentSlide start_state) \<and>
     last_index start_state < slideCount start_state"
  by (rule finite_slider_stays_in_range)
    (use start_state_good in \<open>simp_all add: start_state_def blocked_def\<close>)

text \<open>With a larger \<open>slidesToScroll\<close> the same request leaves the range: from slide 3 of 5, a
  finite slider that shows one slide and scrolls by three wraps around to the first slide.\<close>

lemma finite_slider_wraps:
  assumes "good \<E> s" "\<not> blocked s" "\<not> o_fade (options s)"
    and "\<not> o_infinite (options s)" "\<not> o_centerMode (options s)" "o_asNavFor (options s) = None"
    and "o_slidesToShow (options s) = 1" "o_slidesToScroll (options s) = 3" "slideCount s = 5"
    and "currentSlide s = 3"
  shows "\<exists>t. changeSlide \<E> Next False s = Some t \<and> currentSlide t = 0"
proof -
  have ok: "opts_ok (options s)" using assms by (simp add: opts_ok_def)
  have "\<lceil>(4 :: real) / 3\<rceil> = 2" by (rule ceiling_unique) simp_all
  then have "dot_count s = 2" using assms by (simp add: dot_count_def Let_def)
  then have o': "out_of_range 6 s = Some False"
    using out_of_range_finite [OF ok assms(4,5), of 6] assms(8) by (simp add: last_index_def)
  have "index_ok s 6" using assms(8,9) by (simp add: index_ok_def)
  moreover have "anim_slide 6 s = 0" using assms(8,9) by (simp add: anim_slide_def Let_def)
  ultimately obtain t where "slideHandler \<E> 6 False False s = Some t" "currentSlide t = 0"
    using slideHandler_result [OF assms(1) _ assms(2) _ _ o', of False False] assms(3,7,9) by auto
  moreover have "changeSlide \<E> Next False s = slideHandler \<E> 6 False False s"
    using assms by (simp add: changeSlide_def Let_def)
  ultimately show ?thesis by simp
qed

subsection \<open>Pending animations\<close>

text \<open>All animations that are pending end.\<close>

definition settle :: "env \<Rightarrow> slick \<Rightarrow> slick" where
  "settle \<E> s =
     fold (complete \<E>) (filter (\<lambda>k. completion k \<noteq> None) (tasks s))
       (s\<lparr>tasks := filter (\<lambda>k. completion k = None) (tasks s)\<rparr>)"

lemma view_complete:
  "completion k \<noteq> None \<Longrightarrow> view (complete \<E> k s) = view s \<and> flags (complete \<E> k s) = flags s \<and>
     completions (complete \<E> k s) = completions s"
  by (cases k) (simp_all add: view_simps flags_simps)

lemma animating_complete:
  "completion k \<noteq> None \<Longrightarrow> \<not> unslicked s \<Longrightarrow> \<not> animating (complete \<E> k s)"
proof -
  have "unslicked (disableTransition d s) = unslicked s" for d
    by (rule view_eqD(16)) (simp add: view_simps)
  then show "completion k \<noteq> None \<Longrightarrow> \<not> unslicked s \<Longrightarrow> \<not> animating (complete \<E> k s)"
    by (cases k) (simp_all add: postSlide_def Let_def animating_simps)
qed

lemma settle_fold:
  assumes "list_all (\<lambda>k. completion k \<noteq> None) ks"
  shows "view (fold (complete \<E>) ks s) = view s \<and> flags (fold (complete \<E>) ks s) = flags s \<and>
         completions (fold (complete \<E>) ks s) = completions s \<and>
         (ks \<noteq> [] \<longrightarrow> \<not> unslicked s \<longrightarrow> \<not> animating (fold (complete \<E>) ks s)) \<and>
         (ks = [] \<longrightarrow> animating (fold (complete \<E>) ks s) = animating s)"
  using assms
proof (induction ks arbitrary: s)
  case Nil
  then show ?case by simp
next
  case (Cons k ks)
  have k: "view (complete \<E> k s) = view s" "flags (complete \<E> k s) = flags s"
    "completions (complete \<E> k s) = completions s" "\<not> unslicked s \<Longrightarrow> \<not> animating (complete \<E> k s)"
    using Cons.prems view_complete [of k \<E> s] animating_complete [of k s \<E>] by simp_all
  have "unslicked (complete \<E> k s) = unslicked s" by (rule view_eqD(16) [OF k(1)])
  then show ?case using Cons k by (cases "ks = []") simp_all
qed

lemma settle_result:
  assumes "good \<E> s"
  shows "good \<E> (settle \<E> s) \<and> \<not> animating (settle \<E> s) \<and> view (settle \<E> s) = view s \<and>
         flags (settle \<E> s) = flags s \<and> completions (settle \<E> s) = []"
proof -
  let ?ks = "filter (\<lambda>k. completion k \<noteq> None) (tasks s)"
  let ?u = "s\<lparr>tasks := filter (\<lambda>k. completion k = None) (tasks s)\<rparr>"
  have ok: "slider_ok \<E> s" and tk: "tasks_ok s" using assms by (simp_all add: good_def)
  have "list_all (\<lambda>k. completion k \<noteq> None) ?ks" by (simp add: list_all_iff)
  note f = settle_fold [OF this, of \<E> ?u, folded settle_def]
  have u: "view ?u = view s" "flags ?u = flags s" by (simp_all add: view_simps flags_simps)
  have c: "completions ?u = []" by (auto simp: completions_def map_filter_def filter_empty_conv)
  have "\<not> unslicked ?u" using slider_okD(6) [OF ok] by simp
  moreover have "\<not> animating ?u" if "?ks = []"
  proof -
    have "completions s = []" using that by (simp add: completions_def map_filter_def)
    then show ?thesis using tk by (simp add: tasks_ok_def)
  qed
  ultimately have "\<not> animating (settle \<E> s)" using f by (cases "?ks = []") auto
  moreover have "view (settle \<E> s) = view s" "flags (settle \<E> s) = flags s"
    "completions (settle \<E> s) = []"
    using f u c by simp_all
  ultimately show ?thesis
    using slider_ok_keep [OF ok, of "settle \<E> s"] by (simp add: good_def tasks_ok_def)
qed

text \<open>C17: when the pending animations have ended, the slider is not animating any more, it is in
  the same place as before and still consistent: \<open>animating\<close> never stays set.\<close>

theorem animation_ends:
  assumes "slider_ok \<E> s" "tasks_ok s"
  shows "\<not> animating (settle \<E> s) \<and> currentSlide (settle \<E> s) = currentSlide s \<and>
         slider_ok \<E> (settle \<E> s) \<and> tasks_ok (settle \<E> s)"
proof -
  have r: "good \<E> (settle \<E> s)" "\<not> animating (settle \<E> s)" "view (settle \<E> s) = view s"
    using settle_result [of \<E> s] assms by (simp_all add: good_def)
  then show ?thesis using view_eqD(9) [OF r(3)] by (simp add: good_def)
qed

theorem animation_ends_witness:
  "\<not> animating (settle plain_env start_state) \<and> currentSlide (settle plain_env start_state) = currentSlide start_state \<and>
   slider_ok plain_env (settle plain_env start_state) \<and> tasks_ok (settle plain_env start_state)"
  by (rule animation_ends) (simp_all add: start_state_good)

subsection \<open>Arrows\<close>

text \<open>The pages of an infinite slider are full, and the current slide starts one.\<close>

definition paged :: "slick \<Rightarrow> bool" where
  "paged s \<longleftrightarrow>
     o_infinite (options s) \<and> \<not> o_fade (options s) \<and> o_slidesToShow (options s) < slideCount s \<and>
     slideCount s mod o_slidesToScroll (options s) = 0 \<and>
     currentSlide s mod o_slidesToScroll (options s) = 0"

lemma paged_arrangement:
  assumes "arrangement t = arrangement s" "paged s"
    and "currentSlide t mod o_slidesToScroll (options s) = 0"
  shows "paged t"
  using assms by (simp add: paged_def arrangement_eqD [OF assms(1)])

lemma paged_view: "view t = view s \<Longrightarrow> paged t = paged s"
  by (simp add: paged_def view_eqD(2-5,9,10) [of t s])

lemma anim_slide_mod:
  assumes "slider_ok \<E> s" "slideCount s mod o_slidesToScroll (options s) = 0"
    and "- slideCount s \<le> i" "i < 2 * slideCount s"
  shows "anim_slide i s = i mod slideCount s"
proof -
  note ok = slider_okD [OF assms(1)]
  have "js_rem (slideCount s) (o_slidesToScroll (options s)) = 0" using ok assms(2) by simp
  moreover have "i mod slideCount s = i + slideCount s" if "i < 0"
  proof -
    have "(i + slideCount s) mod slideCount s = i + slideCount s"
      using that assms(3) by (intro mod_pos_pos_trivial) simp_all
    then show ?thesis by simp
  qed
  moreover have "i mod slideCount s = i - slideCount s" if "slideCount s \<le> i"
  proof -
    have "(i - slideCount s) mod slideCount s = i - slideCount s"
      using that assms(4) by (intro mod_pos_pos_trivial) simp_all
    then show ?thesis by simp
  qed
  ultimately show ?thesis
    using assms(3,4) ok by (auto simp: anim_slide_def Let_def)
qed

lemma paged_move:
  assumes "good \<E> s" "\<not> blocked s" "paged s"
    and "i = currentSlide s + o_slidesToScroll (options s) \<or> i = currentSlide s - o_slidesToScroll (options s)"
  shows "\<exists>t. slideHandler \<E> i sync d s = Some t \<and> good \<E> t \<and> arrangement t = arrangement s \<and>
           flags t = flags s \<and> currentSlide t = i mod slideCount s \<and> paged t"
proof -
  have sok: "slider_ok \<E> s" using assms(1) by (simp add: good_def)
  note ok = slider_okD [OF sok]
  have p: "o_infinite (options s)" "\<not> o_fade (options s)" "o_slidesToShow (options s) < slideCount s"
    "slideCount s mod o_slidesToScroll (options s) = 0"
    "currentSlide s mod o_slidesToScroll (options s) = 0"
    using assms(3) by (simp_all add: paged_def)
  have le: "o_slidesToScroll (options s) \<le> slideCount s" using even_scroll_le [OF ok(11,3) p(4)] .
  have io: "index_ok s i" using assms(4) page_index_ok [OF sok] by blast
  have r: "- slideCount s \<le> i" "i < 2 * slideCount s"
    using assms(4) le ok by auto
  have out: "out_of_range i s = Some False" using p(1) by (simp add: out_of_range_def Let_def)
  obtain t where t: "slideHandler \<E> i sync d s = Some t" "good \<E> t" "arrangement t = arrangement s"
    "flags t = flags s" "currentSlide t = anim_slide i s"
    using slideHandler_result [OF assms(1) io assms(2) _ p(3) out, of sync d] p(2) by auto
  have cur: "currentSlide t = i mod slideCount s"
    using t(5) anim_slide_mod [OF sok p(4) r] by simp
  have "i mod o_slidesToScroll (options s) = 0" using assms(4) p(5) by auto
  then have "(i mod slideCount s) mod o_slidesToScroll (options s) = 0"
    using p(4) by (simp add: mod_mod_cancel mod_eq_0_iff_dvd)
  then have "paged t" using paged_arrangement [OF t(3) assms(3)] cur by simp
  then show ?thesis using t cur by blast
qed

lemma changeSlide_paged:
  assumes "slider_ok \<E> s" "paged s"
  shows "changeSlide \<E> Next d s = slideHandler \<E> (currentSlide s + o_slidesToScroll (options s)) False d s"
    "changeSlide \<E> Previous d s = slideHandler \<E> (currentSlide s - o_slidesToScroll (options s)) False d s"
proof -
  note ok = slider_okD [OF assms(1)]
  have p: "o_slidesToShow (options s) < slideCount s"
    "slideCount s mod o_slidesToScroll (options s) = 0"
    "currentSlide s mod o_slidesToScroll (options s) = 0"
    using assms(2) by (simp_all add: paged_def)
  have "(slideCount s - currentSlide s) mod o_slidesToScroll (options s) = 0"
    using p(2,3) by (simp add: mod_eq_0_iff_dvd)
  then have "js_rem (slideCount s) (o_slidesToScroll (options s)) = 0"
    "js_rem (slideCount s - currentSlide s) (o_slidesToScroll (options s)) = 0"
    using ok p(2) by simp_all
  then show "changeSlide \<E> Next d s = slideHandler \<E> (currentSlide s + o_slidesToScroll (options s)) False d s"
    "changeSlide \<E> Previous d s = slideHandler \<E> (currentSlide s - o_slidesToScroll (options s)) False d s"
    using p(1) by (simp_all add: changeSlide_def Let_def)
qed

text \<open>C13: on an infinite slider whose slides fill its pages, \<open>next\<close> from the start of a page goes
  to the start of the following page, around the end, and once the animation has ended \<open>prev\<close>
  comes back.\<close>

theorem next_then_prev:
  assumes "slider_ok \<E> s" "tasks_ok s" "paged s" "\<not> animating s"
  shows "\<exists>t u. next_slide \<E> s = Some t \<and>
               currentSlide t = (currentSlide s + o_slidesToScroll (options s)) mod slideCount s \<and>
               prev_slide \<E> (settle \<E> t) = Some u \<and> currentSlide u = currentSlide s"
proof -
  have g: "good \<E> s" using assms(1,2) by (simp add: good_def)
  note ok = slider_okD [OF assms(1)]
  have nb: "\<not> blocked s" using assms(4) by (simp add: blocked_def)
  obtain t where t: "slideHandler \<E> (currentSlide s + o_slidesToScroll (options s)) False False s = Some t"
    "good \<E> t" "arrangement t = arrangement s"
    "currentSlide t = (currentSlide s + o_slidesToScroll (options s)) mod slideCount s" "paged t"
    using paged_move [OF g nb assms(3), of "currentSlide s + o_slidesToScroll (options s)" False False] by blast
  let ?t = "settle \<E> t"
  note r = settle_result [OF t(2)]
  have v: "view ?t = view t" using r by blast
  have pt: "paged ?t" using paged_view [OF v] t(5) by simp
  obtain u where u: "slideHandler \<E> (currentSlide ?t - o_slidesToScroll (options ?t)) False False ?t = Some u"
    "currentSlide u = (currentSlide ?t - o_slidesToScroll (options ?t)) mod slideCount ?t"
    using paged_move [OF _ _ pt, of \<E> "currentSlide ?t - o_slidesToScroll (options ?t)" False False] r
    by (auto simp: blocked_def)
  have "currentSlide u = currentSlide s"
    using u(2) t(4) ok(7,8) arrangement_eqD(2,7) [OF t(3)] view_eqD(3,9,10) [OF v]
    by (simp add: mod_diff_left_eq)
  moreover have "slider_ok \<E> ?t" using r by (simp add: good_def)
  ultimately show ?thesis
    using t u changeSlide_paged(1) [OF assms(1,3), of False] changeSlide_paged(2) [OF _ pt, of \<E> False]
    by (simp add: next_slide_def prev_slide_def)
qed

subsection \<open>Autoplay\<close>

text \<open>What the autoplay timer depends on: the running intervals, the one to be cleared, the option.\<close>

definition clock :: "slick \<Rightarrow> nat list \<times> nat option \<times> bool" where
  "clock s = (timers s, autoPlayTimer s, o_autoplay (options s))"

named_theorems clock_simps \<open>operations that do not touch the autoplay timer\<close>

lemmas clock_if [clock_simps] = if_distrib [of clock]

lemma clock_update [clock_simps]:
  "clock (s\<lparr>animating := b\<rparr>) = clock s" "clock (s\<lparr>swipeLeft := l\<rparr>) = clock s"
  "clock (s\<lparr>currentLeft := n\<rparr>) = clock s" "clock (s\<lparr>currentSlide := i\<rparr>) = clock s"
  "clock (s\<lparr>tasks := ts\<rparr>) = clock s" "clock (s\<lparr>trace := es\<rparr>) = clock s"
  "clock (s\<lparr>els := h\<rparr>) = clock s" "clock (s\<lparr>dotItems := ds\<rparr>) = clock s"
  "clock (s\<lparr>trackEl := e\<rparr>) = clock s" "clock (s\<lparr>listEl := e\<rparr>) = clock s"
  "clock (s\<lparr>slideOffset := r\<rparr>) = clock s" "clock (s\<lparr>listWidth := r\<rparr>) = clock s"
  "clock (s\<lparr>listHeight := r\<rparr>) = clock s" "clock (s\<lparr>slideWidth := r\<rparr>) = clock s"
  "clock (s\<lparr>prevArrow := p\<rparr>) = clock s" "clock (s\<lparr>nextArrow := p\<rparr>) = clock s"
  by (simp_all add: clock_def)

lemma clock_ops [clock_simps]:
  "clock (trigger e s) = clock s" "clock (mod_els is f s) = clock s"
  "clock (css_track p v s) = clock s" "clock (css_list p v s) = clock s"
  "clock (setCSS r s) = clock s" "clock (snd (getLeft \<E> i s)) = clock s"
  "clock (later t s) = clock s" "clock (updateDots s) = clock s" "clock (initADA s) = clock s"
  "clock (asNavFor i s) = clock s"
  by (simp_all add: trigger_def mod_els_def css_track_def css_list_def setCSS_def getLeft_def later_def
      updateDots_def initADA_def activateADA_def asNavFor_def clock_def Let_def split: option.split)

lemma clock_setSlideClasses [clock_simps]: "clock (setSlideClasses i s) = clock s"
  using still_eqD [OF still_frame [OF frame_setSlideClasses [of i s]]] by (simp add: clock_def)

lemma clock_layout [clock_simps]:
  "clock (setDimensions \<E> s) = clock s" "clock (setFade s) = clock s"
  "clock (setHeight \<E> s) = clock s" "clock (animateHeight \<E> s) = clock s"
proof -
  have "clock (write_option (o_zIndex_update f) u) = clock u" for f u
    by (simp add: clock_def write_option_def Let_def)
  then show "clock (setFade s) = clock s" by (simp add: setFade_def Let_def clock_simps)
qed (simp_all add: setDimensions_def setHeight_def animateHeight_def Let_def clock_simps)

lemma clock_setPosition [clock_simps]: "clock (setPosition \<E> s) = clock s"
  by (simp add: setPosition_def Let_def clock_simps split_beta)

lemma clock_moves [clock_simps]:
  "clock (applyTransition d s) = clock s" "clock (disableTransition d s) = clock s"
  "clock (animateSlide \<E> r i s) = clock s" "clock (fadeSlide i j s) = clock s"
  "clock (fadeSlideOut i s) = clock s"
  by (simp_all add: applyTransition_def disableTransition_def animateSlide_def fadeSlide_def
      fadeSlideOut_def Let_def clock_simps split: option.split)

lemma clock_nav: "nav_classes \<E> s = Some t \<Longrightarrow> clock t = clock s"
  by (auto simp: nav_classes_def clock_simps split: if_splits)

lemma clock_updateArrows: "updateArrows s = Some t \<Longrightarrow> clock t = clock s"
  by (auto simp: updateArrows_def Let_def clock_simps split: if_splits bind_splits)

text \<open>Autoplay is on and exactly one interval is running; or at most that one.\<close>

definition ticking :: "slick \<Rightarrow> bool" where
  "ticking s \<longleftrightarrow> o_autoplay (options s) \<and> (\<exists>k. autoPlayTimer s = Some k \<and> timers s = [k])"

definition single :: "slick \<Rightarrow> bool" where
  "single s \<longleftrightarrow> o_autoplay (options s) \<and> set (timers s) \<subseteq> set_option (autoPlayTimer s)"

lemma ticking_single: "ticking s \<Longrightarrow> single s"
  by (auto simp: ticking_def single_def)

lemma single_clock: "clock t = clock s \<Longrightarrow> single t = single s"
  by (simp add: clock_def single_def)

lemma ticking_clock: "clock t = clock s \<Longrightarrow> ticking t = ticking s"
  by (simp add: clock_def ticking_def)

lemma single_cleared: "single s \<Longrightarrow> timers (clear_interval (autoPlayTimer s) s) = []"
  by (auto simp: single_def clear_interval_def removeAll_filter_not_eq filter_empty_conv split: option.split)

lemma single_clear_interval:
  "single s \<Longrightarrow> single (clear_interval (autoPlayTimer s) s)"
  using single_cleared [of s] by (simp add: single_def clear_interval_def split: option.split)

lemma autoPlay_ticking:
  assumes "single s" "o_slidesToShow (options s) < slideCount s"
  shows "ticking (autoPlay s)"
proof -
  have c: "options (clear_interval u s) = options s" "slideCount (clear_interval u s) = slideCount s" for u
    by (simp_all add: clear_interval_def split: option.split)
  show ?thesis
    using assms single_cleared [OF assms(1)]
    by (simp add: autoPlay_def autoPlayClear_def Let_def c ticking_def single_def)
qed

lemma postSlide_ticking:
  assumes "single s" "\<not> unslicked s" "o_slidesToShow (options s) < slideCount s"
  shows "ticking (postSlide \<E> i s)"
proof -
  define u where "u = (setPosition \<E> ((trigger (E_afterChange i) s)\<lparr>animating := False\<rparr>))\<lparr>swipeLeft := None\<rparr>"
  have c: "clock u = clock s" by (simp add: u_def clock_simps)
  have "view u = view s" by (simp add: u_def view_simps)
  then have "o_slidesToShow (options u) < slideCount u" using assms(3) by (simp add: view_eqD(2,10) [of u s])
  then have "ticking (autoPlay u)" using autoPlay_ticking single_clock [OF c] assms(1) by simp
  moreover have "o_autoplay (options u)" using assms(1) single_clock [OF c] by (simp add: single_def)
  moreover have "postSlide \<E> i s =
      (let s3 = (if o_autoplay (options u) then autoPlay u else u)
       in if o_accessibility (options s3) then initADA s3 else s3)"
    using assms(2) by (simp add: postSlide_def u_def Let_def)
  ultimately show ?thesis using ticking_clock [OF clock_ops(9)] by (simp add: Let_def)
qed

lemma complete_ticking:
  assumes "single s" "\<not> unslicked s" "o_slidesToShow (options s) < slideCount s" "completion k \<noteq> None"
  shows "ticking (complete \<E> k s)"
proof (cases k)
  case (After_animation i)
  then show ?thesis using postSlide_ticking [OF assms(1-3)] by simp
next
  case (After_transition d i)
  have "view (disableTransition d s) = view s" by (simp add: view_simps)
  then show ?thesis
    using assms(1-3) single_clock [OF clock_moves(2)] view_eqD(2,10,16) [of "disableTransition d s" s]
    by (simp add: After_transition postSlide_ticking)
qed (use assms(4) in simp_all)

lemma settle_fold_ticking:
  assumes "list_all (\<lambda>k. completion k \<noteq> None) ks" "ks \<noteq> []"
    and "single s" "\<not> unslicked s" "o_slidesToShow (options s) < slideCount s"
  shows "ticking (fold (complete \<E>) ks s)"
  using assms
proof (induction ks arbitrary: s)
  case (Cons k ks)
  have v: "view (complete \<E> k s) = view s" using Cons.prems(1) view_complete [of k \<E> s] by simp
  have t: "ticking (complete \<E> k s)" using Cons.prems by (simp add: complete_ticking)
  show ?case
  proof (cases "ks = []")
    case False
    then show ?thesis
      using Cons.IH [of "complete \<E> k s"] Cons.prems ticking_single [OF t] view_eqD(2,10,16) [OF v] by simp
  qed (use t in simp)
qed simp

lemma settle_ticking:
  assumes "good \<E> s" "animating s" "single s" "o_slidesToShow (options s) < slideCount s"
  shows "ticking (settle \<E> s)"
proof -
  let ?ks = "filter (\<lambda>k. completion k \<noteq> None) (tasks s)"
  have "completions s \<noteq> []" using assms(1,2) by (simp add: good_def tasks_ok_def)
  then have "?ks \<noteq> []" by (auto simp: completions_def map_filter_def filter_empty_conv)
  then show ?thesis
    unfolding settle_def using assms slider_okD(6) [of \<E> s]
    by (intro settle_fold_ticking) (simp_all add: list_all_iff good_def single_def)
qed

text \<open>A move stops the interval; the callback of its animation starts it again.\<close>

lemma move_to_single:
  assumes "move_to \<E> i r False s = Some t" "single s"
  shows "single t"
proof -
  let ?s1 = "clear_interval (autoPlayTimer s) s"
  have a: "o_autoplay (options s)" using assms(2) by (simp add: single_def)
  have "clock t = clock ?s1"
    using assms(1) unfolding move_to_def Let_def if_P [OF a]
    by (auto simp: clock_simps dest!: clock_nav clock_updateArrows split: bind_splits if_splits)
  then show ?thesis using single_clock single_clear_interval [OF assms(2)] by blast
qed

lemma slideHandler_single:
  assumes "slideHandler \<E> i sync False s = Some t" "slider_ok \<E> s" "tasks_ok s" "index_ok s i"
    and "\<not> blocked s" "\<not> o_fade (options s)" "o_slidesToShow (options s) < slideCount s"
    and "out_of_range i s = Some False" "single s"
  shows "single t" "animating t"
proof -
  obtain s4 l l' where s4: "view s4 = view s" "completions s4 = completions s" "animating s4 = animating s"
    "options s4 = options s" "timers s4 = timers s" "autoPlayTimer s4 = autoPlayTimer s"
    and eq: "slideHandler \<E> i sync False s = do {
       out \<leftarrow> out_of_range i s4;
       if out then
         Some (if o_fade (options s) then s4
               else if \<not> False then animateSlide \<E> l' (currentSlide s4) s4
               else postSlide \<E> (currentSlide s4) s4)
       else move_to \<E> i l False s4}"
    using slideHandler_moves [of s i \<E> sync False] assms(5-7) by (auto simp: blocked_def)
  have "out_of_range i s4 = Some False"
    using assms(8) out_of_range_cong [OF s4(4) view_eqD(10) [OF s4(1)]] by simp
  then have m: "move_to \<E> i l False s4 = Some t" using assms(1) unfolding eq by simp
  moreover have "single s4" using assms(9) s4(4-6) by (simp add: single_def)
  ultimately show "single t" by (rule move_to_single)
  have "good \<E> s4" using good_keep [OF _ s4(1-3), of \<E>] assms(2,3) by (simp add: good_def)
  moreover have "index_ok s4 i" using assms(4) by (simp add: index_ok_def view_eqD [OF s4(1)])
  ultimately show "animating t" using move_to_ok [of \<E> s4 i l False] m by (auto simp: good_def)
qed

text \<open>
  A round of autoplay: a running interval ticks, and then the animations that are pending end.  Where
  no interval is running there is no round.
\<close>

definition autoplay_round :: "env \<Rightarrow> slick \<Rightarrow> slick option" where
  "autoplay_round \<E> s = (if timers s = [] then None else map_option (settle \<E>) (autoPlayIterator \<E> s))"

fun autoplay_rounds :: "env \<Rightarrow> nat \<Rightarrow> slick \<Rightarrow> slick option" where
  "autoplay_rounds \<E> 0 s = Some s"
| "autoplay_rounds \<E> (Suc n) s = Option.bind (autoplay_round \<E> s) (autoplay_rounds \<E> n)"

definition playing :: "slick \<Rightarrow> bool" where
  "playing s \<longleftrightarrow> \<not> paused s \<and> \<not> interrupted s \<and> \<not> focussed s"

lemma playing_flags: "flags t = flags s \<Longrightarrow> playing t = playing s"
  by (simp add: flags_def playing_def)

lemma autoplay_round_paged:
  assumes "good \<E> s" "paged s" "\<not> animating s" "playing s" "ticking s"
  shows "\<exists>t. autoplay_round \<E> s = Some t \<and> good \<E> t \<and> paged t \<and> \<not> animating t \<and> playing t \<and>
             ticking t \<and> slideCount t = slideCount s \<and>
             o_slidesToScroll (options t) = o_slidesToScroll (options s) \<and>
             currentSlide t = (currentSlide s + o_slidesToScroll (options s)) mod slideCount s"
proof -
  let ?i = "currentSlide s + o_slidesToScroll (options s)"
  have nb: "\<not> blocked s" using assms(3) by (simp add: blocked_def)
  have ok: "slider_ok \<E> s" "tasks_ok s" using assms(1) by (simp_all add: good_def)
  obtain t where t: "slideHandler \<E> ?i False False s = Some t"
    "good \<E> t" "arrangement t = arrangement s" "flags t = flags s"
    "currentSlide t = ?i mod slideCount s" "paged t"
    using paged_move [OF assms(1) nb assms(2), of ?i False False] by blast
  have "out_of_range ?i s = Some False" "o_slidesToShow (options s) < slideCount s" "\<not> o_fade (options s)"
    using assms(2) by (simp_all add: paged_def out_of_range_def Let_def)
  then have st: "single t" "animating t"
    using slideHandler_single [OF t(1) ok page_index_ok(1) [OF ok(1)] nb] ticking_single [OF assms(5)] by blast+
  have "o_slidesToShow (options t) < slideCount t" using t(6) by (simp add: paged_def)
  then have tick: "ticking (settle \<E> t)" using settle_ticking [OF t(2) st(2,1)] by simp
  note r = settle_result [OF t(2)]
  have v: "view (settle \<E> t) = view t" "flags (settle \<E> t) = flags s" using r t(4) by auto
  have "autoPlayIterator \<E> s = Some t"
    using t(1) assms(2,4) by (simp add: autoPlayIterator_def Let_def paged_def playing_def)
  moreover have "timers s \<noteq> []" using assms(5) by (auto simp: ticking_def)
  ultimately have "autoplay_round \<E> s = Some (settle \<E> t)" by (simp add: autoplay_round_def)
  then show ?thesis
    using r t(5,6) tick paged_view [OF v(1)] playing_flags [OF v(2)] assms(4)
      view_eqD(3,9,10) [OF v(1)] arrangement_eqD(2,7) [OF t(3)] by simp
qed

lemma autoplay_rounds_paged:
  assumes "good \<E> s" "paged s" "\<not> animating s" "playing s" "ticking s"
  shows "\<exists>t. autoplay_rounds \<E> n s = Some t \<and> ticking t \<and>
             currentSlide t = (currentSlide s + int n * o_slidesToScroll (options s)) mod slideCount s"
  using assms
proof (induction n arbitrary: s)
  case 0
  then show ?case using slider_okD(7,8) [of \<E> s] by (simp add: good_def)
next
  case (Suc n)
  obtain u where u: "autoplay_round \<E> s = Some u" "good \<E> u" "paged u" "\<not> animating u" "playing u"
    "ticking u" "slideCount u = slideCount s" "o_slidesToScroll (options u) = o_slidesToScroll (options s)"
    "currentSlide u = (currentSlide s + o_slidesToScroll (options s)) mod slideCount s"
    using autoplay_round_paged [OF Suc.prems] by blast
  have "((currentSlide s + o_slidesToScroll (options s)) mod slideCount s +
          int n * o_slidesToScroll (options s)) mod slideCount s =
        (currentSlide s + int (Suc n) * o_slidesToScroll (options s)) mod slideCount s"
    by (simp only: mod_add_left_eq) (simp add: algebra_simps)
  then show ?case using Suc.IH [OF u(2-6)] u(1,7-9) by simp
qed


lemma tour_state_simps:
  "paged tour_state" "playing tour_state" "slideCount tour_state = 4"
  "currentSlide tour_state = 0" "o_slidesToScroll (options tour_state) = 1"
proof -
  let ?s = "numbered (sample 4 [S_arrows False])"
  note e = unframed_eqD [OF unframed_setupInfinite [of ?s]]
  show "slideCount tour_state = 4" "currentSlide tour_state = 0"
    by (simp_all add: tour_state_def e) (simp_all add: numbered_def)
  show "o_slidesToScroll (options tour_state) = 1" "paged tour_state"
    by (simp_all add: tour_state_def paged_def e) (simp_all add: numbered_def)
  have "flags (setupInfinite ?s) = flags ?s" using e no_center_same by metis
  then show "playing tour_state"
    by (simp add: playing_def tour_state_def flags_def) (simp add: numbered_def)
qed

theorem next_then_prev_witness:
  "\<exists>t u. next_slide plain_env tour_state = Some t \<and>
         currentSlide t = (currentSlide tour_state + o_slidesToScroll (options tour_state))
                            mod slideCount tour_state \<and>
         prev_slide plain_env (settle plain_env t) = Some u \<and> currentSlide u = currentSlide tour_state"
  by (rule next_then_prev) (simp_all add: tour_state_good tour_state_simps)

lemma tour_plays:
  "good \<E> (play tour_state)" "paged (play tour_state)" "\<not> animating (play tour_state)"
  "playing (play tour_state)" "ticking (play tour_state)" "slideCount (play tour_state) = 4"
  "o_slidesToScroll (options (play tour_state)) = 1"
proof -
  note t = tour_state_simps
  let ?s = "numbered (sample 4 [S_arrows False])"
  note u = arg_cong [OF unframed_setupInfinite [of ?s]]
  have "timers (setupInfinite ?s) = timers ?s" "autoPlayTimer (setupInfinite ?s) = autoPlayTimer ?s"
    using u [of timers] u [of autoPlayTimer]
    by (simp_all add: unframed_def no_center_in_fade_def write_option_def Let_def)
  then have "timers tour_state = []" "autoPlayTimer tour_state = None"
    using still_eqD [OF still_frame [OF frame_setSlideClasses [of 0 "setupInfinite ?s"]]]
    by (simp_all add: tour_state_def) (simp_all add: numbered_def)
  then show "paged (play tour_state)" "\<not> animating (play tour_state)"
    "playing (play tour_state)" "ticking (play tour_state)" "slideCount (play tour_state) = 4"
    "o_slidesToScroll (options (play tour_state)) = 1"
    using tour_state_good [of \<E>] t
    by (simp_all add: good_def play_def write_option_def autoPlay_def autoPlayClear_def clear_interval_def Let_def
        paged_def playing_def ticking_def)
qed (use good_controls(2) tour_state_good in \<open>simp add: good_def\<close>)


text \<open>
  On a finite slider autoplay turns around when the next slide is the last one, so a slider that
  shows three slides or more never turns: at the end of its range each round leaves it where it is.
\<close>

lemma finite_autoplay_stuck:
  assumes "good \<E> s" "\<not> blocked s" "\<not> o_fade (options s)" "playing s" "direction s = 1"
    and "\<not> o_infinite (options s)" "\<not> o_centerMode (options s)" "o_asNavFor (options s) = None"
    and "o_slidesToScroll (options s) = 1" "2 < o_slidesToShow (options s)"
    and "o_slidesToShow (options s) < slideCount s"
    and "currentSlide s = slideCount s - o_slidesToShow (options s)"
  shows "\<exists>t. autoPlayIterator \<E> s = Some t \<and> currentSlide t = currentSlide s \<and> direction t = direction s"
proof -
  have ok: "opts_ok (options s)" using assms(9,10) by (simp add: opts_ok_def)
  have "dot_count s = slideCount s - o_slidesToShow (options s)"
    using assms(6-11) by (simp add: dot_count_def Let_def)
  then have out: "out_of_range (currentSlide s + 1) s = Some True"
    using out_of_range_finite [OF ok assms(6,7), of "currentSlide s + 1"] assms(9,12)
    by (simp add: last_index_def)
  have i: "autoPlayIterator \<E> s = slideHandler \<E> (currentSlide s + 1) False False s"
    using assms(4-12) by (simp add: autoPlayIterator_def Let_def playing_def)
  have "index_ok s (currentSlide s + 1)"
    using page_index_ok(1) [of \<E> s] assms(1,9) by (simp add: good_def)
  then obtain t where t: "slideHandler \<E> (currentSlide s + 1) False False s = Some t"
    "currentSlide t = currentSlide s" "flags t = flags s"
    using slideHandler_result [OF assms(1) _ assms(2) _ assms(11) out, of False False] assms(3) by auto
  moreover have "direction t = direction s" using t(3) by (simp add: flags_def)
  ultimately show ?thesis using i t(2) by auto
qed

end
