(* ===== verification/Slick_Start.thy ===== *)
theory Slick_Start
  imports Slick_Life Slick_Progress
begin

text \<open>
  What the constructor guarantees: a slider that has just been initialized is consistent in the
  sense of \<open>Slick_Machine\<close>, so all its theorems apply to it.
\<close>

subsection \<open>Wrapping the slides\<close>

lemma classes_set_index [simp]: "classes (set_index k is h i) = classes (h i)"
  by (induction "is" arbitrary: k h) (simp_all add: on_els_apply dom_simps)

lemma slick_index_attr: "slick_index (attr Data_slick_index (ANum k) e) = Some k"
  by (simp add: slick_index_def dom_simps)

lemma slick_index_set_index:
  "distinct is \<Longrightarrow>
     slick_index (set_index k is h i) =
       (if i \<in> set is then Some (int (k + position_of i is)) else slick_index (h i))"
proof (induction "is" arbitrary: k h)
  case (Cons j "is")
  then show ?case by (auto simp: on_els_apply slick_index_attr position_of_def)
qed simp

lemma position_of_nth: "distinct xs \<Longrightarrow> j < length xs \<Longrightarrow> position_of (xs ! j) xs = j"
proof (induction xs arbitrary: j)
  case (Cons x xs)
  then show ?case by (cases j) (auto simp: position_of_def)
qed simp

lemma slick_index_save_style [simp]: "slick_index (save_style e) = slick_index e"
  "classes (save_style e) = classes e"
  by (simp_all add: save_style_def slick_index_def)

text \<open>The children that become slides.\<close>

definition found_slides :: "env \<Rightarrow> slick \<Rightarrow> nat list" where
  "found_slides \<E> s = filter (\<lambda>i. Slick_cloned \<notin> classes (els s i)) (slide_children \<E> s (sliderKids s))"

text \<open>The fields that building does not touch.\<close>

lemma wrap_slides_same:
  "slides (wrap_slides \<E> s) = found_slides \<E> s" "track (wrap_slides \<E> s) = found_slides \<E> s"
  "slideCount (wrap_slides \<E> s) = int (length (found_slides \<E> s))"
  "nextEl (wrap_slides \<E> s) = nextEl s" "options (wrap_slides \<E> s) = options s"
  "currentSlide (wrap_slides \<E> s) = currentSlide s" "unslicked (wrap_slides \<E> s) = unslicked s"
  "tasks (wrap_slides \<E> s) = tasks s" "animating (wrap_slides \<E> s) = animating s"
  "dotItems (wrap_slides \<E> s) = dotItems s" "responsive (wrap_slides \<E> s) = responsive s"
  by (simp_all add: wrap_slides_def found_slides_def Let_def mod_els_def)

lemma wrap_slides_els:
  "els (wrap_slides \<E> s) =
     on_els (found_slides \<E> s) save_style
       (set_index 0 (found_slides \<E> s) (on_els (found_slides \<E> s) (addClass Slick_slide) (els s)))"
  by (simp add: wrap_slides_def found_slides_def Let_def mod_els_def)

lemma wrap_slides_bare:
  assumes "distinct (sliderKids s)" "\<forall>i \<in> set (sliderKids s). i < nextEl s"
  shows "bare_track (wrap_slides \<E> s)" "labelled (wrap_slides \<E> s)"
proof -
  have d: "distinct (found_slides \<E> s)" using assms(1) by (simp add: found_slides_def slide_children_distinct)
  have sub: "i \<in> set (sliderKids s) \<and> Slick_cloned \<notin> classes (els s i)" if "i \<in> set (found_slides \<E> s)" for i
    using that slide_children_subset [of \<E> s "sliderKids s"] by (auto simp: found_slides_def)
  show "bare_track (wrap_slides \<E> s)"
    using d sub assms(2)
    by (auto simp: bare_track_def wrap_slides_same wrap_slides_els on_els_apply dom_simps)
  show "labelled (wrap_slides \<E> s)"
    using d
    by (simp add: labelled_def wrap_slides_same wrap_slides_els on_els_apply slick_index_set_index position_of_nth)
qed

subsection \<open>Laying out\<close>

lemma bare_track_view: "view t = view s \<Longrightarrow> bare_track t = bare_track s"
  by (simp add: bare_track_def view_eqD(10-13,18) [of t s])

lemma labelled_view: "view t = view s \<Longrightarrow> labelled t = labelled s"
  by (simp add: labelled_def view_eqD(11,19) [of t s])

lemma write_option_track [simp]:
  "bare_track (write_option f s) = bare_track s" "labelled (write_option f s) = labelled s"
  by (simp_all add: write_option_def Let_def bare_track_def labelled_def)

lemma tame_mark_loading [simp]: "tame mark_loading"
  by (simp add: tame_def mark_loading_def slick_index_def)

definition unadorned :: "slick \<Rightarrow> slick" where
  "unadorned s = s\<lparr>dotItems := None, prevArrow := None, nextArrow := None\<rparr>"

lemma unadorned_forget [simp]: "view (unadorned (forget tg s)) = view (unadorned s)"
  by (simp add: unadorned_def forget_def view_def)

lemma unadorned_fields:
  "view (unadorned (s\<lparr>prevArrow := p\<rparr>)) = view (unadorned s)"
  "view (unadorned (s\<lparr>nextArrow := n\<rparr>)) = view (unadorned s)"
  "view (unadorned (s\<lparr>dotItems := d\<rparr>)) = view (unadorned s)"
  "view (unadorned (s\<lparr>sliderEl := e\<rparr>)) = view (unadorned s)"
  "view (unadorned (s\<lparr>prevInDoc := b\<rparr>)) = view (unadorned s)"
  "view (unadorned (s\<lparr>nextInDoc := b\<rparr>)) = view (unadorned s)"
  "view (unadorned (s\<lparr>dotsInDoc := b\<rparr>)) = view (unadorned s)"
  "view (unadorned (s\<lparr>dotsHidden := b\<rparr>)) = view (unadorned s)"
  by (simp_all add: unadorned_def view_def)

lemma new_arrow_same [simp]:
  "view (unadorned (new_arrow \<E> x tg s)) = view (unadorned s)" "options (new_arrow \<E> x tg s) = options s"
  "tasks (new_arrow \<E> x tg s) = tasks s" "animating (new_arrow \<E> x tg s) = animating s"
  "responsive (new_arrow \<E> x tg s) = responsive s" "dotItems (new_arrow \<E> x tg s) = dotItems s"
  "currentSlide (new_arrow \<E> x tg s) = currentSlide s"
  by (simp_all add: new_arrow_def forget_def unadorned_def view_def)

lemma buildArrows_same:
  "view (unadorned (buildArrows \<E> s)) = view (unadorned s)" "arrows_built (buildArrows \<E> s)"
  "options (buildArrows \<E> s) = options s" "tasks (buildArrows \<E> s) = tasks s"
  "animating (buildArrows \<E> s) = animating s" "responsive (buildArrows \<E> s) = responsive s"
  "dotItems (buildArrows \<E> s) = dotItems s" "currentSlide (buildArrows \<E> s) = currentSlide s"
  by (simp_all add: buildArrows_def Let_def unadorned_fields arrows_built_def)

lemma buildDots_ok:
  assumes "opts_ok (options s)"
  shows "\<exists>t. buildDots s = Some t \<and> view (unadorned t) = view (unadorned s) \<and>
             prevArrow t = prevArrow s \<and> nextArrow t = nextArrow s \<and> options t = options s \<and>
             tasks t = tasks s \<and> animating t = animating s \<and> responsive t = responsive s \<and>
             currentSlide t = currentSlide s \<and> slideCount t = slideCount s \<and>
             (o_dots (options s) \<and> many s \<longrightarrow> dotItems t \<noteq> None)"
  using getDotCount_Some [OF assms]
  by (simp add: buildDots_def many_def Let_def unadorned_fields) (auto simp: forget_def)

lemma unadorned_updateDots [simp]: "view (unadorned (updateDots s)) = view (unadorned s)"
  by (simp add: updateDots_def unadorned_fields split: option.split)

lemma updateDots_fields:
  "prevArrow (updateDots s) = prevArrow s" "nextArrow (updateDots s) = nextArrow s"
  "tasks (updateDots s) = tasks s" "responsive (updateDots s) = responsive s"
  "slideCount (updateDots s) = slideCount s" "dotItems (updateDots s) = None \<longleftrightarrow> dotItems s = None"
  by (simp_all add: updateDots_def Let_def split: option.split)

lemma setupInfinite_arrows_ok:
  assumes "bare_track s" "labelled s" "opts_ok (options s)" "\<not> unslicked s"
    and "0 \<le> currentSlide s" "currentSlide s < slideCount s" "nav_ok \<E> s"
  shows "base_ok \<E> ((setupInfinite s)\<lparr>dotItems := d, prevArrow := Some p, nextArrow := Some n\<rparr>)"
proof -
  let ?t = "setupInfinite s" and ?s = "no_center_in_fade s"
  let ?u = "?t\<lparr>dotItems := d, prevArrow := Some p, nextArrow := Some n\<rparr>"
  note e = unframed_eqD [OF unframed_setupInfinite [of s]]
  have w: "0 < o_slidesToShow (options s)" using assms(3) by (simp add: opts_ok_def)
  have cc: "clone_count ?u = clone_count ?t" by (rule clone_count_cong) simp_all
  have "track_ok ?u"
    using setupInfinite_track_ok [OF assms(1) w] by (simp add: track_ok_def cc)
  moreover have "labels_ok ?u"
    using setupInfinite_labels_ok [OF assms(1) w assms(2)] by (simp add: labels_ok_def cc)
  ultimately show ?thesis
    using assms(3-7)
    by (simp add: base_ok_def e no_center_same opts_ok_def arrows_built_def nav_ok_def has_nav_def)
qed

text \<open>A slider that \<open>buildOut\<close> can lay out.\<close>

definition ready :: "env \<Rightarrow> slick \<Rightarrow> bool" where
  "ready \<E> s \<longleftrightarrow>
     distinct (sliderKids s) \<and> (\<forall>i \<in> set (sliderKids s). i < nextEl s) \<and>
     opts_ok (options s) \<and> \<not> unslicked s \<and> nav_ok \<E> s \<and>
     0 \<le> currentSlide s \<and> currentSlide s < int (length (found_slides \<E> s))"

text \<open>Arrows and dots are there when the options ask for them.\<close>

definition furnished :: "slick \<Rightarrow> bool" where
  "furnished s \<longleftrightarrow> arrows_built s \<and> labelled s \<and> (o_dots (options s) \<and> many s \<longrightarrow> dotItems s \<noteq> None)"

definition prepared :: "env \<Rightarrow> slick \<Rightarrow> slick" where
  "prepared \<E> s =
     (let s1 = wrap_slides \<E> s;
          s2 = (if o_centerMode (options s1) \<or> o_swipeToSlide (options s1)
                then write_option (o_slidesToScroll_update (\<lambda>_. 1)) s1 else s1)
      in mod_els (inside s2) mark_loading s2)"

lemma prepared_ok:
  assumes "ready \<E> s"
  shows "bare_track (prepared \<E> s)" "labelled (prepared \<E> s)" "opts_ok (options (prepared \<E> s))"
    "\<not> unslicked (prepared \<E> s)" "0 \<le> currentSlide (prepared \<E> s)"
    "currentSlide (prepared \<E> s) < slideCount (prepared \<E> s)" "nav_ok \<E> (prepared \<E> s)"
    "tasks (prepared \<E> s) = tasks s" "animating (prepared \<E> s) = animating s"
    "responsive (prepared \<E> s) = responsive s" "currentSlide (prepared \<E> s) = currentSlide s"
    "slides (prepared \<E> s) = found_slides \<E> s" "o_slide (options (prepared \<E> s)) = o_slide (options s)"
proof -
  define s1 where "s1 = wrap_slides \<E> s"
  define s2 where "s2 = (if o_centerMode (options s1) \<or> o_swipeToSlide (options s1)
    then write_option (o_slidesToScroll_update (\<lambda>_. 1)) s1 else s1)"
  have p: "prepared \<E> s = mod_els (inside s2) mark_loading s2"
    by (simp only: prepared_def Let_def s2_def s1_def)
  note r = assms [unfolded ready_def]
  have b1: "bare_track s1" "labelled s1" using wrap_slides_bare r by (simp_all add: s1_def)
  have v: "view (prepared \<E> s) = view s2" unfolding p by (rule view_mod_els) simp
  have "bare_track s2" "labelled s2" using b1 by (simp_all add: s2_def)
  then show "bare_track (prepared \<E> s)" "labelled (prepared \<E> s)"
    using bare_track_view [OF v] labelled_view [OF v] by simp_all
  show "tasks (prepared \<E> s) = tasks s" "animating (prepared \<E> s) = animating s"
    "responsive (prepared \<E> s) = responsive s" "currentSlide (prepared \<E> s) = currentSlide s"
    "slides (prepared \<E> s) = found_slides \<E> s" "o_slide (options (prepared \<E> s)) = o_slide (options s)"
    "opts_ok (options (prepared \<E> s))" "\<not> unslicked (prepared \<E> s)" "0 \<le> currentSlide (prepared \<E> s)"
    "currentSlide (prepared \<E> s) < slideCount (prepared \<E> s)" "nav_ok \<E> (prepared \<E> s)"
    unfolding p s2_def s1_def using r
    by (simp_all add: mod_els_def write_option_def Let_def wrap_slides_same opts_ok_def nav_ok_def has_nav_def)
qed

lemma setupInfinite_labelled:
  assumes "bare_track s" "labelled s" "0 < o_slidesToShow (options s)"
  shows "labelled (setupInfinite s)"
proof -
  obtain "\<forall>j < nextEl s. els (setupInfinite s) j = els s j"
    using setupInfinite_parts [OF assms(1,3)] by metis
  then show ?thesis
    using assms(1,2) by (simp add: labelled_def bare_track_def unframed_eqD [OF unframed_setupInfinite])
qed

lemma buildOut_ok:
  assumes "ready \<E> s"
  shows "\<exists>t. buildOut \<E> s = Some t \<and> slider_ok \<E> t \<and> furnished t \<and> completions t = completions s \<and>
             animating t = animating s \<and> responsive t = responsive s \<and> currentSlide t = currentSlide s \<and>
             o_slide (options t) = o_slide (options s) \<and> slides t = found_slides \<E> s"
proof -
  define s3 where "s3 = prepared \<E> s"
  note p = prepared_ok [OF assms, folded s3_def]
  define s3' where "s3' = setupInfinite s3"
  note e = unframed_eqD [OF unframed_setupInfinite [of s3], folded s3'_def]
  have resp: "responsive s3' = responsive s3"
    using unframed_responsive [of s3] by (simp add: s3'_def)
  define s4 where "s4 = buildArrows \<E> s3'"
  note a = buildArrows_same [of \<E> s3', folded s4_def]
  have "opts_ok (options s3')" using p(3) by (simp add: e opts_ok_def)
  then obtain s5 where s5: "buildDots s4 = Some s5" "view (unadorned s5) = view (unadorned s4)"
    "prevArrow s5 = prevArrow s4" "nextArrow s5 = nextArrow s4" "options s5 = options s4"
    "tasks s5 = tasks s4" "animating s5 = animating s4" "responsive s5 = responsive s4"
    "currentSlide s5 = currentSlide s4" "slideCount s5 = slideCount s4"
    "o_dots (options s4) \<and> many s4 \<longrightarrow> dotItems s5 \<noteq> None"
    using buildDots_ok [of s4] by (auto simp: a)
  define s6 where "s6 = updateDots s5"
  define s7 where "s7 = setSlideClasses (currentSlide s6) s6"
  let ?t = "if o_draggable (options s7) then s7\<lparr>listEl := addClass Draggable (listEl s7)\<rparr> else s7"
  have out: "buildOut \<E> s = Some ?t"
    using s5(1) unfolding buildOut_def prepared_def [unfolded Let_def, of \<E> s, symmetric] Let_def
      s3_def [symmetric] s3'_def [symmetric] s4_def [symmetric]
    by (simp add: s7_def s6_def)
  have u6: "view (unadorned s6) = view (unadorned s3')" by (simp add: s6_def s5(2) a(1))
  have ar: "arrows_built s6"
    using a(2) by (simp add: arrows_built_def s6_def updateDots_fields updateDots_same s5)
  have b6: "base_ok \<E> s6"
  proof (rule view_without(1))
    show "view (s6\<lparr>dotItems := None, prevArrow := None, nextArrow := None\<rparr>) =
          view ((s3'\<lparr>dotItems := None, prevArrow := Some [], nextArrow := Some []\<rparr>)
                  \<lparr>dotItems := None, prevArrow := None, nextArrow := None\<rparr>)"
      using u6 by (simp add: unadorned_def)
    show "base_ok \<E> (s3'\<lparr>dotItems := None, prevArrow := Some [], nextArrow := Some []\<rparr>)"
      unfolding s3'_def using p(1-7) by (rule setupInfinite_arrows_ok)
  qed (rule ar)
  have cur: "currentSlide s6 = currentSlide s" "options s6 = options s3'"
    by (simp_all add: s6_def updateDots_same s5 a e p no_center_same)
  have sl: "slides s7 = found_slides \<E> s"
    using view_eqD(11) [OF u6] p(12) by (simp add: s7_def unadorned_def e no_center_same)
  have d6: "dots_ok s6"
    unfolding s6_def using p(3,5) by (intro updateDots_dots_ok) (simp_all add: s5 a e opts_ok_def)
  have "current_ok s7"
    unfolding s7_def using b6 by (intro setSlideClasses_current_ok) (simp_all add: base_ok_def)
  moreover have "base_ok \<E> s7" unfolding s7_def by (rule setSlideClasses_base_ok [OF b6])
  moreover have "dots_ok s7" using d6 by (simp add: dots_ok_def s7_def split: option.splits)
  ultimately have ok: "slider_ok \<E> s7" by (simp add: slider_ok_def)
  have "labelled s3'" unfolding s3'_def using p(1-3) by (intro setupInfinite_labelled) (simp_all add: opts_ok_def)
  then have l6: "labelled s6" using labelled_view [OF u6] by (simp add: labelled_def unadorned_def)
  then have "labelled s7" by (simp add: s7_def labelled_def)
  then have fu: "furnished s7"
    using ar s5(11) by (simp add: furnished_def arrows_built_def s7_def many_def s6_def updateDots_fields
        updateDots_same s5)
  have co: "completions s7 = completions s" "animating s7 = animating s" "responsive s7 = responsive s"
    "currentSlide s7 = currentSlide s"
    by (simp_all add: s7_def completions_setSlideClasses cur)
      (simp_all add: completions_def s6_def updateDots_fields updateDots_same s5 a e p no_center_same resp)
  have "slider_ok \<E> ?t \<and> furnished ?t \<and> completions ?t = completions s7 \<and> animating ?t = animating s7 \<and>
        responsive ?t = responsive s7 \<and> currentSlide ?t = currentSlide s7 \<and> slides ?t = slides s7"
  proof (cases "o_draggable (options s7)")
    case True
    have "slider_ok \<E> (s7\<lparr>listEl := x\<rparr>)" for x
      using slider_ok_keep [OF ok] by (simp add: view_simps)
    then show ?thesis
      using fu True by (simp add: furnished_def labelled_def arrows_built_def many_def completions_update)
  next
    case False
    then show ?thesis using ok fu by simp
  qed
  moreover have "o_slide (options s7) = o_slide (options s)"
    using p(13) by (simp add: s7_def cur(2) e no_center_in_fade_def write_option_def Let_def)
  ultimately show ?thesis using out co sl by auto
qed

subsection \<open>The rest of the initialization\<close>

lemma view_new_fields [view_simps]:
  "view (s\<lparr>bindings := bs\<rparr>) = view s" "view (s\<lparr>positionProp := x\<rparr>) = view s"
  "view (s\<lparr>cssTransitions := b\<rparr>) = view s" "view (s\<lparr>animType := a\<rparr>) = view s"
  "view (s\<lparr>transitionType := x\<rparr>) = view s" "view (s\<lparr>transformsEnabled := b\<rparr>) = view s"
  "view (s\<lparr>dotsHidden := b\<rparr>) = view s"
  by (simp_all add: view_def)

lemma completions_new_fields [view_simps]:
  "completions (s\<lparr>bindings := bs\<rparr>) = completions s" "completions (s\<lparr>positionProp := x\<rparr>) = completions s"
  "completions (s\<lparr>cssTransitions := b\<rparr>) = completions s" "completions (s\<lparr>animType := a\<rparr>) = completions s"
  "completions (s\<lparr>transformType := x\<rparr>) = completions s"
  "completions (s\<lparr>transitionType := x\<rparr>) = completions s"
  "completions (s\<lparr>transformsEnabled := b\<rparr>) = completions s" "completions (s\<lparr>sliderEl := e\<rparr>) = completions s"
  "completions (s\<lparr>dotsHidden := b\<rparr>) = completions s" "completions (s\<lparr>paused := b\<rparr>) = completions s"
  by (simp_all add: completions_def)

text \<open>What the steps after \<open>buildOut\<close> keep.\<close>

definition settled where
  "settled s = (completions s, animating s, (responsive s, o_slide (options s)), currentSlide s,
     furnished s, slides s)"

lemma view_zIndex: "view (write_option (o_zIndex_update f) s) = view s"
  by (simp add: write_option_def Let_def view_def)

definition kept where
  "kept s = (completions s, animating s, responsive s, dotItems s, o_dots (options s), o_slide (options s))"

lemma kept_zIndex: "kept (write_option (o_zIndex_update f) s) = kept s"
  by (simp add: write_option_def Let_def kept_def view_simps)

lemma kept_parts:
  "view (set_positionProp s) = view s \<and> kept (set_positionProp s) = kept s"
  "view (allow_transitions b s) = view s \<and> kept (allow_transitions b s) = kept s"
  "view (raise_zIndex s) = view s \<and> kept (raise_zIndex s) = kept s"
  "view (prefixed c d x y z s) = view s \<and> kept (prefixed c d x y z s) = kept s"
  subgoal by (simp add: set_positionProp_def view_simps kept_def)
  subgoal by (simp add: allow_transitions_def view_simps kept_def)
  subgoal by (simp add: raise_zIndex_def view_zIndex kept_zIndex)
  subgoal by (simp add: prefixed_def view_simps kept_def)
  done

lemma view_setProps: "view (setProps \<E> s) = view s \<and> kept (setProps \<E> s) = kept s"
proof -
  have t: "view (t\<lparr>transformsEnabled := b\<rparr>) = view t \<and> kept (t\<lparr>transformsEnabled := b\<rparr>) = kept t" for t b
    by (simp add: view_simps kept_def)
  show ?thesis unfolding setProps_def choose_transform_def Let_def by (simp only: t kept_parts)
qed

lemma furnished_view:
  assumes "view t = view s" "o_dots (options t) = o_dots (options s)" "dotItems t = None \<longleftrightarrow> dotItems s = None"
  shows "furnished t = furnished s"
  using assms(2,3) labelled_view [OF assms(1)]
  by (simp add: furnished_def arrows_built_def many_def view_eqD [OF assms(1)])

lemma setProps_settled: "settled (setProps \<E> s) = settled s"
proof -
  have v: "view (setProps \<E> s) = view s" and k: "kept (setProps \<E> s) = kept s"
    using view_setProps by blast+
  have "furnished (setProps \<E> s) = furnished s"
    using k by (intro furnished_view [OF v]) (simp_all add: kept_def)
  then show ?thesis using k view_eqD(9,11) [OF v] by (simp add: settled_def kept_def)
qed

lemma slider_ok_arrows:
  assumes "slider_ok \<E> s" "prevArrow s = Some p" "nextArrow s = Some n"
  shows "slider_ok \<E> (s\<lparr>prevArrow := Some p', nextArrow := Some n'\<rparr>)"
proof -
  let ?t = "s\<lparr>prevArrow := Some p', nextArrow := Some n'\<rparr>"
  have v: "view (?t\<lparr>dotItems := None, prevArrow := None, nextArrow := None\<rparr>) =
           view (s\<lparr>dotItems := None, prevArrow := None, nextArrow := None\<rparr>)" by (simp add: view_def)
  have "arrows_built ?t" by (simp add: arrows_built_def)
  then have "base_ok \<E> ?t" "current_ok ?t"
    using view_without [OF v] assms(1) by (auto simp: slider_ok_def)
  moreover have "dots_ok ?t" using assms(1) by (simp add: slider_ok_def dots_ok_def split: option.splits)
  ultimately show ?thesis by (simp add: slider_ok_def)
qed

lemma on_arrows_ok:
  assumes "slider_ok \<E> s" "furnished s"
  shows "\<exists>t. on_arrows f s = Some t \<and> slider_ok \<E> t \<and> settled t = settled s"
proof (cases "o_arrows (options s) \<and> many s")
  case True
  then obtain p n where "prevArrow s = Some p" "nextArrow s = Some n"
    using assms(2) by (auto simp: furnished_def labelled_def arrows_built_def)
  then show ?thesis
    using True assms slider_ok_arrows [OF assms(1)]
    by (simp add: on_arrows_def settled_def furnished_def labelled_def arrows_built_def many_def completions_update)
next
  case False
  then show ?thesis using assms(1) unfolding on_arrows_def if_not_P [OF False] by blast
qed

lemma on_dots_ok:
  assumes "slider_ok \<E> s" "furnished s"
  shows "\<exists>t. on_dots b s = Some t \<and> slider_ok \<E> t \<and> settled t = settled s"
proof -
  have "slider_ok \<E> (s\<lparr>dotsHidden := b\<rparr>)" by (rule slider_ok_keep [OF assms(1)]) (simp add: view_simps)
  then show ?thesis
    using assms
    by (auto simp: on_dots_def settled_def furnished_def labelled_def arrows_built_def many_def view_simps)
qed

lemma o_slide_view: "view t = view s \<Longrightarrow> o_slide (options t) = o_slide (options s)"
proof -
  assume "view t = view s"
  then have "(options t)\<lparr>o_autoplay := True, o_zIndex := 0\<rparr> = (options s)\<lparr>o_autoplay := True, o_zIndex := 0\<rparr>"
    by (simp add: view_def)
  from arg_cong [OF this, of o_slide] show ?thesis by simp
qed

text \<open>An update that keeps the view, the tasks and the dots.\<close>

lemma keepI:
  assumes "slider_ok \<E> s" "furnished s" "view t = view s" "completions t = completions s"
    and "animating t = animating s" "responsive t = responsive s"
    and "o_dots (options t) = o_dots (options s)" "dotItems t = None \<longleftrightarrow> dotItems s = None"
  shows "slider_ok \<E> t \<and> settled t = settled s \<and> furnished t"
  using slider_ok_keep [OF assms(1,3)] furnished_view [OF assms(3,7,8)] view_eqD(9,11) [OF assms(3)] assms
    o_slide_view [OF assms(3)]
  by (simp add: settled_def)

lemma settled_furnished: "settled t = settled s \<Longrightarrow> furnished t = furnished s"
  by (simp add: settled_def)

lemma startLoad_ok:
  assumes "slider_ok \<E> s" "furnished s"
  shows "\<exists>t. startLoad s = Some t \<and> slider_ok \<E> t \<and> settled t = settled s \<and> furnished t"
proof -
  obtain s1 where s1: "on_arrows hide s = Some s1" "slider_ok \<E> s1" "settled s1 = settled s"
    using on_arrows_ok [OF assms] by blast
  have f1: "furnished s1" using settled_furnished [OF s1(3)] assms(2) by simp
  obtain s2 where s2: "on_dots True s1 = Some s2" "slider_ok \<E> s2" "settled s2 = settled s1"
    using on_dots_ok [OF s1(2) f1] by blast
  have f2: "furnished s2" using settled_furnished [OF s2(3)] f1 by simp
  let ?t = "s2\<lparr>sliderEl := addClass Slick_loading (sliderEl s2)\<rparr>"
  have "slider_ok \<E> ?t \<and> settled ?t = settled s2 \<and> furnished ?t"
    by (rule keepI [OF s2(2) f2]) (simp_all add: view_simps)
  moreover have "startLoad s = Some ?t" by (simp add: startLoad_def s1(1) s2(1))
  ultimately show ?thesis using s1(3) s2(3) by auto
qed

lemma initUI_ok:
  assumes "slider_ok \<E> s" "furnished s"
  shows "\<exists>t. initUI s = Some t \<and> slider_ok \<E> t \<and> settled t = settled s \<and> furnished t"
proof -
  obtain s1 where s1: "on_arrows unhide s = Some s1" "slider_ok \<E> s1" "settled s1 = settled s"
    using on_arrows_ok [OF assms] by blast
  have f1: "furnished s1" using settled_furnished [OF s1(3)] assms(2) by simp
  obtain s2 where s2: "on_dots False s1 = Some s2" "slider_ok \<E> s2" "settled s2 = settled s1"
    using on_dots_ok [OF s1(2) f1] by blast
  then show ?thesis using s1 f1 settled_furnished [OF s2(3)] by (simp add: initUI_def)
qed

lemma still_ops:
  "still (mod_els is f s) = still s" "still (trigger e s) = still s"
  "still (css_track p v s) = still s" "still (css_list p v s) = still s"
  "still (s\<lparr>els := h\<rparr>) = still s"
  by (simp_all add: mod_els_def trigger_def css_track_def css_list_def)

lemma still_layout:
  "still (setCSS r s) = still s" "still (snd (getLeft \<E> i s)) = still s"
  "still (setFade s) = still s" "still (setHeight \<E> s) = still s"
  by (simp_all add: setCSS_def getLeft_def setFade_def setHeight_def Let_def still_ops)

lemma still_setDimensions: "still (setDimensions \<E> s) = still s"
  unfolding setDimensions_def Let_def
  by (simp only: still_ops still_update if_distrib [of still] if_cancel)

lemma still_setPosition: "still (setPosition \<E> s) = still s"
  by (simp add: setPosition_def Let_def split_beta still_ops still_layout still_setDimensions)

lemma loadSlider_ok:
  assumes "slider_ok \<E> s" "furnished s"
  shows "\<exists>t. loadSlider \<E>' s = Some t \<and> slider_ok \<E> t \<and> settled t = settled s \<and> furnished t"
proof -
  define s1 where "s1 = css_track ''opacity'' (CNum 1) (setPosition \<E>' s)"
  define s2 where "s2 = s1\<lparr>sliderEl := removeClass {Slick_loading} (sliderEl s1)\<rparr>"
  have v: "view s2 = view s" "completions s2 = completions s" "animating s2 = animating s"
    by (simp_all add: s2_def s1_def view_simps animating_simps)
  have "still (setPosition \<E>' s) = still s" by (rule still_setPosition)
  note q = still_eqD [OF this]
  have "responsive s2 = responsive s" "options s2 = options s" "dotItems s2 = dotItems s"
    by (simp_all add: s2_def s1_def css_track_def q)
  then have k: "slider_ok \<E> s2 \<and> settled s2 = settled s \<and> furnished s2"
    by (intro keepI [OF assms]) (simp_all add: v)
  then obtain s3 where s3: "initUI s2 = Some s3" "slider_ok \<E> s3" "settled s3 = settled s" "furnished s3"
    using initUI_ok [of \<E> s2] by auto
  let ?t = "if o_lazyLoad (options s3) = ''progressive'' then progressiveLazyLoad 1 s3 else s3"
  have p: "view (progressiveLazyLoad 1 s3) = view s3" "completions (progressiveLazyLoad 1 s3) = completions s3"
    "animating (progressiveLazyLoad 1 s3) = animating s3" "responsive (progressiveLazyLoad 1 s3) = responsive s3"
    "options (progressiveLazyLoad 1 s3) = options s3" "dotItems (progressiveLazyLoad 1 s3) = dotItems s3"
    by (simp_all add: progressiveLazyLoad_def view_simps animating_simps split: list.split prod.split)
      (simp_all add: later_def trigger_def split: list.split prod.split)
  have "slider_ok \<E> ?t \<and> settled ?t = settled s3 \<and> furnished ?t"
    using keepI [OF s3(2,4) p(1-4)] p(5,6) s3 by simp
  moreover have "loadSlider \<E>' s = Some ?t"
    using s3(1) by (simp add: loadSlider_def Let_def s2_def s1_def)
  ultimately show ?thesis using s3(3) by metis
qed

lemma event_same:
  "view (on_event b s) = view s" "kept (on_event b s) = kept s"
  "view (off_event k s) = view s" "kept (off_event k s) = kept s"
  "view (fold on_event bs s) = view s" "kept (fold on_event bs s) = kept s"
  by (simp_all add: fold_on_event on_event_def off_event_def view_simps kept_def)

lemma keptI:
  assumes "slider_ok \<E> s" "furnished s" "view t = view s" "kept t = kept s"
  shows "slider_ok \<E> t \<and> settled t = settled s \<and> furnished t"
  using assms(4) by (intro keepI [OF assms(1-3)]) (simp_all add: kept_def)

subsection \<open>The responsive settings and the cached slides\<close>

definition carried where
  "carried s = (responsive s, slidesCache s)"

named_theorems carried_simps \<open>operations that keep the responsive settings and the cached slides\<close>

lemmas carried_if [carried_simps] = if_distrib [of carried]

lemma carried_fields [carried_simps]:
  "carried (s\<lparr>els := h\<rparr>) = carried s" "carried (s\<lparr>slides := is\<rparr>) = carried s"
  "carried (s\<lparr>slideCount := n\<rparr>) = carried s" "carried (s\<lparr>currentSlide := i\<rparr>) = carried s"
  "carried (s\<lparr>options := o'\<rparr>) = carried s" "carried (s\<lparr>originalSettings := o'\<rparr>) = carried s"
  "carried (s\<lparr>prevArrow := p\<rparr>) = carried s" "carried (s\<lparr>nextArrow := p\<rparr>) = carried s"
  "carried (s\<lparr>prevInDoc := b\<rparr>) = carried s" "carried (s\<lparr>nextInDoc := b\<rparr>) = carried s"
  "carried (s\<lparr>dotItems := ds\<rparr>) = carried s" "carried (s\<lparr>dotsInDoc := b\<rparr>) = carried s"
  "carried (s\<lparr>dotsHidden := b\<rparr>) = carried s" "carried (s\<lparr>sliderEl := e\<rparr>) = carried s"
  "carried (s\<lparr>bindings := bs\<rparr>) = carried s" "carried (s\<lparr>trace := es\<rparr>) = carried s"
  "carried (s\<lparr>timers := us\<rparr>) = carried s" "carried (s\<lparr>nextTimer := k\<rparr>) = carried s"
  "carried (s\<lparr>autoPlayTimer := u\<rparr>) = carried s" "carried (s\<lparr>paused := b\<rparr>) = carried s"
  "carried (s\<lparr>positionProp := x\<rparr>) = carried s" "carried (s\<lparr>cssTransitions := b\<rparr>) = carried s"
  "carried (s\<lparr>animType := a\<rparr>) = carried s" "carried (s\<lparr>transformType := x\<rparr>) = carried s"
  "carried (s\<lparr>transitionType := x\<rparr>) = carried s" "carried (s\<lparr>transformsEnabled := b\<rparr>) = carried s"
  "carried (s\<lparr>track := is\<rparr>) = carried s" "carried (s\<lparr>nextEl := k\<rparr>) = carried s"
  "carried (s\<lparr>trackEl := e\<rparr>) = carried s" "carried (s\<lparr>listEl := e\<rparr>) = carried s"
  "carried (s\<lparr>tasks := ks\<rparr>) = carried s" "carried (s\<lparr>animating := b\<rparr>) = carried s"
  "carried (s\<lparr>dragging := b\<rparr>) = carried s" "carried (s\<lparr>direction := i\<rparr>) = carried s"
  "carried (s\<lparr>currentDirection := i\<rparr>) = carried s" "carried (s\<lparr>currentLeft := n'\<rparr>) = carried s"
  "carried (s\<lparr>swipeLeft := l\<rparr>) = carried s" "carried (s\<lparr>focussed := b\<rparr>) = carried s"
  "carried (s\<lparr>interrupted := b\<rparr>) = carried s" "carried (s\<lparr>shouldClick := b\<rparr>) = carried s"
  by (simp_all add: carried_def)

lemma carried_ops [carried_simps]:
  "carried (mod_els is f s) = carried s" "carried (trigger e s) = carried s"
  "carried (write_option g s) = carried s" "carried (forget tg s) = carried s"
  "carried (on_event b s) = carried s" "carried (off_event k s) = carried s"
  "carried (fold on_event bs s) = carried s" "carried (fold off_event ks s) = carried s"
  by (simp_all add: mod_els_def trigger_def write_option_def forget_def Let_def event_eqs carried_simps)

lemma carried_still: "still t = still s \<Longrightarrow> carried t = carried s"
  by (simp add: carried_def still_eqD(4,34) [of t s])

lemma carried_layout [carried_simps]:
  "carried (setPosition \<E> s) = carried s" "carried (setSlideClasses i s) = carried s"
  by (intro carried_still still_setPosition still_frame frame_setSlideClasses)+

lemma carried_parts [carried_simps]:
  "carried (set_positionProp s) = carried s" "carried (allow_transitions b s) = carried s"
  "carried (raise_zIndex s) = carried s" "carried (prefixed c d x y z s) = carried s"
  by (simp_all add: set_positionProp_def allow_transitions_def raise_zIndex_def prefixed_def carried_simps)

lemma carried_setProps [carried_simps]: "carried (setProps \<E> s) = carried s"
  unfolding setProps_def choose_transform_def Let_def by (simp only: carried_simps)

lemma carried_setupInfinite [carried_simps]: "carried (setupInfinite s) = carried s"
proof -
  have "carried t = carried (unframed t)" for t by (simp add: unframed_def carried_simps)
  then show ?thesis by (metis unframed_setupInfinite carried_simps no_center_in_fade_def)
qed

lemma carried_controls [carried_simps]:
  "carried (new_arrow \<E> x tg s) = carried s" "carried (updateDots s) = carried s"
  "carried (autoPlay s) = carried s" "carried (focusHandler s) = carried s"
  by (simp_all add: new_arrow_def updateDots_def autoPlay_def autoPlayClear_def
      clear_interval_def focusHandler_def Let_def carried_simps split: option.split)

lemma carried_initADA [carried_simps]: "carried (initADA s) = carried s"
  by (simp add: initADA_def activateADA_def Let_def carried_simps)

lemma carried_buildArrows [carried_simps]: "carried (buildArrows \<E> s) = carried s"
  by (simp add: buildArrows_def Let_def carried_simps)

lemma carried_buildDots: "buildDots s = Some t \<Longrightarrow> carried t = carried s"
  by (auto simp: buildDots_def Let_def carried_simps split: if_splits bind_splits)

text \<open>Only the arrows change in \<open>updateArrows\<close>.\<close>

lemma updateArrows_keeps:
  assumes "updateArrows s = Some t"
    and "\<And>p n. f (s\<lparr>prevArrow := p, nextArrow := n\<rparr>) = f s"
    and "\<And>p n. f (s\<lparr>nextArrow := n, prevArrow := p\<rparr>) = f s"
  shows "f t = f s"
proof (cases "o_arrows (options s) \<and> slideCount s > o_slidesToShow (options s) \<and> \<not> o_infinite (options s)")
  case False
  then show ?thesis using assms(1) unfolding updateArrows_def Let_def if_not_P [OF False] by simp
next
  case True
  then obtain p n where pn: "prevArrow s = Some p" "nextArrow s = Some n"
    using assms(1) by (cases "prevArrow s"; cases "nextArrow s") (simp_all add: updateArrows_def Let_def)
  have "map_option f (updateArrows s) = Some (f s)"
    unfolding updateArrows_def Let_def if_P [OF True] pn Option.bind.simps option.map
    by (simp only: if_distrib [of f] assms(2,3) if_cancel)
  then show ?thesis using assms(1) by simp
qed

lemma carried_updateArrows: "updateArrows s = Some t \<Longrightarrow> carried t = carried s"
  by (erule updateArrows_keeps) (simp_all only: carried_simps)

subsection \<open>Events, arrows and dots\<close>

lemma initializeEvents_ok:
  assumes "slider_ok \<E> s" "furnished s"
  shows "\<exists>t. initializeEvents s = Some t \<and> slider_ok \<E> t \<and> settled t = settled s \<and> furnished t"
proof -
  obtain a where a: "initArrowEvents s = Some a" "view a = view s" "kept a = kept s"
  proof (cases "o_arrows (options s) \<and> many s")
    case True
    then have "\<not> (prevArrow s = None \<or> nextArrow s = None)"
      using assms(2) by (auto simp: furnished_def labelled_def arrows_built_def)
    then show ?thesis
      using that unfolding initArrowEvents_def if_P [OF True] by (simp only: if_False event_same)
  next
    case False
    then show ?thesis using that unfolding initArrowEvents_def if_not_P [OF False] by blast
  qed
  define b where "b = initSlideEvents (initDotEvents a)"
  let ?t = "fold on_event (other_bindings b) b"
  have t: "initializeEvents s = Some ?t"
    unfolding initializeEvents_def a(1) Option.bind.simps Let_def b_def by (rule refl)
  have "view ?t = view s" "kept ?t = kept s"
    by (simp_all only: event_same b_def initSlideEvents_def initDotEvents_def a)
  then show ?thesis using keptI [OF assms] t by blast
qed

lemma updateArrows_responsive: "updateArrows s = Some t \<Longrightarrow> responsive t = responsive s"
  using carried_updateArrows by (simp add: carried_def)

lemma arrows_then_dots_ok:
  assumes "slider_ok \<E> s" "furnished s"
  shows "\<exists>t. updateArrows s = Some t \<and> slider_ok \<E> (updateDots t) \<and>
             settled (updateDots t) = settled s \<and> furnished (updateDots t)"
proof -
  have b: "arrows_built s" using assms(2) by (simp add: furnished_def)
  obtain t where t: "updateArrows s = Some t"
    "view (t\<lparr>dotItems := None, prevArrow := None, nextArrow := None\<rparr>) =
       view (s\<lparr>dotItems := None, prevArrow := None, nextArrow := None\<rparr>)"
    "arrows_built t" "dotItems t = dotItems s" "options t = options s"
    "currentSlide t = currentSlide s" "completions t = completions s" "animating t = animating s"
    "slideCount t = slideCount s"
    using updateArrows_Some [OF b, of None None None] by auto
  have resp: "responsive t = responsive s" by (rule updateArrows_responsive [OF t(1)])
  let ?t = "updateDots t"
  have v: "view (?t\<lparr>dotItems := None, prevArrow := None, nextArrow := None\<rparr>) =
           view (s\<lparr>dotItems := None, prevArrow := None, nextArrow := None\<rparr>)"
    using unadorned_updateDots [of t] t(2) by (simp add: unadorned_def)
  have ab: "arrows_built ?t" using t(3) by (simp add: arrows_built_def updateDots_fields updateDots_same)
  have "base_ok \<E> ?t" "current_ok ?t"
    using view_without [OF v ab] assms(1) by (auto simp: slider_ok_def)
  moreover have "dots_ok ?t"
    using slider_okD(3,7) [OF assms(1)] by (intro updateDots_dots_ok) (simp_all add: t)
  ultimately have "slider_ok \<E> ?t" by (simp add: slider_ok_def)
  moreover have "labelled ?t"
    using labelled_view [OF v] assms(2) by (simp add: furnished_def labelled_def)
  ultimately have "slider_ok \<E> ?t" "labelled ?t" by simp_all
  moreover from this have "furnished ?t"
    using assms(2) ab
    by (simp add: furnished_def many_def updateDots_fields updateDots_same t)
  ultimately show ?thesis
    using t(1) assms(2) view_eqD(11) [OF v]
    by (simp add: settled_def updateDots_fields updateDots_same t resp)
qed

text \<open>The steps of \<open>init\<close> between \<open>buildRows\<close> and \<open>checkResponsive\<close>.\<close>

definition assemble :: "env \<Rightarrow> slick \<Rightarrow> slick option" where
  "assemble \<E> a =
     do {
       b \<leftarrow> buildOut \<E> a;
       c \<leftarrow> startLoad (setProps \<E> b);
       d \<leftarrow> loadSlider \<E> c;
       e \<leftarrow> initializeEvents d;
       f \<leftarrow> updateArrows e;
       Some (updateDots f)
     }"

lemma assemble_ok:
  assumes "ready \<E> s"
  shows "\<exists>t. assemble \<E> s = Some t \<and> slider_ok \<E> t \<and> furnished t \<and> completions t = completions s \<and>
             animating t = animating s \<and> responsive t = responsive s \<and> currentSlide t = currentSlide s \<and>
             o_slide (options t) = o_slide (options s) \<and> slides t = found_slides \<E> s"
proof -
  obtain b where b: "buildOut \<E> s = Some b" "slider_ok \<E> b" "furnished b"
    "settled b = (completions s, animating s, (responsive s, o_slide (options s)), currentSlide s, True,
      found_slides \<E> s)"
    using buildOut_ok [OF assms] by (auto simp: settled_def)
  let ?p = "setProps \<E> b"
  have p: "slider_ok \<E> ?p" "settled ?p = settled b"
    using slider_ok_keep [OF b(2)] view_setProps setProps_settled by blast+
  have fp: "furnished ?p" using settled_furnished [OF p(2)] b(3) by simp
  obtain c where c: "startLoad ?p = Some c" "slider_ok \<E> c" "settled c = settled ?p" "furnished c"
    using startLoad_ok [OF p(1) fp] by blast
  obtain d where d: "loadSlider \<E> c = Some d" "slider_ok \<E> d" "settled d = settled c" "furnished d"
    using loadSlider_ok [OF c(2,4)] by blast
  obtain e where e: "initializeEvents d = Some e" "slider_ok \<E> e" "settled e = settled d" "furnished e"
    using initializeEvents_ok [OF d(2,4)] by blast
  obtain f where f: "updateArrows e = Some f" "slider_ok \<E> (updateDots f)"
    "settled (updateDots f) = settled e" "furnished (updateDots f)"
    using arrows_then_dots_ok [OF e(2,4)] by blast
  have "assemble \<E> s = Some (updateDots f)"
    by (simp add: assemble_def b(1) c(1) d(1) e(1) f(1))
  moreover have "settled (updateDots f) = (completions s, animating s, (responsive s, o_slide (options s)),
    currentSlide s, True, found_slides \<E> s)"
    by (simp only: f(3) e(3) d(3) c(3) p(2) b(4))
  ultimately show ?thesis using f(2,4) by (simp add: settled_def)
qed

subsection \<open>The constructor\<close>

lemma init_unfold:
  assumes "Slick_initialized \<notin> classes (sliderEl s)"
  shows "init (Suc n) \<E> creation s =
     do {
       a \<leftarrow> buildRows (s\<lparr>sliderEl := addClass Slick_initialized (sliderEl s)\<rparr>);
       f \<leftarrow> assemble \<E> a;
       g \<leftarrow> checkResponsive_with \<E> (init n \<E> False) True False f;
       let s1 = focusHandler g;
       let s2 = (if creation then trigger E_init s1 else s1);
       let s3 = (if o_accessibility (options s2) then initADA s2 else s2);
       Some (if o_autoplay (options s3) then autoPlay (s3\<lparr>paused := False\<rparr>) else s3)
     }"
  unfolding init.simps if_not_P [OF assms] assemble_def Let_def
  by (simp add: bind_assoc)

text \<open>The end of \<open>init\<close>.\<close>

lemma finish_ok:
  assumes "slider_ok \<E> g" "tasks_ok g"
  shows "good \<E> (let s1 = focusHandler g;
                    s2 = (if creation then trigger E_init s1 else s1);
                    s3 = (if o_accessibility (options s2) then initADA s2 else s2)
                in if o_autoplay (options s3) then autoPlay (s3\<lparr>paused := False\<rparr>) else s3)"
proof -
  have g: "good \<E> g" using assms by (simp add: good_def)
  have f: "good \<E> (focusHandler g)"
    by (rule good_keep [OF g]) (simp_all add: focusHandler_def event_eqs view_simps)
  have i: "good \<E> t \<Longrightarrow> good \<E> (initADA t)" for t
    by (rule good_keep) (simp_all add: view_simps animating_simps completions_postSlide)
  show ?thesis using f i by (simp add: Let_def)
qed

lemma finish_view:
  "view (let s1 = focusHandler g;
             s2 = (if creation then trigger E_init s1 else s1);
             s3 = (if o_accessibility (options s2) then initADA s2 else s2)
         in if o_autoplay (options s3) then autoPlay (s3\<lparr>paused := False\<rparr>) else s3) = view g"
  by (simp add: Let_def view_simps focusHandler_def event_eqs)

lemma finish_carried:
  "carried (let s1 = focusHandler g;
                s2 = (if creation then trigger E_init s1 else s1);
                s3 = (if o_accessibility (options s2) then initADA s2 else s2)
            in if o_autoplay (options s3) then autoPlay (s3\<lparr>paused := False\<rparr>) else s3) = carried g"
  by (simp add: Let_def carried_simps)

lemma finish_completions:
  "completions (let s1 = focusHandler g;
              s2 = (if creation then trigger E_init s1 else s1);
              s3 = (if o_accessibility (options s2) then initADA s2 else s2)
          in if o_autoplay (options s3) then autoPlay (s3\<lparr>paused := False\<rparr>) else s3) = completions g"
  by (simp add: Let_def view_simps focusHandler_def event_eqs)

lemma ready_cong:
  assumes "sliderKids t = sliderKids s" "nextEl t = nextEl s" "options t = options s" "els t = els s"
    and "unslicked t = unslicked s" "currentSlide t = currentSlide s"
  shows "ready \<E> t = ready \<E> s"
  using assms by (simp add: ready_def nav_ok_def has_nav_def found_slides_def slide_children_def)

lemma registerBreakpoints_none:
  "responsive s = None \<or> responsive s = Some [] \<Longrightarrow> registerBreakpoints s = s"
  by (auto simp: registerBreakpoints_def)

lemma init_ok:
  assumes "Slick_initialized \<notin> classes (sliderEl s)" "ready \<E> s" "o_rows (options s) \<le> 1"
    and "responsive s = None \<or> responsive s = Some []" "completions s = []" "\<not> animating s"
  shows "\<exists>t. init (Suc n) \<E> creation s = Some t \<and> good \<E> t \<and> slides t = found_slides \<E> s \<and>
           currentSlide t = currentSlide s \<and> responsive t = responsive s \<and>
           o_slide (options t) = o_slide (options s) \<and> labelled t \<and> completions t = []"
proof -
  let ?s = "s\<lparr>sliderEl := addClass Slick_initialized (sliderEl s)\<rparr>"
  let ?fin = "\<lambda>g. let s1 = focusHandler g;
                    s2 = (if creation then trigger E_init s1 else s1);
                    s3 = (if o_accessibility (options s2) then initADA s2 else s2)
                in if o_autoplay (options s3) then autoPlay (s3\<lparr>paused := False\<rparr>) else s3"
  have b: "buildRows ?s = Some ?s" using assms(3) by (simp add: buildRows_def)
  have "ready \<E> ?s" using ready_cong [of ?s s \<E>] assms(2) by simp
  then obtain f where f: "assemble \<E> ?s = Some f" "slider_ok \<E> f" "completions f = completions ?s"
    "animating f = animating ?s" "responsive f = responsive ?s" "slides f = found_slides \<E> ?s"
    "currentSlide f = currentSlide ?s"
    "o_slide (options f) = o_slide (options ?s)" "furnished f"
    using assemble_ok by blast
  have c: "checkResponsive_with \<E> (init n \<E> False) True False f = Some f"
    using f(5) assms(4) by (simp add: checkResponsive_with_def)
  have "tasks_ok f" using f(3,4) assms(5,6) by (simp add: tasks_ok_def completions_new_fields)
  then have g: "good \<E> (?fin f)" by (rule finish_ok [OF f(2)])
  have "slides f = found_slides \<E> s" "currentSlide f = currentSlide s" "responsive f = responsive s"
    "o_slide (options f) = o_slide (options s)"
    using f(5-8) by (simp_all add: found_slides_def slide_children_def)
  moreover have "init (Suc n) \<E> creation s = Some (?fin f)"
    unfolding init_unfold [OF assms(1)] b f(1) c Option.bind.simps Let_def ..
  moreover have "responsive (?fin f) = responsive f"
    using finish_carried [of f creation] unfolding carried_def by (rule Pair_inject)
  moreover have "labelled (?fin f)"
    using f(9) labelled_view [OF finish_view [of f creation]] by (simp only: furnished_def)
  moreover have "completions (?fin f) = []"
    using finish_completions [of f creation] f(3) assms(5) by (simp only: completions_new_fields)
  ultimately show ?thesis
    using g view_eqD(9,11) [OF finish_view [of f creation]] o_slide_view [OF finish_view [of f creation]]
    by (intro exI [of _ "?fin f"]) (simp only: simp_thms)
qed

text \<open>C3: the constructor succeeds, for a slider whose children are distinct elements, whose options make
  sense and which starts at one of its slides; its slides are the children, in their order, and the
  state it makes is consistent: every theorem about the running slider applies from the start.\<close>

theorem constructor_establishes_invariant:
  assumes "Slick_initialized \<notin> classes (sliderEl s)" "ready \<E> s" "o_rows (options s) \<le> 1"
    and "responsive s = None" "completions s = []" "\<not> animating s"
  shows "\<exists>t. construct (Suc n) \<E> s = Some t \<and> slides t = found_slides \<E> s \<and>
           currentSlide t = currentSlide s \<and> slider_ok \<E> t \<and> tasks_ok t"
  using init_ok [of s \<E> n True] assms registerBreakpoints_none [of s]
  by (auto simp: construct_def good_def)

text \<open>A slider of five children as the constructor finds it.\<close>

definition fresh_slider :: "setting list \<Rightarrow> slick" where
  "fresh_slider ss = new_slick 0 [0, 1, 2, 3, 4] (\<lambda>_. blank) 5 blank ss [] None []"

lemma fresh_slider_simps [simp]:
  "options (fresh_slider ss) = extend_options defaults ss" "sliderKids (fresh_slider ss) = [0, 1, 2, 3, 4]"
  "els (fresh_slider ss) = (\<lambda>_. blank)" "nextEl (fresh_slider ss) = 5" "sliderEl (fresh_slider ss) = blank"
  "responsive (fresh_slider ss) = None" "animating (fresh_slider ss) = False"
  "unslicked (fresh_slider ss) = False" "tasks (fresh_slider ss) = []"
  "currentSlide (fresh_slider ss) = o_initialSlide (extend_options defaults ss)"
  by (simp_all add: fresh_slider_def new_slick_def Let_def)

theorem constructor_establishes_invariant_witness:
  "\<exists>t. construct (Suc 0) plain_env (fresh_slider [S_dots True, S_slidesToShow 2]) = Some t \<and>
       slides t = found_slides plain_env (fresh_slider [S_dots True, S_slidesToShow 2]) \<and>
       currentSlide t = currentSlide (fresh_slider [S_dots True, S_slidesToShow 2]) \<and>
       slider_ok plain_env t \<and> tasks_ok t"
  by (rule constructor_establishes_invariant)
    (simp_all add: blank_def ready_def found_slides_def slide_children_def opts_ok_def nav_ok_def has_nav_def
      completions_def)

end
