(* ===== verification/Slick_Slides.thy ===== *)
theory Slick_Slides
  imports Slick_Start
begin

text \<open>
  The slides of a slider that is running: what \<open>reinit\<close> makes of the track, and with it what adding,
  removing and filtering slides do to the slider.
\<close>

subsection \<open>What \<open>reinit\<close> does\<close>

definition regroup :: "env \<Rightarrow> slick \<Rightarrow> slick" where
  "regroup \<E> s =
     (let found = slide_children \<E> s (track s);
          s1 = (mod_els found (addClass Slick_slide) s)\<lparr>slides := found, slideCount := int (length found)\<rparr>;
          s2 = (if currentSlide s1 \<ge> slideCount s1 \<and> currentSlide s1 \<noteq> 0
                then s1\<lparr>currentSlide := currentSlide s1 - o_slidesToScroll (options s1)\<rparr> else s1)
      in if slideCount s2 \<le> o_slidesToShow (options s2) then s2\<lparr>currentSlide := 0\<rparr> else s2)"

text \<open>The current slide after \<open>reinit\<close>, for \<open>n\<close> slides.\<close>

definition recentred :: "int \<Rightarrow> slick \<Rightarrow> int" where
  "recentred n s =
     (if n \<le> o_slidesToShow (options s) then 0
      else if currentSlide s \<ge> n \<and> currentSlide s \<noteq> 0
      then currentSlide s - o_slidesToScroll (options s) else currentSlide s)"

lemma regroup_same:
  "slides (regroup \<E> s) = slide_children \<E> s (track s)" "track (regroup \<E> s) = track s"
  "slideCount (regroup \<E> s) = int (length (slide_children \<E> s (track s)))"
  "options (regroup \<E> s) = options s" "nextEl (regroup \<E> s) = nextEl s"
  "unslicked (regroup \<E> s) = unslicked s" "completions (regroup \<E> s) = completions s"
  "animating (regroup \<E> s) = animating s" "carried (regroup \<E> s) = carried s"
  "els (regroup \<E> s) = on_els (slide_children \<E> s (track s)) (addClass Slick_slide) (els s)"
  "currentSlide (regroup \<E> s) = recentred (int (length (slide_children \<E> s (track s)))) s"
proof -
  define found where "found = slide_children \<E> s (track s)"
  define s1 where "s1 = (mod_els found (addClass Slick_slide) s)\<lparr>slides := found, slideCount := int (length found)\<rparr>"
  define s2 where "s2 = (if currentSlide s1 \<ge> slideCount s1 \<and> currentSlide s1 \<noteq> 0
    then s1\<lparr>currentSlide := currentSlide s1 - o_slidesToScroll (options s1)\<rparr> else s1)"
  have r: "regroup \<E> s = (if slideCount s2 \<le> o_slidesToShow (options s2) then s2\<lparr>currentSlide := 0\<rparr> else s2)"
    by (simp only: regroup_def Let_def s2_def s1_def found_def)
  have s1: "slides s1 = found" "track s1 = track s" "slideCount s1 = int (length found)"
    "options s1 = options s" "nextEl s1 = nextEl s" "unslicked s1 = unslicked s" "completions s1 = completions s"
    "animating s1 = animating s" "carried s1 = carried s" "currentSlide s1 = currentSlide s"
    "els s1 = on_els found (addClass Slick_slide) (els s)"
    by (simp_all add: s1_def mod_els_def completions_def carried_def)
  have f: "slides (t\<lparr>currentSlide := c\<rparr>) = slides t" "track (t\<lparr>currentSlide := c\<rparr>) = track t"
    "slideCount (t\<lparr>currentSlide := c\<rparr>) = slideCount t" "options (t\<lparr>currentSlide := c\<rparr>) = options t"
    "nextEl (t\<lparr>currentSlide := c\<rparr>) = nextEl t" "unslicked (t\<lparr>currentSlide := c\<rparr>) = unslicked t"
    "completions (t\<lparr>currentSlide := c\<rparr>) = completions t" "animating (t\<lparr>currentSlide := c\<rparr>) = animating t"
    "carried (t\<lparr>currentSlide := c\<rparr>) = carried t" "els (t\<lparr>currentSlide := c\<rparr>) = els t"
    "currentSlide (t\<lparr>currentSlide := c\<rparr>) = c" for t :: slick and c
    by (simp_all add: completions_def carried_def)
  note split = if_distrib [of slides] if_distrib [of track] if_distrib [of slideCount] if_distrib [of options]
    if_distrib [of nextEl] if_distrib [of unslicked] if_distrib [of completions] if_distrib [of animating]
    if_distrib [of carried] if_distrib [of els] if_distrib [of currentSlide]
  note all = r s2_def split f s1 if_cancel found_def [symmetric] recentred_def
  show "slides (regroup \<E> s) = slide_children \<E> s (track s)" "track (regroup \<E> s) = track s"
    "slideCount (regroup \<E> s) = int (length (slide_children \<E> s (track s)))"
    "options (regroup \<E> s) = options s" "nextEl (regroup \<E> s) = nextEl s"
    "unslicked (regroup \<E> s) = unslicked s" "completions (regroup \<E> s) = completions s"
    "animating (regroup \<E> s) = animating s" "carried (regroup \<E> s) = carried s"
    "els (regroup \<E> s) = on_els (slide_children \<E> s (track s)) (addClass Slick_slide) (els s)"
    "currentSlide (regroup \<E> s) = recentred (int (length (slide_children \<E> s (track s)))) s"
    by (simp_all only: all)
qed

lemma initArrowEvents_result:
  assumes "arrows_built s"
  shows "\<exists>a. initArrowEvents s = Some a \<and> view a = view s \<and> kept a = kept s \<and> carried a = carried s"
proof (cases "o_arrows (options s) \<and> many s")
  case True
  then have np: "\<not> (prevArrow s = None \<or> nextArrow s = None)" using assms by (auto simp: arrows_built_def)
  let ?a = "on_event (bound s On_next ''click'' (H_changeSlide ''next''))
             (off_event (Key On_next ''click'' None None)
               (on_event (bound s On_prev ''click'' (H_changeSlide ''previous''))
                 (off_event (Key On_prev ''click'' None None) s)))"
  have "initArrowEvents s = Some ?a" unfolding initArrowEvents_def if_P [OF True] using np by (simp only: if_False)
  moreover have "view ?a = view s" "kept ?a = kept s" "carried ?a = carried s"
    by (simp_all only: event_same carried_simps)
  ultimately show ?thesis by blast
next
  case False
  then show ?thesis unfolding initArrowEvents_def if_not_P [OF False] by blast
qed

lemma fold_off_event_same: "view (fold off_event ks s) = view s" "kept (fold off_event ks s) = kept s"
  by (simp_all add: fold_off_event view_simps kept_def)

lemma unadorned_view: "view t = view s \<Longrightarrow> view (unadorned t) = view (unadorned s)"
  unfolding unadorned_def view_def by simp

lemma arrows_built_view: "view t = view s \<Longrightarrow> arrows_built t = arrows_built s"
  by (simp add: arrows_built_def view_eqD(7,14,15) [of t s])

lemma reinit_unfold:
  "reinit n \<E> s =
     do {
       a \<leftarrow> updateArrows (buildArrows \<E> (setupInfinite (setProps \<E> (registerBreakpoints (regroup \<E> s)))));
       b \<leftarrow> initArrowEvents a;
       c \<leftarrow> buildDots b;
       e \<leftarrow> checkResponsive n \<E> False True (initSlideEvents (cleanUpSlideEvents (initDotEvents (updateDots c))));
       let f = fold on_event (select_bindings e) e;
       let g = focusHandler (setPosition \<E> (setSlideClasses (currentSlide f) f));
       Some (trigger E_reInit (autoPlay (g\<lparr>paused := \<not> o_autoplay (options g)\<rparr>)))
     }"
  by (simp only: reinit_def regroup_def Let_def)

text \<open>
  Up to the classes, the dots and the arrows, \<open>reinit\<close> is \<open>setupInfinite\<close> after \<open>regroup\<close>: \<open>d\<close> is
  the state before the classes are set.
\<close>

lemma reinit_result:
  assumes "responsive s = None \<or> responsive s = Some []" "opts_ok (options s)"
    and "0 \<le> currentSlide (regroup \<E> s)"
  obtains d t where "reinit n \<E> s = Some t"
    "view (unadorned d) = view (unadorned (setupInfinite (setProps \<E> (regroup \<E> s))))"
    "arrows_built d" "dots_ok d" "view t = view (setSlideClasses (currentSlide d) d)"
    "completions t = completions s" "animating t = animating s" "carried t = carried s"
proof -
  define p where "p = setProps \<E> (regroup \<E> s)"
  define q where "q = setupInfinite p"
  note e = unframed_eqD [OF unframed_setupInfinite [of p], folded q_def]
  have vp: "view p = view (regroup \<E> s)" and kp: "kept p = kept (regroup \<E> s)"
    using view_setProps unfolding p_def by blast+
  define s4 where "s4 = buildArrows \<E> q"
  note a = buildArrows_same [of \<E> q, folded s4_def]
  have opts: "opts_ok (options q)" "0 \<le> currentSlide q"
    using view_eqD(1,9) [OF vp] assms(2,3) by (simp_all add: e no_center_same opts_ok_def regroup_same)
  have co: "completions q = completions s" "animating q = animating s"
    using kp by (simp_all add: completions_def kept_def e no_center_same regroup_same [unfolded completions_def])
  have ca: "carried q = carried s" by (simp add: q_def p_def carried_simps regroup_same)
  obtain b where b: "updateArrows s4 = Some b"
    "view (b\<lparr>dotItems := None, prevArrow := None, nextArrow := None\<rparr>) =
       view (s4\<lparr>dotItems := None, prevArrow := None, nextArrow := None\<rparr>)"
    "arrows_built b" "options b = options s4" "currentSlide b = currentSlide s4"
    "completions b = completions s4" "animating b = animating s4"
    using updateArrows_Some [OF a(2), of None None None] by auto
  obtain c where c: "initArrowEvents b = Some c" "view c = view b" "kept c = kept b" "carried c = carried b"
    using initArrowEvents_result [OF b(3)] by blast
  have oc: "opts_ok (options c)" "arrows_built c"
    using opts(1) b(3) view_eqD(1) [OF c(2)] arrows_built_view [OF c(2)] by (simp_all add: b(4) a)
  obtain d0 where d0: "buildDots c = Some d0" "view (unadorned d0) = view (unadorned c)"
    "prevArrow d0 = prevArrow c" "nextArrow d0 = nextArrow c" "options d0 = options c"
    "tasks d0 = tasks c" "animating d0 = animating c" "currentSlide d0 = currentSlide c"
    using buildDots_ok [OF oc(1)] by blast
  define d where "d = initSlideEvents (cleanUpSlideEvents (initDotEvents (updateDots d0)))"
  have vd: "view d = view (updateDots d0)" "kept d = kept (updateDots d0)" "carried d = carried (updateDots d0)"
    by (simp_all only: d_def initSlideEvents_def cleanUpSlideEvents_def initDotEvents_def event_same
        fold_off_event_same carried_simps)
  have cd: "carried d = carried s"
    using vd(3) carried_buildDots [OF d0(1)] c(4) carried_updateArrows [OF b(1)] ca
    by (simp add: carried_simps s4_def)
  then have rd: "responsive d = responsive s" by (simp add: carried_def)
  define f where "f = fold on_event (select_bindings d) d"
  have vf: "view f = view d" "kept f = kept d" "carried f = carried d"
    by (simp_all only: f_def event_same carried_simps)
  define g where "g = focusHandler (setPosition \<E> (setSlideClasses (currentSlide f) f))"
  let ?t = "trigger E_reInit (autoPlay (g\<lparr>paused := \<not> o_autoplay (options g)\<rparr>))"
  have "responsive (regroup \<E> s) = responsive s" using regroup_same(9) [of \<E> s] by (simp add: carried_def)
  then have rb: "registerBreakpoints (regroup \<E> s) = regroup \<E> s"
    using assms(1) by (intro registerBreakpoints_none) simp
  show thesis
  proof (rule that [of ?t f])
    have "checkResponsive n \<E> False True d = Some d"
      using assms(1) rd by (auto simp: checkResponsive_def checkResponsive_with_def)
    then show "reinit n \<E> s = Some ?t"
      unfolding reinit_unfold rb Let_def p_def [symmetric] q_def [symmetric] s4_def [symmetric] b(1) c(1) d0(1)
        Option.bind.simps d_def [symmetric]
      by (simp only: Option.bind.simps f_def g_def)
    have "view (unadorned f) = view (unadorned (updateDots d0))"
      using unadorned_view [OF vf(1)] unadorned_view [OF vd(1)] by simp
    also have "\<dots> = view (unadorned c)" by (simp add: d0(2))
    also have "\<dots> = view (unadorned q)"
      using unadorned_view [OF c(2)] b(2) a(1) by (simp add: unadorned_def)
    finally show "view (unadorned f) = view (unadorned (setupInfinite (setProps \<E> (regroup \<E> s))))"
      by (simp only: q_def p_def)
    have "arrows_built (updateDots d0)"
      using oc(2) by (simp add: arrows_built_def updateDots_fields updateDots_same d0)
    then show "arrows_built f" using arrows_built_view [OF vf(1)] arrows_built_view [OF vd(1)] by simp
    have "0 < o_slidesToScroll (options d0)" "0 \<le> currentSlide d0"
      using oc(1) opts(2) view_eqD(9) [OF c(2)] by (simp_all add: d0 opts_ok_def b(5) a)
    then have "dots_ok (updateDots d0)" by (rule updateDots_dots_ok)
    then show "dots_ok f" using dots_ok_view [OF vf(1)] dots_ok_view [OF vd(1)] by simp
    show "view ?t = view (setSlideClasses (currentSlide f) f)"
      by (simp add: view_simps g_def focusHandler_def event_eqs)
    have kf: "completions f = completions s" "animating f = animating s"
      using vf(2) vd(2) c(3) co b(6) d0(6) a(4)
      by (simp_all add: kept_def updateDots_same d0(7) b(7) a(5) completions_def updateDots_fields)
    show "completions ?t = completions s" "animating ?t = animating s"
      using kf by (simp_all add: view_simps animating_simps g_def focusHandler_def event_eqs)
    show "carried ?t = carried s" using vf(3) cd by (simp add: carried_simps g_def)
  qed
qed

text \<open>
  \<open>t\<close> is the slider \<open>s\<close> after \<open>reinit\<close>: its slides are the children of the track of \<open>s\<close>, and it has new
  clones; the elements it had before keep their labels.
\<close>

definition regrouped :: "env \<Rightarrow> slick \<Rightarrow> slick \<Rightarrow> bool" where
  "regrouped \<E> s t \<longleftrightarrow>
     slides t = track s \<and> track_ok t \<and> nextEl s \<le> nextEl t \<and>
     (\<forall>j < nextEl s. slick_index (els t j) = slick_index (els s j) \<and>
        (Slick_cloned \<in> classes (els t j) \<longleftrightarrow> Slick_cloned \<in> classes (els s j))) \<and>
     currentSlide t = recentred (int (length (track s))) s \<and>
     o_slide (options t) = o_slide (options s) \<and>
     o_slidesToShow (options t) = o_slidesToShow (options s) \<and>
     o_slidesToScroll (options t) = o_slidesToScroll (options s) \<and>
     o_asNavFor (options t) = o_asNavFor (options s) \<and> unslicked t = unslicked s \<and>
     completions t = completions s \<and> animating t = animating s \<and> carried t = carried s"

definition sound_track :: "slick \<Rightarrow> bool" where
  "sound_track s \<longleftrightarrow>
     distinct (track s) \<and> (\<forall>i \<in> set (track s). i < nextEl s \<and> Slick_cloned \<notin> classes (els s i))"

definition numbered_track :: "slick \<Rightarrow> bool" where
  "numbered_track s \<longleftrightarrow> (\<forall>j < length (track s). slick_index (els s (track s ! j)) = Some (int j))"

lemma regroup_bare:
  assumes "o_slide (options s) = []" "sound_track s"
  shows "bare_track (setProps \<E> (regroup \<E> s))" "slides (regroup \<E> s) = track s"
    "numbered_track s \<Longrightarrow> labelled (setProps \<E> (regroup \<E> s))"
proof -
  have v: "view (setProps \<E> (regroup \<E> s)) = view (regroup \<E> s)" using view_setProps by blast
  have t: "slide_children \<E> s (track s) = track s" using assms(1) by (simp add: slide_children_def)
  show "slides (regroup \<E> s) = track s" by (simp add: regroup_same t)
  show "bare_track (setProps \<E> (regroup \<E> s))"
    using assms(2) unfolding bare_track_view [OF v]
    by (simp add: bare_track_def sound_track_def regroup_same t on_els_apply dom_simps)
  show "labelled (setProps \<E> (regroup \<E> s))" if "numbered_track s"
    using that unfolding labelled_view [OF v]
    by (simp add: labelled_def numbered_track_def regroup_same t on_els_apply slick_index_def dom_simps)
qed

lemma view_settings:
  assumes "view t = view s"
  shows "o_slide (options t) = o_slide (options s)"
proof -
  have "(options t)\<lparr>o_autoplay := True, o_zIndex := 0\<rparr> = (options s)\<lparr>o_autoplay := True, o_zIndex := 0\<rparr>"
    using assms by (simp add: view_def)
  from arg_cong [OF this, of o_slide] show ?thesis by simp
qed

lemma track_ok_unadorned: "track_ok (unadorned s) = track_ok s"
proof -
  have "clone_count (unadorned s) = clone_count s" by (rule clone_count_cong) (simp_all add: unadorned_def)
  then show ?thesis by (simp add: track_ok_def unadorned_def)
qed

lemma regrouped_labelled:
  assumes "regrouped \<E> s t" "sound_track s" "numbered_track s"
  shows "labelled t"
  using assms unfolding regrouped_def labelled_def numbered_track_def sound_track_def by simp

lemma reinit_regrouped:
  assumes "responsive s = None \<or> responsive s = Some []" "opts_ok (options s)"
    and "o_slide (options s) = []" "sound_track s" "0 \<le> recentred (int (length (track s))) s"
  shows "\<exists>t. reinit n \<E> s = Some t \<and> regrouped \<E> s t \<and>
           (numbered_track s \<and> currentSlide t < int (length (track s)) \<and> nav_ok \<E> s \<and> \<not> unslicked s \<and>
            list_all (\<lambda>i. 0 \<le> i \<and> i < int (length (track s))) (completions s) \<and>
            (animating s \<longrightarrow> completions s \<noteq> []) \<longrightarrow> good \<E> t)"
proof -
  let ?p = "setProps \<E> (regroup \<E> s)"
  define q where "q = setupInfinite ?p"
  have vp: "view ?p = view (regroup \<E> s)" using view_setProps by blast
  note ep = view_eqD [OF vp]
  have tr: "slide_children \<E> s (track s) = track s" using assms(3) by (simp add: slide_children_def)
  note b = regroup_bare [OF assms(3,4), of \<E>]
  note e = unframed_eqD [OF unframed_setupInfinite [of ?p], folded q_def]
  have w: "0 < o_slidesToShow (options ?p)" using assms(2) ep(2) by (simp add: regroup_same opts_ok_def)
  obtain d t where t: "reinit n \<E> s = Some t" "view (unadorned d) = view (unadorned q)" "arrows_built d"
    "dots_ok d" "view t = view (setSlideClasses (currentSlide d) d)" "completions t = completions s"
    "animating t = animating s" "carried t = carried s"
    using reinit_result [OF assms(1,2), of \<E> n thesis] assms(5) by (simp add: regroup_same tr q_def)
  note ed = view_eqD [OF t(2), unfolded unadorned_def, simplified]
  note et = view_eqD [OF t(5), simplified]
  have tq: "track_ok q" unfolding q_def by (rule setupInfinite_track_ok [OF b(1) w])
  obtain old: "\<forall>j < nextEl ?p. els q j = els ?p j" "nextEl ?p \<le> nextEl q"
    using setupInfinite_parts [OF b(1) w] unfolding q_def by metis
  have td: "track_ok d" using tq track_ok_view [OF t(2)] by (simp add: track_ok_unadorned)
  have tt: "track_ok t" using setSlideClasses_track_ok [OF td] track_ok_view [OF t(5)] by simp
  have oq: "o_slide (options q) = o_slide (options s)" "o_slidesToShow (options q) = o_slidesToShow (options s)"
    "o_slidesToScroll (options q) = o_slidesToScroll (options s)"
    "o_asNavFor (options q) = o_asNavFor (options s)"
    using view_settings [OF vp] ep(2,3,8)
    by (simp_all add: e no_center_same regroup_same) (simp add: no_center_in_fade_def write_option_def Let_def regroup_same)
  have rg: "regrouped \<E> s t"
    unfolding regrouped_def
  proof (intro conjI allI impI)
    show "slides t = track s" using et(11) ed(11) ep(11) b(2) by (simp add: e no_center_same)
    show "track_ok t" by (rule tt)
    show "nextEl s \<le> nextEl t" using et(13) ed(13) ep(13) old(2) by (simp add: regroup_same)
    show "slick_index (els t j) = slick_index (els s j)" if "j < nextEl s" for j
      using that et(19) ed(19) ep(13,19) old(1)
      by (simp add: regroup_same on_els_apply slick_index_setSlideClasses slick_index_def dom_simps)
    show "Slick_cloned \<in> classes (els t j) \<longleftrightarrow> Slick_cloned \<in> classes (els s j)" if "j < nextEl s" for j
      using that et(18) ed(18) ep(13,18) old(1)
      by (simp add: regroup_same on_els_apply setSlideClasses_other dom_simps)
    show "currentSlide t = recentred (int (length (track s))) s"
      using et(9) ed(9) ep(9) by (simp add: e no_center_same regroup_same tr)
    show "o_slide (options t) = o_slide (options s)"
      using view_settings [OF t(5)] view_settings [OF t(2)] oq by (simp add: unadorned_def)
    show "o_slidesToShow (options t) = o_slidesToShow (options s)"
      "o_slidesToScroll (options t) = o_slidesToScroll (options s)"
      "o_asNavFor (options t) = o_asNavFor (options s)"
      using et(2,3,8) ed(2,3,8) oq by simp_all
    show "unslicked t = unslicked s" using et(16) ed(16) ep(16) by (simp add: e no_center_same regroup_same)
  qed (rule t)+
  have "good \<E> t"
    if "numbered_track s" "currentSlide t < int (length (track s))" "nav_ok \<E> s" "\<not> unslicked s"
      "list_all (\<lambda>i. 0 \<le> i \<and> i < int (length (track s))) (completions s)"
      "animating s \<longrightarrow> completions s \<noteq> []"
  proof -
    have "base_ok \<E> (q\<lparr>dotItems := None, prevArrow := Some [], nextArrow := Some []\<rparr>)"
      unfolding q_def using b(1) b(3) [OF that(1)]
    proof (rule setupInfinite_arrows_ok)
      show "opts_ok (options ?p)" "0 \<le> currentSlide ?p" "\<not> unslicked ?p"
        using ep(1,9,16) assms(2,5) that(4) by (simp_all add: regroup_same tr)
      show "currentSlide ?p < slideCount ?p"
        using ep(9,10) that(2) rg by (simp add: regroup_same tr regrouped_def)
      show "nav_ok \<E> ?p" using that(3) ep(8,20) by (simp add: nav_ok_def has_nav_def regroup_same)
    qed
    then have bd: "base_ok \<E> d"
      using t(2,3) view_without(1) [where t = d and d = None and p = None and n = None and s = "q\<lparr>dotItems := None, prevArrow := Some [], nextArrow := Some []\<rparr>"]
      by (simp add: unadorned_def)
    have "slider_ok \<E> (setSlideClasses (currentSlide d) d)"
      using setSlideClasses_base_ok [OF bd] setSlideClasses_current_ok [of d] bd t(4)
      by (simp add: slider_ok_def base_ok_def dots_ok_def split: option.splits)
    then have "slider_ok \<E> t" using slider_ok_keep [OF _ t(5)] by blast
    moreover have "slideCount t = int (length (track s))"
      using rg track_okD(1) [OF tt] by (simp add: regrouped_def)
    ultimately show ?thesis using that(5,6) t(6,7) by (simp add: good_def tasks_ok_def)
  qed
  then show ?thesis using t(1) rg by blast
qed

subsection \<open>Unloading\<close>

lemma carried_remove [carried_simps]:
  "carried (remove_dots s) = carried s" "carried (remove_prev s) = carried s"
  "carried (remove_next s) = carried s"
  by (simp_all add: remove_dots_def remove_prev_def remove_next_def carried_simps)

lemma remove_more [simp]:
  "els (remove_dots s) = els s" "els (remove_prev s) = els s" "els (remove_next s) = els s"
  "options (remove_dots s) = options s" "options (remove_prev s) = options s" "options (remove_next s) = options s"
  "slideCount (remove_dots s) = slideCount s" "slideCount (remove_prev s) = slideCount s"
  "slideCount (remove_next s) = slideCount s" "nextEl (remove_dots s) = nextEl s"
  "nextEl (remove_prev s) = nextEl s" "nextEl (remove_next s) = nextEl s"
  "currentSlide (remove_dots s) = currentSlide s" "currentSlide (remove_prev s) = currentSlide s"
  "currentSlide (remove_next s) = currentSlide s" "unslicked (remove_dots s) = unslicked s"
  "unslicked (remove_prev s) = unslicked s" "unslicked (remove_next s) = unslicked s"
  "tasks (remove_dots s) = tasks s" "tasks (remove_prev s) = tasks s" "tasks (remove_next s) = tasks s"
  "animating (remove_dots s) = animating s" "animating (remove_prev s) = animating s"
  "animating (remove_next s) = animating s"
  by (simp_all add: remove_dots_def remove_prev_def remove_next_def forget_def)

definition stripped :: "slick \<Rightarrow> slick" where
  "stripped s = remove_next (remove_prev (remove_dots
     (s\<lparr>track := filter (\<lambda>i. Slick_cloned \<notin> classes (els s i)) (track s)\<rparr>)))"

lemma unload_stripped:
  "unload s = mod_els (slides (stripped s))
     (css_clear ''width'' \<circ> attr Aria_hidden (AText ''true'') \<circ>
      removeClass {Slick_slide, Slick_active, Slick_visible, Slick_current}) (stripped s)"
  by (simp only: unload_def stripped_def Let_def)

lemma stripped_same:
  "track (stripped s) = filter (\<lambda>i. Slick_cloned \<notin> classes (els s i)) (track s)"
  "slides (stripped s) = slides s" "slideCount (stripped s) = slideCount s" "nextEl (stripped s) = nextEl s"
  "currentSlide (stripped s) = currentSlide s" "unslicked (stripped s) = unslicked s"
  "tasks (stripped s) = tasks s" "animating (stripped s) = animating s" "options (stripped s) = options s"
  "els (stripped s) = els s" "carried (stripped s) = carried s"
  by (simp_all only: stripped_def remove_same remove_more carried_simps) simp_all

lemma unload_same:
  "track (unload s) = filter (\<lambda>i. Slick_cloned \<notin> classes (els s i)) (track s)"
  "slides (unload s) = slides s" "slideCount (unload s) = slideCount s" "nextEl (unload s) = nextEl s"
  "currentSlide (unload s) = currentSlide s" "unslicked (unload s) = unslicked s"
  "completions (unload s) = completions s" "animating (unload s) = animating s"
  "carried (unload s) = carried s" "options (unload s) = options s"
  "slick_index (els (unload s) i) = slick_index (els s i)"
  "Slick_cloned \<in> classes (els (unload s) i) \<longleftrightarrow> Slick_cloned \<in> classes (els s i)"
  by (simp_all add: unload_stripped mod_els_def stripped_same completions_def carried_simps
      on_els_apply slick_index_def dom_simps)

lemma unload_sound:
  assumes "track_ok s"
  shows "track (unload s) = slides s" "sound_track (unload s)"
  using track_ok_bare [OF assms] track_okD(6,7) [OF assms] assms
  by (auto simp: unload_same sound_track_def track_ok_def)

lemma goodD:
  assumes "good \<E> s"
  shows "opts_ok (options s)" "track_ok s" "slideCount s = int (length (slides s))" "\<not> unslicked s"
    "0 \<le> currentSlide s" "currentSlide s < slideCount s" "nav_ok \<E> s" "distinct (slides s)"
    "\<forall>i \<in> set (slides s). i < nextEl s \<and> Slick_cloned \<notin> classes (els s i)"
    "list_all (\<lambda>i. 0 \<le> i \<and> i < slideCount s) (completions s)" "animating s \<longrightarrow> completions s \<noteq> []"
    "0 < o_slidesToShow (options s)" "0 < o_slidesToScroll (options s)"
proof -
  have ok: "slider_ok \<E> s" using assms by (simp add: good_def)
  note d = slider_okD [OF ok]
  show "opts_ok (options s)" "track_ok s" "\<not> unslicked s" "0 \<le> currentSlide s" "currentSlide s < slideCount s"
    "nav_ok \<E> s" "0 < o_slidesToShow (options s)" "0 < o_slidesToScroll (options s)"
    by (rule d)+
  show "slideCount s = int (length (slides s))" "distinct (slides s)" by (rule track_okD [OF d(4)])+
  show "\<forall>i \<in> set (slides s). i < nextEl s \<and> Slick_cloned \<notin> classes (els s i)"
    using unload_sound [OF d(4)] by (simp add: sound_track_def unload_same)
  show "list_all (\<lambda>i. 0 \<le> i \<and> i < slideCount s) (completions s)" "animating s \<longrightarrow> completions s \<noteq> []"
    using assms by (simp_all add: good_def tasks_ok_def)
qed

subsection \<open>Adding a slide\<close>

text \<open>Where the new slides go.\<close>

definition inserted :: "'a list \<Rightarrow> int option \<Rightarrow> bool \<Rightarrow> 'a list \<Rightarrow> 'a list" where
  "inserted new index addBefore xs =
     (case index of
        None \<Rightarrow> if addBefore then new @ xs else xs @ new
      | Some i \<Rightarrow> insert_at (if addBefore then nat i else nat i + 1) new xs)"

lemma inserted_facts:
  "set (inserted new index b xs) = set new \<union> set xs"
  "length (inserted new index b xs) = length new + length xs"
  "distinct (inserted new index b xs) \<longleftrightarrow> distinct new \<and> distinct xs \<and> set new \<inter> set xs = {}"
proof -
  obtain ys zs where p: "xs = ys @ zs" "inserted new index b xs = ys @ new @ zs"
  proof (cases index)
    case None
    then show ?thesis using that [of "[]" xs] that [of xs "[]"] by (cases b) (simp_all add: inserted_def)
  next
    case (Some i)
    let ?k = "if b then nat i else nat i + 1"
    show ?thesis using Some that [of "take ?k xs" "drop ?k xs"] by (simp add: inserted_def insert_at_def)
  qed
  then show "set (inserted new index b xs) = set new \<union> set xs"
    "length (inserted new index b xs) = length new + length xs"
    "distinct (inserted new index b xs) \<longleftrightarrow> distinct new \<and> distinct xs \<and> set new \<inter> set xs = {}"
    by auto
qed

lemma insert_markup_inserted:
  assumes "track s = slides s" "distinct (slides s)"
    and "case index of None \<Rightarrow> True | Some i \<Rightarrow> 0 \<le> i \<and> i < int (length (slides s))"
  shows "insert_markup new index b s = inserted new index b (slides s)"
proof (cases index)
  case None
  then show ?thesis by (simp add: insert_markup_def inserted_def assms(1))
next
  case (Some i)
  then have "position_of (slides s ! nat i) (slides s) = nat i" "slides s \<noteq> []"
    using assms(2,3) by (auto simp: position_of_nth)
  then show ?thesis using Some by (simp add: insert_markup_def inserted_def assms(1))
qed

lemma addSlide_steps:
  assumes "good \<E> s" "o_slide (options s) = []" "list_all (\<lambda>e. Slick_cloned \<notin> classes e) markup"
    and "case index of None \<Rightarrow> True | Some i \<Rightarrow> 0 \<le> i \<and> i < slideCount s"
  obtains u where "addSlide n \<E> markup index b s = reinit n \<E> u" "sound_track u" "numbered_track u"
    "track u = inserted [nextEl s ..< nextEl s + length markup] index b (slides s)"
    "options u = options s" "currentSlide u = currentSlide s" "unslicked u = unslicked s"
    "completions u = completions s" "animating u = animating s" "responsive u = responsive s"
    "slidesCache u = Some (track u)"
proof -
  note g = goodD [OF assms(1)]
  define s1 where "s1 = unload s"
  define new where "new = [nextEl s1 ..< nextEl s1 + length markup]"
  define s2 where "s2 = s1\<lparr>els := (\<lambda>i. if i \<in> set new then markup ! (i - nextEl s1) else els s1 i),
    nextEl := nextEl s1 + length markup, track := insert_markup new index b s1\<rparr>"
  define s3 where "s3 = put_slides \<E> s2"
  define u where "u = s3\<lparr>els := set_index 0 (slides s3) (els s3)\<rparr>"
  note un = unload_same [of s, folded s1_def]
  have in_range: "case index of None \<Rightarrow> True | Some i \<Rightarrow> 0 \<le> i \<and> i < int (length (slides s1))"
    using assms(4) g(3) by (simp add: un split: option.splits)
  have T: "track s2 = inserted new index b (slides s)"
    using insert_markup_inserted [of s1 index new b] unload_sound(1) [OF g(2), folded s1_def] g(8) in_range
    by (simp add: s2_def un)
  have s3: "track s3 = track s2" "slides s3 = track s2" "els s3 = els s2" "nextEl s3 = nextEl s2"
    "slidesCache s3 = Some (track s2)"
    using assms(2) by (simp_all add: s3_def put_slides_def Let_def slide_children_def s2_def un)
  have d: "distinct (track s2)"
    unfolding T inserted_facts using g(8,9) by (auto simp: new_def un)
  have fresh: "Slick_cloned \<notin> classes (els s2 i) \<and> i < nextEl s2" if "i \<in> set (track s2)" for i
    using that g(9) assms(3) unfolding T inserted_facts
    by (auto simp: s2_def un new_def list_all_length)
  show thesis
  proof (rule that [of u])
    show "addSlide n \<E> markup index b s = reinit n \<E> u"
      using assms(4) unfolding addSlide_def Let_def u_def s3_def s2_def new_def s1_def
      by (auto split: option.splits)
    show "sound_track u" using d fresh by (simp add: sound_track_def u_def s3)
    show "numbered_track u"
      using d by (simp add: numbered_track_def u_def s3 slick_index_set_index position_of_nth)
    show "track u = inserted [nextEl s ..< nextEl s + length markup] index b (slides s)"
      by (simp add: u_def s3 T new_def un)
    show "options u = options s" "currentSlide u = currentSlide s" "unslicked u = unslicked s"
      "completions u = completions s" "animating u = animating s"
      by (simp_all add: u_def s3_def put_slides_def Let_def s2_def un completions_def
          un(7) [unfolded completions_def])
    show "responsive u = responsive s"
      using un(9) by (simp add: carried_def u_def s3_def put_slides_def Let_def s2_def)
    show "slidesCache u = Some (track u)" by (simp add: u_def s3)
  qed
qed

lemma addSlide_result:
  assumes "good \<E> s" "responsive s = None" "o_slide (options s) = []"
    and "list_all (\<lambda>e. Slick_cloned \<notin> classes e) markup"
    and "case index of None \<Rightarrow> True | Some i \<Rightarrow> 0 \<le> i \<and> i < slideCount s"
  shows "\<exists>t. addSlide n \<E> markup index b s = Some t \<and> good \<E> t \<and> labelled t \<and>
           slides t = inserted [nextEl s ..< nextEl s + length markup] index b (slides s) \<and>
           (currentSlide t = currentSlide s \<or>
            slideCount t \<le> o_slidesToShow (options t) \<and> currentSlide t = 0) \<and>
           responsive t = responsive s \<and> o_slide (options t) = o_slide (options s)"
proof -
  note g = goodD [OF assms(1)]
  obtain u where u: "addSlide n \<E> markup index b s = reinit n \<E> u" "sound_track u" "numbered_track u"
    "track u = inserted [nextEl s ..< nextEl s + length markup] index b (slides s)"
    "options u = options s" "currentSlide u = currentSlide s" "unslicked u = unslicked s"
    "completions u = completions s" "animating u = animating s" "responsive u = responsive s"
    by (rule addSlide_steps [OF assms(1,3-5)])
  have len: "int (length (track u)) \<ge> slideCount s" by (simp add: u(4) inserted_facts g(3))
  then have r: "recentred (int (length (track u))) u =
    (if int (length (track u)) \<le> o_slidesToShow (options s) then 0 else currentSlide s)"
    using g(6) by (simp add: recentred_def u)
  have pre: "responsive u = None \<or> responsive u = Some []" "opts_ok (options u)" "o_slide (options u) = []"
    "sound_track u" "0 \<le> recentred (int (length (track u))) u"
    using assms(2,3) u(2) g(1,5) by (simp_all add: u(5,10) r)
  obtain t where t: "reinit n \<E> u = Some t" "regrouped \<E> u t"
    "numbered_track u \<and> currentSlide t < int (length (track u)) \<and> nav_ok \<E> u \<and> \<not> unslicked u \<and>
     list_all (\<lambda>i. 0 \<le> i \<and> i < int (length (track u))) (completions u) \<and>
     (animating u \<longrightarrow> completions u \<noteq> []) \<longrightarrow> good \<E> t"
    using reinit_regrouped [OF pre] by blast
  note rt = t(2) [unfolded regrouped_def]
  have sl: "slides t = track u" and ct: "currentSlide t = recentred (int (length (track u))) u"
    using rt by blast+
  have "currentSlide t < int (length (track u))" using len g(5,6) by (auto simp: ct r)
  moreover have "nav_ok \<E> u" using g(7) by (simp add: nav_ok_def has_nav_def u(5))
  moreover have "list_all (\<lambda>i. 0 \<le> i \<and> i < int (length (track u))) (completions u)"
    using g(10) len by (auto simp: u(8) list_all_iff)
  ultimately have gt: "good \<E> t" using t(3) u(3) g(4,11) by (simp add: u(7-9))
  have "labelled t" using t(2) u(2,3) by (rule regrouped_labelled)
  moreover have "currentSlide t = currentSlide s \<or> slideCount t \<le> o_slidesToShow (options t) \<and> currentSlide t = 0"
    using goodD(3) [OF gt] rt by (simp add: ct r sl u(5))
  moreover have "responsive t = responsive s" "o_slide (options t) = o_slide (options s)"
    using rt by (simp_all add: carried_def u(5,10))
  ultimately show ?thesis using t(1) gt u(1,4) sl by simp
qed

text \<open>C9: \<open>addSlide\<close> puts the new slides where it is asked to, in their order, before or after the slide
  at the index or at one of the ends; it renumbers all slides, stays on its current slide, and
  leaves a consistent slider.\<close>

theorem addSlide_inserts:
  assumes "slider_ok \<E> s" "tasks_ok s" "responsive s = None" "o_slide (options s) = []"
    and "\<forall>e \<in> set markup. Slick_cloned \<notin> classes e"
    and "case index of None \<Rightarrow> True | Some i \<Rightarrow> 0 \<le> i \<and> i < slideCount s"
  shows "\<exists>t. addSlide n \<E> markup index b s = Some t \<and>
           slides t = inserted [nextEl s ..< nextEl s + length markup] index b (slides s) \<and>
           (\<forall>j < length (slides t). slick_index (els t (slides t ! j)) = Some (int j)) \<and>
           (currentSlide t = currentSlide s \<or>
            slideCount t \<le> o_slidesToShow (options t) \<and> currentSlide t = 0) \<and>
           slider_ok \<E> t \<and> tasks_ok t"
  using addSlide_result [where \<E> = \<E> and s = s and markup = markup and index = index and n = n and b = b] assms
  by (auto simp: good_def labelled_def list_all_iff)

subsection \<open>Filtering\<close>

lemma filterSlides_result:
  assumes "good \<E> s" "responsive s = None" "o_slide (options s) = []"
    and "o_slidesToScroll (options s) \<le> o_slidesToShow (options s)"
  shows "\<exists>u t. filterSlides n \<E> (Some f) s = Some t \<and> regrouped \<E> u t \<and>
           track u = jq_filter \<E> f (els (unload s)) (slides s) \<and> options u = options s \<and>
           currentSlide u = currentSlide s \<and> nextEl u = nextEl s \<and> unslicked u = unslicked s \<and>
           completions u = completions s \<and> animating u = animating s \<and>
           carried u = (None, Some (slides s)) \<and>
           (\<forall>j. slick_index (els u j) = slick_index (els s j) \<and>
             (Slick_cloned \<in> classes (els u j) \<longleftrightarrow> Slick_cloned \<in> classes (els s j)))"
proof -
  note g = goodD [OF assms(1)]
  define s1 where "s1 = unload (s\<lparr>slidesCache := Some (slides s)\<rparr>)"
  note un = unload_same [of "s\<lparr>slidesCache := Some (slides s)\<rparr>", folded s1_def, simplified]
  define kept where "kept = jq_filter \<E> f (els (unload s)) (slides s)"
  define u where "u = s1\<lparr>track := kept\<rparr>"
  have e1: "els s1 = els (unload s)" by (simp add: s1_def unload_stripped mod_els_def stripped_same)
  have "filter (\<lambda>i. i \<notin> set (slide_children \<E> s1 (track s1))) (track s1) = []"
    using assms(3) by (simp add: slide_children_def un)
  then have fs: "filterSlides n \<E> (Some f) s = reinit n \<E> u"
    unfolding filterSlides_def option.case Let_def s1_def [symmetric] u_def kept_def e1 by simp
  have u: "track u = kept" "options u = options s" "currentSlide u = currentSlide s" "nextEl u = nextEl s"
    "unslicked u = unslicked s" "completions u = completions s" "animating u = animating s"
    "carried u = (None, Some (slides s))"
    using assms(2) un(9)
    by (simp_all add: u_def un carried_def completions_def un(7) [unfolded completions_def])
  have lab: "slick_index (els u j) = slick_index (els s j)"
    "Slick_cloned \<in> classes (els u j) \<longleftrightarrow> Slick_cloned \<in> classes (els s j)" for j
    by (simp_all add: u_def un)
  have pre: "responsive u = None \<or> responsive u = Some []" "opts_ok (options u)" "o_slide (options u) = []"
    "sound_track u" "0 \<le> recentred (int (length (track u))) u"
    using u(8) g(1,5,8,9) assms(3,4) subsetD [OF jq_filter_subset]
    by (auto simp: carried_def u(1-4) lab sound_track_def kept_def recentred_def jq_filter_distinct)
  obtain t where "reinit n \<E> u = Some t" "regrouped \<E> u t" using reinit_regrouped [OF pre] by blast
  then show ?thesis using fs u lab by (auto simp: kept_def)
qed

text \<open>C10: filtering keeps the slides that the filter selects, in their order, and \<open>unfilterSlides\<close> undoes
  it: the slider has all its slides again, in their old order and with their numbers, and is
  consistent.\<close>

theorem filter_then_unfilter:
  assumes "slider_ok \<E> s" "tasks_ok s" "responsive s = None" "o_slide (options s) = []"
    and "o_slidesToScroll (options s) \<le> o_slidesToShow (options s)"
    and "\<forall>j < length (slides s). slick_index (els s (slides s ! j)) = Some (int j)"
  shows "\<exists>t u. filterSlides n \<E> (Some f) s = Some t \<and>
           slides t = jq_filter \<E> f (els (unload s)) (slides s) \<and>
           unfilterSlides m \<E> t = Some u \<and> slides u = slides s \<and>
           (\<forall>j < length (slides u). slick_index (els u (slides u ! j)) = Some (int j)) \<and>
           slider_ok \<E> u \<and> tasks_ok u"
proof -
  have gs: "good \<E> s" using assms(1,2) by (simp add: good_def)
  note g = goodD [OF gs]
  obtain v t where t: "filterSlides n \<E> (Some f) s = Some t" "regrouped \<E> v t"
    "track v = jq_filter \<E> f (els (unload s)) (slides s)" "options v = options s"
    "currentSlide v = currentSlide s" "nextEl v = nextEl s" "unslicked v = unslicked s"
    "completions v = completions s" "animating v = animating s" "carried v = (None, Some (slides s))"
    "\<forall>j. slick_index (els v j) = slick_index (els s j) \<and>
       (Slick_cloned \<in> classes (els v j) \<longleftrightarrow> Slick_cloned \<in> classes (els s j))"
    using filterSlides_result [OF gs assms(3-5)] by blast
  note rt = t(2) [unfolded regrouped_def]
  define w where "w = (unload t)\<lparr>track := slides s\<rparr>"
  have ot: "o_slide (options t) = []" using rt assms(4) t(4) by simp
  have cache: "slidesCache t = Some (slides s)" "responsive t = None" using rt t(10) by (simp_all add: carried_def)
  have uf: "unfilterSlides m \<E> t = reinit m \<E> w"
    using ot unfolding unfilterSlides_def cache option.case Let_def w_def
    by (simp add: slide_children_def unload_same)
  have w: "track w = slides s" "options w = options t" "currentSlide w = currentSlide t" "nextEl w = nextEl t"
    "unslicked w = unslicked s" "completions w = completions s" "animating w = animating s"
    "responsive w = None"
    using rt unload_same(9) [of t] cache(2)
    by (simp_all add: w_def unload_same t completions_def t(8) [unfolded completions_def]
        unload_same(7) [unfolded completions_def] carried_def)
  have lw: "slick_index (els w i) = slick_index (els s i)"
    "Slick_cloned \<in> classes (els w i) \<longleftrightarrow> Slick_cloned \<in> classes (els s i)" if "i < nextEl s" for i
    using rt t(6,11) that by (simp_all add: w_def unload_same)
  have so: "opts_ok (options t)" using rt g(1) t(4) by (simp add: opts_ok_def)
  have rc: "0 \<le> recentred (int (length (slides s))) w"
    "recentred (int (length (slides s))) w < int (length (slides s))"
    using rt g(3,5,6,13) assms(5) t(4,5) by (auto simp: recentred_def w)
  have "sound_track w" using rt g(8,9) t(6) lw by (fastforce simp: sound_track_def w)
  moreover have nt: "numbered_track w" using assms(6) g(9) lw by (simp add: numbered_track_def w)
  ultimately obtain u where u: "reinit m \<E> w = Some u" "regrouped \<E> w u"
    "numbered_track w \<and> currentSlide u < int (length (track w)) \<and> nav_ok \<E> w \<and> \<not> unslicked w \<and>
     list_all (\<lambda>i. 0 \<le> i \<and> i < int (length (track w))) (completions w) \<and>
     (animating w \<longrightarrow> completions w \<noteq> []) \<longrightarrow> good \<E> u"
    using reinit_regrouped [of w m \<E>] so ot rc(1) w by auto
  note ru = u(2) [unfolded regrouped_def]
  have "nav_ok \<E> w" using rt g(7) by (simp add: w nav_ok_def has_nav_def t(4))
  moreover have "currentSlide u < int (length (track w))" using ru rc(2) by (simp add: w)
  ultimately have gu: "good \<E> u" using u(3) nt g(3,4,10,11) by (simp add: w)
  have "\<forall>j < length (slides s). slick_index (els u (slides s ! j)) = Some (int j)"
  proof (intro allI impI)
    fix j assume j: "j < length (slides s)"
    then have lt: "slides s ! j < nextEl s" using g(9) nth_mem by blast
    moreover have "slides s ! j < nextEl w" using lt rt t(6) by (simp add: w)
    ultimately show "slick_index (els u (slides s ! j)) = Some (int j)"
      using ru lw(1) assms(6) j by simp
  qed
  then show ?thesis using t(1,3) rt uf u(1) ru gu by (simp add: w good_def)
qed

subsection \<open>Removing a slide\<close>

lemma removeSlide_result:
  assumes "good \<E> s" "responsive s = None" "o_slide (options s) = []"
    and "o_slidesToScroll (options s) \<le> o_slidesToShow (options s)"
    and "0 \<le> place_index p b s" "place_index p b s < slideCount s"
  obtains u t where "removeSlide n \<E> p b False s = Some t" "regrouped \<E> u t"
    "track u = filter (\<lambda>i. i \<noteq> slides s ! nat (place_index p b s)) (slides s)"
    "options u = options s" "currentSlide u = currentSlide s" "nextEl u = nextEl s"
    "unslicked u = unslicked s" "completions u = completions s" "animating u = animating s"
    "responsive u = None" "\<And>j. slick_index (els u j) = slick_index (els s j)"
    "numbered_track u \<and> currentSlide t < int (length (track u)) \<and>
     list_all (\<lambda>i. 0 \<le> i \<and> i < int (length (track u))) (completions s) \<longrightarrow> good \<E> t"
proof -
  note g = goodD [OF assms(1)]
  let ?i = "place_index p b s"
  define s1 where "s1 = unload s"
  note un = unload_same [of s, folded s1_def]
  define left where "left = filter (\<lambda>i. i \<noteq> slides s ! nat ?i) (slides s)"
  define u where "u = put_slides \<E> (s1\<lparr>track := left\<rparr>)"
  have tr: "track s1 = slides s" using unload_sound(1) [OF g(2)] by (simp add: s1_def)
  have "slide_children \<E> s1 (track s1) = track s1" using assms(3) by (simp add: slide_children_def un)
  moreover have "eq ?i (slides s) = [slides s ! nat ?i]" using assms(5,6) g(3) by simp
  ultimately have "filter (\<lambda>i. i \<notin> set (eq ?i (slide_children \<E> s1 (track s1)))) (track s1) = left"
    by (simp add: tr left_def)
  then have rs: "removeSlide n \<E> p b False s = reinit n \<E> u"
    using assms(5,6) unfolding removeSlide_def Let_def s1_def [symmetric] u_def by simp
  have u: "track u = left" "options u = options s" "currentSlide u = currentSlide s" "nextEl u = nextEl s"
    "unslicked u = unslicked s" "completions u = completions s" "animating u = animating s"
    "responsive u = None" "els u = els s1"
    using un(9) assms(2,3)
    by (simp_all add: u_def put_slides_def Let_def un carried_def completions_def slide_children_def
        un(7) [unfolded completions_def])
  have pre: "responsive u = None \<or> responsive u = Some []" "opts_ok (options u)" "o_slide (options u) = []"
    "sound_track u" "0 \<le> recentred (int (length (track u))) u"
    using g(1,5,8,9) assms(3,4)
    by (auto simp: u un sound_track_def left_def recentred_def)
  obtain t where t: "reinit n \<E> u = Some t" "regrouped \<E> u t"
    "numbered_track u \<and> currentSlide t < int (length (track u)) \<and> nav_ok \<E> u \<and> \<not> unslicked u \<and>
     list_all (\<lambda>i. 0 \<le> i \<and> i < int (length (track u))) (completions u) \<and>
     (animating u \<longrightarrow> completions u \<noteq> []) \<longrightarrow> good \<E> t"
    using reinit_regrouped [OF pre] by blast
  have "nav_ok \<E> u" using g(7) by (simp add: nav_ok_def has_nav_def u(2))
  then show thesis
    using that [of t u] t rs u un(11) g(4,11) by (simp add: left_def)
qed

lemma remove_nth:
  "distinct xs \<Longrightarrow> k < length xs \<Longrightarrow> filter (\<lambda>i. i \<noteq> xs ! k) xs = take k xs @ drop (k + 1) xs"
proof (induction xs arbitrary: k)
  case (Cons x xs)
  then show ?case by (cases k) (auto simp: filter_id_conv)
qed simp

text \<open>C23: \<open>removeSlide\<close> takes exactly the slide at the index away.  The other slides keep the numbers
  they had, so these have a gap unless it was the last slide; then, if no animation is on its way
  to it, the slider is consistent.\<close>

theorem removeSlide_removes:
  assumes "slider_ok \<E> s" "tasks_ok s" "responsive s = None" "o_slide (options s) = []"
    and "o_slidesToScroll (options s) \<le> o_slidesToShow (options s)"
    and "place_index p b s = k" "0 \<le> k" "k < slideCount s"
  shows "\<exists>t. removeSlide n \<E> p b False s = Some t \<and>
           slides t = take (nat k) (slides s) @ drop (nat k + 1) (slides s) \<and>
           (\<forall>i \<in> set (slides s). slick_index (els t i) = slick_index (els s i)) \<and>
           (k = slideCount s - 1 \<and> 0 < k \<and> list_all (\<lambda>i. i < k) (completions s) \<and>
            (\<forall>j < length (slides s). slick_index (els s (slides s ! j)) = Some (int j)) \<longrightarrow>
            slider_ok \<E> t \<and> tasks_ok t)"
proof -
  have gs: "good \<E> s" using assms(1,2) by (simp add: good_def)
  note g = goodD [OF gs]
  have k: "nat k < length (slides s)" using assms(7,8) g(3) by simp
  obtain u t where t: "removeSlide n \<E> p b False s = Some t" "regrouped \<E> u t"
    "track u = filter (\<lambda>i. i \<noteq> slides s ! nat k) (slides s)"
    "options u = options s" "currentSlide u = currentSlide s" "nextEl u = nextEl s"
    "unslicked u = unslicked s" "completions u = completions s" "animating u = animating s"
    "\<And>j. slick_index (els u j) = slick_index (els s j)"
    "numbered_track u \<and> currentSlide t < int (length (track u)) \<and>
     list_all (\<lambda>i. 0 \<le> i \<and> i < int (length (track u))) (completions s) \<longrightarrow> good \<E> t"
    using removeSlide_result [OF gs assms(3-5), of p b n thesis] assms(6-8) by simp
  note rt = t(2) [unfolded regrouped_def]
  have sl: "slides t = take (nat k) (slides s) @ drop (nat k + 1) (slides s)"
    using rt t(3) remove_nth [OF g(8) k] by simp
  have "\<forall>i \<in> set (slides s). slick_index (els t i) = slick_index (els s i)"
    using rt t(6,10) g(9) by simp
  moreover have "good \<E> t"
    if last: "k = slideCount s - 1" "0 < k" "list_all (\<lambda>i. i < k) (completions s)"
      "\<forall>j < length (slides s). slick_index (els s (slides s ! j)) = Some (int j)"
  proof -
    have "Suc (nat k) = length (slides s)" using last(1,2) g(3) by linarith
    then have tu1: "track u = take (nat k) (slides s)" using rt sl by simp
    have tu2: "length (track u) = nat k" using k unfolding tu1 by simp
    have "numbered_track u" using last(4) k by (simp add: numbered_track_def tu1 t(10))
    moreover have "currentSlide t < int (length (track u))"
      using rt g(6,12,13) last(1,2) by (auto simp: tu2 recentred_def t(4,5))
    moreover have "list_all (\<lambda>i. 0 \<le> i \<and> i < int (length (track u))) (completions s)"
      using last(2,3) g(10) by (simp add: tu2 list_all_iff)
    ultimately show ?thesis using t(11) by blast
  qed
  ultimately show ?thesis using t(1) sl by (auto simp: good_def)
qed

text \<open>A slider to try these on.\<close>

lemma tour_state_track:
  "responsive tour_state = None" "o_slide (options tour_state) = []"
  "slides tour_state = [0 ..< 4]" "o_slidesToShow (options tour_state) = 1"
  "\<forall>j < length (slides tour_state). slick_index (els tour_state (slides tour_state ! j)) = Some (int j)"
proof -
  let ?s = "numbered (sample 4 [S_arrows False])"
  note e = unframed_eqD [OF unframed_setupInfinite [of ?s]]
  show sl: "slides tour_state = [0 ..< 4]"
    by (simp add: tour_state_def e no_center_same) (simp add: numbered_def)
  show "o_slide (options tour_state) = []" "o_slidesToShow (options tour_state) = 1"
    by (simp_all add: tour_state_def e no_center_same) (simp_all add: numbered_def no_center_in_fade_def)
  show "responsive tour_state = None"
    using unframed_responsive [of ?s] by (simp add: tour_state_def) (simp add: numbered_def sample_def new_slick_def Let_def)
  have b: "bare_track ?s" "0 < o_slidesToShow (options ?s)" using bare_sample(2) by (simp_all add: numbered_def)
  obtain "\<forall>j < nextEl ?s. els (setupInfinite ?s) j = els ?s j" using setupInfinite_parts [OF b] by metis
  moreover have "j < nextEl ?s \<and> slick_index (els ?s j) = Some (int j)" if "j < 4" for j
    using that bare_sample(2) by (auto simp: bare_track_def numbered_def slick_index_def dom_simps)
  ultimately show
    "\<forall>j < length (slides tour_state). slick_index (els tour_state (slides tour_state ! j)) = Some (int j)"
    unfolding sl by (simp add: tour_state_def slick_index_setSlideClasses)
qed

theorem addSlide_inserts_witness:
  "\<exists>t. addSlide 0 plain_env [blank] (Some 2) True tour_state = Some t \<and>
       slides t = inserted [nextEl tour_state ..< nextEl tour_state + length [blank]] (Some 2) True
                    (slides tour_state) \<and>
       (\<forall>j < length (slides t). slick_index (els t (slides t ! j)) = Some (int j)) \<and>
       (currentSlide t = currentSlide tour_state \<or>
        slideCount t \<le> o_slidesToShow (options t) \<and> currentSlide t = 0) \<and>
       slider_ok plain_env t \<and> tasks_ok t"
  by (rule addSlide_inserts)
    (simp_all add: tour_state_good tour_state_track tour_state_simps blank_def)

theorem filter_then_unfilter_witness:
  "\<exists>t u. filterSlides 0 plain_env (Some '':even'') tour_state = Some t \<and>
       slides t = jq_filter plain_env '':even'' (els (unload tour_state)) (slides tour_state) \<and>
       unfilterSlides 0 plain_env t = Some u \<and> slides u = slides tour_state \<and>
       (\<forall>j < length (slides u). slick_index (els u (slides u ! j)) = Some (int j)) \<and>
       slider_ok plain_env u \<and> tasks_ok u"
  by (rule filter_then_unfilter [OF _ _ _ _ _ tour_state_track(5)])
    (simp_all add: tour_state_good tour_state_track(1-4) tour_state_simps)

theorem removeSlide_removes_witness:
  "\<exists>t. removeSlide 0 plain_env (At 3) False False tour_state = Some t \<and>
       slides t = take (nat 3) (slides tour_state) @ drop (nat 3 + 1) (slides tour_state) \<and>
       (\<forall>i \<in> set (slides tour_state). slick_index (els t i) = slick_index (els tour_state i)) \<and>
       (3 = slideCount tour_state - 1 \<and> 0 < (3 :: int) \<and> list_all (\<lambda>i. i < 3) (completions tour_state) \<and>
        (\<forall>j < length (slides tour_state).
           slick_index (els tour_state (slides tour_state ! j)) = Some (int j)) \<longrightarrow>
        slider_ok plain_env t \<and> tasks_ok t)"
  by (rule removeSlide_removes)
    (simp_all add: tour_state_good tour_state_track(1-4) tour_state_simps place_index_def)

end
