(* ===== verification/Slick_Refresh.thy ===== *)
theory Slick_Refresh
  imports Slick_Slides
begin

text \<open>
  What happens at a breakpoint: the choice of the breakpoint by \<open>checkResponsive\<close>, and \<open>refresh\<close>,
  which destroys the slider and builds it again.
\<close>

subsection \<open>Which breakpoint\<close>

text \<open>The settings of a breakpoint are the last ones registered under it.\<close>

lemma register_step:
  "breakpointSettings (register_breakpoint r s) = (breakpointSettings s)(fst r := Some (snd r))"
  "set (breakpoints (register_breakpoint r s)) = insert (fst r) (set (breakpoints s))"
  "options (register_breakpoint r s) = options s"
  "originalSettings (register_breakpoint r s) = originalSettings s"
  by (auto simp: register_breakpoint_def)

lemma register_fold:
  "breakpointSettings (fold register_breakpoint rs s) b =
     (case map_of (rev rs) b of None \<Rightarrow> breakpointSettings s b | Some x \<Rightarrow> Some x) \<and>
   set (breakpoints (fold register_breakpoint rs s)) = set (breakpoints s) \<union> fst ` set rs \<and>
   options (fold register_breakpoint rs s) = options s \<and>
   originalSettings (fold register_breakpoint rs s) = originalSettings s"
proof (induction rs arbitrary: s)
  case (Cons r rs)
  have "map_of (rev (r # rs)) b = (case map_of (rev rs) b of None \<Rightarrow> if b = fst r then Some (snd r) else None
                                   | Some x \<Rightarrow> Some x)"
    by (cases r) (simp add: map_add_def split: option.split)
  then show ?case by (simp add: Cons register_step split: option.split)
qed simp

lemma fold_last:
  "fold (\<lambda>b t. if P b then Some b else t) xs t =
     (case filter P xs of [] \<Rightarrow> t | y # ys \<Rightarrow> Some (last (y # ys)))"
  by (induction xs arbitrary: t) (auto split: list.split)

lemma last_sorted: "sorted xs \<Longrightarrow> xs \<noteq> [] \<Longrightarrow> last xs = Max (set xs)" for xs :: "real list"
proof (cases xs rule: rev_cases)
  case (snoc ys y)
  assume "sorted xs"
  then have "Max (set xs) = y" using snoc by (intro Max_eqI) (auto simp: sorted_append)
  then show ?thesis using snoc by simp
qed simp

lemma last_rev_sorted: "sorted xs \<Longrightarrow> xs \<noteq> [] \<Longrightarrow> last (rev xs) = Min (set xs)" for xs :: "real list"
proof (cases xs)
  case (Cons x ys)
  assume "sorted xs"
  then have "Min (set xs) = x" using Cons by (intro Min_eqI) auto
  then show ?thesis using Cons by simp
qed simp

text \<open>The breakpoints that apply at a width.\<close>

definition fitting :: "slick \<Rightarrow> real \<Rightarrow> (real \<times> bp_settings) list \<Rightarrow> real set" where
  "fitting s w rs = {b \<in> fst ` set rs. if o_mobileFirst (originalSettings s) then b < w else w < b}"

text \<open>C12: after the breakpoints of a slider have been registered, in whatever order, the one that applies
  is the smallest breakpoint above the width, or with \<open>mobileFirst\<close> the greatest below it, and it
  has the settings that were registered last for it; there is none exactly when no breakpoint fits.\<close>

theorem breakpoint_choice:
  assumes "responsive s = Some rs" "breakpoints s = []" "breakpointSettings s = Map.empty"
    and "o_mobileFirst (options s) = o_mobileFirst (originalSettings s)"
    and "respond_width \<E> (registerBreakpoints s) = Some w"
  shows "target_breakpoint \<E> (registerBreakpoints s) =
           (if fitting s w rs = {} then None
            else Some (if o_mobileFirst (originalSettings s) then Max (fitting s w rs)
                       else Min (fitting s w rs))) \<and>
         (\<forall>b. breakpointSettings (registerBreakpoints s) b = map_of (rev rs) b)"
proof -
  let ?m = "o_mobileFirst (originalSettings s)" and ?s = "registerBreakpoints s"
  let ?P = "\<lambda>b. if ?m then b < w else w < b"
  obtain bs where bs: "breakpoints ?s = (if ?m then sort bs else rev (sort bs))" "set bs = fst ` set rs"
    "originalSettings ?s = originalSettings s" "\<forall>b. breakpointSettings ?s b = map_of (rev rs) b"
  proof (cases rs)
    case Nil
    then show ?thesis using that [of "[]"] assms(1-3) by (simp add: registerBreakpoints_def)
  next
    case (Cons r rs')
    let ?s1 = "s\<lparr>respondTo := Some (if o_respondTo (options s) = [] then ''window''
                                  else o_respondTo (options s))\<rparr>"
    let ?s2 = "fold register_breakpoint (r # rs') ?s1"
    have rs: "?s = ?s2\<lparr>breakpoints := (if o_mobileFirst (options ?s2) then sort (breakpoints ?s2)
                                       else rev (sort (breakpoints ?s2)))\<rparr>"
      using assms(1) by (simp only: registerBreakpoints_def Cons option.case list.case Let_def)
    have f: "breakpointSettings ?s2 b =
       (case map_of (rev (r # rs')) b of None \<Rightarrow> breakpointSettings ?s1 b | Some x \<Rightarrow> Some x)"
      "set (breakpoints ?s2) = set (breakpoints ?s1) \<union> fst ` set (r # rs')"
      "options ?s2 = options ?s1" "originalSettings ?s2 = originalSettings ?s1" for b
      using register_fold [of "r # rs'" ?s1 b] by blast+
    show ?thesis
    proof (rule that [of "breakpoints ?s2"])
      show "breakpoints ?s = (if ?m then sort (breakpoints ?s2) else rev (sort (breakpoints ?s2)))"
        unfolding rs f(3) using assms(4) by (simp del: fold_simps)
      show "set (breakpoints ?s2) = fst ` set rs" unfolding f(2) using assms(2) by (simp add: Cons)
      show "originalSettings ?s = originalSettings s" unfolding rs using f(4) by (simp del: fold_simps)
      show "\<forall>b. breakpointSettings ?s b = map_of (rev rs) b"
        unfolding rs Cons using f(1) assms(3) by (simp del: fold_simps rev.simps split: option.split)
    qed
  qed
  have t: "target_breakpoint \<E> ?s =
    (case filter ?P (breakpoints ?s) of [] \<Rightarrow> None | y # ys \<Rightarrow> Some (last (y # ys)))"
    by (simp add: target_breakpoint_def assms(5) bs(3) fold_last)
  have f: "set (filter ?P (breakpoints ?s)) = fitting s w rs" using bs(1,2) by (auto simp: fitting_def)
  have "filter ?P (breakpoints ?s) \<noteq> [] \<Longrightarrow> last (filter ?P (breakpoints ?s)) =
    (if ?m then Max (fitting s w rs) else Min (fitting s w rs))"
  proof (cases ?m)
    case True
    assume "filter ?P (breakpoints ?s) \<noteq> []"
    then show ?thesis
      using last_sorted [of "filter ?P (sort bs)"] f True by (simp add: bs(1) sorted_wrt_filter)
  next
    case False
    assume "filter ?P (breakpoints ?s) \<noteq> []"
    then show ?thesis
      using last_rev_sorted [of "filter ?P (sort bs)"] f False
      by (simp add: bs(1) sorted_wrt_filter flip: rev_filter)
  qed
  then show ?thesis using t f bs(4) by (cases "filter ?P (breakpoints ?s)") auto
qed

definition responsive_slider :: slick where
  "responsive_slider = (fresh_slider [])\<lparr>responsive := Some [(600, Unslick), (1024, Settings [])]\<rparr>"

theorem breakpoint_choice_witness:
  "target_breakpoint plain_env (registerBreakpoints responsive_slider) =
     (if fitting responsive_slider 800 [(600, Unslick), (1024, Settings [])] = {} then None
      else Some (if o_mobileFirst (originalSettings responsive_slider)
                 then Max (fitting responsive_slider 800 [(600, Unslick), (1024, Settings [])])
                 else Min (fitting responsive_slider 800 [(600, Unslick), (1024, Settings [])]))) \<and>
   (\<forall>b. breakpointSettings (registerBreakpoints responsive_slider) b =
          map_of (rev [(600, Unslick), (1024, Settings [])]) b)"
proof (rule breakpoint_choice)
  let ?s = responsive_slider
  show "breakpoints ?s = []" "breakpointSettings ?s = Map.empty"
    "o_mobileFirst (options ?s) = o_mobileFirst (originalSettings ?s)"
    by (simp_all add: responsive_slider_def fresh_slider_def new_slick_def Let_def)
  show "respond_width plain_env (registerBreakpoints ?s) = Some 800"
    by (simp add: respond_width_def registerBreakpoints_def register_breakpoint_def Let_def plain_env_def)
      (simp add: responsive_slider_def fresh_slider_def new_slick_def Let_def register_breakpoint_def)
qed (simp add: responsive_slider_def)

subsection \<open>Destroying\<close>

text \<open>The fields that taking dots, arrows and handlers away does not touch.\<close>

definition core where
  "core s = (slides s, sliderKids s, nextEl s, options s, els s, carried s, tasks s)"

lemma core_steps:
  "core (autoPlayClear s) = core s" "core (new_touch s) = core s" "core (cleanUpEvents s) = core s"
  "core (s\<lparr>track := is\<rparr>) = core s" "core (remove_dots s) = core s" "core (release_prev s) = core s"
  "core (release_next s) = core s"
  by (simp_all add: core_def autoPlayClear_def clear_interval_def new_touch_def cleanUpEvents_def
      release_prev_def release_next_def remove_dots_def remove_prev_def remove_next_def forget_def
      fold_off_event carried_def split: option.split list.split)

lemma core_eqD:
  assumes "core t = core s"
  shows "slides t = slides s" "sliderKids t = sliderKids s" "nextEl t = nextEl s" "options t = options s"
    "els t = els s" "responsive t = responsive s" "tasks t = tasks s"
  using assms by (simp_all add: core_def carried_def)

lemma destroy_result:
  assumes "o_rows (options s) \<le> 1"
  shows "sliderKids (destroy r s) = sliderKids s @ slides s" "nextEl (destroy r s) = nextEl s"
    "options (destroy r s) = options s" "els (destroy r s) = on_els (slides s) restore_slide (els s)"
    "responsive (destroy r s) = responsive s" "tasks (destroy r s) = tasks s"
    "Slick_initialized \<notin> classes (sliderEl (destroy r s))" "unslicked (destroy r s)"
proof -
  define s1 where "s1 = cleanUpEvents (new_touch (autoPlayClear s))"
  define s2 where "s2 = s1\<lparr>track := filter (\<lambda>i. Slick_cloned \<notin> classes (els s1 i)) (track s1)\<rparr>"
  define s3 where "s3 = release_next (release_prev (remove_dots s2))"
  define s4 where "s4 = unwrap_slides s3"
  have "core s3 = core s" by (simp only: s3_def s2_def s1_def core_steps)
  note c = core_eqD [OF this]
  have "cleanUpRows s4 = s4"
    using assms by (simp add: cleanUpRows_def s4_def unwrap_slides_def Let_def mod_els_def c)
  then have d: "destroy r s =
      (let u = s4\<lparr>sliderEl := removeClass {Slick_slider, Slick_initialized, Slick_dotted} (sliderEl s4),
                 unslicked := True\<rparr>
       in if r then u else trigger E_destroy u)"
    unfolding destroy_def Let_def s1_def [symmetric] s2_def [symmetric] s3_def [symmetric] s4_def [symmetric]
    by simp
  show "sliderKids (destroy r s) = sliderKids s @ slides s" "nextEl (destroy r s) = nextEl s"
    "options (destroy r s) = options s" "els (destroy r s) = on_els (slides s) restore_slide (els s)"
    "responsive (destroy r s) = responsive s" "tasks (destroy r s) = tasks s"
    "Slick_initialized \<notin> classes (sliderEl (destroy r s))" "unslicked (destroy r s)"
    by (simp_all add: d Let_def trigger_def s4_def unwrap_slides_def mod_els_def c dom_simps)
qed

subsection \<open>Refreshing\<close>

text \<open>The slide a refreshed slider starts at.\<close>

definition refreshed_slide :: "slick \<Rightarrow> int" where
  "refreshed_slide s =
     (let lastVisibleIndex = slideCount s - o_slidesToShow (options s)
      in if slideCount s \<le> o_slidesToShow (options s) then 0
         else if \<not> o_infinite (options s) \<and> currentSlide s > lastVisibleIndex then lastVisibleIndex
         else currentSlide s)"

lemma restore_slide_cloned: "Slick_cloned \<in> classes (restore_slide e) \<longleftrightarrow> Slick_cloned \<in> classes e"
  by (simp add: restore_slide_def dom_simps)

lemma rebuilt:
  assumes "good \<E> s" "completions s = []" "responsive s = None" "o_slide (options s) = []"
    and "o_rows (options s) \<le> 1" "sliderKids s = []" "0 \<le> c" "c < slideCount s"
  shows "\<exists>t. init (Suc n) \<E> False ((initials (destroy True (s\<lparr>currentSlide := c'\<rparr>)))\<lparr>currentSlide := c\<rparr>) = Some t \<and>
           good \<E> t \<and> slides t = slides s \<and> currentSlide t = c \<and> responsive t = None \<and>
           o_slide (options t) = [] \<and> labelled t \<and> completions t = []"
proof -
  let ?s = "s\<lparr>currentSlide := c'\<rparr>"
  let ?u = "(initials (destroy True ?s))\<lparr>currentSlide := c\<rparr>"
  note g = goodD [OF assms(1)]
  have d: "sliderKids ?u = slides s" "nextEl ?u = nextEl s" "options ?u = options s"
    "els ?u = on_els (slides s) restore_slide (els s)" "responsive ?u = None" "tasks ?u = tasks s"
    "Slick_initialized \<notin> classes (sliderEl ?u)" "\<not> unslicked ?u" "currentSlide ?u = c" "\<not> animating ?u"
    using destroy_result [of ?s True] assms(3,5,6) by (simp_all add: initials_def)
  have f: "found_slides \<E> ?u = slides s"
    using g(9) assms(4) unfolding found_slides_def d(1) slide_children_def d(3,4)
    by (simp add: filter_id_conv on_els_apply restore_slide_cloned)
  have "ready \<E> ?u"
    using g(1,3,7-9) assms(7,8) d(8) unfolding ready_def nav_ok_def has_nav_def f d(1-3,9) by simp
  moreover have "completions ?u = []" using assms(2) unfolding completions_def d(6) .
  ultimately show ?thesis
    using init_ok [of ?u \<E> n False] assms(4,5) d f by auto
qed

text \<open>
  The last step of \<open>refresh\<close> goes to the slide \<open>c\<close> once more: to the navigable slide \<open>k\<close> that
  \<open>checkNavigable\<close> finds for it, unless all the slides are visible or a finite slider does not
  go there.
\<close>

definition revisited :: "int \<Rightarrow> slick \<Rightarrow> int option" where
  "revisited c t =
     do {
       k \<leftarrow> checkNavigable c t;
       out \<leftarrow> out_of_range k t;
       Some (if slideCount t \<le> o_slidesToShow (options t) \<or> out then c else k)
     }"

lemma navigable_below:
  assumes "opts_ok (options s)" "0 < slideCount s" "0 \<le> c"
  shows "\<exists>k. checkNavigable c s = Some k \<and> 0 \<le> k \<and> k \<le> c \<and> (c \<in> navigables s \<longrightarrow> k = c)"
proof -
  have p: "0 < o_slidesToScroll (options s)" using assms(1) by (simp add: opts_ok_def)
  then have "\<not> c < first_navigable (options s)" using assms(3) by (simp add: first_navigable_def)
  then obtain k where k: "checkNavigable c s = Some k" "k \<le> c"
    "\<forall>x \<in> navigables s. x \<le> c \<longrightarrow> x \<le> k"
    using checkNavigable_spec [OF assms(1,2), of c] by auto
  have "0 \<in> navigables s"
    using assms(2) p by (auto simp: navigables_def first_navigable_def nav_limit_def break_points_def
        intro!: exI [of _ 0])
  then have "0 \<le> k" using k(3) assms(3) by blast
  moreover have "c \<in> navigables s \<Longrightarrow> k = c" using k(2,3) by fastforce
  ultimately show ?thesis using k(1,2) by blast
qed

lemma revisit:
  assumes "good \<E> s" "\<not> blocked s" "currentSlide s = c"
  shows "\<exists>t. changeSlide \<E> (Index (Some c) (- 1)) d s = Some t \<and> good \<E> t \<and>
           arrangement t = arrangement s \<and> revisited c s = Some (currentSlide t)"
proof -
  note g = goodD [OF assms(1)]
  obtain k where k: "checkNavigable c s = Some k" "0 \<le> k" "k \<le> c"
    using navigable_below [OF g(1), of c] g(5,6) assms(3) by auto
  have io: "index_ok s k" using k(2,3) g(6) assms(3) by (simp add: index_ok_def)
  obtain out where out: "out_of_range k s = Some out" using out_of_range_Some g(1) by blast
  let ?still = "slideCount s \<le> o_slidesToShow (options s)"
  have r: "revisited c s = Some (if ?still \<or> out then c else k)" by (simp add: revisited_def k(1) out)
  have go: "changeSlide \<E> (Index (Some c) (- 1)) d s = slideHandler \<E> k False d s"
    by (simp add: changeSlide_def k(1))
  show ?thesis
  proof (cases "(o_fade (options s) \<and> c = k) \<or> ?still")
    case True
    then have "slideHandler \<E> k False d s = Some s"
      using assms(2,3) unfolding slideHandler_def blocked_def Let_def by auto
    then show ?thesis using True go r assms(1,3) by auto
  next
    case False
    then obtain t where t: "slideHandler \<E> k False d s = Some t" "good \<E> t"
      "arrangement t = arrangement s" "currentSlide t = (if out then c else anim_slide k s)"
      using slideHandler_result [OF assms(1) io assms(2) _ _ out, of False d] assms(3) by auto
    moreover have "anim_slide k s = k" using k(2,3) g(6) assms(3) by (simp add: anim_slide_def Let_def)
    ultimately show ?thesis using go r False by auto
  qed
qed

lemma navigables_cong:
  assumes "arrangement t = arrangement s"
  shows "navigables t = navigables s"
  using arrangement_eqD [OF assms]
  by (simp add: navigables_def first_navigable_def nav_limit_def break_points_def paging_step_def)

lemma revisited_cong:
  assumes "arrangement t = arrangement s" "opts_ok (options s)"
  shows "revisited c t = revisited c s"
proof -
  note e = arrangement_eqD [OF assms(1)]
  have ot: "opts_ok (options t)" using assms(2) e(1,2) by (simp add: opts_ok_def)
  obtain ns ms where n: "getNavigableIndexes s = Some ns" "getNavigableIndexes t = Some ms"
    "set ms = set ns" "sorted_wrt (<) ns" "sorted_wrt (<) ms"
    using getNavigableIndexes_Some [OF ot] getNavigableIndexes_Some [OF assms(2)]
      navigables_cong [OF assms(1)] by auto
  have "ms = ns" using n(3-5) strict_sorted_equal by blast
  then have k: "checkNavigable c t = checkNavigable c s" by (simp add: checkNavigable_def n(1,2))
  have d: "dot_count t = dot_count s"
    using e by (simp add: dot_count_def more_dots_def paging_step_def Let_def)
  have "out_of_range i t = out_of_range i s" for i
    using e by (simp add: out_of_range_def getDotCount_Some [OF ot] getDotCount_Some [OF assms(2)] d Let_def)
  then show ?thesis using e by (simp add: revisited_def k)
qed

lemma revisited_navigable:
  assumes "opts_ok (options s)" "0 < slideCount s" "0 \<le> c" "c \<in> navigables s" "revisited c s = Some d"
  shows "d = c"
  using navigable_below [OF assms(1-3)] assms(4,5) by (auto simp: revisited_def split: if_splits bind_splits)

lemma refresh_eq:
  assumes "good \<E> s" "completions s = []" "responsive s = None" "o_slide (options s) = []"
    and "o_rows (options s) \<le> 1" "sliderKids s = []"
  obtains t where "good \<E> t" "slides t = slides s" "currentSlide t = refreshed_slide s"
    "responsive t = None" "o_slide (options t) = []" "labelled t" "completions t = []"
    "refresh (Suc n) \<E> initializing s =
       (if \<not> initializing then changeSlide \<E> (Index (Some (refreshed_slide s)) (- 1)) False t else Some t)"
proof -
  note g = goodD [OF assms(1)]
  let ?c = "refreshed_slide s" and ?last = "slideCount s - o_slidesToShow (options s)"
  define s1 where "s1 = (if \<not> o_infinite (options s) \<and> currentSlide s > ?last
    then s\<lparr>currentSlide := ?last\<rparr> else s)"
  define s2 where "s2 = (if slideCount s1 \<le> o_slidesToShow (options s1) then s1\<lparr>currentSlide := 0\<rparr> else s1)"
  have "s2 = s\<lparr>currentSlide := ?c\<rparr>"
    by (simp add: s2_def s1_def refreshed_slide_def Let_def)
  then have s2: "s2 = s\<lparr>currentSlide := ?c\<rparr>" "currentSlide s2 = ?c" by simp_all
  have c: "0 \<le> ?c" "?c < slideCount s" using g(5,6,12) by (auto simp: refreshed_slide_def Let_def)
  obtain t where t: "init (Suc n) \<E> False ((initials (destroy True s2))\<lparr>currentSlide := ?c\<rparr>) = Some t"
    "good \<E> t" "slides t = slides s" "currentSlide t = ?c" "responsive t = None" "o_slide (options t) = []"
    "labelled t" "completions t = []"
    using rebuilt [OF assms c, of n ?c] unfolding s2(1) by blast
  have "refresh (Suc n) \<E> initializing s =
      (if \<not> initializing then changeSlide \<E> (Index (Some ?c) (- 1)) False t else Some t)"
    unfolding refresh_def refresh_with_def Let_def s1_def [symmetric] s2_def [symmetric] s2(2)
    by (simp only: t(1) Option.bind.simps)
  then show thesis using that t(2-8) by blast
qed

text \<open>C7: refreshing a slider that is at rest destroys it and builds it again with the same slides in the
  same order, and it is consistent.  While the slider is being initialized it is at the slide it was at
  (the first one if all are visible, the first one of the last view if a finite slider was past that).
  Otherwise \<open>refresh\<close> goes there again: it is at that slide if \<open>checkNavigable\<close> allows it, and in general
  at the navigable slide before it, unless all are visible or that one is out of range.\<close>

theorem refresh_rebuilds:
  assumes "slider_ok \<E> s" "tasks_ok s" "completions s = []" "responsive s = None"
    and "o_slide (options s) = []" "o_rows (options s) \<le> 1" "sliderKids s = []"
  shows "\<exists>t. refresh (Suc n) \<E> initializing s = Some t \<and> slides t = slides s \<and>
           (if initializing \<or> refreshed_slide s \<in> navigables t then currentSlide t = refreshed_slide s
            else revisited (refreshed_slide s) t = Some (currentSlide t)) \<and>
           slider_ok \<E> t \<and> tasks_ok t"
proof -
  let ?c = "refreshed_slide s"
  have gs: "good \<E> s" using assms(1,2) by (simp add: good_def)
  obtain t where t: "good \<E> t" "slides t = slides s" "currentSlide t = ?c" "completions t = []"
    and r: "refresh (Suc n) \<E> initializing s =
      (if \<not> initializing then changeSlide \<E> (Index (Some ?c) (- 1)) False t else Some t)"
    by (rule refresh_eq [OF gs assms(3-7)])
  show ?thesis
  proof (cases initializing)
    case True
    then show ?thesis using r t by (simp add: good_def)
  next
    case False
    note g = goodD [OF t(1)]
    have "\<not> blocked t" using g(11) t(4) by (simp add: blocked_def)
    then obtain u where u: "changeSlide \<E> (Index (Some ?c) (- 1)) False t = Some u" "good \<E> u"
      "arrangement u = arrangement t" "revisited ?c t = Some (currentSlide u)"
      using revisit [OF t(1) _ t(3), of False] by blast
    have c: "revisited ?c u = Some (currentSlide u)" using u(4) revisited_cong [OF u(3) g(1)] by simp
    moreover have "currentSlide u = ?c" if "?c \<in> navigables u"
      using revisited_navigable [OF _ _ _ that] c g(5) goodD(1,5,6) [OF u(2)] t(3) by simp
    ultimately show ?thesis
      using r False u(1,2) arrangement_eqD(8) [OF u(3)] t(2) by (simp add: good_def)
  qed
qed

lemma tour_state_idle:
  "completions tour_state = []" "o_rows (options tour_state) \<le> 1" "sliderKids tour_state = []"
proof -
  let ?s = "numbered (sample 4 [S_arrows False])"
  note e = unframed_eqD [OF unframed_setupInfinite [of ?s]]
  have "tasks (setupInfinite ?s) = []" by (simp add: e no_center_same) (simp add: numbered_def)
  then show "completions tour_state = []"
    unfolding tour_state_def
    by (simp add: completions_update completions_setSlideClasses) (simp add: completions_def)
  show "o_rows (options tour_state) \<le> 1"
    by (simp add: tour_state_def e no_center_same) (simp add: numbered_def no_center_in_fade_def)
  have "sliderKids (setupInfinite ?s) = sliderKids ?s"
    using arg_cong [OF unframed_setupInfinite [of ?s], of sliderKids]
    by (simp add: unframed_def no_center_in_fade_def write_option_def Let_def)
  then show "sliderKids tour_state = []"
    using still_eqD(39) [OF still_frame [OF frame_setSlideClasses [of 0 "setupInfinite ?s"]]]
    by (simp add: tour_state_def) (simp add: numbered_def sample_def new_slick_def Let_def)
qed

theorem refresh_rebuilds_witness:
  "\<exists>t. refresh (Suc 0) plain_env False tour_state = Some t \<and> slides t = slides tour_state \<and>
       (if False \<or> refreshed_slide tour_state \<in> navigables t then currentSlide t = refreshed_slide tour_state
        else revisited (refreshed_slide tour_state) t = Some (currentSlide t)) \<and>
       slider_ok plain_env t \<and> tasks_ok t"
  by (rule refresh_rebuilds)
    (simp_all add: tour_state_good tour_state_track(1-4) tour_state_idle)

end
