(* ===== verification/Slick_Session.thy ===== *)
theory Slick_Session
  imports Slick_Refresh
begin

text \<open>
  The whole session of a slider: it is constructed, it is used, the window is resized or turned,
  slides are added, and it is refreshed, in any order.  The theorem is that it is consistent at every
  moment.
\<close>

subsection \<open>What the running slider does not touch\<close>

text \<open>The responsive settings, the selector of the slides, the slides and the labels of the elements.\<close>

definition standing :: "slick \<Rightarrow> (real \<times> bp_settings) list option \<times> string \<times> nat list \<times> (nat \<Rightarrow> int option)" where
  "standing s = (responsive s, o_slide (options s), slides s, \<lambda>i. slick_index (els s i))"

named_theorems standing_simps \<open>operations of the running slider, which keep what is standing\<close>

lemmas standing_if [standing_simps] = if_distrib [of standing]

lemma standingI:
  assumes "view t = view s" "responsive t = responsive s"
  shows "standing t = standing s"
  using assms(2) o_slide_view [OF assms(1)] view_eqD(11,19) [OF assms(1)] by (simp add: standing_def)

lemma standingD:
  assumes "standing t = standing s"
  shows "responsive t = responsive s" "o_slide (options t) = o_slide (options s)" "slides t = slides s"
    "labelled t = labelled s"
  using assms by (simp_all add: standing_def labelled_def fun_eq_iff)

lemma standing_fields [standing_simps]:
  "standing (s\<lparr>trace := es\<rparr>) = standing s" "standing (s\<lparr>tasks := ks\<rparr>) = standing s"
  "standing (s\<lparr>prevArrow := p\<rparr>) = standing s" "standing (s\<lparr>nextArrow := p\<rparr>) = standing s"
  "standing (s\<lparr>timers := us\<rparr>) = standing s" "standing (s\<lparr>nextTimer := k\<rparr>) = standing s"
  "standing (s\<lparr>autoPlayTimer := u\<rparr>) = standing s" "standing (s\<lparr>paused := b\<rparr>) = standing s"
  "standing (s\<lparr>focussed := b\<rparr>) = standing s" "standing (s\<lparr>interrupted := b\<rparr>) = standing s"
  "standing (s\<lparr>animating := b\<rparr>) = standing s" "standing (s\<lparr>dragging := b\<rparr>) = standing s"
  "standing (s\<lparr>direction := i\<rparr>) = standing s" "standing (s\<lparr>currentDirection := i\<rparr>) = standing s"
  "standing (s\<lparr>currentSlide := i\<rparr>) = standing s" "standing (s\<lparr>swipeLeft := sl\<rparr>) = standing s"
  "standing (s\<lparr>shouldClick := b\<rparr>) = standing s" "standing (s\<lparr>dotItems := ds\<rparr>) = standing s"
  "standing (s\<lparr>windowWidth := r\<rparr>) = standing s" "standing (s\<lparr>windowDelay := d\<rparr>) = standing s"
  by (simp_all add: standing_def)

lemma standing_ops [standing_simps]:
  "standing (trigger e s) = standing s" "standing (later k s) = standing s"
  "standing (write_touch g s) = standing s" "standing (new_touch s) = standing s"
  "standing (clear_interval u s) = standing s" "standing (updateDots s) = standing s"
  by (simp_all add: standing_def trigger_def later_def write_touch_def new_touch_def clear_interval_def
      updateDots_def Let_def split: option.split)

lemma standing_still: "view t = view s \<Longrightarrow> still t = still s \<Longrightarrow> standing t = standing s"
  by (intro standingI still_eqD(4))

lemma standing_layout [standing_simps]:
  "standing (setCSS r s) = standing s" "standing (snd (getLeft \<E> i s)) = standing s"
  "standing (setPosition \<E> s) = standing s"
  by (intro standing_still still_layout still_setPosition; simp add: view_simps)+

lemma standing_setSlideClasses [standing_simps]: "standing (setSlideClasses i s) = standing s"
  by (simp add: standing_def)

lemma responsive_animations:
  "responsive (animateHeight \<E> s) = responsive s" "responsive (applyTransition d s) = responsive s"
  "responsive (disableTransition d s) = responsive s" "responsive (animateSlide \<E> r i s) = responsive s"
  "responsive (fadeSlide i j s) = responsive s" "responsive (fadeSlideOut i s) = responsive s"
  by (simp_all add: animateHeight_def applyTransition_def disableTransition_def animateSlide_def
      fadeSlide_def fadeSlideOut_def css_track_def css_list_def setCSS_def mod_els_def later_def
      getLeft_def Let_def split: option.split)

lemma standing_animations [standing_simps]:
  "standing (animateHeight \<E> s) = standing s" "standing (applyTransition d s) = standing s"
  "standing (disableTransition d s) = standing s" "standing (animateSlide \<E> r i s) = standing s"
  "standing (fadeSlide i j s) = standing s" "standing (fadeSlideOut i s) = standing s"
  by (rule standingI; simp add: view_simps responsive_animations)+

lemma standing_autoplay [standing_simps]:
  "standing (autoPlayClear s) = standing s" "standing (autoPlay s) = standing s"
  "standing (asNavFor i s) = standing s"
  by (simp_all add: autoPlayClear_def autoPlay_def asNavFor_def Let_def standing_simps split: option.split)

lemma standing_initADA [standing_simps]: "standing (initADA s) = standing s"
  using carried_initADA by (intro standingI) (simp_all add: view_simps carried_def)

lemma standing_pauses [standing_simps]:
  "standing (pause s) = standing s" "standing (play s) = standing s" "standing (interrupt b s) = standing s"
  "standing (visibility \<E> s) = standing s" "standing (on_focus e s) = standing s"
  "standing (focus_timeout \<E> e s) = standing s"
proof -
  have "standing (write_option (o_autoplay_update f) t) = standing t" for f t
    by (simp add: standing_def write_option_def Let_def)
  then show "standing (play s) = standing s" by (simp add: play_def standing_simps)
qed (simp_all add: pause_def interrupt_def visibility_def on_focus_def focus_timeout_def standing_simps)

lemma standing_postSlide [standing_simps]: "standing (postSlide \<E> i s) = standing s"
  by (simp add: postSlide_def Let_def standing_simps)

lemma standing_complete [standing_simps]: "standing (complete \<E> k s) = standing s"
  by (cases k) (simp_all add: standing_simps)

lemma standing_mod_pic [standing_simps]: "standing (mod_pic i k f s) = standing s"
  by (intro standingI image_steps) (simp add: mod_pic_def mod_els_def)

lemma standing_image_callback [standing_simps]: "standing (image_callback \<E> ok k s) = standing s"
  by (cases k) (simp_all add: progressive_load_def progressive_error_def progressiveLazyLoad_def
      Let_def standing_simps split: list.split)

text \<open>The handlers, whose results are options.\<close>

lemma standing_updateArrows: "updateArrows s = Some t \<Longrightarrow> standing t = standing s"
  by (erule updateArrows_keeps) (simp_all only: standing_simps)

lemma standing_move_to:
  assumes "move_to \<E> i r d s = Some t"
  shows "standing t = standing s"
proof -
  have nav: "nav_classes \<E> u = Some v \<Longrightarrow> standing v = standing u" for u v
    by (auto simp: nav_classes_def standing_simps split: if_splits)
  show ?thesis
    using assms unfolding move_to_def Let_def
    by (auto simp: standing_simps dest!: nav standing_updateArrows split: bind_splits if_splits)
qed

lemma standing_slideHandler:
  assumes "slideHandler \<E> i sync d s = Some t"
  shows "standing t = standing s"
proof (cases "animating s \<and> o_waitForAnimate (options s) \<or> o_fade (options s) \<and> currentSlide s = i \<or>
              slideCount s \<le> o_slidesToShow (options s)")
  case True
  then show ?thesis using assms by (auto simp: slideHandler_def Let_def split: if_splits)
next
  case False
  obtain u l l' where u: "view u = view s" "responsive u = responsive s"
    "slideHandler \<E> i sync d s = do {
       out \<leftarrow> out_of_range i u;
       if out then
         Some (if o_fade (options s) then u
               else if \<not> d then animateSlide \<E> l' (currentSlide u) u
               else postSlide \<E> (currentSlide u) u)
       else move_to \<E> i l d u}"
    using slideHandler_moves [of s i \<E> sync d] False by blast
  have "standing t = standing u"
    using assms unfolding u(3)
    by (auto simp: standing_simps dest!: standing_move_to split: bind_splits if_splits)
  then show ?thesis using standingI [OF u(1,2)] by simp
qed

lemma standing_changeSlide:
  "changeSlide \<E> m d s = Some t \<Longrightarrow> standing t = standing s"
  by (auto simp: changeSlide_def Let_def standing_simps dest!: standing_slideHandler
      split: message.splits if_splits bind_splits)

lemma standing_handlers:
  "keyHandler \<E> tag code s = Some t \<Longrightarrow> standing t = standing s"
  "selectHandler \<E> target s = Some t \<Longrightarrow> standing t = standing s"
  "autoPlayIterator \<E> s = Some t \<Longrightarrow> standing t = standing s"
  by (auto simp: keyHandler_def selectHandler_def autoPlayIterator_def Let_def standing_simps
      dest!: standing_slideHandler standing_changeSlide split: if_splits)

lemma standing_swipes [standing_simps]:
  "standing (swipeStart ev s) = standing s" "standing (swipe_lengths \<E> p s) = standing s"
  "standing (swipe_to \<E> l n s) = standing s"
  by (simp_all add: swipeStart_def swipe_lengths_def swipe_to_def Let_def standing_simps split: jsnum.split)

lemma standing_swipeMove:
  assumes "swipeMove \<E> ev s = Some t"
  shows "standing t = standing s"
proof -
  obtain l u where g: "getLeft \<E> (currentSlide s) s = (l, u)" by fastforce
  have "standing u = standing s" using arg_cong [OF g, of "\<lambda>p. standing (snd p)"] by (simp add: standing_simps)
  then show ?thesis
    using assms unfolding swipeMove_def g
    by (auto simp: Let_def standing_simps split: if_splits bind_splits)
qed

lemma standing_swipeEnd: "swipeEnd \<E> s = Some t \<Longrightarrow> standing t = standing s"
  by (auto simp: swipeEnd_def Let_def standing_simps dest!: standing_slideHandler split: if_splits bind_splits)

lemma standing_swipeHandler: "swipeHandler \<E> a ev s = Some t \<Longrightarrow> standing t = standing s"
  by (auto simp: swipeHandler_def Let_def standing_simps dest!: standing_swipeMove standing_swipeEnd
      split: if_splits action.splits)

lemma slider_step_standing: "slider_step nav s t \<Longrightarrow> standing t = standing s"
  by (induction rule: slider_step.induct)
    (simp_all add: standing_simps standing_changeSlide standing_handlers standing_swipeHandler)

subsection \<open>Sessions\<close>

text \<open>
  The steps of a session: those of the running slider, a resize event with the timeout it starts, a
  turn of the device, and what the page calls: \<open>addSlide\<close> at any place, \<open>removeSlide\<close> of the last
  slide, \<open>setOption\<close> with a refresh for a value that makes sense, and \<open>refresh\<close> of a slider that is at
  rest and has one row.  A call that fails is no step; \<open>session_calls_succeed\<close> states that none does.
\<close>

definition at_rest :: "slick \<Rightarrow> bool" where
  "at_rest s \<longleftrightarrow> completions s = [] \<and> o_rows (options s) \<le> 1 \<and> sliderKids s = []"

definition sensible :: "env \<Rightarrow> setting \<Rightarrow> slick \<Rightarrow> bool" where
  "sensible \<E> x s \<longleftrightarrow>
     (let u = write_option (apply_setting x) s
      in opts_ok (options u) \<and> o_slide (options u) = [] \<and> nav_ok \<E> u)"

definition last_removable :: "place \<Rightarrow> bool \<Rightarrow> slick \<Rightarrow> bool" where
  "last_removable p b s \<longleftrightarrow>
     place_index p b s = slideCount s - 1 \<and> 1 < slideCount s \<and>
     o_slidesToScroll (options s) \<le> o_slidesToShow (options s) \<and>
     list_all (\<lambda>i. i < slideCount s - 1) (completions s)"

inductive session_step :: "(string \<Rightarrow> bool) \<Rightarrow> slick \<Rightarrow> slick \<Rightarrow> bool" for nav where
  session_run: "slider_step nav s t \<Longrightarrow> session_step nav s t"
| session_resize: "nav_found \<E> = nav \<Longrightarrow> session_step nav s (resize \<E> s)"
| session_timeout: "nav_found \<E> = nav \<Longrightarrow> tasks s = ks @ Resize_timeout k # ls \<Longrightarrow>
    resize_timeout n \<E> (s\<lparr>tasks := ks @ ls\<rparr>) = Some t \<Longrightarrow> session_step nav s t"
| session_turn: "nav_found \<E> = nav \<Longrightarrow> orientationChange n \<E> s = Some t \<Longrightarrow> session_step nav s t"
| session_add: "nav_found \<E> = nav \<Longrightarrow> list_all (\<lambda>e. Slick_cloned \<notin> classes e) markup \<Longrightarrow>
    addSlide n \<E> markup index b s = Some t \<Longrightarrow> session_step nav s t"
| session_remove: "nav_found \<E> = nav \<Longrightarrow> last_removable p b s \<Longrightarrow>
    removeSlide n \<E> p b False s = Some t \<Longrightarrow> session_step nav s t"
| session_option: "nav_found \<E> = nav \<Longrightarrow> sensible \<E> x s \<Longrightarrow> setOption n \<E> (Single x) True s = Some t \<Longrightarrow>
    session_step nav s t"
| session_refresh: "nav_found \<E> = nav \<Longrightarrow> at_rest s \<Longrightarrow> refresh (Suc n) \<E> initializing s = Some t \<Longrightarrow>
    session_step nav s t"

text \<open>A slider as the page makes it, before the constructor runs, and the states of its session.\<close>

definition pristine :: "env \<Rightarrow> slick \<Rightarrow> bool" where
  "pristine \<E> s \<longleftrightarrow>
     Slick_initialized \<notin> classes (sliderEl s) \<and> ready \<E> s \<and> o_rows (options s) \<le> 1 \<and>
     o_slide (options s) = [] \<and> responsive s = None \<and> completions s = [] \<and> \<not> animating s"

inductive reachable :: "(string \<Rightarrow> bool) \<Rightarrow> slick \<Rightarrow> bool" for nav where
  reachable_start: "nav_found \<E> = nav \<Longrightarrow> pristine \<E> s \<Longrightarrow> construct (Suc n) \<E> s = Some t \<Longrightarrow> reachable nav t"
| reachable_step: "reachable nav s \<Longrightarrow> session_step nav s t \<Longrightarrow> reachable nav t"

text \<open>The invariant of a session.\<close>

definition session_ok :: "env \<Rightarrow> slick \<Rightarrow> bool" where
  "session_ok \<E> s \<longleftrightarrow> good \<E> s \<and> labelled s \<and> responsive s = None \<and> o_slide (options s) = []"

lemma session_okD:
  assumes "session_ok \<E> s"
  shows "good \<E> s" "responsive s = None" "o_slide (options s) = []" "labelled s"
  using assms by (simp_all add: session_ok_def)

lemma session_okI:
  "good \<E> t \<Longrightarrow> standing t = standing s \<Longrightarrow> session_ok \<E> s \<Longrightarrow> session_ok \<E> t"
  using standingD [of t s] by (simp add: session_ok_def)

lemma session_ok_nav: "nav_found \<E> = nav_found \<E>' \<Longrightarrow> session_ok \<E> s \<longleftrightarrow> session_ok \<E>' s"
  unfolding session_ok_def using good_nav by metis

lemma checkResponsive_none: "responsive s = None \<Longrightarrow> checkResponsive n \<E> initial forced s = Some s"
  by (simp add: checkResponsive_def checkResponsive_with_def)

lemma session_ok_keep:
  assumes "session_ok \<E> s" "view t = view s" "completions t = completions s" "animating t = animating s"
    and "standing t = standing s"
  shows "session_ok \<E> t"
  using good_keep [OF session_okD(1) [OF assms(1)] assms(2-4)] assms(5,1) by (rule session_okI)

lemma completions_resize:
  "completions (s\<lparr>tasks := filter (\<lambda>t. t \<noteq> Resize_timeout k) (tasks s)\<rparr>) = completions s"
  "completions (s\<lparr>windowDelay := d\<rparr>) = completions s" "completions (s\<lparr>windowWidth := w\<rparr>) = completions s"
proof -
  have "List.map_filter completion (filter (\<lambda>t. t \<noteq> Resize_timeout k) ts) = List.map_filter completion ts" for ts
    by (induction ts) (auto simp: map_filter_simps split: option.split)
  then show "completions (s\<lparr>tasks := filter (\<lambda>t. t \<noteq> Resize_timeout k) (tasks s)\<rparr>) = completions s"
    by (simp add: completions_def)
qed (simp_all add: completions_def)

lemma resize_ok:
  assumes "session_ok \<E> s"
  shows "session_ok \<E> (resize \<E>' s)"
  using assms
  by (rule session_ok_keep)
    (simp_all add: resize_def Let_def view_simps standing_simps completions_resize animating_simps
      completions_update split: option.split)

lemma laid_out_ok:
  assumes "session_ok \<E> s"
  shows "session_ok \<E> (setPosition \<E>' s)" "session_ok \<E> (s\<lparr>windowWidth := w\<rparr>)"
  using assms
  by (auto elim!: session_ok_keep simp: view_simps standing_simps animating_simps completions_resize)

lemma resize_timeout_ok:
  assumes "session_ok \<E> s" "tasks s = ks @ Resize_timeout k # ls"
  shows "\<exists>t. resize_timeout n \<E>' (s\<lparr>tasks := ks @ ls\<rparr>) = Some t \<and> session_ok \<E> t"
proof -
  let ?s = "s\<lparr>tasks := ks @ ls\<rparr>"
  have "session_ok \<E> ?s"
    using good_drop [OF session_okD(1) [OF assms(1)] assms(2)] assms(1)
    by (auto elim: session_okI simp: standing_simps)
  then have u: "session_ok \<E> (?s\<lparr>windowWidth := window_width \<E>'\<rparr>)" by (rule laid_out_ok)
  from checkResponsive_none [OF session_okD(2) [OF u]] show ?thesis
    using u laid_out_ok(1) [OF u] unfolding resize_timeout_def by simp
qed

lemma orientationChange_ok:
  assumes "session_ok \<E> s"
  shows "\<exists>t. orientationChange n \<E>' s = Some t \<and> session_ok \<E> t"
  using assms laid_out_ok(1) checkResponsive_none [OF session_okD(2) [OF assms]]
  by (simp add: orientationChange_def)

lemma addSlide_ok:
  assumes "session_ok \<E> s" "list_all (\<lambda>e. Slick_cloned \<notin> classes e) markup"
  shows "\<exists>t. addSlide n \<E> markup index b s = Some t \<and> session_ok \<E> t"
proof (cases "case index of None \<Rightarrow> True | Some i \<Rightarrow> 0 \<le> i \<and> i < slideCount s")
  case True
  then show ?thesis
    using addSlide_result [OF session_okD(1-3) [OF assms(1)] assms(2)] session_okD(2,3) [OF assms(1)]
    by (fastforce simp: session_ok_def)
next
  case False
  then have "addSlide n \<E> markup index b s = Some s"
    by (auto simp: addSlide_def split: option.splits)
  then show ?thesis using assms(1) by simp
qed

lemma removeSlide_ok:
  assumes "session_ok \<E> s" "last_removable p b s"
  shows "\<exists>t. removeSlide n \<E> p b False s = Some t \<and> session_ok \<E> t"
proof -
  note ok = session_okD [OF assms(1)]
  note g = goodD [OF ok(1)]
  note l = assms(2) [unfolded last_removable_def]
  let ?k = "nat (slideCount s - 1)"
  obtain u t where t: "removeSlide n \<E> p b False s = Some t" "regrouped \<E> u t"
    "track u = filter (\<lambda>i. i \<noteq> slides s ! ?k) (slides s)" "options u = options s"
    "currentSlide u = currentSlide s" "nextEl u = nextEl s" "responsive u = None"
    "\<And>j. slick_index (els u j) = slick_index (els s j)"
    "numbered_track u \<and> currentSlide t < int (length (track u)) \<and>
     list_all (\<lambda>i. 0 \<le> i \<and> i < int (length (track u))) (completions s) \<longrightarrow> good \<E> t"
    using removeSlide_result [OF ok(1-3), of p b n thesis] l by simp
  note rt = t(2) [unfolded regrouped_def]
  have k: "?k < length (slides s)" "Suc ?k = length (slides s)" using l g(3) by linarith+
  have tu: "track u = take ?k (slides s)" using remove_nth [OF g(8) k(1)] k(2) by (simp add: t(3))
  have len: "int (length (track u)) = slideCount s - 1" using l g(3) by (auto simp: tu)
  have "numbered_track u" using ok(4) k by (simp add: labelled_def numbered_track_def tu t(8))
  moreover have "currentSlide t < int (length (track u))"
    using rt g(6,12,13) l by (auto simp: len recentred_def t(4,5))
  moreover have "list_all (\<lambda>i. 0 \<le> i \<and> i < int (length (track u))) (completions s)"
    using l g(10) by (simp add: len list_all_iff)
  ultimately have "good \<E> t" using t(9) by blast
  moreover have "labelled t"
    using rt ok(4) k g(9) by (simp add: labelled_def tu t(6,8))
  moreover have "responsive t = None" "o_slide (options t) = []"
    using rt ok(3) by (simp_all add: carried_def t(4,7))
  ultimately show ?thesis using t(1) by (simp add: session_ok_def)
qed

lemma setOption_ok:
  assumes "session_ok \<E> s" "sensible \<E> x s"
  shows "\<exists>t. setOption n \<E> (Single x) True s = Some t \<and> session_ok \<E> t"
proof -
  note ok = session_okD [OF assms(1)]
  note g = goodD [OF ok(1)]
  define v where "v = write_option (apply_setting x) s"
  define u where "u = unload v"
  have v: "opts_ok (options v)" "o_slide (options v) = []" "nav_ok \<E> v"
    using assms(2) by (simp_all add: sensible_def v_def Let_def)
  have same: "track v = track s" "slides v = slides s" "els v = els s" "nextEl v = nextEl s"
    "currentSlide v = currentSlide s" "unslicked v = unslicked s" "completions v = completions s"
    "animating v = animating s" "responsive v = None"
    using ok(2) by (simp_all add: v_def write_option_def Let_def completions_def)
  note un = unload_same [of v, folded u_def]
  have tu: "track u = slides s"
    using unload_sound(1) [OF g(2)] by (simp add: un same unload_same)
  have rc: "recentred (int (length (slides s))) u =
      (if int (length (slides s)) \<le> o_slidesToShow (options u) then 0 else currentSlide s)"
    using g(3,6) by (simp add: recentred_def un same)
  have st: "sound_track u" using g(8,9) by (simp add: sound_track_def tu un same)
  have nt: "numbered_track u" using ok(4) by (simp add: numbered_track_def labelled_def tu un same)
  have pre: "responsive u = None \<or> responsive u = Some []" "opts_ok (options u)" "o_slide (options u) = []"
    "sound_track u" "0 \<le> recentred (int (length (track u))) u"
    using st v(1,2) un(9) g(5) by (simp_all add: un(10) rc tu same(9) carried_def)
  obtain t where t: "reinit n \<E> u = Some t" "regrouped \<E> u t"
    "numbered_track u \<and> currentSlide t < int (length (track u)) \<and> nav_ok \<E> u \<and> \<not> unslicked u \<and>
     list_all (\<lambda>i. 0 \<le> i \<and> i < int (length (track u))) (completions u) \<and>
     (animating u \<longrightarrow> completions u \<noteq> []) \<longrightarrow> good \<E> t"
    using reinit_regrouped [OF pre] by blast
  note rt = t(2) [unfolded regrouped_def]
  have "currentSlide t < int (length (track u))" using rt g(3,5,6) by (auto simp: tu rc)
  moreover have "nav_ok \<E> u" using v(3) by (simp add: nav_ok_def has_nav_def un(10))
  ultimately have "good \<E> t" using t(3) nt g(3,4,10,11) by (simp add: un(6-8) same tu)
  moreover have "responsive t = None" "o_slide (options t) = []"
    using rt pre(3) un(9) same(9) by (simp_all add: carried_def)
  moreover have "setOption n \<E> (Single x) True s = Some t"
    using t(1) by (simp add: setOption_def u_def v_def)
  ultimately show ?thesis using regrouped_labelled [OF t(2) st nt] by (simp add: session_ok_def)
qed

lemma refresh_ok:
  assumes "session_ok \<E> s" "at_rest s"
  shows "\<exists>t. refresh (Suc n) \<E> initializing s = Some t \<and> session_ok \<E> t"
proof -
  note ok = session_okD [OF assms(1)]
  have rest: "completions s = []" "o_rows (options s) \<le> 1" "sliderKids s = []"
    using assms(2) by (simp_all add: at_rest_def)
  obtain t where t: "good \<E> t" "responsive t = None" "o_slide (options t) = []" "labelled t"
    and r: "refresh (Suc n) \<E> initializing s =
      (if \<not> initializing then changeSlide \<E> (Index (Some (refreshed_slide s)) (- 1)) False t else Some t)"
    using refresh_eq [OF ok(1) rest(1) ok(2,3) rest(2,3)] by blast
  have s: "session_ok \<E> t" using t by (simp add: session_ok_def)
  obtain u where "changeSlide \<E> (Index (Some (refreshed_slide s)) (- 1)) False t = Some u" "good \<E> u"
    using changeSlide_fine [OF t(1)] unfolding fine_def by blast
  then show ?thesis using r s session_okI [OF _ standing_changeSlide s] by auto
qed

lemma session_step_ok:
  assumes "session_step (nav_found \<E>) s t" "session_ok \<E> s"
  shows "session_ok \<E> t"
  using assms
proof (induction rule: session_step.induct)
  case (session_run s t)
  then show ?case using slider_step_good slider_step_standing session_okI session_okD(1) by metis
next
  case (session_resize \<E>' s)
  then show ?case by (intro resize_ok)
next
  case (session_timeout \<E>' s ks k ls n t)
  then show ?case using resize_timeout_ok by (metis option.inject)
next
  case (session_turn \<E>' n s t)
  then show ?case using orientationChange_ok by (metis option.inject)
next
  case (session_add \<E>' markup n index b s t)
  then show ?case using addSlide_ok session_ok_nav by (metis option.inject)
next
  case (session_remove \<E>' p b s n t)
  then show ?case using removeSlide_ok session_ok_nav by (metis option.inject)
next
  case (session_option \<E>' x s n t)
  then show ?case using setOption_ok session_ok_nav by (metis option.inject)
next
  case (session_refresh \<E>' s n initializing t)
  then show ?case using refresh_ok session_ok_nav by (metis option.inject)
qed

lemma construct_session_ok:
  assumes "pristine \<E> s"
  shows "\<exists>t. construct (Suc n) \<E> s = Some t \<and> session_ok \<E> t"
proof -
  note p = assms [unfolded pristine_def]
  obtain t where "init (Suc n) \<E> True s = Some t" "good \<E> t" "labelled t" "responsive t = responsive s"
    "o_slide (options t) = o_slide (options s)"
    using init_ok [of s \<E> n True] p by blast
  then show ?thesis using p registerBreakpoints_none [of s] by (simp add: construct_def session_ok_def)
qed

lemma reachable_ok: "reachable (nav_found \<E>) s \<Longrightarrow> session_ok \<E> s"
proof (induction rule: reachable.induct)
  case (reachable_start \<E>' s n t)
  then show ?case using construct_session_ok session_ok_nav by (metis option.inject)
next
  case (reachable_step s t)
  then show ?case using session_step_ok by blast
qed

text \<open>C2: in every state of every session the slider is consistent, and its slides are numbered in
  their order.\<close>

theorem session_consistent:
  assumes "reachable (nav_found \<E>) s"
  shows "slider_ok \<E> s \<and> tasks_ok s \<and>
         (\<forall>j < length (slides s). slick_index (els s (slides s ! j)) = Some (int j))"
  using reachable_ok [OF assms] by (simp add: session_ok_def good_def labelled_def)

text \<open>C6: in every state of every session the calls of the page and of the window succeed.\<close>

theorem session_calls_succeed:
  assumes "reachable (nav_found \<E>) s"
  shows "orientationChange n \<E> s \<noteq> None \<and>
         (tasks s = ks @ Resize_timeout k # ls \<longrightarrow> resize_timeout n \<E> (s\<lparr>tasks := ks @ ls\<rparr>) \<noteq> None) \<and>
         (list_all (\<lambda>e. Slick_cloned \<notin> classes e) markup \<longrightarrow> addSlide n \<E> markup index b s \<noteq> None) \<and>
         (last_removable p b s \<longrightarrow> removeSlide n \<E> p b False s \<noteq> None) \<and>
         (sensible \<E> x s \<longrightarrow> setOption n \<E> (Single x) True s \<noteq> None) \<and>
         (at_rest s \<longrightarrow> refresh (Suc n) \<E> initializing s \<noteq> None)"
proof -
  have calls: "(\<exists>t. r = Some t \<and> session_ok \<E> t) \<Longrightarrow> r \<noteq> None" for r by blast
  note ok = reachable_ok [OF assms]
  show ?thesis
    using ok by (intro conjI impI calls orientationChange_ok resize_timeout_ok addSlide_ok removeSlide_ok
        setOption_ok refresh_ok)
qed

text \<open>The session of a slider of five children begins.\<close>

lemma fresh_slider_pristine: "pristine \<E> (fresh_slider [S_arrows False])"
  by (simp add: pristine_def blank_def ready_def found_slides_def slide_children_def opts_ok_def nav_ok_def has_nav_def
      completions_def)

lemma fresh_slider_session:
  obtains t where "construct (Suc 0) plain_env (fresh_slider [S_arrows False]) = Some t"
    "reachable (nav_found plain_env) t" "session_ok plain_env t"
proof -
  obtain t where "construct (Suc 0) plain_env (fresh_slider [S_arrows False]) = Some t" "session_ok plain_env t"
    using construct_session_ok [OF fresh_slider_pristine] by blast
  then show thesis using that reachable_start [OF refl fresh_slider_pristine] by blast
qed

theorem session_consistent_witness:
  "\<exists>t. construct (Suc 0) plain_env (fresh_slider [S_arrows False]) = Some t \<and>
       slider_ok plain_env t \<and> tasks_ok t \<and>
       (\<forall>j < length (slides t). slick_index (els t (slides t ! j)) = Some (int j))"
  by (rule fresh_slider_session) (use session_consistent in blast)

theorem session_calls_succeed_witness:
  "\<exists>t. construct (Suc 0) plain_env (fresh_slider [S_arrows False]) = Some t \<and>
       orientationChange 0 plain_env t \<noteq> None \<and> addSlide 0 plain_env [blank] (Some 1) True t \<noteq> None \<and>
       setOption 0 plain_env (Single (S_dots True)) True t \<noteq> None"
proof (rule fresh_slider_session)
  fix t
  assume t: "construct (Suc 0) plain_env (fresh_slider [S_arrows False]) = Some t"
    "reachable (nav_found plain_env) t" "session_ok plain_env t"
  have "sensible plain_env (S_dots True) t"
    using goodD(1,7) [OF session_okD(1) [OF t(3)]] session_okD(3) [OF t(3)]
    by (simp add: sensible_def write_option_def Let_def opts_ok_def nav_ok_def has_nav_def)
  moreover have "list_all (\<lambda>e. Slick_cloned \<notin> classes e) [blank]" by (simp add: blank_def)
  ultimately show ?thesis
    using t(1) session_calls_succeed [OF t(2), of 0 "[]" 0 "[]" "[blank]" "Some 1" True "At 0" "S_dots True" True]
    by blast
qed

end
