(* ===== verification/Slick_Plugin.thy ===== *)
theory Slick_Plugin
  imports Slick_Life
begin

text \<open>
  \<open>$.fn.slick\<close>: the jQuery plugin, through which the page creates sliders and calls their methods.

  The elements of the collection are their sliders.  A method is what it does to one slider and
  what it returns, \<open>None\<close> for \<open>undefined\<close>.
\<close>

text \<open>With settings, or without arguments, every element gets a slider.\<close>

fun fn_slick_new :: "nat \<Rightarrow> env \<Rightarrow> slick list \<Rightarrow> slick list option" where
  "fn_slick_new n \<E> [] = Some []"
| "fn_slick_new n \<E> (s # ss) =
     do { t \<leftarrow> construct n \<E> s; ts \<leftarrow> fn_slick_new n \<E> ss; Some (t # ts) }"

text \<open>
  With the name of a method, the method is called on the sliders in turn, up to the first one that
  returns a value: that value is the result.
\<close>

fun fn_slick_call :: "(slick \<Rightarrow> slick \<times> 'r option) \<Rightarrow> slick list \<Rightarrow> slick list \<times> 'r option" where
  "fn_slick_call method [] = ([], None)"
| "fn_slick_call method (s # ss) =
     (case method s of
        (t, Some r) \<Rightarrow> (t # ss, Some r)
      | (t, None) \<Rightarrow> (case fn_slick_call method ss of (ts, r) \<Rightarrow> (t # ts, r)))"

lemma fn_slick_call_all:
  "\<forall>s \<in> set ss. snd (method s) = None \<Longrightarrow> fn_slick_call method ss = (map (fst \<circ> method) ss, None)"
proof (induction ss)
  case (Cons s ss)
  then show ?case by (cases "method s") simp
qed simp

text \<open>A getter reads the first slider and leaves all of them as they are.\<close>

lemma fn_slick_call_get:
  "fn_slick_call (\<lambda>s. (s, Some (getOption option s))) (s # ss) = (s # ss, Some (getOption option s))"
  by simp

end
