(* ===== verification/Site_Tween.thy ===== *)
theory Site_Tween
  imports JS_Values
begin

text \<open>
  \<open>CSSPlugin.js\<close>, the plugin with which TweenJS animates CSS properties: it reads the start value
  of a property as a number, and writes numbers back with the unit of the property.  TweenJS
  itself is not modelled: it calls \<open>css_init\<close> and \<open>css_tween\<close> for the properties of \<open>install\<close>.
\<close>

subsection \<open>Reading and writing numbers\<close>

text \<open>\<open>parseInt(s)\<close> without a radix: decimal, or hexadecimal after \<open>0x\<close>.\<close>

definition is_digit :: "char \<Rightarrow> bool" where
  "is_digit c \<longleftrightarrow> digit_val c \<noteq> None"

definition decimal_number :: "string \<Rightarrow> jsnum" where
  "decimal_number s =
     (let ds = takeWhile is_digit s
      in if ds = [] then NaN else Fin (real (the (digits_val 0 ds))))"

definition js_parse_int :: "string \<Rightarrow> jsnum" where
  "js_parse_int s0 =
     (let s1 = dropWhile is_space s0;
          neg = (take 1 s1 = ''-'');
          s2 = (if take 1 s1 = ''-'' \<or> take 1 s1 = ''+'' then drop 1 s1 else s1);
          n = (if take 2 s2 = ''0x'' \<or> take 2 s2 = ''0X'' then hex_number (drop 2 s2) else decimal_number s2)
      in if neg then - n else n)"

text \<open>
  The text of a number.  Integers below \<open>10 ^ 21\<close> are written in full; \<open>str_of\<close> gives the digits
  of the other numbers.
\<close>

fun num_text :: "(real \<Rightarrow> string) \<Rightarrow> jsnum \<Rightarrow> string" where
  "num_text str_of (Fin r) =
     (if r = real_of_int \<lfloor>r\<rfloor> \<and> \<bar>r\<bar> < 10 ^ 21 then int_str \<lfloor>r\<rfloor> else str_of r)"
| "num_text str_of PInf = ''Infinity''"
| "num_text str_of NInf = ''-Infinity''"
| "num_text str_of NaN = ''NaN''"

text \<open>\<open>substr(i)\<close>, where a negative position counts from the end.\<close>

definition substr_from :: "int \<Rightarrow> string \<Rightarrow> string" where
  "substr_from i s = drop (nat (if i < 0 then max (int (length s) + i) 0 else i)) s"

subsection \<open>The plugin\<close>

text \<open>The target of a tween: its \<open>style\<close>, if it has one, by property.\<close>

record tween_target =
  tstyle :: "(string \<times> string) list option"

datatype tween_result = Tween_value jsnum | Tween_ignore

definition cssSuffixMap :: "(string \<times> string) list" where
  "cssSuffixMap =
     [(''top'', ''px''), (''left'', ''px''), (''bottom'', ''px''), (''right'', ''px''),
      (''width'', ''px''), (''height'', ''px''), (''opacity'', '''')]"

definition plugin_priority :: int where
  "plugin_priority = -100"

text \<open>\<open>install\<close> hands these names to \<open>Tween.installPlugin\<close>.\<close>

definition install_names :: "string list" where
  "install_names = map fst cssSuffixMap"

definition css_init :: "tween_target \<Rightarrow> string \<Rightarrow> jsnum \<Rightarrow> string + jsnum" where
  "css_init target prop value =
     (case (oget cssSuffixMap prop, tstyle target) of
        (Some sfx0, Some style) \<Rightarrow>
          (let str = (case oget style prop of None \<Rightarrow> [] | Some x \<Rightarrow> x) in
           if str = [] then Inr (Fin 0)
           else
             let i = int (length str) - int (length sfx0);
                 sfx1 = substr_from i str
             in if sfx1 \<noteq> sfx0
                then Inl (''CSSPlugin Error: Suffixes do not match. ('' @ sfx0 @ '':'' @ sfx1 @ '')'')
                else Inr (js_parse_int (take (nat i) str)))
      | _ \<Rightarrow> Inr value)"

text \<open>\<open>step\<close> is not used: its body is empty.\<close>

definition css_step :: "tween_target \<Rightarrow> string \<Rightarrow> jsnum \<Rightarrow> jsnum \<Rightarrow> tween_target" where
  "css_step target prop startValue endValue = target"

definition css_tween ::
  "(real \<Rightarrow> string) \<Rightarrow> tween_target \<Rightarrow> string \<Rightarrow> jsnum \<Rightarrow> tween_target \<times> tween_result" where
  "css_tween str_of target prop value =
     (case (oget cssSuffixMap prop, tstyle target) of
        (Some sfx, Some style) \<Rightarrow>
          (target\<lparr>tstyle := Some (oset prop (num_text str_of value @ sfx) style)\<rparr>, Tween_ignore)
      | _ \<Rightarrow> (target, Tween_value value))"

subsection \<open>Round trip\<close>

lemma digits_val_digits: "digits_val acc s \<noteq> None \<Longrightarrow> \<forall>c \<in> set s. is_digit c"
  by (induction acc s rule: digits_val.induct) (auto simp: is_digit_def split: option.splits)

lemma nat_str_is_digit: "c \<in> set (nat_str n) \<Longrightarrow> is_digit c"
  using digits_val_digits [of 0 "nat_str n"] by (simp add: digits_val_nat_str)

lemma digit_facts:
  assumes "is_digit c"
  shows "\<not> is_space c" "c \<noteq> CHR ''-''" "c \<noteq> CHR ''+''" "c \<noteq> CHR ''x''" "c \<noteq> CHR ''X''"
  using assms by (auto simp: is_digit_def digit_val_def is_space_def Let_def split: if_splits)

lemma decimal_number_nat_str:
  assumes "rest = [] \<or> \<not> is_digit (hd rest)"
  shows "decimal_number (nat_str n @ rest) = Fin (real n)"
proof -
  have "takeWhile is_digit (nat_str n @ rest) = nat_str n"
    using assms nat_str_is_digit by (cases rest) (auto simp: takeWhile_append takeWhile_eq_all_conv)
  then show ?thesis by (simp add: decimal_number_def digits_val_nat_str)
qed

text \<open>What \<open>parseInt\<close> makes of an integer that something other than a digit follows.\<close>

lemma js_parse_int_int_str:
  assumes "rest = [] \<or> (\<not> is_digit (hd rest) \<and> hd rest \<notin> {CHR ''x'', CHR ''X''})"
  shows "js_parse_int (int_str z @ rest) = Fin (real_of_int z)"
proof -
  let ?n = "nat_str (nat \<bar>z\<bar>)"
  obtain d ds where n: "?n = d # ds" using nat_str_nonempty list.exhaust by metis
  have d: "is_digit d" "\<forall>c \<in> set ds. is_digit c" using nat_str_is_digit [of _ "nat \<bar>z\<bar>"] by (simp_all add: n)
  note f = digit_facts [OF d(1)]
  have "ds @ rest = [] \<or> hd (ds @ rest) \<notin> {CHR ''x'', CHR ''X''}"
    using d(2) assms digit_facts(4,5) by (cases ds) auto
  then have "take 2 (?n @ rest) \<noteq> ''0x'' \<and> take 2 (?n @ rest) \<noteq> ''0X''"
    unfolding n append_Cons by (cases "ds @ rest") simp_all
  then have nx: "(take 2 (?n @ rest) = ''0x'' \<or> take 2 (?n @ rest) = ''0X'') = False" by blast
  have dn: "decimal_number (?n @ rest) = Fin (real (nat \<bar>z\<bar>))"
    using assms by (intro decimal_number_nat_str) auto
  have head: "take 1 (?n @ rest) \<noteq> ''-''" "take 1 (?n @ rest) \<noteq> ''+''" "dropWhile is_space (?n @ rest) = ?n @ rest"
    using f by (simp_all add: n)
  have sp: "\<not> is_space (CHR ''-'')" by (simp add: is_space_def)
  show ?thesis
  proof (cases "z < 0")
    case True
    then have "int_str z @ rest = CHR ''-'' # ?n @ rest" by (simp add: int_str_def)
    then have "js_parse_int (int_str z @ rest) = - decimal_number (?n @ rest)"
      unfolding js_parse_int_def Let_def by (simp only: dropWhile.simps sp if_False take_Suc_Cons
          take_0 One_nat_def drop_Suc_Cons drop_0 simp_thms if_True nx)
    then show ?thesis using dn True by simp
  next
    case False
    then have "int_str z @ rest = ?n @ rest" by (simp add: int_str_def)
    then have "js_parse_int (int_str z @ rest) = decimal_number (?n @ rest)"
      unfolding js_parse_int_def Let_def by (simp only: head simp_thms if_False nx)
    then show ?thesis using dn False by simp
  qed
qed

lemma int_str_nonempty [simp]: "int_str z \<noteq> []"
  by (simp add: int_str_def)

text \<open>C38: a number that a tween has written is the number the next tween starts from: for every
  installed property and every integer, \<open>tween\<close> followed by \<open>init\<close> is the identity, the other
  properties are left alone, and a property whose unit is not the expected one is an error.\<close>

theorem css_tween_roundtrip:
  assumes "prop \<in> set install_names" "tstyle target = Some style" "\<bar>z\<bar> < 10 ^ 21"
  shows "\<exists>t. css_tween str_of target prop (Fin (real_of_int z)) = (t, Tween_ignore) \<and>
           css_init t prop v = Inr (Fin (real_of_int z)) \<and>
           (\<forall>p. p \<noteq> prop \<longrightarrow> oget (the (tstyle t)) p = oget style p) \<and>
           (\<forall>sfx str. oget cssSuffixMap prop = Some sfx \<longrightarrow> str \<noteq> [] \<longrightarrow>
              substr_from (int (length str) - int (length sfx)) str \<noteq> sfx \<longrightarrow>
              isl (css_init (t\<lparr>tstyle := Some (oset prop str style)\<rparr>) prop v))"
proof -
  obtain sfx where sfx: "oget cssSuffixMap prop = Some sfx"
    using assms(1) by (auto simp: install_names_def cssSuffixMap_def)
  let ?t = "target\<lparr>tstyle := Some (oset prop (int_str z @ sfx) style)\<rparr>"
  have "real_of_int \<bar>z\<bar> < real_of_int (10 ^ 21)" using assms(3) by (simp only: of_int_less_iff)
  then have t: "css_tween str_of target prop (Fin (real_of_int z)) = (?t, Tween_ignore)"
    using assms(2) by (simp add: css_tween_def sfx)
  have "js_parse_int (int_str z) = Fin (real_of_int z)" using js_parse_int_int_str [of "[]" z] by simp
  then have "css_init ?t prop v = Inr (Fin (real_of_int z))"
    by (simp add: css_init_def sfx substr_from_def Let_def obj_simps)
  moreover have "isl (css_init (?t\<lparr>tstyle := Some (oset prop str style)\<rparr>) prop v)"
    if "str \<noteq> []" "substr_from (int (length str) - int (length sfx)) str \<noteq> sfx" for str
    using that by (simp add: css_init_def sfx Let_def obj_simps)
  ultimately show ?thesis using t sfx by (simp add: obj_simps)
qed

theorem css_tween_roundtrip_witness:
  "\<exists>t. css_tween (\<lambda>_. ''?'') \<lparr>tstyle = Some [(''left'', ''3px'')]\<rparr> ''top'' (Fin (real_of_int (- 20))) =
         (t, Tween_ignore) \<and>
       css_init t ''top'' (Fin 0) = Inr (Fin (real_of_int (- 20))) \<and>
       (\<forall>p. p \<noteq> ''top'' \<longrightarrow> oget (the (tstyle t)) p = oget [(''left'', ''3px'')] p) \<and>
       (\<forall>sfx str. oget cssSuffixMap ''top'' = Some sfx \<longrightarrow> str \<noteq> [] \<longrightarrow>
          substr_from (int (length str) - int (length sfx)) str \<noteq> sfx \<longrightarrow>
          isl (css_init (t\<lparr>tstyle := Some (oset ''top'' str [(''left'', ''3px'')])\<rparr>) ''top'' (Fin 0)))"
  by (rule css_tween_roundtrip) (simp_all add: install_names_def cssSuffixMap_def)

text \<open>A fraction is cut off: a tween of an opacity of one half starts at 0.\<close>

lemma opacity_truncated:
  "css_init \<lparr>tstyle = Some [(''opacity'', ''0.5'')]\<rparr> ''opacity'' v = Inr (Fin 0)"
  by code_simp

end
