(* ===== verification/Site_Pages.thy ===== *)
theory Site_Pages
  imports JS_Values
begin

text \<open>
  The scripts of the web pages: \<open>devquotes.js\<close> (a quote for every day) and \<open>utils.js\<close> (the licence,
  documents and releases, fetched and put into an element of the page).

  What the server, \<open>atob\<close> and the Markdown renderer \<open>marked\<close> return are arguments; an element of the
  page is the HTML written into it.
\<close>

subsection \<open>Quotes\<close>

text \<open>
  A date has its local year and its time in milliseconds; \<open>new_year y\<close> is the time at which the
  year \<open>y\<close> begins in the time zone.
\<close>

record js_date =
  full_year :: int
  time_value :: int

definition getDOY :: "(int \<Rightarrow> int) \<Rightarrow> js_date \<Rightarrow> int" where
  "getDOY new_year d = \<lceil>real_of_int (time_value d - new_year (full_year d)) / 86400000\<rceil>"

text \<open>Reading beyond the array, or at NaN for an empty array, is \<open>undefined\<close>.\<close>

definition fetchQuote :: "(int \<Rightarrow> int) \<Rightarrow> 'a list \<Rightarrow> js_date \<Rightarrow> 'a option" where
  "fetchQuote new_year quotes today =
     (let day = getDOY new_year today + 2 in
      if quotes = [] then None
      else let index = js_rem day (int (length quotes))
           in if 0 \<le> index then Some (quotes ! nat index) else None)"

lemma getDOY_day:
  assumes "time_value t = new_year (full_year t) + d * 86400000 + m" "0 < m" "m \<le> 86400000"
  shows "getDOY new_year t = d + 1"
  unfolding getDOY_def using assms by (intro ceiling_unique) (simp_all add: field_simps)

lemma fetchQuote_day:
  assumes "quotes \<noteq> []" "0 \<le> d"
    and "time_value t = new_year (full_year t) + d * 86400000 + m" "0 < m" "m \<le> 86400000"
  shows "fetchQuote new_year quotes t = Some (quotes ! (nat (d + 3) mod length quotes))"
proof -
  have "js_rem (3 + d) (int (length quotes)) = int (nat (d + 3) mod length quotes)"
    using assms(1,2) by (simp add: zmod_int add.commute)
  then show ?thesis using assms(1) getDOY_day [where new_year = new_year and t = t, OF assms(3-5)] by (simp add: fetchQuote_def Let_def)
qed

text \<open>The first millisecond of a day still has the quote of the day before.\<close>

lemma getDOY_midnight:
  "time_value t = new_year (full_year t) + d * 86400000 \<Longrightarrow> getDOY new_year t = d"
  by (simp add: getDOY_def)

subsection \<open>Replacing text\<close>

text \<open>\<open>replace(/pat/g, rep)\<close> for a fixed text \<open>pat\<close>, and the replacement of line ends.\<close>

function replace_every :: "string \<Rightarrow> string \<Rightarrow> string \<Rightarrow> string" where
  "replace_every pat rep s =
     (if s = [] \<or> pat = [] then s
      else if take (length pat) s = pat then rep @ replace_every pat rep (drop (length pat) s)
      else hd s # replace_every pat rep (tl s))"
  by pat_completeness auto

termination
  by (relation "measure (\<lambda>(pat, rep, s). length s)") auto

declare replace_every.simps [simp del]

definition tab :: char where "tab = CHR 0x09"
definition lf :: char where "lf = CHR 0x0A"
definition cr :: char where "cr = CHR 0x0D"
definition sp :: char where "sp = CHR '' ''"

text \<open>\<open>replace(/\r\n|\n|\r/g, br)\<close>.\<close>

fun line_ends :: "string \<Rightarrow> string \<Rightarrow> string" where
  "line_ends br [] = []"
| "line_ends br [c] = (if c = cr \<or> c = lf then br else [c])"
| "line_ends br (c # d # s) =
     (if c = cr \<and> d = lf then br @ line_ends br s
      else if c = cr \<or> c = lf then br @ line_ends br (d # s)
      else c # line_ends br (d # s))"

definition license_text :: "string \<Rightarrow> string" where
  "license_text t =
     line_ends ''<br />'' (replace_every ''  '' '' &nbsp;'' (replace_every ''  '' ''&nbsp; ''
       (replace_every [tab] ''    '' t)))"

subsection \<open>Filling the page\<close>

datatype page_call = Add_class string string | Pretty_print

record page_element =
  html :: string
  page_calls :: "page_call list"

text \<open>The icon and the title as they are serialized: a quote or an ampersand in the name is escaped.\<close>

definition escape_attr :: "string \<Rightarrow> string" where
  "escape_attr s = concat (map (\<lambda>c. if c = CHR ''&'' then ''&amp;'' else if c = CHR 0x22 then ''&quot;'' else [c]) s)"

definition quoted :: "string \<Rightarrow> string" where
  "quoted s = CHR 0x22 # s @ [CHR 0x22]"

definition icon_html :: "string \<Rightarrow> string" where
  "icon_html logoname =
     ''<img src='' @ quoted (''/resources/images/'' @ escape_attr logoname) @ '' height='' @ quoted ''38'' @ ''>''"

definition title_html :: string where
  "title_html =
     ''<span style='' @ quoted ''font-size: 36px; vertical-align: bottom; padding-left: 8px;'' @
     ''>Renaissance</span>''"

text \<open>\<open>decoded\<close> is \<open>atob(data.content)\<close>; a document is coloured once the page is ready.\<close>

definition loadRemoteContent ::
  "(string \<Rightarrow> string) \<Rightarrow> string \<Rightarrow> string \<Rightarrow> string \<Rightarrow> page_element \<Rightarrow> page_element" where
  "loadRemoteContent marked decoded logoname kind e =
     (if kind = ''license'' then
        e\<lparr>html := html e @ icon_html logoname @ title_html @ ''<br/>'' @ license_text decoded\<rparr>
      else if kind = ''markdown'' then
        e\<lparr>html := html e @ '' '' @ marked decoded,
          page_calls := page_calls e @
            [Add_class ''pre'' ''prettyprint linenums'', Add_class ''.language-scala > pre'' ''lang-scala'',
             Add_class ''.language-java > pre'' ''lang-java'', Pretty_print]\<rparr>
      else e)"

record release_asset =
  asset_name :: string
  browser_download_url :: string

record release =
  tag_name :: string
  published_at :: "string option"
  assets :: "release_asset list"

definition asset_html :: "(string \<Rightarrow> string) \<Rightarrow> release_asset \<Rightarrow> string" where
  "asset_html marked a = marked (''* ['' @ asset_name a @ '']('' @ browser_download_url a @ '')'')"

text \<open>A release that is not published has no date: reading it throws, and the loop stops there.\<close>

fun put_releases :: "(string \<Rightarrow> string) \<Rightarrow> release list \<Rightarrow> page_element \<Rightarrow> bool \<times> page_element" where
  "put_releases marked [] e = (True, e)"
| "put_releases marked (r # rs) e =
     (case published_at r of
        None \<Rightarrow> (False, e)
      | Some d \<Rightarrow>
          put_releases marked rs
            (e\<lparr>html := html e @ marked (''### '' @ tag_name r @ '' ('' @ take 10 d @ '')'') @
                      concat (map (asset_html marked) (assets r))\<rparr>))"

definition getReleaseList :: "(string \<Rightarrow> string) \<Rightarrow> release list \<Rightarrow> page_element \<Rightarrow> page_element" where
  "getReleaseList marked releases e = snd (put_releases marked releases e)"

lemma put_releases_published:
  assumes "\<forall>r \<in> set rs. published_at r \<noteq> None"
  shows "put_releases marked rs e =
    (True, e\<lparr>html := html e @ concat (map (\<lambda>r. marked (''### '' @ tag_name r @ '' ('' @
       take 10 (the (published_at r)) @ '')'') @ concat (map (asset_html marked) (assets r))) rs)\<rparr>)"
  using assms by (induction rs arbitrary: e) (auto split: option.split)

subsection \<open>The licence keeps its layout\<close>

text \<open>
  A browser shows a run of white space as one space.  \<open>decode\<close> reads the two pieces of mark-up that
  \<open>license_text\<close> uses.
\<close>

function decode :: "string \<Rightarrow> string" where
  "decode s =
     (if s = [] then []
      else if take 6 s = ''&nbsp;'' then sp # decode (drop 6 s)
      else if take 6 s = ''<br />'' then lf # decode (drop 6 s)
      else hd s # decode (tl s))"
  by pat_completeness auto

termination
  by (relation "measure length") auto

declare decode.simps [simp del]

text \<open>No two spaces in a row.\<close>

fun spaced_out :: "string \<Rightarrow> bool" where
  "spaced_out (c # d # s) \<longleftrightarrow> \<not> (c = sp \<and> d = sp) \<and> spaced_out (d # s)"
| "spaced_out s \<longleftrightarrow> True"

lemmas char_codes = tab_def lf_def cr_def sp_def

lemma pair_replace:
  "replace_every ''  '' rep [] = []"
  "replace_every ''  '' rep (sp # sp # s) = rep @ replace_every ''  '' rep s"
  "replace_every ''  '' rep [c] = [c]"
  "c \<noteq> sp \<Longrightarrow> replace_every ''  '' rep (c # s) = c # replace_every ''  '' rep s"
  "d \<noteq> sp \<Longrightarrow> replace_every ''  '' rep (c # d # s) = c # replace_every ''  '' rep (d # s)"
proof -
  let ?R = "replace_every ''  '' rep"
  have u: "?R s = (if s = [] then s
      else if take 2 s = ''  '' then rep @ ?R (drop 2 s) else hd s # ?R (tl s))" for s
    using replace_every.simps [of "''  ''" rep s] by (simp add: numeral_2_eq_2)
  show "?R [] = []" by (subst u) simp
  show "?R (sp # sp # s) = rep @ ?R s" by (subst u) (simp add: sp_def)
  show "?R [c] = [c]" by (subst u, simp, subst u) simp
  show "c \<noteq> sp \<Longrightarrow> ?R (c # s) = c # ?R s" by (subst u) (simp add: sp_def numeral_2_eq_2)
  show "d \<noteq> sp \<Longrightarrow> ?R (c # d # s) = c # ?R (d # s)" by (subst u) (simp add: sp_def)
qed

lemma decode_simps:
  "decode [] = []" "decode (''&nbsp;'' @ s) = sp # decode s" "decode (''<br />'' @ s) = lf # decode s"
  "c \<notin> {CHR ''&'', CHR ''<''} \<Longrightarrow> decode (c # s) = c # decode s"
proof -
  have n: "take 6 (c # s) \<noteq> ''&nbsp;''" "take 6 (c # s) \<noteq> ''<br />''" if "c \<notin> {CHR ''&'', CHR ''<''}"
    using that by auto
  show "decode [] = []" by (subst decode.simps) simp
  show "decode (''&nbsp;'' @ s) = sp # decode s" by (subst decode.simps) simp
  show "decode (''<br />'' @ s) = lf # decode s" by (subst decode.simps) simp
  show "c \<notin> {CHR ''&'', CHR ''<''} \<Longrightarrow> decode (c # s) = c # decode s"
    using n by (subst decode.simps) simp
qed

lemma line_ends_step:
  "c \<noteq> cr \<Longrightarrow> c \<noteq> lf \<Longrightarrow> line_ends br (c # s) = c # line_ends br s"
  "line_ends br (lf # s) = br @ line_ends br s"
  "line_ends br (cr # lf # s) = br @ line_ends br s"
  "s = [] \<or> hd s \<noteq> lf \<Longrightarrow> line_ends br (cr # s) = br @ line_ends br s"
  by (cases s; simp add: cr_def lf_def)+

text \<open>\<open>shown s\<close> is what a browser shows of \<open>s\<close> after the line ends have been replaced.\<close>

definition shown :: "string \<Rightarrow> string" where
  "shown s = decode (line_ends ''<br />'' s)"

lemma shown_simps:
  "shown [] = []" "shown (''&nbsp;'' @ s) = sp # shown s" "shown (lf # s) = lf # shown s"
  "shown (cr # lf # s) = lf # shown s" "s = [] \<or> hd s \<noteq> lf \<Longrightarrow> shown (cr # s) = lf # shown s"
  "c \<notin> {CHR ''&'', CHR ''<'', cr, lf} \<Longrightarrow> shown (c # s) = c # shown s"
proof -
  have "line_ends ''<br />'' (''&nbsp;'' @ s) = ''&nbsp;'' @ line_ends ''<br />'' s"
    by (simp add: line_ends_step cr_def lf_def)
  then show "shown (''&nbsp;'' @ s) = sp # shown s" unfolding shown_def by (simp only: decode_simps)
  show "shown [] = []" "shown (lf # s) = lf # shown s" "shown (cr # lf # s) = lf # shown s"
    "s = [] \<or> hd s \<noteq> lf \<Longrightarrow> shown (cr # s) = lf # shown s"
    unfolding shown_def by (simp_all only: line_ends.simps(1) line_ends_step decode_simps)
  show "c \<notin> {CHR ''&'', CHR ''<'', cr, lf} \<Longrightarrow> shown (c # s) = c # shown s"
    unfolding shown_def by (simp add: line_ends_step decode_simps)
qed

text \<open>Plain characters and hard spaces.\<close>

inductive marked_up :: "string \<Rightarrow> bool" where
  marked_nil: "marked_up []"
| marked_space: "marked_up s \<Longrightarrow> marked_up (''&nbsp;'' @ s)"
| marked_char: "c \<notin> {CHR ''&'', CHR ''<''} \<Longrightarrow> marked_up s \<Longrightarrow> marked_up (c # s)"

lemma marked_up_plain: "set s \<inter> {CHR ''&'', CHR ''<''} = {} \<Longrightarrow> marked_up s"
  by (induction s) (auto intro: marked_nil marked_char)

lemma marked_up_sp: "marked_up (sp # s) \<Longrightarrow> marked_up s"
  by (erule marked_up.cases) (auto simp: sp_def)
lemma pair_skip:
  "c \<noteq> sp \<or> r = [] \<or> hd r \<noteq> sp \<Longrightarrow> replace_every ''  '' rep (c # r) = c # replace_every ''  '' rep r"
  by (cases r) (auto simp: pair_replace)

lemma pair_cases:
  obtains (nil) "s = []"
  | (pair) r where "s = sp # sp # r"
  | (skip) c r where "s = c # r" "c \<noteq> sp \<or> r = [] \<or> hd r \<noteq> sp"
proof (cases s)
  case (Cons c r)
  then show thesis
  proof (cases "c \<noteq> sp \<or> r = [] \<or> hd r \<noteq> sp")
    case True
    then show thesis using skip Cons by blast
  next
    case False
    then show thesis using pair Cons by (cases r) auto
  qed
qed (rule nil)

lemma marked_up_tl: "marked_up (c # s) \<Longrightarrow> c \<noteq> CHR ''&'' \<Longrightarrow> marked_up s"
  by (erule marked_up.cases) auto

text \<open>Replacing pairs of spaces by something that is shown as two spaces changes nothing.\<close>

lemma shown_replace:
  assumes "marked_up s" "\<And>r. shown (rep @ r) = sp # sp # shown r" "rep \<noteq> []" "hd rep \<noteq> lf"
  shows "shown (replace_every ''  '' rep s) = shown s"
  using assms(1)
proof (induction s rule: length_induct)
  case (1 s)
  let ?R = "replace_every ''  '' rep"
  have no_lf: "?R r = [] \<or> hd (?R r) \<noteq> lf" if "r = [] \<or> hd r \<noteq> lf" for r
    using that assms(3,4) by (cases r rule: pair_cases) (auto simp: pair_replace pair_skip)
  have amp: "sp \<noteq> CHR ''&''" "lf \<noteq> CHR ''&''" "cr \<noteq> CHR ''&''" "lf \<noteq> sp" "cr \<noteq> sp" "sp \<noteq> cr" "sp \<noteq> lf"
    by (simp_all add: char_codes)
  have IH: "shown (?R x) = shown x" if "length x < length s" "marked_up x" for x
    using 1(1) that by blast
  show ?case
  proof (cases s rule: pair_cases)
    case nil
    then show ?thesis by (simp add: pair_replace)
  next
    case (pair r)
    then have "marked_up r" using 1(2) amp marked_up_tl by blast
    moreover have "shown (sp # sp # r) = sp # sp # shown r" by (simp add: shown_simps(6) char_codes)
    ultimately show ?thesis using pair assms(2) IH [of r] by (simp add: pair_replace)
  next
    case (skip c r)
    have R: "?R s = c # ?R r" using skip by (simp add: pair_skip)
    from 1(2) show ?thesis
    proof cases
      case marked_nil
      then show ?thesis by (simp add: pair_replace)
    next
      case (marked_space x)
      have "?R (''&nbsp;'' @ x) = ''&nbsp;'' @ ?R x" by (simp add: pair_replace char_codes)
      then show ?thesis using IH [of x] marked_space by (simp add: shown_simps(2) del: append_Cons)
    next
      case (marked_char d x)
      then have x: "x = r" "d = c" "marked_up r" "shown (?R r) = shown r" using skip IH by simp_all
      consider "c = lf" | x' where "c = cr" "r = lf # x'" | "c = cr" "r = [] \<or> hd r \<noteq> lf" | "c \<notin> {cr, lf}"
        by (cases r) auto
      then show ?thesis
      proof cases
        case 1
        then show ?thesis using x R skip(1) by (simp add: shown_simps)
      next
        case (2 x')
        then have "shown (?R x') = shown x'" using x(3) amp marked_up_tl skip(1) by (intro IH) auto
        then show ?thesis using 2 R skip(1) amp by (simp add: shown_simps pair_replace)
      next
        case 3
        then show ?thesis using x(4) R skip(1) no_lf [of r] by (simp add: shown_simps)
      next
        case 4
        then show ?thesis using x R skip(1) marked_char by (simp add: shown_simps)
      qed
    qed
  qed
qed

text \<open>The first replacement leaves plain characters and hard spaces.\<close>

lemma marked_up_replace: "marked_up s \<Longrightarrow> marked_up (replace_every ''  '' ''&nbsp; '' s)"
proof (induction s rule: length_induct)
  case (1 s)
  have IH: "marked_up (replace_every ''  '' ''&nbsp; '' x)" if "length x < length s" "marked_up x" for x
    using 1(1) that by blast
  have amp: "sp \<noteq> CHR ''&''" by (simp add: char_codes)
  show ?case
  proof (cases s rule: pair_cases)
    case nil
    then show ?thesis by (simp add: pair_replace marked_nil)
  next
    case (pair r)
    then have "marked_up (replace_every ''  '' ''&nbsp; '' r)" using 1(2) amp marked_up_tl by (intro IH) auto
    then have "marked_up (''&nbsp;'' @ sp # replace_every ''  '' ''&nbsp; '' r)"
      by (intro marked_space marked_char) (simp_all add: char_codes)
    then show ?thesis using pair by (simp add: pair_replace) (simp add: char_codes)
  next
    case (skip c r)
    from 1(2) show ?thesis
    proof cases
      case (marked_space x)
      have "replace_every ''  '' ''&nbsp; '' (''&nbsp;'' @ x) = ''&nbsp;'' @ replace_every ''  '' ''&nbsp; '' x"
        by (simp add: pair_replace char_codes)
      then show ?thesis using IH [of x] marked_space marked_up.marked_space by (simp del: append_Cons)
    next
      case (marked_char d x)
      then show ?thesis using IH [of x] skip by (auto simp: pair_skip intro: marked_up.marked_char)
    qed (simp add: pair_replace marked_up.marked_nil)
  qed
qed

text \<open>Tabs.\<close>

definition expand_tabs :: "string \<Rightarrow> string" where
  "expand_tabs t = concat (map (\<lambda>c. if c = tab then ''    '' else [c]) t)"

lemma replace_tabs: "replace_every [tab] ''    '' t = expand_tabs t"
proof (induction t)
  case Nil
  then show ?case by (subst replace_every.simps) (simp add: expand_tabs_def)
next
  case (Cons c t)
  then show ?case by (subst replace_every.simps) (simp add: expand_tabs_def)
qed

lemma shown_plain: "set s \<inter> {CHR ''&'', CHR ''<''} = {} \<Longrightarrow> shown s = line_ends [lf] s"
proof (induction "[lf]" s rule: line_ends.induct)
  case (2 c)
  then show ?case using shown_simps(1,3,6) shown_simps(5) [of "[]"] by auto
next
  case (3 c d s)
  consider "c = cr" "d = lf" | "c = cr" "d \<noteq> lf" | "c = lf" | "c \<notin> {cr, lf}" by blast
  then show ?case
  proof cases
    case 1
    then show ?thesis using 3 by (simp add: shown_simps)
  next
    case 2
    then show ?thesis using 3 by (simp add: shown_simps)
  next
    case 3
    have "lf \<noteq> cr" by (simp add: char_codes)
    then have "shown (d # s) = line_ends [lf] (d # s)" using "3.hyps"(2) "3.prems" 3 by simp
    then show ?thesis using 3 line_ends_step(2) [of "[lf]" "d # s"] by (simp only: shown_simps(3)) simp
  next
    case 4
    then show ?thesis using 3 shown_simps(6) [of c "d # s"] by auto
  qed
qed (simp add: shown_simps)

lemma spaced_out_Cons:
  "c \<noteq> sp \<Longrightarrow> spaced_out (c # s) \<longleftrightarrow> spaced_out s"
  "spaced_out (sp # s) \<longleftrightarrow> (s = [] \<or> hd s \<noteq> sp) \<and> spaced_out s"
  by (cases s; auto)+

lemma spaced_out_marks:
  "spaced_out ('' &nbsp;'' @ x) = spaced_out x" "spaced_out (''<br />'' @ x) = spaced_out x"
  by (cases x; simp add: sp_def)+

lemma spaced_out_replace:
  "spaced_out (replace_every ''  '' '' &nbsp;'' s) \<and>
   (replace_every ''  '' '' &nbsp;'' s \<noteq> [] \<longrightarrow> hd (replace_every ''  '' '' &nbsp;'' s) = sp \<longrightarrow>
      s \<noteq> [] \<and> hd s = sp)"
proof (induction s rule: length_induct)
  case (1 s)
  show ?case
  proof (cases s rule: pair_cases)
    case (pair r)
    then have "spaced_out (replace_every ''  '' '' &nbsp;'' r)" using 1 by simp
    moreover have "replace_every ''  '' '' &nbsp;'' s = '' &nbsp;'' @ replace_every ''  '' '' &nbsp;'' r"
      unfolding pair by (rule pair_replace(2))
    ultimately show ?thesis using pair by (simp only: spaced_out_marks(1)) simp
  next
    case (skip c r)
    have IH: "spaced_out (replace_every ''  '' '' &nbsp;'' r)"
      "replace_every ''  '' '' &nbsp;'' r \<noteq> [] \<Longrightarrow> hd (replace_every ''  '' '' &nbsp;'' r) = sp \<Longrightarrow> r \<noteq> [] \<and> hd r = sp"
      using 1 skip(1) by simp_all
    show ?thesis using skip IH by (cases "c = sp") (auto simp: pair_skip spaced_out_Cons)
  qed (simp add: pair_replace)
qed

lemma spaced_out_line_ends:
  "spaced_out s \<Longrightarrow> spaced_out (line_ends ''<br />'' s) \<and>
     (line_ends ''<br />'' s \<noteq> [] \<longrightarrow> hd (line_ends ''<br />'' s) = sp \<longrightarrow> s \<noteq> [] \<and> hd s = sp)"
proof (induction "''<br />''" s rule: line_ends.induct)
  case (3 c d s)
  note b = spaced_out_marks(2)
  have s: "spaced_out (d # s)" "spaced_out s"
    using 3(4) by (cases s; auto)+
  consider "c = cr" "d = lf" | "c = cr \<and> d \<noteq> lf \<or> c = lf" | "c \<notin> {cr, lf}" by blast
  then show ?case
  proof cases
    case 1
    then show ?thesis using 3(1) s b by (simp del: append_Cons) (simp add: sp_def)
  next
    case 2
    then have "line_ends ''<br />'' (c # d # s) = ''<br />'' @ line_ends ''<br />'' (d # s)"
      by (auto simp: char_codes)
    moreover have "spaced_out (line_ends ''<br />'' (d # s))" using 3(2) 2 s(1) by (auto simp: char_codes)
    ultimately show ?thesis using b by (simp only:) (simp add: sp_def)
  next
    case 3
    then have IH: "spaced_out (line_ends ''<br />'' (d # s))"
      "line_ends ''<br />'' (d # s) \<noteq> [] \<Longrightarrow> hd (line_ends ''<br />'' (d # s)) = sp \<Longrightarrow> d = sp"
      using "3.hyps"(3) s(1) by auto
    have "c = sp \<Longrightarrow> d \<noteq> sp" using "3.prems" by auto
    then show ?thesis using IH 3 by (cases "c = sp") (auto simp: spaced_out_Cons)
  qed
qed (auto simp: spaced_out_Cons sp_def)

lemma set_line_ends: "set (line_ends br s) \<subseteq> (set s - {cr, lf}) \<union> set br"
  by (induction br s rule: line_ends.induct) auto

lemma set_pair_replace: "set (replace_every ''  '' rep s) \<subseteq> set s \<union> set rep"
proof (induction s rule: length_induct)
  case (1 s)
  have IH: "set (replace_every ''  '' rep r) \<subseteq> set r \<union> set rep" if "length r < length s" for r
    using 1 that by blast
  show ?case
  proof (cases s rule: pair_cases)
    case (pair r)
    then show ?thesis using IH [of r] by (auto simp: pair_replace)
  next
    case (skip c r)
    then show ?thesis using IH [of r] by (auto simp: pair_skip)
  qed (simp add: pair_replace)
qed

text \<open>C39: although a browser joins white space, the licence keeps its layout: whatever the text is, what
  is put on the page has no two spaces in a row, no tab and no line end; and a text without
  \<open>&\<close> and \<open><\<close> is read back from it with every space, with four spaces for a tab, and with one line
  feed for each line end.  (The code does not escape these two characters: nothing is
  claimed of what a text with them shows.)\<close>

theorem license_layout:
  shows "spaced_out (license_text t) \<and> set (license_text t) \<inter> {tab, lf, cr} = {} \<and>
         (set t \<inter> {CHR ''&'', CHR ''<''} = {} \<longrightarrow>
            decode (license_text t) = line_ends [lf] (expand_tabs t))"
proof -
  let ?w = "expand_tabs t"
  let ?r1 = "replace_every ''  '' ''&nbsp; '' ?w"
  let ?r2 = "replace_every ''  '' '' &nbsp;'' ?r1"
  have l: "license_text t = line_ends ''<br />'' ?r2" by (simp only: license_text_def replace_tabs)
  have tabs: "tab \<notin> set ?w" by (auto simp: expand_tabs_def char_codes)
  have "decode (license_text t) = line_ends [lf] ?w" if "set t \<inter> {CHR ''&'', CHR ''<''} = {}"
  proof -
    have p: "set ?w \<inter> {CHR ''&'', CHR ''<''} = {}"
      using that by (auto simp: expand_tabs_def char_codes)
    have m: "marked_up ?w" using p by (rule marked_up_plain)
    have "shown ?r2 = shown ?r1"
    proof (rule shown_replace [OF marked_up_replace [OF m]])
      show "shown ('' &nbsp;'' @ r) = sp # sp # shown r" for r
        using shown_simps(2) [of r] shown_simps(6) [of sp "''&nbsp;'' @ r"] by (simp add: char_codes)
    qed (simp_all add: char_codes)
    also have "\<dots> = shown ?w"
    proof (rule shown_replace [OF m])
      show "shown (''&nbsp; '' @ r) = sp # sp # shown r" for r
        using shown_simps(2) [of "sp # r"] shown_simps(6) [of sp r] by (simp add: char_codes)
    qed (simp_all add: char_codes)
    also have "\<dots> = line_ends [lf] ?w" using p by (rule shown_plain)
    finally show ?thesis by (simp add: l shown_def)
  qed
  moreover have "spaced_out (license_text t)"
    using spaced_out_replace spaced_out_line_ends unfolding l by blast
  moreover have "tab \<notin> set ?r2"
    using set_pair_replace [of "'' &nbsp;''" ?r1] set_pair_replace [of "''&nbsp; ''" ?w] tabs
    by (auto simp: char_codes)
  then have "set (license_text t) \<inter> {tab, lf, cr} = {}"
    using set_line_ends [of "''<br />''" ?r2] unfolding l by (auto simp: char_codes)
  ultimately show ?thesis by blast
qed

theorem license_layout_witness:
  "decode (license_text (''GNU   GPL'' @ [tab, cr, lf] @ ''v3  '')) =
     line_ends [lf] (expand_tabs (''GNU   GPL'' @ [tab, cr, lf] @ ''v3  '')) \<and>
   spaced_out (license_text (''GNU   GPL'' @ [tab, cr, lf] @ ''v3  '')) \<and>
   set (license_text (''GNU   GPL'' @ [tab, cr, lf] @ ''v3  '')) \<inter> {tab, lf, cr} = {}"
  using license_layout [of "''GNU   GPL'' @ [tab, cr, lf] @ ''v3  ''"] by (simp add: char_codes)

end
