(* ===== verification/Spec2Isabelle.thy ===== *)
theory Spec2Isabelle
  imports Debugger_Events Debugger_Animation CBuffer Terminal_Format Sigma_Graph Sigma_Camera Slick_Rows Slick_Session Slick_Plugin Site_Tween Site_Pages
begin

text \<open>
  The JavaScript of the Renaissance repository.  It has two parts that do not call each other:

  \<^item> the web site, \<open>src/website/resources/js\<close>: the slider \<open>slick-1.6.0/slick/slick.js\<close>, by far the
    largest program; the scripts of the pages, \<open>utils.js\<close> and \<open>devquotes.js\<close>; and \<open>CSSPlugin.js\<close>,
    with which TweenJS animates CSS properties;
  \<^item> the debugger of the reactors benchmark,
    \<open>src/benchmarks/actors-reactors/reactors/reactors-debugger/src/main/resources/io/reactors/debugger\<close>:
    its event stream, event bus and animator under \<open>js\<close>, and the libraries it carries as source
    under \<open>lib\<close>: the circular buffer \<open>cbuffer.js\<close> that keeps the last events, the formatter
    \<open>unix_formatting.js\<close> of its terminal, and the graph renderer \<open>sigma.js\<close>, of which the helpers,
    the quadtree, the graph and the camera are modelled.
\<close>

section \<open>The values of the language\<close>

text \<open>
  \<open>JS_Values\<close> is the prelude: numbers with infinities and NaN (\<open>jsnum\<close>), dynamically typed values
  (\<open>jsval\<close>), objects with the order of their keys, and the lemmas about them.  Finite numbers are
  reals: rounding errors, signed zeros and the limit of exact integers are not modelled.  A handler
  that throws gives \<open>None\<close>, or the left value of a sum where the kind of error matters.  A loop
  that may not end is a \<open>partial_function (option)\<close>, for which \<open>None\<close> is not ending; whether it
  ends is then a theorem, as in \<open>paging_loop_ends_iff\<close>.
\<close>

section \<open>The slider\<close>

text \<open>
  One object with some ninety methods on its prototype, which share one mutable state and one piece
  of the page.  \<open>slick\<close> of \<open>Slick_State\<close> is that state.  The elements of the page are a heap
  \<open>els\<close> of records \<open>elem\<close>, and collections are lists of indices into it: \<open>track\<close> holds the children
  of the slide track, \<open>slides\<close> what \<open>$slides\<close> refers to.  Animations, timers, requests for
  images and delayed calls are values of \<open>task\<close> in \<open>tasks\<close>, and \<open>timers\<close> holds the autoplay timers
  that are running.  Events triggered on the page, and calls on the sliders that \<open>asNavFor\<close> names,
  are recorded in \<open>trace\<close>.  What the browser decides (widths and heights, whether the document is
  hidden, which elements a selector finds or selects in a collection) is the record \<open>env\<close>, an argument of the
  operations; the theorems hold for each of its values.

  The theories follow the calls, from the inside to the outside:

  \<^item> \<open>Slick_State\<close>: elements, options with \<open>$.extend\<close>, the state, the constructor \<open>Slick\<close> up to
    \<open>registerBreakpoints\<close>.
  \<^item> \<open>Slick_Paging\<close>: \<open>getDotCount\<close>, \<open>getNavigableIndexes\<close>, \<open>checkNavigable\<close>, \<open>getSlideCount\<close>.  The
    loops are solved: they end exactly for positive step widths or an early limit, the navigable
    indices are an arithmetic progression, and the dots cut the slides into pages without a gap.
  \<^item> \<open>Slick_Position\<close>: \<open>getLeft\<close>, \<open>setCSS\<close>, \<open>setDimensions\<close>, \<open>setFade\<close>, \<open>setHeight\<close>, \<open>setPosition\<close>,
    the transitions and animations.
  \<^item> \<open>Slick_Classes\<close>: \<open>setSlideClasses\<close>, \<open>updateDots\<close>, \<open>updateArrows\<close>, \<open>lazyLoad\<close>, \<open>setupInfinite\<close>,
    \<open>unload\<close>.  \<open>track_ok\<close> describes a well-formed track: leading clones, slides, trailing clones,
    numbered without a gap.  Clones come and go without a trace, one slide is current, one dot is
    active.  The active slides of every page are compared with those \<open>getLeft\<close> scrolls into view: they
    are the same but for a last page that is not full, where the difference is stated, and for a finite
    slider with \<open>centerMode\<close>, which marks none.
  \<^item> \<open>Slick_Move\<close> and \<open>Slick_Touch\<close>: \<open>slideHandler\<close>, \<open>postSlide\<close>, \<open>changeSlide\<close>, \<open>keyHandler\<close>,
    \<open>selectHandler\<close>, autoplay and its pauses; \<open>swipeHandler\<close> with the three handlers it calls.
  \<^item> \<open>Slick_Lazy\<close>: the callbacks of \<open>lazyLoad\<close> and \<open>progressiveLazyLoad\<close>.  Progressive loading ends
    whatever the server answers.  The bound is five callbacks for a picture: three requests and the
    two pauses between them.
  \<^item> \<open>Slick_Machine\<close>: the step relation \<open>slider_step\<close>, whose rules are the handlers, timers and
    callbacks, in any order.  \<open>slider_ok\<close> is the invariant: the track is well formed, the dots are
    those of the pages, the current slide is one on which the slider can rest.  Every step keeps it,
    and in a state that has it no handler throws or hangs, but for \<open>swipeMove\<close> on a move event that a
    script triggers during a swipe.
  \<^item> \<open>Slick_Progress\<close>: where a move ends.  \<open>prev\<close> undoes \<open>next\<close>, a finite slider stays in its
    range, pending animations end.  Autoplay reaches every page: a round is a tick of an interval that
    is running (\<open>ticking\<close>), followed by the end of the animation, which has to start the interval
    again.
  \<^item> \<open>Slick_Build\<close>, \<open>Slick_Rows\<close>, \<open>Slick_Events\<close>, \<open>Slick_Life\<close>: \<open>buildRows\<close>, \<open>buildOut\<close>,
    \<open>buildArrows\<close>, \<open>buildDots\<close>, \<open>setProps\<close>, \<open>loadSlider\<close>; binding and removing of handlers over the
    locale \<open>event_registry\<close>; \<open>init\<close>, \<open>destroy\<close>, \<open>refresh\<close>, \<open>reinit\<close>, \<open>checkResponsive\<close>, \<open>setOption\<close>,
    \<open>addSlide\<close>, \<open>removeSlide\<close>, \<open>filterSlides\<close>, \<open>unfilterSlides\<close>.
  \<^item> \<open>Slick_Start\<close>: the constructor establishes \<open>slider_ok\<close>, so that the theorems about the machine
    apply to every slider it makes.
  \<^item> \<open>Slick_Slides\<close> and \<open>Slick_Refresh\<close>: what \<open>reinit\<close> makes of a track, hence what adding, removing
    and filtering slides do; the breakpoint \<open>checkResponsive\<close> chooses, and \<open>refresh\<close> as destroying
    and building again, with the slide it goes back to (\<open>revisited\<close>).
  \<^item> \<open>Slick_Session\<close>: the life of a slider as a whole.  \<open>reachable\<close> holds of the states that the
    constructor and the steps of \<open>session_step\<close> lead to: the running slider, \<open>resize\<close> and its timeout,
    \<open>orientationChange\<close>, \<open>addSlide\<close>, \<open>removeSlide\<close> of the last slide, \<open>setOption\<close> and \<open>refresh\<close>.
    Each of them is consistent, has its slides numbered in order, and in each of them these calls
    succeed.
  \<^item> \<open>Slick_Plugin\<close>: \<open>$.fn.slick\<close> over a collection of sliders.

  Fuel.  \<open>init\<close>, \<open>checkResponsive\<close> and \<open>refresh\<close> call each other: at a breakpoint a slider that is
  being built is destroyed and built again.  The argument \<open>n\<close> of \<open>init\<close> counts these nested calls,
  and without breakpoints one is enough, which the theorems about the constructor, \<open>refresh\<close> and the
  operations on slides state by \<open>Suc n\<close>.  They are about sliders without responsive settings; the
  choice of a breakpoint is the theorem \<open>breakpoint_choice\<close>, for any responsive settings.

  Bounds.  The theorem about the constructor is for one row, the default; \<open>buildRows\<close> for several
  rows is \<open>rows_roundtrip\<close>.  The theorems about adding and removing say which slides keep their
  numbers, since \<open>removeSlide\<close> and \<open>filterSlides\<close> do not renumber.
\<close>

section \<open>The pages\<close>

text \<open>
  \<open>Site_Tween\<close> is \<open>CSSPlugin.js\<close>: what a tween writes into a style, \<open>init\<close> reads back.
  \<open>Site_Pages\<close> is \<open>utils.js\<close> and \<open>devquotes.js\<close>: the licence, the loading of documents, the list of
  releases and the quote of the day, with the answers of the server, \<open>atob\<close>, \<open>marked\<close> and the time
  zone as arguments.  The licence keeps its layout when it becomes HTML; its text is kept when it
  has no \<open>&\<close> and \<open><\<close>, which the code does not escape.
\<close>

section \<open>The debugger\<close>

text \<open>
  \<^item> \<open>Debugger_Events\<close>: \<open>util.js\<close>, \<open>event-stream.js\<close>, \<open>event-bus.js\<close>.  Observers may subscribe, cancel
    and throw while an event is delivered.  The stream and the bus are the two interpretations of the
    locale \<open>registry\<close>, which states the contract of subscribing, cancelling and delivering.
  \<^item> \<open>Debugger_Animation\<close>: \<open>animation.js\<close>, \<open>ctx.js\<close>, \<open>base.js\<close>.  The animator is a state machine over
    the pending timers; the number of budgeted animations is counted right in every reachable state,
    although the code keeps the count in completion callbacks that stop one another.
  \<^item> \<open>CBuffer\<close>: every method of \<open>cbuffer.js\<close>.  The array with its \<open>start\<close>, \<open>end\<close> and \<open>size\<close> refines a
    bounded queue of items (\<open>contents\<close>); the locales \<open>bounded_queue\<close> and \<open>bounded_deque\<close> are that
    contract.  Where the code is not that queue (the report of an overflow, \<open>sortedIndex\<close>, \<open>sum\<close> and \<open>sort\<close>
    after a \<open>shift\<close>) the theorems say so or lemmas show it.
  \<^item> \<open>Terminal_Format\<close>: the regular expressions of \<open>unix_formatting.js\<close> written out as scanners.  Text
    is preserved and every bracket that is opened is closed.
  \<^item> \<open>Sigma_Utils\<close>, \<open>Sigma_Quad\<close>: \<open>sigma.utils\<close>, with the geometry and the colours of the renderer, and
    the quadtree it finds the nodes in the window with.  Every answer is made of
    indexed nodes, and the cache never changes an answer.  Queries return every node they should
    when the bounds are \<open>aligned\<close>: integral, with sides that can be halved down to the leaves.  Over other
    bounds the code rounds, and nodes can be lost (\<open>unaligned_bounds_lose_node\<close>).
  \<^item> \<open>Sigma_Graph\<close>: the graph that is drawn, with \<open>addNode\<close>, \<open>addEdge\<close>, \<open>dropNode\<close>, \<open>dropEdge\<close>, \<open>clear\<close>, \<open>read\<close>
    and the look-ups.  Its arrays determine its indexes and degrees (\<open>indexed\<close>); the operations keep
    this, those that throw included, as long as no number and string of the same text are both ids.
  \<^item> \<open>Sigma_Camera\<close>: the camera, with \<open>goTo\<close>, \<open>applyView\<close>, \<open>graphPosition\<close>, \<open>cameraPosition\<close>, \<open>getMatrix\<close>,
    \<open>getRectangle\<close> and \<open>zoomTo\<close>.  Its ways between the graph and the screen agree, zooming keeps the
    point under the mouse, and with a quadtree over such bounds, the nodes on the screen of a camera that is not
    turned are found.
\<close>

section \<open>Not modelled\<close>

text \<open>
  \<^item> In the slider: the class names of the wrappers of the list and the track, \<open>customPaging\<close>, the
    markers \<open>appendArrows\<close> and \<open>appendDots\<close>.  A call on another slider is recorded, not performed.
  \<^item> jQuery, EaselJS, TweenJS, marked, highlight and prettify, which are there only minified: what
    the code relies on is modelled where it is used (collections, \<open>on\<close> and \<open>off\<close>, \<open>$.extend\<close>).
  \<^item> The rest of \<open>sigma.js\<close>: the core, settings, captors, renderers on canvas, WebGL and SVG, and
    of \<open>sigma.utils\<close> what calls WebGL.  They belong to the library and draw on the screen.
  \<^item> The harness and the benchmarks, which are written in Java and Scala.
\<close>

end
